(* ===== verification/Prelude.thy ===== *)
theory Prelude
  imports Complex_Main "HOL-Library.Word" "HOL-Library.Monad_Syntax"
begin

text \<open>
  Shared vocabulary of the development: the error values of the engine, the result type
  every fallible operation of the code returns, its sequencing operators, and the generic
  facts on lists and options that the component theories use.

  A Rust function returning \<open>Result<T>\<close> is a function into \<open>'a result\<close>; a \<open>panic!\<close>,
  \<open>todo!\<close>, \<open>unwrap\<close> on an error or an out-of-range index is the value \<open>Inl (Panic _)\<close>, so
  that no abnormal exit of the code is hidden by a total HOL function.  \<open>Inl OutOfFuel\<close> is
  the only error that has no counterpart in the code: it marks a recursion whose fuel
  argument was too small, and every fuelled definition comes with a lemma saying how much
  fuel is enough.
\<close>

named_theorems result_simps \<open>unfolding rules for sequenced fallible computations\<close>

datatype error =
    ExpressionEvaluationFailed string
  | TypeConversion string
  | UnsupportedFeature string
  | InvalidStatement string
  | InvalidSchema string
  | InvalidResult string
  | RecordNotFound string
  | ConditionFailed string
  | DriverError string
  | InvalidDriverConfiguration string
  | Panic string
  | OutOfFuel

type_synonym 'a result = "error + 'a"

abbreviation Ok :: "'a \<Rightarrow> 'a result" where "Ok \<equiv> Inr"

abbreviation Err :: "error \<Rightarrow> 'a result" where "Err \<equiv> Inl"

text \<open>The \<open>?\<close> operator of the source.\<close>

definition rbind :: "'a result \<Rightarrow> ('a \<Rightarrow> 'b result) \<Rightarrow> 'b result" where
  "rbind m f = (case m of Inl e \<Rightarrow> Inl e | Inr a \<Rightarrow> f a)"

lemma rbind_simps [simp, result_simps]:
  "rbind (Inl e) f = Inl e"
  "rbind (Inr a) f = f a"
  by (simp_all add: rbind_def)

lemma rbind_eq_Ok [result_simps]: "rbind m f = Inr b \<longleftrightarrow> (\<exists>a. m = Inr a \<and> f a = Inr b)"
  by (cases m) simp_all

lemma rbind_eq_Err: "rbind m f = Inl e \<longleftrightarrow> m = Inl e \<or> (\<exists>a. m = Inr a \<and> f a = Inl e)"
  by (cases m) simp_all

lemma rbind_assoc: "rbind (rbind m f) g = rbind m (\<lambda>a. rbind (f a) g)"
  by (cases m) simp_all

lemma rbind_cong [fundef_cong]:
  "\<lbrakk>m = m'; \<And>a. m' = Inr a \<Longrightarrow> f a = f' a\<rbrakk> \<Longrightarrow> rbind m f = rbind m' f'"
  by (cases m') simp_all

definition rmap :: "('a \<Rightarrow> 'b) \<Rightarrow> 'a result \<Rightarrow> 'b result" where
  "rmap f m = rbind m (\<lambda>a. Inr (f a))"

lemma rmap_simps [simp, result_simps]:
  "rmap f (Inl e) = Inl e"
  "rmap f (Inr a) = Inr (f a)"
  by (simp_all add: rmap_def)

lemma rmap_eq_Ok [result_simps]: "rmap f m = Inr b \<longleftrightarrow> (\<exists>a. m = Inr a \<and> b = f a)"
  by (cases m) auto

lemma rmap_eq_Err [simp]: "rmap f m = Inl e \<longleftrightarrow> m = Inl e"
  by (cases m) auto

lemma rmap_cong [fundef_cong]: "\<lbrakk>m = m'; \<And>a. m' = Inr a \<Longrightarrow> f a = f' a\<rbrakk> \<Longrightarrow> rmap f m = rmap f' m'"
  by (cases m') simp_all

text \<open>\<open>Result::unwrap\<close>: an error value becomes a panic.\<close>

definition unwrap :: "'a result \<Rightarrow> 'a result" where
  "unwrap m =
     (case m of
        Inr a \<Rightarrow> Inr a
      | Inl (Panic s) \<Rightarrow> Inl (Panic s)
      | Inl _ \<Rightarrow> Inl (Panic ''called unwrap on an Err value''))"

lemma unwrap_Ok [simp, result_simps]: "unwrap (Inr a) = Inr a"
  by (simp add: unwrap_def)

lemma unwrap_eq_Ok [result_simps]: "unwrap m = Inr a \<longleftrightarrow> m = Inr a"
  by (auto simp: unwrap_def split: sum.splits error.splits)

text \<open>\<open>Option::ok_or\<close>.\<close>

definition ok_or :: "'a option \<Rightarrow> error \<Rightarrow> 'a result" where
  "ok_or x e = (case x of None \<Rightarrow> Inl e | Some a \<Rightarrow> Inr a)"

lemma ok_or_simps [simp]: "ok_or None e = Inl e" "ok_or (Some a) e = Inr a"
  by (simp_all add: ok_or_def)

lemma ok_or_eq_Ok [result_simps]: "ok_or x e = Inr a \<longleftrightarrow> x = Some a"
  by (cases x) auto

text \<open>
  A loop that pushes one result per element and stops at the first error: the shape of
  every \<open>for x in xs { ret.push(f(x)?) }\<close> and of every \<open>collect::<Result<_>>()\<close>.
\<close>

fun traverse :: "('a \<Rightarrow> 'b result) \<Rightarrow> 'a list \<Rightarrow> 'b list result" where
  "traverse f [] = Inr []"
| "traverse f (x # xs) = rbind (f x) (\<lambda>y. rmap (Cons y) (traverse f xs))"

lemma traverse_cong [fundef_cong]:
  "\<lbrakk>xs = ys; \<And>x. x \<in> set ys \<Longrightarrow> f x = g x\<rbrakk> \<Longrightarrow> traverse f xs = traverse g ys"
  by (induction ys arbitrary: xs) auto

lemma traverse_eq_Ok [result_simps]:
  "traverse f xs = Inr ys \<longleftrightarrow> list_all2 (\<lambda>x y. f x = Inr y) xs ys"
  by (induction xs arbitrary: ys) (auto simp: rbind_eq_Ok rmap_eq_Ok list_all2_Cons1)

lemma traverse_Ok_map:
  "(\<And>x. x \<in> set xs \<Longrightarrow> f x = Inr (g x)) \<Longrightarrow> traverse f xs = Inr (map g xs)"
  by (induction xs) auto

lemma traverse_all_Ok:
  "(\<And>x. x \<in> set xs \<Longrightarrow> \<exists>y. f x = Inr y) \<Longrightarrow> \<exists>ys. traverse f xs = Inr ys"
  by (induction xs) (auto simp: rbind_eq_Ok rmap_eq_Ok)

lemma traverse_eq_Err:
  "traverse f xs = Inl e \<Longrightarrow> \<exists>x \<in> set xs. f x = Inl e"
  by (induction xs) (auto simp: rbind_eq_Err)

lemma traverse_length: "traverse f xs = Inr ys \<Longrightarrow> length ys = length xs"
  by (auto simp: traverse_eq_Ok dest: list_all2_lengthD)

lemma traverse_map: "traverse f (map g xs) = traverse (\<lambda>x. f (g x)) xs"
  by (induction xs) auto

lemma traverse_append:
  "traverse f (xs @ ys) = rbind (traverse f xs) (\<lambda>as. rmap ((@) as) (traverse f ys))"
proof (induction xs)
  case Nil
  show ?case by (cases "traverse f ys") auto
next
  case (Cons x xs)
  then show ?case
    by (cases "f x"; cases "traverse f xs"; cases "traverse f ys") auto
qed

text \<open>\<open>Option<T>\<close> carrying a fallible payload: \<open>opt.map(f).transpose()\<close>.\<close>

definition traverse_option :: "('a \<Rightarrow> 'b result) \<Rightarrow> 'a option \<Rightarrow> 'b option result" where
  "traverse_option f x = (case x of None \<Rightarrow> Inr None | Some a \<Rightarrow> rmap Some (f a))"

lemma traverse_option_simps [simp]:
  "traverse_option f None = Inr None"
  "traverse_option f (Some a) = rmap Some (f a)"
  by (simp_all add: traverse_option_def)

lemma traverse_option_cong [fundef_cong]:
  "\<lbrakk>x = y; \<And>a. y = Some a \<Longrightarrow> f a = g a\<rbrakk> \<Longrightarrow> traverse_option f x = traverse_option g y"
  by (cases y) simp_all

lemma traverse_option_eq_Ok [result_simps]:
  "traverse_option f x = Inr y \<longleftrightarrow> rel_option (\<lambda>a b. f a = Inr b) x y"
  by (cases x; cases y) (auto simp: rmap_eq_Ok)

text \<open>\<open>iter().any(f)\<close> and \<open>iter().all(f)\<close> with a predicate that may panic: the first decisive
  element ends the loop, so a panic after it does not happen.\<close>

fun any_ok :: "('a \<Rightarrow> bool result) \<Rightarrow> 'a list \<Rightarrow> bool result" where
  "any_ok p [] = Inr False"
| "any_ok p (x # xs) = rbind (p x) (\<lambda>b. if b then Inr True else any_ok p xs)"

fun all_ok :: "('a \<Rightarrow> bool result) \<Rightarrow> 'a list \<Rightarrow> bool result" where
  "all_ok p [] = Inr True"
| "all_ok p (x # xs) = rbind (p x) (\<lambda>b. if b then all_ok p xs else Inr False)"

lemma any_ok_cong [fundef_cong]:
  "\<lbrakk>xs = ys; \<And>x. x \<in> set ys \<Longrightarrow> f x = g x\<rbrakk> \<Longrightarrow> any_ok f xs = any_ok g ys"
  by (induction ys arbitrary: xs) (auto intro!: rbind_cong)

lemma all_ok_cong [fundef_cong]:
  "\<lbrakk>xs = ys; \<And>x. x \<in> set ys \<Longrightarrow> f x = g x\<rbrakk> \<Longrightarrow> all_ok f xs = all_ok g ys"
  by (induction ys arbitrary: xs) (auto intro!: rbind_cong)

lemma any_ok_pure [simp]: "any_ok (\<lambda>x. Inr (p x)) xs = Inr (list_ex p xs)"
  by (induction xs) auto

lemma all_ok_pure [simp]: "all_ok (\<lambda>x. Inr (p x)) xs = Inr (list_all p xs)"
  by (induction xs) auto

subsection \<open>Options in sequence\<close>

text \<open>\<open>iter().map(f).collect::<Option<Vec<_>>>()\<close>.\<close>

fun opt_all :: "('a \<Rightarrow> 'b option) \<Rightarrow> 'a list \<Rightarrow> 'b list option" where
  "opt_all f [] = Some []"
| "opt_all f (x # xs) =
     (case f x of None \<Rightarrow> None | Some y \<Rightarrow> map_option (Cons y) (opt_all f xs))"

lemma opt_all_cong [fundef_cong]:
  "\<lbrakk>xs = ys; \<And>x. x \<in> set ys \<Longrightarrow> f x = g x\<rbrakk> \<Longrightarrow> opt_all f xs = opt_all g ys"
  by (induction ys arbitrary: xs) (auto split: option.splits)

lemma opt_all_eq_Some:
  "opt_all f xs = Some ys \<longleftrightarrow> list_all2 (\<lambda>x y. f x = Some y) xs ys"
  by (induction xs arbitrary: ys) (auto split: option.splits simp: list_all2_Cons1)

lemma opt_all_append:
  "opt_all f (xs @ ys) =
     (case opt_all f xs of None \<Rightarrow> None | Some as \<Rightarrow> map_option ((@) as) (opt_all f ys))"
  by (cases "opt_all f ys"; induction xs) (auto split: option.splits)

lemma opt_all_length: "opt_all f xs = Some ys \<Longrightarrow> length ys = length xs"
  by (auto simp: opt_all_eq_Some dest: list_all2_lengthD)

text \<open>\<open>less_defined a b\<close>: whatever \<open>a\<close> yields, \<open>b\<close> yields too.\<close>

definition less_defined :: "'a option \<Rightarrow> 'a option \<Rightarrow> bool" where
  "less_defined a b \<longleftrightarrow> (\<forall>v. a = Some v \<longrightarrow> b = Some v)"

lemma less_defined_refl [simp]: "less_defined a a"
  by (simp add: less_defined_def)

lemma less_defined_None [simp]: "less_defined None b"
  by (simp add: less_defined_def)

lemma less_defined_Some [simp]: "less_defined (Some v) b \<longleftrightarrow> b = Some v"
  by (simp add: less_defined_def)

lemma less_defined_trans: "less_defined a b \<Longrightarrow> less_defined b c \<Longrightarrow> less_defined a c"
  by (simp add: less_defined_def)

lemma less_definedD: "less_defined a b \<Longrightarrow> a = Some v \<Longrightarrow> b = Some v"
  by (simp add: less_defined_def)

lemma less_defined_bind:
  "less_defined a b \<Longrightarrow> (\<And>v. a = Some v \<Longrightarrow> less_defined (f v) (g v)) \<Longrightarrow>
   less_defined (Option.bind a f) (Option.bind b g)"
  by (cases a) auto

lemma less_defined_opt_all:
  "list_all2 (\<lambda>x y. less_defined (f x) (g y)) xs ys \<Longrightarrow> less_defined (opt_all f xs) (opt_all g ys)"
proof (induction rule: list_all2_induct)
  case (Cons x xs y ys)
  then show ?case
    by (cases "f x"; cases "opt_all f xs") auto
qed simp

text \<open>Recursion over the elements of zipped lists terminates.\<close>

lemma zip_size_left [termination_simp]:
  "(x, y) \<in> set (zip xs ys) \<Longrightarrow> f x < Suc (size_list f xs)"
  by (auto dest!: set_zip_leftD intro!: le_imp_less_Suc size_list_estimation')

lemma zip_size_right [termination_simp]:
  "(x, y) \<in> set (zip xs ys) \<Longrightarrow> f y < Suc (size_list f ys)"
  by (auto dest!: set_zip_rightD intro!: le_imp_less_Suc size_list_estimation')

lemma list_all2_refl_on: "(\<And>x. x \<in> set xs \<Longrightarrow> P x x) \<Longrightarrow> list_all2 P xs xs"
  by (induction xs) auto

lemma list_all2_sum_le:
  fixes f :: "'a \<Rightarrow> nat" and g :: "'b \<Rightarrow> nat"
  shows "list_all2 (\<lambda>x y. g y \<le> f x) xs ys \<Longrightarrow> sum_list (map g ys) \<le> sum_list (map f xs)"
  by (induction xs ys rule: list_all2_induct) auto

lemma list_all2_in_right:
  "list_all2 P xs ys \<Longrightarrow> y \<in> set ys \<Longrightarrow> \<exists>x \<in> set xs. P x y"
  by (induction xs ys rule: list_all2_induct) auto

lemma list_all2_in_left:
  "list_all2 P xs ys \<Longrightarrow> x \<in> set xs \<Longrightarrow> \<exists>y \<in> set ys. P x y"
  by (induction xs ys rule: list_all2_induct) auto

end
