(* ===== verification/Floats.thy ===== *)
theory Floats
  imports Prelude "HOL-Library.Log_Nat"
begin

text \<open>
  The parts of Rust's standard library that the value layer uses: \<open>std::cmp::Ordering\<close>,
  lexicographic comparison of slices, checked conversions and arithmetic of the machine
  integers, and IEEE-754 \<open>f32\<close> / \<open>f64\<close> as far as the source observes them (comparison,
  addition, subtraction, narrowing).

  A float is \<open>FNaN\<close>, an infinity or the rational number it denotes.  The two zeros are one
  value and NaN payloads are not kept.  Only the keys of the in-memory indexes see the
  difference in the source (\<open>to_bits\<close> and \<open>total_cmp\<close>), and what is proved of index lookups
  excludes float keys.  Rust's \<open>==\<close> is irreflexive on NaN, so the value layer never uses HOL
  equality where the source compares floats.
\<close>

datatype ordering = Less | Equal | Greater

fun ordering_reverse :: "ordering \<Rightarrow> ordering" where
  "ordering_reverse Less = Greater"
| "ordering_reverse Equal = Equal"
| "ordering_reverse Greater = Less"

lemma ordering_reverse_reverse [simp]: "ordering_reverse (ordering_reverse c) = c"
  by (cases c) simp_all

lemma ordering_reverse_eq_iff [simp]:
  "ordering_reverse c = Less \<longleftrightarrow> c = Greater"
  "ordering_reverse c = Equal \<longleftrightarrow> c = Equal"
  "ordering_reverse c = Greater \<longleftrightarrow> c = Less"
  by (cases c; simp)+

text \<open>\<open>Ord::cmp\<close> of a totally ordered type.\<close>

definition cmp_of :: "'a::linorder \<Rightarrow> 'a \<Rightarrow> ordering" where
  "cmp_of a b = (if a < b then Less else if a = b then Equal else Greater)"

lemma cmp_of_reverse: "cmp_of b a = ordering_reverse (cmp_of a b)"
  by (auto simp: cmp_of_def)

lemma cmp_of_simps [simp]:
  "cmp_of a b = Less \<longleftrightarrow> a < b"
  "cmp_of a b = Equal \<longleftrightarrow> a = b"
  "cmp_of a b = Greater \<longleftrightarrow> b < a"
  by (auto simp: cmp_of_def)

text \<open>Slices compare element by element; a proper prefix is smaller.\<close>

fun lex_cmp :: "'a::linorder list \<Rightarrow> 'a list \<Rightarrow> ordering" where
  "lex_cmp [] [] = Equal"
| "lex_cmp [] (_ # _) = Less"
| "lex_cmp (_ # _) [] = Greater"
| "lex_cmp (x # xs) (y # ys) =
     (case cmp_of x y of Equal \<Rightarrow> lex_cmp xs ys | c \<Rightarrow> c)"

lemma lex_cmp_reverse: "lex_cmp ys xs = ordering_reverse (lex_cmp xs ys)"
  by (induction xs ys rule: lex_cmp.induct) (auto simp: cmp_of_def)

lemma lex_cmp_Equal [simp]: "lex_cmp xs ys = Equal \<longleftrightarrow> xs = ys"
  by (induction xs ys rule: lex_cmp.induct) (auto simp: cmp_of_def)

lemma lex_cmp_trans:
  "lex_cmp xs ys = Less \<Longrightarrow> lex_cmp ys zs = Less \<Longrightarrow> lex_cmp xs zs = Less"
proof (induction xs ys arbitrary: zs rule: lex_cmp.induct)
  case (2 y ys)
  then show ?case by (cases zs) auto
next
  case (4 x xs y ys)
  then show ?case by (cases zs) (auto simp: cmp_of_def split: if_splits)
qed auto

definition string_bytes :: "string \<Rightarrow> nat list" where
  "string_bytes s = map of_char s"

lemma string_bytes_inject [simp]: "string_bytes s = string_bytes t \<longleftrightarrow> s = t"
  by (auto simp: string_bytes_def inj_map_eq_map inj_def)

subsection \<open>Machine integers\<close>

lemma uint_inject [simp]: "uint a = uint b \<longleftrightarrow> a = (b :: 'a::len word)"
  by (auto simp: word_uint_eq_iff)

lemma sint_inject [simp]: "sint a = sint b \<longleftrightarrow> a = (b :: 'a::len word)"
  by (auto intro: signed_word_eqI)

text \<open>
  The value of a mathematical integer at a given width, if it fits: what \<open>TryFrom\<close> between
  integer types and the \<open>checked_*\<close> operations return.
\<close>

definition checked_sword :: "int \<Rightarrow> 'a::len word option" where
  "checked_sword i =
     (if - (2 ^ (LENGTH('a) - 1)) \<le> i \<and> i < 2 ^ (LENGTH('a) - 1) then Some (word_of_int i)
      else None)"

definition checked_uword :: "int \<Rightarrow> 'a::len word option" where
  "checked_uword i = (if 0 \<le> i \<and> i < 2 ^ LENGTH('a) then Some (word_of_int i) else None)"

lemma checked_sword_sint: "checked_sword i = Some (w :: 'a::len word) \<Longrightarrow> sint w = i"
  unfolding checked_sword_def
  by (auto simp: sint_sbintrunc' signed_take_bit_int_eq_self split: if_splits)

lemma checked_uword_uint: "checked_uword i = Some (w :: 'a::len word) \<Longrightarrow> uint w = i"
  unfolding checked_uword_def
  by (auto simp: uint_word_of_int take_bit_int_eq_self split: if_splits)

lemma checked_sword_of_sint [simp]: "checked_sword (sint w) = Some (w :: 'a::len word)"
  using sint_greater_eq [of w] sint_less [of w] by (auto simp: checked_sword_def)

lemma checked_uword_of_uint [simp]: "checked_uword (uint w) = Some (w :: 'a::len word)"
  by (auto simp: checked_uword_def)

subsection \<open>Floating point\<close>

datatype flt = FNaN | FNegInf | FFin rat | FPosInf

record float_format =
  precision :: int
  min_exponent :: int
  max_exponent :: int

definition binary32 :: float_format where
  "binary32 = \<lparr>precision = 24, min_exponent = -126, max_exponent = 127\<rparr>"

definition binary64 :: float_format where
  "binary64 = \<lparr>precision = 53, min_exponent = -1022, max_exponent = 1023\<rparr>"

definition pow2 :: "int \<Rightarrow> rat" where
  "pow2 k = (if 0 \<le> k then 2 ^ nat k else 1 / 2 ^ nat (- k))"

text \<open>The exponent of the leading binary digit of a positive rational.\<close>

definition leading_exponent :: "rat \<Rightarrow> int" where
  "leading_exponent x =
     (let (a, b) = quotient_of x; k = bitlen a - bitlen b
      in if pow2 k \<le> x then k else k - 1)"

definition round_half_even :: "rat \<Rightarrow> int" where
  "round_half_even x =
     (let f = \<lfloor>x\<rfloor>; d = x - of_int f
      in if d < 1 / 2 then f else if d > 1 / 2 then f + 1 else if even f then f else f + 1)"

text \<open>Round to nearest, ties to even, with gradual underflow and overflow to infinity.\<close>

definition flt_round :: "float_format \<Rightarrow> rat \<Rightarrow> flt" where
  "flt_round fmt x =
     (if x = 0 then FFin 0
      else let e = max (leading_exponent \<bar>x\<bar>) (min_exponent fmt);
               ulp = pow2 (e - (precision fmt - 1));
               y = of_int (round_half_even (x / ulp)) * ulp
           in if pow2 (max_exponent fmt + 1) \<le> \<bar>y\<bar> then (if 0 < x then FPosInf else FNegInf)
              else FFin y)"

fun flt_neg :: "flt \<Rightarrow> flt" where
  "flt_neg FNaN = FNaN"
| "flt_neg FNegInf = FPosInf"
| "flt_neg FPosInf = FNegInf"
| "flt_neg (FFin x) = FFin (- x)"

fun flt_add :: "float_format \<Rightarrow> flt \<Rightarrow> flt \<Rightarrow> flt" where
  "flt_add fmt FNaN _ = FNaN"
| "flt_add fmt _ FNaN = FNaN"
| "flt_add fmt FPosInf FNegInf = FNaN"
| "flt_add fmt FNegInf FPosInf = FNaN"
| "flt_add fmt FPosInf _ = FPosInf"
| "flt_add fmt _ FPosInf = FPosInf"
| "flt_add fmt FNegInf _ = FNegInf"
| "flt_add fmt _ FNegInf = FNegInf"
| "flt_add fmt (FFin x) (FFin y) = flt_round fmt (x + y)"

definition flt_sub :: "float_format \<Rightarrow> flt \<Rightarrow> flt \<Rightarrow> flt" where
  "flt_sub fmt a b = flt_add fmt a (flt_neg b)"

lemma flt_add_commute: "flt_add fmt a b = flt_add fmt b a"
  by (cases a; cases b) (simp_all add: add.commute)

definition flt_is_infinite :: "flt \<Rightarrow> bool" where
  "flt_is_infinite a \<longleftrightarrow> a = FNegInf \<or> a = FPosInf"

text \<open>The \<open>as f32\<close> conversion of an \<open>f64\<close>.\<close>

fun flt_narrow :: "flt \<Rightarrow> flt" where
  "flt_narrow (FFin x) = flt_round binary32 x"
| "flt_narrow a = a"

text \<open>\<open>==\<close> and \<open>partial_cmp\<close> of floats.\<close>

definition flt_eq :: "flt \<Rightarrow> flt \<Rightarrow> bool" where
  "flt_eq a b \<longleftrightarrow> a = b \<and> a \<noteq> FNaN"

fun flt_cmp :: "flt \<Rightarrow> flt \<Rightarrow> ordering option" where
  "flt_cmp FNaN _ = None"
| "flt_cmp _ FNaN = None"
| "flt_cmp (FFin x) (FFin y) = Some (cmp_of x y)"
| "flt_cmp FNegInf FNegInf = Some Equal"
| "flt_cmp FNegInf _ = Some Less"
| "flt_cmp _ FNegInf = Some Greater"
| "flt_cmp FPosInf FPosInf = Some Equal"
| "flt_cmp FPosInf _ = Some Greater"
| "flt_cmp _ FPosInf = Some Less"

lemma flt_cmp_reverse: "flt_cmp b a = map_option ordering_reverse (flt_cmp a b)"
  by (cases a; cases b) (simp_all add: cmp_of_def)

lemma flt_cmp_Equal: "flt_cmp a b = Some Equal \<longleftrightarrow> flt_eq a b"
  by (cases a; cases b) (auto simp: flt_eq_def)

lemma flt_cmp_self: "flt_cmp a a = Some c \<Longrightarrow> c = Equal"
  by (cases a) (auto simp: cmp_of_def)

lemma flt_cmp_trans:
  "flt_cmp a b = Some Less \<Longrightarrow> flt_cmp b c = Some Less \<Longrightarrow> flt_cmp a c = Some Less"
  by (cases a; cases b; cases c) auto

end
