(* ===== verification/Values.thy ===== *)
theory Values
  imports Floats
begin

text \<open>
  The dynamically typed values and types of the engine
  (\<open>toasty-core/src/stmt/value.rs\<close>, \<open>ty.rs\<close>, \<open>ty_union.rs\<close>, \<open>num.rs\<close>, \<open>value_set.rs\<close>).
  The crate is modelled in its default feature set, so the variants behind the optional
  features \<open>rust_decimal\<close>, \<open>bigdecimal\<close>, \<open>jiff\<close> and \<open>net\<close> are absent.  Model, field and
  column identifiers are their \<open>usize\<close> indices; a \<open>PathFieldSet\<close> (a bit set) is the
  ascending list of its members, the order its iterator yields.
\<close>

type_synonym model_id = nat
type_synonym field_id = "model_id \<times> nat"
type_synonym projection = "nat list"
type_synonym path_field_set = "nat list"

datatype ty =
    TBool
  | TString
  | TI8 | TI16 | TI32 | TI64
  | TU8 | TU16 | TU32 | TU64
  | TF32 | TF64
  | TUuid
  | TKey model_id
  | TModel model_id
  | TForeignKey field_id
  | TList ty
  | TRecord "ty list"
  | TObject
  | TBytes
  | TNull
  | TSparseRecord path_field_set
  | TUnit
  | TUnknown
  | TUnion "ty list"

datatype val =
    VBool bool
  | VI8 "8 word"
  | VI16 "16 word"
  | VI32 "32 word"
  | VI64 "64 word"
  | VU8 "8 word"
  | VU16 "16 word"
  | VU32 "32 word"
  | VU64 "64 word"
  | VF32 flt
  | VF64 flt
  | VSparseRecord path_field_set "val list"
  | VNull
  | VRecord "val list"
  | VObject "(string \<times> val) list"
  | VList "val list"
  | VString string
  | VBytes "8 word list"
  | VUuid "128 word"

definition is_null :: "val \<Rightarrow> bool" where
  "is_null v \<longleftrightarrow> v = VNull"

definition is_record :: "val \<Rightarrow> bool" where
  "is_record v \<longleftrightarrow> (case v of VRecord _ \<Rightarrow> True | _ \<Rightarrow> False)"

lemma is_null_simps [simp]: "is_null VNull" "\<not> is_null (VBool b)" "\<not> is_null (VList vs)"
  "\<not> is_null (VRecord vs)" "\<not> is_null (VI64 n)"
  by (simp_all add: is_null_def)

subsection \<open>Equality\<close>

text \<open>
  The derived \<open>PartialEq\<close> is structural except on floats, where NaN differs from itself;
  two values are equal when they are the same and hold no NaN.
\<close>

fun has_nan :: "val \<Rightarrow> bool" where
  "has_nan (VF32 f) = (f = FNaN)"
| "has_nan (VF64 f) = (f = FNaN)"
| "has_nan (VSparseRecord _ vs) = list_ex has_nan vs"
| "has_nan (VRecord vs) = list_ex has_nan vs"
| "has_nan (VObject es) = list_ex (\<lambda>(k, v). has_nan v) es"
| "has_nan (VList vs) = list_ex has_nan vs"
| "has_nan _ = False"

definition value_eq :: "val \<Rightarrow> val \<Rightarrow> bool" where
  "value_eq a b \<longleftrightarrow> a = b \<and> \<not> has_nan a"

lemma value_eq_sym: "value_eq a b = value_eq b a"
  by (auto simp: value_eq_def)

lemma value_eq_trans: "value_eq a b \<Longrightarrow> value_eq b c \<Longrightarrow> value_eq a c"
  by (auto simp: value_eq_def)

lemma value_eq_bool [simp]: "value_eq (VBool a) (VBool b) = (a = b)"
  by (auto simp: value_eq_def)

lemma value_eq_bool_iff: "value_eq v (VBool b) \<longleftrightarrow> v = VBool b" "value_eq (VBool b) v \<longleftrightarrow> v = VBool b"
  by (auto simp: value_eq_def)

subsection \<open>Numbers\<close>

text \<open>The mathematical integer of an integer value, which \<open>try_from!\<close> narrows.\<close>

fun value_int :: "val \<Rightarrow> int option" where
  "value_int (VI8 w) = Some (sint w)"
| "value_int (VI16 w) = Some (sint w)"
| "value_int (VI32 w) = Some (sint w)"
| "value_int (VI64 w) = Some (sint w)"
| "value_int (VU8 w) = Some (uint w)"
| "value_int (VU16 w) = Some (uint w)"
| "value_int (VU32 w) = Some (uint w)"
| "value_int (VU64 w) = Some (uint w)"
| "value_int _ = None"

definition to_i8 :: "val \<Rightarrow> 8 word option" where
  "to_i8 v = Option.bind (value_int v) checked_sword"

definition to_i16 :: "val \<Rightarrow> 16 word option" where
  "to_i16 v = Option.bind (value_int v) checked_sword"

definition to_i32 :: "val \<Rightarrow> 32 word option" where
  "to_i32 v = Option.bind (value_int v) checked_sword"

definition to_i64 :: "val \<Rightarrow> 64 word option" where
  "to_i64 v = Option.bind (value_int v) checked_sword"

definition to_u8 :: "val \<Rightarrow> 8 word option" where
  "to_u8 v = Option.bind (value_int v) checked_uword"

definition to_u16 :: "val \<Rightarrow> 16 word option" where
  "to_u16 v = Option.bind (value_int v) checked_uword"

definition to_u32 :: "val \<Rightarrow> 32 word option" where
  "to_u32 v = Option.bind (value_int v) checked_uword"

definition to_u64 :: "val \<Rightarrow> 64 word option" where
  "to_u64 v = Option.bind (value_int v) checked_uword"

lemmas to_int_defs = to_i8_def to_i16_def to_i32_def to_i64_def
  to_u8_def to_u16_def to_u32_def to_u64_def

fun to_f32 :: "val \<Rightarrow> flt option" where
  "to_f32 (VF32 f) = Some f"
| "to_f32 (VF64 f) =
     (if flt_is_infinite (flt_narrow f) \<and> \<not> flt_is_infinite f then None else Some (flt_narrow f))"
| "to_f32 _ = None"

fun to_f64 :: "val \<Rightarrow> flt option" where
  "to_f64 (VF32 f) = Some f"
| "to_f64 (VF64 f) = Some f"
| "to_f64 _ = None"

definition checked_add :: "val \<Rightarrow> val \<Rightarrow> val option" where
  "checked_add x y =
     (case (x, y) of
        (VI8 a, VI8 b) \<Rightarrow> map_option VI8 (checked_sword (sint a + sint b))
      | (VI16 a, VI16 b) \<Rightarrow> map_option VI16 (checked_sword (sint a + sint b))
      | (VI32 a, VI32 b) \<Rightarrow> map_option VI32 (checked_sword (sint a + sint b))
      | (VI64 a, VI64 b) \<Rightarrow> map_option VI64 (checked_sword (sint a + sint b))
      | (VU8 a, VU8 b) \<Rightarrow> map_option VU8 (checked_uword (uint a + uint b))
      | (VU16 a, VU16 b) \<Rightarrow> map_option VU16 (checked_uword (uint a + uint b))
      | (VU32 a, VU32 b) \<Rightarrow> map_option VU32 (checked_uword (uint a + uint b))
      | (VU64 a, VU64 b) \<Rightarrow> map_option VU64 (checked_uword (uint a + uint b))
      | (VF32 a, VF32 b) \<Rightarrow> Some (VF32 (flt_add binary32 a b))
      | (VF64 a, VF64 b) \<Rightarrow> Some (VF64 (flt_add binary64 a b))
      | _ \<Rightarrow> None)"

definition checked_sub :: "val \<Rightarrow> val \<Rightarrow> val option" where
  "checked_sub x y =
     (case (x, y) of
        (VI8 a, VI8 b) \<Rightarrow> map_option VI8 (checked_sword (sint a - sint b))
      | (VI16 a, VI16 b) \<Rightarrow> map_option VI16 (checked_sword (sint a - sint b))
      | (VI32 a, VI32 b) \<Rightarrow> map_option VI32 (checked_sword (sint a - sint b))
      | (VI64 a, VI64 b) \<Rightarrow> map_option VI64 (checked_sword (sint a - sint b))
      | (VU8 a, VU8 b) \<Rightarrow> map_option VU8 (checked_uword (uint a - uint b))
      | (VU16 a, VU16 b) \<Rightarrow> map_option VU16 (checked_uword (uint a - uint b))
      | (VU32 a, VU32 b) \<Rightarrow> map_option VU32 (checked_uword (uint a - uint b))
      | (VU64 a, VU64 b) \<Rightarrow> map_option VU64 (checked_uword (uint a - uint b))
      | (VF32 a, VF32 b) \<Rightarrow> Some (VF32 (flt_sub binary32 a b))
      | (VF64 a, VF64 b) \<Rightarrow> Some (VF64 (flt_sub binary64 a b))
      | _ \<Rightarrow> None)"

lemma checked_add_commute: "checked_add x y = checked_add y x"
  by (cases x; cases y) (simp_all add: checked_add_def add.commute flt_add_commute)

end
