(* ===== verification/ValueOps.thy ===== *)
theory ValueOps
  imports Values
begin

text \<open>
  Operations on values and types: ordering, navigation, type membership and inference
  (\<open>value.rs\<close>, \<open>ty.rs\<close>, \<open>ty_union.rs\<close>), and the hashed set of values (\<open>value_set.rs\<close>).
\<close>

subsection \<open>Ordering\<close>

definition partial_cmp :: "val \<Rightarrow> val \<Rightarrow> ordering option" where
  "partial_cmp x y =
     (case (x, y) of
        (VNull, _) \<Rightarrow> None
      | (_, VNull) \<Rightarrow> None
      | (VBool a, VBool b) \<Rightarrow> Some (cmp_of a b)
      | (VI8 a, VI8 b) \<Rightarrow> Some (cmp_of (sint a) (sint b))
      | (VI16 a, VI16 b) \<Rightarrow> Some (cmp_of (sint a) (sint b))
      | (VI32 a, VI32 b) \<Rightarrow> Some (cmp_of (sint a) (sint b))
      | (VI64 a, VI64 b) \<Rightarrow> Some (cmp_of (sint a) (sint b))
      | (VU8 a, VU8 b) \<Rightarrow> Some (cmp_of (uint a) (uint b))
      | (VU16 a, VU16 b) \<Rightarrow> Some (cmp_of (uint a) (uint b))
      | (VU32 a, VU32 b) \<Rightarrow> Some (cmp_of (uint a) (uint b))
      | (VU64 a, VU64 b) \<Rightarrow> Some (cmp_of (uint a) (uint b))
      | (VF32 a, VF32 b) \<Rightarrow> flt_cmp a b
      | (VF64 a, VF64 b) \<Rightarrow> flt_cmp a b
      | (VString a, VString b) \<Rightarrow> Some (lex_cmp (string_bytes a) (string_bytes b))
      | (VBytes a, VBytes b) \<Rightarrow> Some (lex_cmp (map uint a) (map uint b))
      | (VUuid a, VUuid b) \<Rightarrow> Some (cmp_of (uint a) (uint b))
      | _ \<Rightarrow> None)"

lemma partial_cmp_null [simp]: "partial_cmp VNull y = None" "partial_cmp x VNull = None"
  by (cases x; simp add: partial_cmp_def)+

lemma partial_cmp_reverse: "partial_cmp y x = map_option ordering_reverse (partial_cmp x y)"
proof (cases x)
  case (VF32 f)
  then show ?thesis by (cases y) (simp_all add: partial_cmp_def flt_cmp_reverse [of _ f])
next
  case (VF64 f)
  then show ?thesis by (cases y) (simp_all add: partial_cmp_def flt_cmp_reverse [of _ f])
qed (cases y;
     simp add: partial_cmp_def cmp_of_reverse [symmetric] lex_cmp_reverse [symmetric])+

lemma map_uint_inject [simp]: "map uint xs = map uint ys \<longleftrightarrow> xs = (ys :: 'a::len word list)"
  by (rule inj_map_eq_map) (simp add: inj_def)

lemma partial_cmp_Equal: "partial_cmp x y = Some Equal \<Longrightarrow> value_eq x y"
  by (cases x; cases y)
    (auto simp: partial_cmp_def value_eq_def flt_cmp_Equal flt_eq_def cmp_of_def
      split: if_splits)

lemma partial_cmp_self: "partial_cmp x x = Some c \<Longrightarrow> c = Equal"
  by (cases x) (auto simp: partial_cmp_def cmp_of_def dest: flt_cmp_self)

lemma partial_cmp_eq_iff: "partial_cmp x y = Some c \<Longrightarrow> c = Equal \<longleftrightarrow> value_eq x y"
  by (auto dest: partial_cmp_Equal partial_cmp_self simp: value_eq_def)

lemma partial_cmp_trans:
  assumes "partial_cmp x y = Some Less" and "partial_cmp y z = Some Less"
  shows "partial_cmp x z = Some Less"
  using assms
  by (cases x; cases y; simp add: partial_cmp_def; cases z;
      auto simp: partial_cmp_def elim: lex_cmp_trans flt_cmp_trans)

subsection \<open>Navigation\<close>

text \<open>\<open>Value::entry\<close>: a step into a record or list, with \<open>NULL\<close> absorbing the rest of the
  path; everything else panics.\<close>

fun value_entry :: "val \<Rightarrow> projection \<Rightarrow> val result" where
  "value_entry v [] = Ok v"
| "value_entry v (i # path) =
     (case v of
        VRecord vs \<Rightarrow>
          (if i < length vs then value_entry (vs ! i) path
           else Err (Panic ''index out of bounds''))
      | VList items \<Rightarrow>
          (if i < length items then value_entry (items ! i) path
           else Err (Panic ''index out of bounds''))
      | VNull \<Rightarrow> Ok VNull
      | _ \<Rightarrow> Err (Panic ''not yet implemented''))"

lemma value_entry_null [simp]: "value_entry VNull path = Ok VNull"
  by (cases path) simp_all

lemma value_entry_append:
  "value_entry v (p @ q) = rbind (value_entry v p) (\<lambda>w. value_entry w q)"
  by (induction v p rule: value_entry.induct) (auto split: val.splits)

subsection \<open>Equality of types and the union builder\<close>

text \<open>\<open>TypeUnion\<close> compares as a set: same length and every member found in the other.\<close>

fun ty_eq :: "ty \<Rightarrow> ty \<Rightarrow> bool" where
  "ty_eq (TList a) t = (case t of TList b \<Rightarrow> ty_eq a b | _ \<Rightarrow> False)"
| "ty_eq (TRecord as) t =
     (case t of
        TRecord bs \<Rightarrow> length as = length bs \<and> list_all (\<lambda>(a, b). ty_eq a b) (zip as bs)
      | _ \<Rightarrow> False)"
| "ty_eq (TUnion as) t =
     (case t of
        TUnion bs \<Rightarrow> length as = length bs \<and> list_all (\<lambda>a. list_ex (ty_eq a) bs) as
      | _ \<Rightarrow> False)"
| "ty_eq a b = (a = b)"

lemma ty_eq_refl [simp]: "ty_eq t t"
proof (induction t)
  case (TRecord ts)
  then show ?case by (auto simp: list_all_iff set_zip)
next
  case (TUnion ts)
  then show ?case by (auto simp: list_all_iff list_ex_iff)
qed simp_all

definition union_insert :: "ty list \<Rightarrow> ty \<Rightarrow> ty list" where
  "union_insert types t =
     (if t = TUnknown then types
      else if list_ex (ty_eq t) types then types
      else types @ [t])"

definition union_simplify :: "ty list \<Rightarrow> ty" where
  "union_simplify types = (case types of [] \<Rightarrow> TNull | [t] \<Rightarrow> t | _ \<Rightarrow> TUnion types)"

lemma union_insert_keeps: "t \<in> set types \<Longrightarrow> t \<in> set (union_insert types u)"
  by (auto simp: union_insert_def)

lemma union_insert_found:
  "u \<noteq> TUnknown \<Longrightarrow> \<exists>t \<in> set (union_insert types u). ty_eq u t"
  by (auto simp: union_insert_def list_ex_iff)

text \<open>The invariant of \<open>TypeUnion\<close>: no member equals another.\<close>

definition union_distinct :: "ty list \<Rightarrow> bool" where
  "union_distinct types \<longleftrightarrow>
     (\<forall>i < length types. \<forall>j < i. \<not> ty_eq (types ! i) (types ! j))"

lemma union_insert_distinct: "union_distinct types \<Longrightarrow> union_distinct (union_insert types t)"
  unfolding union_distinct_def union_insert_def
  by (auto simp: nth_append list_ex_iff less_Suc_eq)

fun infer_ty :: "val \<Rightarrow> ty" where
  "infer_ty (VBool _) = TBool"
| "infer_ty (VI8 _) = TI8"
| "infer_ty (VI16 _) = TI16"
| "infer_ty (VI32 _) = TI32"
| "infer_ty (VI64 _) = TI64"
| "infer_ty (VSparseRecord fs _) = TSparseRecord fs"
| "infer_ty VNull = TNull"
| "infer_ty (VRecord vs) = TRecord (map infer_ty vs)"
| "infer_ty (VObject es) = TRecord (map (\<lambda>(k, v). infer_ty v) es)"
| "infer_ty (VString _) = TString"
| "infer_ty (VList items) =
     (if items = [] then TList TNull
      else TList (union_simplify (foldl union_insert [] (map infer_ty items))))"
| "infer_ty (VU8 _) = TU8"
| "infer_ty (VU16 _) = TU16"
| "infer_ty (VU32 _) = TU32"
| "infer_ty (VU64 _) = TU64"
| "infer_ty (VF32 _) = TF32"
| "infer_ty (VF64 _) = TF64"
| "infer_ty (VBytes _) = TBytes"
| "infer_ty (VUuid _) = TUuid"

lemma infer_ty_known: "infer_ty v \<noteq> TUnknown"
  by (cases v) simp_all

subsection \<open>Type membership\<close>

text \<open>
  What the engine's \<open>Resolve::model\<close> returns, as far as values need it: for an embedded
  model, its fields with their names and expression types.  \<open>no_models\<close> is the schema-free
  context \<open>()\<close>, which resolves nothing.
\<close>

type_synonym resolve = "model_id \<Rightarrow> (string \<times> ty) list option"

definition no_models :: resolve where
  "no_models = (\<lambda>_. None)"

function is_a :: "resolve \<Rightarrow> val \<Rightarrow> ty \<Rightarrow> bool" where
  "is_a R v t =
     (case t of
        TUnion ts \<Rightarrow> list_ex (is_a R v) ts
      | _ \<Rightarrow>
        (case v of
           VNull \<Rightarrow> True
         | VBool _ \<Rightarrow> t = TBool
         | VI8 _ \<Rightarrow> t = TI8
         | VI16 _ \<Rightarrow> t = TI16
         | VI32 _ \<Rightarrow> t = TI32
         | VI64 _ \<Rightarrow> t = TI64
         | VU8 _ \<Rightarrow> t = TU8
         | VU16 _ \<Rightarrow> t = TU16
         | VU32 _ \<Rightarrow> t = TU32
         | VU64 _ \<Rightarrow> t = TU64
         | VF32 _ \<Rightarrow> t = TF32
         | VF64 _ \<Rightarrow> t = TF64
         | VList items \<Rightarrow>
             (case t of
                TList item_ty \<Rightarrow> (case items of [] \<Rightarrow> True | x # _ \<Rightarrow> is_a R x item_ty)
              | _ \<Rightarrow> False)
         | VRecord vs \<Rightarrow>
             (case t of
                TRecord tys \<Rightarrow>
                  length vs = length tys \<and> list_all (\<lambda>(x, u). is_a R x u) (zip vs tys)
              | TModel m \<Rightarrow>
                  (case R m of
                     Some fs \<Rightarrow>
                       length vs = length fs \<and>
                       list_all (\<lambda>(x, f). is_a R x (snd f)) (zip vs fs)
                   | None \<Rightarrow> True)
              | _ \<Rightarrow> False)
         | VObject es \<Rightarrow>
             (case t of
                TObject \<Rightarrow> True
              | TModel m \<Rightarrow>
                  (case R m of
                     Some fs \<Rightarrow>
                       list_all
                         (\<lambda>(name, u).
                            list_all (\<lambda>(k, x). is_a R x u) (take 1 (filter (\<lambda>(k, x). k = name) es)))
                         fs
                   | None \<Rightarrow> True)
              | _ \<Rightarrow> False)
         | VSparseRecord fs _ \<Rightarrow> t = TSparseRecord fs
         | VString _ \<Rightarrow> t = TString
         | VBytes _ \<Rightarrow> t = TBytes
         | VUuid _ \<Rightarrow> t = TUuid))"
  by pat_completeness auto

text \<open>A member of a union has the same value; every other recursive call looks at a part of
  the value.\<close>

termination
  by (relation "measures [\<lambda>(R, v, t). size (v :: val), \<lambda>(R, v, t). size (t :: ty)]")
    (auto simp: less_Suc_eq_le intro!: size_list_estimation'
      dest!: set_zip_leftD in_set_takeD)

declare is_a.simps [simp del]

lemma is_a_union: "is_a R v (TUnion ts) = list_ex (is_a R v) ts"
  by (subst is_a.simps) simp

lemma is_a_record: "is_a R (VRecord vs) (TRecord tys) \<longleftrightarrow> list_all2 (is_a R) vs tys"
  by (subst is_a.simps) (simp add: list_all2_iff list_all_iff)

lemma is_a_list:
  "is_a R (VList items) (TList t) \<longleftrightarrow> (case items of [] \<Rightarrow> True | x # _ \<Rightarrow> is_a R x t)"
  by (subst is_a.simps) simp

lemma is_a_model_record:
  "R m = Some fs \<Longrightarrow> is_a R (VRecord vs) (TModel m) \<longleftrightarrow> list_all2 (\<lambda>v f. is_a R v (snd f)) vs fs"
  by (subst is_a.simps) (simp add: list_all2_iff list_all_iff)

text \<open>Every scalar kind is accepted by its own type, and \<open>NULL\<close> by every type that is not
  a union.\<close>

lemma is_a_scalar [simp]:
  "is_a R (VBool b) TBool" "is_a R (VI8 w8) TI8" "is_a R (VI16 w16) TI16"
  "is_a R (VI32 w32) TI32" "is_a R (VI64 w64) TI64" "is_a R (VU8 w8) TU8"
  "is_a R (VU16 w16) TU16" "is_a R (VU32 w32) TU32" "is_a R (VU64 w64) TU64"
  "is_a R (VF32 f) TF32" "is_a R (VF64 f) TF64" "is_a R (VString s) TString"
  "is_a R (VBytes bs) TBytes" "is_a R (VUuid u) TUuid" "is_a R VNull TNull"
  "is_a R (VSparseRecord fs vs) (TSparseRecord fs)"
  by (simp_all add: is_a.simps)

fun object_free :: "val \<Rightarrow> bool" where
  "object_free (VObject _) = False"
| "object_free (VRecord vs) = list_all object_free vs"
| "object_free (VList vs) = list_all object_free vs"
| "object_free _ = True"

lemma foldl_union_insert_keeps:
  "t \<in> set types \<Longrightarrow> t \<in> set (foldl union_insert types us)"
  by (induction us arbitrary: types) (auto intro: union_insert_keeps)

lemma foldl_union_insert_distinct:
  "union_distinct types \<Longrightarrow> union_distinct (foldl union_insert types us)"
  by (induction us arbitrary: types) (auto intro: union_insert_distinct)

lemma is_a_union_simplify:
  assumes "t \<in> set types" and "is_a R v t"
  shows "is_a R v (union_simplify types)"
  using assms by (auto simp: union_simplify_def is_a_union list_ex_iff split: list.splits)

lemma is_a_infer_ty: "object_free v \<Longrightarrow> is_a R v (infer_ty v)"
proof (induction v)
  case (VRecord vs)
  then show ?case
    by (auto simp: is_a_record list_all2_conv_all_nth list_all_iff)
next
  case (VList items)
  show ?case
  proof (cases items)
    case Nil
    then show ?thesis by (simp add: is_a_list)
  next
    case (Cons x xs)
    have "union_insert [] (infer_ty x) = [infer_ty x]"
      by (simp add: union_insert_def infer_ty_known)
    then have "infer_ty x \<in> set (foldl union_insert [] (map infer_ty items))"
      by (simp add: Cons foldl_union_insert_keeps)
    moreover have "is_a R x (infer_ty x)"
      using VList Cons by simp
    ultimately show ?thesis
      using Cons by (simp add: is_a_list is_a_union_simplify)
  qed
qed simp_all

subsection \<open>Hashed sets of values\<close>

text \<open>
  \<open>value_set::value_eq\<close>, the equality of the hash set: floats compare by their bits, so NaN
  equals itself, and objects fall through to \<open>false\<close>.
\<close>

fun set_value_eq :: "val \<Rightarrow> val \<Rightarrow> bool" where
  "set_value_eq (VList as) v =
     (case v of
        VList bs \<Rightarrow> length as = length bs \<and> list_all (\<lambda>(a, b). set_value_eq a b) (zip as bs)
      | _ \<Rightarrow> False)"
| "set_value_eq (VRecord as) v =
     (case v of
        VRecord bs \<Rightarrow> length as = length bs \<and> list_all (\<lambda>(a, b). set_value_eq a b) (zip as bs)
      | _ \<Rightarrow> False)"
| "set_value_eq (VSparseRecord fa as) v =
     (case v of
        VSparseRecord fb bs \<Rightarrow>
          fa = fb \<and> length as = length bs \<and> list_all (\<lambda>(a, b). set_value_eq a b) (zip as bs)
      | _ \<Rightarrow> False)"
| "set_value_eq (VObject _) v = False"
| "set_value_eq a b = (a = b)"

lemma zip_all_eqI:
  "length as = length bs \<Longrightarrow> (\<And>a b. (a, b) \<in> set (zip as bs) \<Longrightarrow> a = b) \<Longrightarrow> as = bs"
  by (induction as bs rule: list_induct2) auto

lemma set_value_eq_imp_eq: "set_value_eq a b \<Longrightarrow> a = b"
  by (induction a b rule: set_value_eq.induct)
    (auto split: val.splits simp: list_all_iff intro!: zip_all_eqI)

text \<open>\<open>ValueSet::insert\<close>: false when an equal value is present.\<close>

definition value_set_insert :: "val list \<Rightarrow> val \<Rightarrow> bool \<times> val list" where
  "value_set_insert seen v =
     (if list_ex (\<lambda>u. set_value_eq u v) seen then (False, seen) else (True, v # seen))"

text \<open>\<open>values.retain(|v| seen.insert(v.clone()))\<close>\<close>

fun value_dedup :: "val list \<Rightarrow> val list \<Rightarrow> val list" where
  "value_dedup seen [] = []"
| "value_dedup seen (v # vs) =
     (case value_set_insert seen v of
        (True, seen') \<Rightarrow> v # value_dedup seen' vs
      | (False, seen') \<Rightarrow> value_dedup seen' vs)"

lemma value_dedup_set: "set (value_dedup seen vs) \<union> set seen = set vs \<union> set seen"
proof (induction vs arbitrary: seen)
  case (Cons v vs)
  show ?case
  proof (cases "list_ex (\<lambda>u. set_value_eq u v) seen")
    case True
    then have "v \<in> set seen" by (auto simp: list_ex_iff dest: set_value_eq_imp_eq)
    with True Cons [of seen] show ?thesis by (auto simp: value_set_insert_def)
  next
    case False
    with Cons [of "v # seen"] show ?thesis by (auto simp: value_set_insert_def)
  qed
qed simp

lemma value_dedup_same_set: "set (value_dedup [] vs) = set vs"
  using value_dedup_set [of "[]" vs] by simp

lemma value_dedup_length: "length (value_dedup seen vs) \<le> length vs"
  by (induction vs arbitrary: seen) (auto simp: value_set_insert_def le_SucI split: prod.splits bool.splits)

lemma value_dedup_eq_Nil [simp]: "value_dedup [] vs = [] \<longleftrightarrow> vs = []"
  by (cases vs) (auto simp: value_set_insert_def)

end
