(* ===== verification/Casts.thy ===== *)
theory Casts
  imports ValueOps "HOL-Library.Multiset"
begin

text \<open>
  \<open>Type::cast\<close> and its relatives (\<open>toasty-core/src/stmt/ty.rs\<close>): conversions between the
  representations of a value, the raising of named document objects to positional records
  and the lowering back.  The \<open>uuid\<close> crate is a parameter: its formatting, parsing and byte
  conversions are the fields of \<open>uuid_ops\<close>.
\<close>

record uuid_ops =
  uuid_to_string :: "128 word \<Rightarrow> string"
  uuid_parse :: "string \<Rightarrow> 128 word option"
  uuid_as_bytes :: "128 word \<Rightarrow> 8 word list"
  uuid_from_bytes :: "8 word list \<Rightarrow> 128 word option"

fun contains_model :: "ty \<Rightarrow> bool" where
  "contains_model (TModel _) = True"
| "contains_model (TList t) = contains_model t"
| "contains_model (TRecord ts) = list_ex contains_model ts"
| "contains_model (TUnion ts) = list_ex contains_model ts"
| "contains_model _ = False"

definition is_numeric :: "ty \<Rightarrow> bool" where
  "is_numeric t \<longleftrightarrow> t \<in> {TI8, TI16, TI32, TI64, TU8, TU16, TU32, TU64}"

fun cast_preserves_equality :: "ty \<Rightarrow> ty \<Rightarrow> bool" where
  "cast_preserves_equality source target =
     (if ty_eq source target then True
      else if (source = TString \<or> source = TBytes) \<and> target = TUuid then True
      else if is_numeric source \<and> is_numeric target then True
      else (case (source, target) of
              (TList s, TList t) \<Rightarrow> cast_preserves_equality s t
            | _ \<Rightarrow> False))"

declare cast_preserves_equality.simps [simp del]

text \<open>\<open>Value::sparse_record\<close>: the record's values at the set's indices, \<open>NULL\<close> between.\<close>

definition sparse_put :: "val list \<Rightarrow> nat \<times> val \<Rightarrow> val list" where
  "sparse_put vs entry =
     (let (i, v) = entry; padded = vs @ replicate (Suc i - length vs) VNull in padded[i := v])"

definition sparse_record :: "path_field_set \<Rightarrow> val list \<Rightarrow> val" where
  "sparse_record fs record = VSparseRecord fs (foldl sparse_put [] (zip fs record))"

subsection \<open>Vectors as the source uses them\<close>

fun position :: "('a \<Rightarrow> bool) \<Rightarrow> 'a list \<Rightarrow> nat option" where
  "position p [] = None"
| "position p (x # xs) = (if p x then Some 0 else map_option Suc (position p xs))"

lemma position_Some: "position p xs = Some i \<Longrightarrow> i < length xs \<and> p (xs ! i)"
  by (induction xs arbitrary: i) (auto split: if_splits)

lemma position_None: "position p xs = None \<longleftrightarrow> (\<forall>x \<in> set xs. \<not> p x)"
  by (induction xs) auto

definition swap_remove :: "nat \<Rightarrow> 'a list \<Rightarrow> 'a list" where
  "swap_remove i xs = (if Suc i = length xs then butlast xs else (butlast xs)[i := last xs])"

lemma mset_swap_remove:
  assumes "i < length xs"
  shows "mset xs = add_mset (xs ! i) (mset (swap_remove i xs))"
proof -
  from assms obtain ys y where xs: "xs = ys @ [y]" by (cases xs rule: rev_cases) auto
  show ?thesis
  proof (cases "i = length ys")
    case True
    then show ?thesis by (simp add: xs swap_remove_def)
  next
    case False
    with assms have "i < length ys" by (simp add: xs)
    then show ?thesis
      by (simp add: xs swap_remove_def nth_append mset_update)
  qed
qed

lemma size_list_mset: "size_list f xs = (\<Sum>x\<in>#mset xs. Suc (f x))"
  by (induction xs) auto

lemma size_list_split:
  "i < length xs \<Longrightarrow> size_list f xs = Suc (f (xs ! i)) + size_list f (swap_remove i xs)"
  by (simp add: size_list_mset mset_swap_remove [of i xs])

lemma size_list_swap_remove:
  "i < length xs \<Longrightarrow> size_list f (swap_remove i xs) < size_list f xs"
  by (simp add: size_list_split [of i xs])

lemma size_list_member: "x \<in> set xs \<Longrightarrow> size x < Suc (size_list size xs)"
  by (auto intro!: le_imp_less_Suc size_list_estimation')

lemma size_entry:
  "i < length es \<Longrightarrow> size (snd (es ! i)) < size_list (size_prod (\<lambda>_. 0) size) es"
  by (simp add: size_list_split [of i es] size_prod_simp split: prod.split)

subsection \<open>Casts\<close>

definition type_conversion :: "string \<Rightarrow> error" where
  "type_conversion target = TypeConversion target"

definition todo :: "'a result" where
  "todo = Err (Panic ''not yet implemented'')"

definition cast_int :: "string \<Rightarrow> ('w \<Rightarrow> val) \<Rightarrow> 'w option \<Rightarrow> val result" where
  "cast_int target c w = rmap c (ok_or w (type_conversion target))"

text \<open>The arms whose result does not depend on nested values, in the source's order for each
  target.\<close>

definition cast_scalar :: "uuid_ops \<Rightarrow> ty \<Rightarrow> val \<Rightarrow> val result" where
  "cast_scalar U t v =
     (case t of
        TString \<Rightarrow>
          (case v of
             VString _ \<Rightarrow> Ok v
           | VUuid u \<Rightarrow> Ok (VString (uuid_to_string U u))
           | _ \<Rightarrow> todo)
      | TUuid \<Rightarrow>
          (case v of
             VString s \<Rightarrow> rmap VUuid (ok_or (uuid_parse U s) (Panic ''could not parse uuid''))
           | VBytes bs \<Rightarrow> rmap VUuid (ok_or (uuid_from_bytes U bs) (type_conversion ''Uuid''))
           | _ \<Rightarrow> todo)
      | TBytes \<Rightarrow> (case v of VUuid u \<Rightarrow> Ok (VBytes (uuid_as_bytes U u)) | _ \<Rightarrow> todo)
      | TSparseRecord fs \<Rightarrow> (case v of VRecord vs \<Rightarrow> Ok (sparse_record fs vs) | _ \<Rightarrow> todo)
      | TBool \<Rightarrow> (case v of VI8 w \<Rightarrow> Ok (VBool (w \<noteq> 0)) | _ \<Rightarrow> todo)
      | TI8 \<Rightarrow>
          (case v of
             VBool b \<Rightarrow> Ok (VI8 (if b then 1 else 0))
           | _ \<Rightarrow> cast_int ''i8'' VI8 (to_i8 v))
      | TI16 \<Rightarrow> cast_int ''i16'' VI16 (to_i16 v)
      | TI32 \<Rightarrow> cast_int ''i32'' VI32 (to_i32 v)
      | TI64 \<Rightarrow> cast_int ''i64'' VI64 (to_i64 v)
      | TU8 \<Rightarrow> cast_int ''u8'' VU8 (to_u8 v)
      | TU16 \<Rightarrow> cast_int ''u16'' VU16 (to_u16 v)
      | TU32 \<Rightarrow> cast_int ''u32'' VU32 (to_u32 v)
      | TU64 \<Rightarrow> cast_int ''u64'' VU64 (to_u64 v)
      | TF32 \<Rightarrow>
          (case v of
             VI64 w \<Rightarrow> Ok (VF32 (flt_round binary32 (of_int (sint w))))
           | VU64 w \<Rightarrow> Ok (VF32 (flt_round binary32 (of_int (uint w))))
           | VF32 f \<Rightarrow> Ok (VF32 f)
           | VF64 f \<Rightarrow>
               (if flt_is_infinite (flt_narrow f) \<and> \<not> flt_is_infinite f
                then Err (type_conversion ''f32 (overflow)'')
                else Ok (VF32 (flt_narrow f)))
           | _ \<Rightarrow> todo)
      | TF64 \<Rightarrow>
          (case v of
             VI64 w \<Rightarrow> Ok (VF64 (flt_round binary64 (of_int (sint w))))
           | VU64 w \<Rightarrow> Ok (VF64 (flt_round binary64 (of_int (uint w))))
           | VF32 f \<Rightarrow> Ok (VF64 f)
           | VF64 f \<Rightarrow> Ok (VF64 f)
           | _ \<Rightarrow> todo)
      | _ \<Rightarrow> todo)"

text \<open>The \<open>as_\<close> accessors of a value.\<close>

definition as_list :: "val \<Rightarrow> val list option" where
  "as_list v = (case v of VList vs \<Rightarrow> Some vs | _ \<Rightarrow> None)"

definition as_record :: "val \<Rightarrow> val list option" where
  "as_record v = (case v of VRecord vs \<Rightarrow> Some vs | _ \<Rightarrow> None)"

definition as_object :: "val \<Rightarrow> (string \<times> val) list option" where
  "as_object v = (case v of VObject es \<Rightarrow> Some es | _ \<Rightarrow> None)"

lemma as_list_eq [simp]: "as_list v = Some vs \<longleftrightarrow> v = VList vs" "as_list (VList vs) = Some vs"
  by (auto simp: as_list_def split: val.splits)

lemma as_record_eq [simp]: "as_record v = Some vs \<longleftrightarrow> v = VRecord vs" "as_record (VRecord vs) = Some vs"
  by (auto simp: as_record_def split: val.splits)

lemma as_object_eq [simp]: "as_object v = Some es \<longleftrightarrow> v = VObject es" "as_object (VObject es) = Some es"
  by (auto simp: as_object_def split: val.splits)

text \<open>The first two arms of \<open>cast_document_leaf\<close>: a model over an object, a list over a list.\<close>

datatype leaf = LeafModel model_id "(string \<times> val) list" | LeafList ty "val list" | LeafOther

definition leaf_of :: "ty \<Rightarrow> val \<Rightarrow> leaf" where
  "leaf_of t v =
     (case t of
        TModel m \<Rightarrow> (case as_object v of Some es \<Rightarrow> LeafModel m es | None \<Rightarrow> LeafOther)
      | TList elem \<Rightarrow> (case as_list v of Some items \<Rightarrow> LeafList elem items | None \<Rightarrow> LeafOther)
      | _ \<Rightarrow> LeafOther)"

lemma leaf_of_eq [simp]:
  "leaf_of t v = LeafModel m es \<longleftrightarrow> t = TModel m \<and> v = VObject es"
  "leaf_of t v = LeafList elem items \<longleftrightarrow> t = TList elem \<and> v = VList items"
  by (auto simp: leaf_of_def split: ty.splits option.splits)

text \<open>Every call either looks at a strictly smaller value, or passes the same value to a
  smaller type, or moves one step along \<open>leaf\<close>, \<open>cast\<close>, \<open>raise\<close>.\<close>

lemma union_member_smaller: "filter p ts = u # us \<Longrightarrow> size u < Suc (size_list size ts)"
  by (rule size_list_member) (metis filter_is_subset list.set_intros(1) subsetD)

lemma size_value_member: "v \<in> set vs \<Longrightarrow> size v < Suc (size_list size (vs :: val list))"
  by (rule size_list_member)

text \<open>
  \<open>cast\<close> is \<open>Type::cast\<close>, that is \<open>cast_from\<close> without a source type; \<open>raise_document\<close> walks
  the model's fields and takes each field's entry out of the object by \<open>swap_remove\<close>, which
  \<open>raise_fields\<close> spells out.
\<close>

function cast :: "uuid_ops \<Rightarrow> resolve \<Rightarrow> ty \<Rightarrow> val \<Rightarrow> val result"
  and raise_document :: "uuid_ops \<Rightarrow> resolve \<Rightarrow> model_id \<Rightarrow> val \<Rightarrow> val result"
  and raise_fields :: "uuid_ops \<Rightarrow> resolve \<Rightarrow> (string \<times> ty) list \<Rightarrow> (string \<times> val) list
    \<Rightarrow> val list result"
  and cast_document_leaf :: "uuid_ops \<Rightarrow> resolve \<Rightarrow> ty \<Rightarrow> val \<Rightarrow> val result" where
  "cast U R t v =
     (if v = VNull then Ok v
      else case t of
        TModel m \<Rightarrow> raise_document U R m v
      | TList elem \<Rightarrow>
          (case as_list v of
             Some items \<Rightarrow> rmap VList (traverse (cast U R elem) items)
           | None \<Rightarrow> todo)
      | TRecord tys \<Rightarrow>
          (case as_record v of
             Some vs \<Rightarrow>
               (if length tys = length vs
                then rmap VRecord (traverse (\<lambda>(u, x). cast U R u x) (zip tys vs))
                else todo)
           | None \<Rightarrow> todo)
      | TUnion ts \<Rightarrow>
          (case filter (is_a R v) ts of
             u # us \<Rightarrow> cast U R u v
           | [] \<Rightarrow> Ok v)
      | _ \<Rightarrow> cast_scalar U t v)"
| "raise_document U R m v =
     (case as_object v of
        Some es \<Rightarrow>
          (case R m of
             None \<Rightarrow> Err (ExpressionEvaluationFailed ''the model is not resolvable in this context'')
           | Some fs \<Rightarrow> rmap VRecord (raise_fields U R fs es))
      | None \<Rightarrow> Ok v)"
| "raise_fields U R [] es = Ok []"
| "raise_fields U R (f # fs) es =
     (case position (\<lambda>e. fst e = fst f) es of
        Some i \<Rightarrow>
          rbind (cast_document_leaf U R (snd f) (snd (es ! i)))
            (\<lambda>x. rmap (Cons x) (raise_fields U R fs (swap_remove i es)))
      | None \<Rightarrow> rmap (Cons VNull) (raise_fields U R fs es))"
| "cast_document_leaf U R t v =
     (case leaf_of t v of
        LeafModel m es \<Rightarrow> raise_document U R m v
      | LeafList elem items \<Rightarrow> rmap VList (traverse (cast_document_leaf U R elem) items)
      | LeafOther \<Rightarrow>
          if v = VNull then Ok VNull
          else if is_a R v t then Ok v
          else cast U R t v)"
  by pat_completeness auto

termination
  by (relation "measures
      [case_sum (case_sum (\<lambda>(U, R, t, v). size v) (\<lambda>(U, R, m, v). size v))
         (case_sum (\<lambda>(U, R, fs, es). size_list (size_prod (\<lambda>_. 0) size) es) (\<lambda>(U, R, t, v). size v)),
       case_sum (case_sum (\<lambda>(U, R, t, v). 3 * size t + 1) (\<lambda>(U, R, m, v). 0))
         (case_sum (\<lambda>(U, R, fs, es). length fs) (\<lambda>(U, R, t, v). 3 * size t + 2))]")
    (auto dest!: position_Some set_zip_rightD union_member_smaller size_value_member
      simp: size_entry size_list_swap_remove dest: less_imp_neq [OF size_entry])

declare cast.simps [simp del] raise_document.simps [simp del] cast_document_leaf.simps [simp del]

function lower_document :: "resolve \<Rightarrow> ty \<Rightarrow> val \<Rightarrow> val result" where
  "lower_document R from v =
     (case from of
        TModel m \<Rightarrow>
          (case as_record v of
             Some vs \<Rightarrow>
               (case R m of
                  None \<Rightarrow>
                    Err (ExpressionEvaluationFailed ''the model is not resolvable in this context'')
                | Some fs \<Rightarrow>
                    rmap VObject
                      (traverse (\<lambda>(f, x). rmap (Pair (fst f)) (lower_document R (snd f) x))
                        (zip fs vs)))
           | None \<Rightarrow> Ok v)
      | TList elem \<Rightarrow>
          (case as_list v of
             Some items \<Rightarrow> rmap VList (traverse (lower_document R elem) items)
           | None \<Rightarrow> Ok v)
      | _ \<Rightarrow> Ok v)"
  by pat_completeness auto

termination
  by (relation "measure (\<lambda>(R, t, v). size v)") (auto dest!: set_zip_rightD size_value_member)

declare lower_document.simps [simp del]

definition cast_from :: "uuid_ops \<Rightarrow> resolve \<Rightarrow> ty option \<Rightarrow> ty \<Rightarrow> val \<Rightarrow> val result" where
  "cast_from U R from t v =
     (if is_null v then Ok v
      else case from of
        Some f \<Rightarrow> if contains_model f then lower_document R f v else cast U R t v
      | None \<Rightarrow> cast U R t v)"

lemma cast_from_None: "cast_from U R None t v = cast U R t v"
  by (simp add: cast_from_def is_null_def cast.simps)

subsection \<open>NULL passes through, and only NULL becomes NULL\<close>

lemma cast_null [simp]: "cast U R t VNull = Ok VNull"
  by (simp add: cast.simps)

lemma cast_union:
  "cast U R (TUnion ts) v =
     (case filter (is_a R v) ts of u # us \<Rightarrow> cast U R u v | [] \<Rightarrow> Ok v)"
  by (subst cast.simps) (auto split: list.split)

lemma raise_non_null: "raise_document U R m v = Ok w \<Longrightarrow> v \<noteq> VNull \<Longrightarrow> w \<noteq> VNull"
  by (auto simp: raise_document.simps result_simps split: option.splits)

lemma cast_scalar_non_null: "cast_scalar U t v = Ok w \<Longrightarrow> v \<noteq> VNull \<Longrightarrow> w \<noteq> VNull"
  by (cases t)
    (auto simp: cast_scalar_def todo_def cast_int_def sparse_record_def result_simps
      split: val.splits if_splits)

lemma cast_non_null: "cast U R t v = Ok w \<Longrightarrow> v \<noteq> VNull \<Longrightarrow> w \<noteq> VNull"
proof (induction t arbitrary: v w)
  case (TUnion ts)
  show ?case
  proof (cases "filter (is_a R v) ts")
    case Nil
    with TUnion show ?thesis by (simp add: cast.simps)
  next
    case (Cons u us)
    then have "u \<in> set ts" by (metis filter_is_subset list.set_intros(1) subsetD)
    with TUnion Cons show ?thesis by (simp add: cast.simps)
  qed
qed (auto simp: cast.simps raise_non_null todo_def result_simps split: option.splits if_splits
  dest: cast_scalar_non_null raise_non_null)

lemma cast_is_null: "cast U R t v = Ok w \<Longrightarrow> is_null w = is_null v"
  using cast_non_null by (cases "v = VNull") (auto simp: is_null_def)

subsection \<open>The schema matters only at document positions\<close>

lemma is_a_flat:
  assumes "\<not> contains_model t" "\<And>u. t \<noteq> TList u" "\<And>us. t \<noteq> TRecord us" "\<And>us. t \<noteq> TUnion us"
  shows "is_a R v t = is_a R' v t"
  by (subst (1 2) is_a.simps) (use assms in \<open>cases t; simp cong: val.case_cong\<close>)

lemma is_a_list_eq:
  "is_a R v (TList t) \<longleftrightarrow>
     v = VNull \<or> (\<exists>items. v = VList items \<and> (items = [] \<or> is_a R (hd items) t))"
  by (subst is_a.simps) (auto split: val.split list.split)

lemma is_a_record_eq:
  "is_a R v (TRecord ts) \<longleftrightarrow> v = VNull \<or> (\<exists>vs. v = VRecord vs \<and> list_all2 (is_a R) vs ts)"
  by (subst is_a.simps) (auto split: val.split simp: list_all2_iff list_all_iff)

lemma is_a_no_model: "\<not> contains_model t \<Longrightarrow> is_a R v t = is_a R' v t"
proof (induction t arbitrary: v)
  case (TList t)
  then show ?case by (simp add: is_a_list_eq)
next
  case (TRecord ts)
  then have "list_all2 (is_a R) vs ts = list_all2 (is_a R') vs ts" for vs
    by (intro list.rel_cong refl) (auto simp: list_ex_iff)
  then show ?case by (simp add: is_a_record_eq)
next
  case (TUnion ts)
  then show ?case by (auto simp: is_a_union list_ex_iff)
qed (rule is_a_flat; simp)+

lemma cast_no_model: "\<not> contains_model t \<Longrightarrow> cast U R t v = cast U R' t v"
proof (induction t arbitrary: v)
  case (TRecord ts)
  then show ?case
    by (auto simp: cast.simps list_ex_iff split: option.splits intro!: rmap_cong traverse_cong
      dest!: set_zip_leftD)
next
  case (TUnion ts)
  have same: "filter (is_a R v) ts = filter (is_a R' v) ts"
    using TUnion.prems by (intro filter_cong refl is_a_no_model) (auto simp: list_ex_iff)
  have "u \<in> set ts" if "filter (is_a R' v) ts = u # us" for u us
    using that by (metis filter_is_subset list.set_intros(1) subsetD)
  with TUnion show ?case
    by (auto simp: cast_union same list_ex_iff split: list.splits)
qed (auto simp: cast.simps split: option.splits intro!: rmap_cong traverse_cong)

subsection \<open>Integer casts preserve the integer\<close>

definition int_val :: "ty \<Rightarrow> int \<Rightarrow> val option" where
  "int_val t n =
     (case t of
        TI8 \<Rightarrow> map_option VI8 (checked_sword n)
      | TI16 \<Rightarrow> map_option VI16 (checked_sword n)
      | TI32 \<Rightarrow> map_option VI32 (checked_sword n)
      | TI64 \<Rightarrow> map_option VI64 (checked_sword n)
      | TU8 \<Rightarrow> map_option VU8 (checked_uword n)
      | TU16 \<Rightarrow> map_option VU16 (checked_uword n)
      | TU32 \<Rightarrow> map_option VU32 (checked_uword n)
      | TU64 \<Rightarrow> map_option VU64 (checked_uword n)
      | _ \<Rightarrow> None)"

lemma int_val_sound: "int_val t n = Some w \<Longrightarrow> value_int w = Some n \<and> is_a R w t"
  by (cases t) (auto simp: int_val_def checked_sword_sint checked_uword_uint)

lemma int_val_complete: "is_a R v t \<Longrightarrow> value_int v = Some n \<Longrightarrow> is_numeric t \<Longrightarrow> int_val t n = Some v"
  by (cases v) (auto simp: int_val_def is_numeric_def is_a.simps)

lemma numeric_has_int: "is_numeric t \<Longrightarrow> is_a R v t \<Longrightarrow> v \<noteq> VNull \<Longrightarrow> \<exists>n. value_int v = Some n"
  by (cases v) (auto simp: is_numeric_def is_a.simps)

lemma cast_int_option: "cast_int s c w = (case map_option c w of Some x \<Rightarrow> Ok x | None \<Rightarrow> Err (type_conversion s))"
  by (cases w) (simp_all add: cast_int_def)

lemma cast_numeric:
  assumes t: "is_numeric t" and n: "value_int v = Some n"
  shows "cast U R t v = Ok w \<longleftrightarrow> int_val t n = Some w"
proof -
  have "v \<noteq> VNull" using n by auto
  with t have "cast U R t v = cast_scalar U t v"
    by (auto simp: is_numeric_def cast.simps)
  moreover have "cast_scalar U TI8 v = cast_int ''i8'' VI8 (to_i8 v)"
    using n by (cases v) (simp_all add: cast_scalar_def)
  ultimately show ?thesis
    using t n
    by (auto simp: is_numeric_def int_val_def cast_scalar_def cast_int_option to_int_defs
        split: option.splits)
qed

text \<open>An integer cast that succeeds is undone by the cast back.\<close>

lemma cast_numeric_back:
  assumes "is_numeric s" "is_numeric t" "is_a R v s" and c: "cast U R t v = Ok w"
  shows "cast U R s w = Ok v"
proof (cases "v = VNull")
  case False
  then obtain n where n: "value_int v = Some n" using assms numeric_has_int by blast
  with c assms have "value_int w = Some n" by (auto simp: cast_numeric dest: int_val_sound)
  then show ?thesis using n assms by (simp add: cast_numeric int_val_complete)
qed (use c in simp)

lemma cast_numeric_inject:
  assumes "is_numeric s" "is_numeric t" "is_a R v s" "is_a R v' s"
    and "cast U R t v = Ok w" "cast U R t v' = Ok w"
  shows "v = v'"
  using cast_numeric_back [OF assms(1-3,5)] cast_numeric_back [OF assms(1,2,4,6)] by simp

subsection \<open>Documents\<close>

text \<open>
  Specification of the \<open>swap_remove\<close> loop: with distinct keys and distinct field names, each
  field gets the entry of its name, whatever the order of the entries; a missing entry is
  \<open>NULL\<close> and an unknown key is dropped.
\<close>

definition raise_field :: "uuid_ops \<Rightarrow> resolve \<Rightarrow> (string \<times> val) list \<Rightarrow> string \<times> ty \<Rightarrow> val result" where
  "raise_field U R es f =
     (case map_of es (fst f) of
        Some x \<Rightarrow> cast_document_leaf U R (snd f) x
      | None \<Rightarrow> Ok VNull)"

lemma position_key:
  "distinct (map fst es) \<Longrightarrow>
   (case position (\<lambda>e. fst e = k) es of Some i \<Rightarrow> map_of es k = Some (snd (es ! i)) | None \<Rightarrow> map_of es k = None)"
proof (induction es)
  case (Cons e es)
  then show ?case by (cases "position (\<lambda>e. fst e = k) es") (auto simp: image_iff)
qed simp

lemma set_swap_remove: "distinct xs \<Longrightarrow> i < length xs \<Longrightarrow> set (swap_remove i xs) = set xs - {xs ! i}"
  and distinct_swap_remove: "distinct xs \<Longrightarrow> i < length xs \<Longrightarrow> distinct (swap_remove i xs)"
proof -
  assume d: "distinct xs" and i: "i < length xs"
  from d have c: "count (mset xs) x = (if x \<in> set xs then 1 else 0)" for x
    by (simp add: distinct_count_atmost_1)
  have m: "mset (swap_remove i xs) = mset xs - {#xs ! i#}"
    by (simp add: mset_swap_remove [OF i])
  then have c': "count (mset (swap_remove i xs)) x = (if x \<in> set xs - {xs ! i} then 1 else 0)" for x
    using i by (simp add: c)
  show "set (swap_remove i xs) = set xs - {xs ! i}"
  proof (intro set_eqI)
    fix x
    have "x \<in> set (swap_remove i xs) \<longleftrightarrow> count (mset (swap_remove i xs)) x > 0"
      by (simp add: count_greater_zero_iff)
    then show "x \<in> set (swap_remove i xs) \<longleftrightarrow> x \<in> set xs - {xs ! i}" by (simp add: c')
  qed
  show "distinct (swap_remove i xs)"
    unfolding distinct_count_atmost_1
  proof
    fix x
    have "x \<in> set (swap_remove i xs) \<longleftrightarrow> count (mset (swap_remove i xs)) x > 0"
      by (simp add: count_greater_zero_iff)
    then show "count (mset (swap_remove i xs)) x = (if x \<in> set (swap_remove i xs) then 1 else 0)"
      by (simp add: c')
  qed
qed

lemma swap_remove_map: "i < length xs \<Longrightarrow> map f (swap_remove i xs) = swap_remove i (map f xs)"
  by (cases xs rule: rev_cases) (auto simp: swap_remove_def map_update)

lemma map_of_swap_remove:
  assumes d: "distinct (map fst es)" and i: "i < length es" and k: "k \<noteq> fst (es ! i)"
  shows "map_of (swap_remove i es) k = map_of es k"
proof -
  have d': "distinct (map fst (swap_remove i es))"
    using distinct_swap_remove [OF d] i by (simp add: swap_remove_map)
  have s: "set (swap_remove i es) = set es - {es ! i}"
    using set_swap_remove [of es i] d i by (simp add: distinct_map)
  have "map_of (swap_remove i es) k = Some v \<longleftrightarrow> map_of es k = Some v" for v
    using k by (cases "es ! i") (auto simp: map_of_eq_Some_iff [OF d] map_of_eq_Some_iff [OF d'] s)
  then show ?thesis by (metis not_Some_eq)
qed

lemma raise_fields_spec:
  assumes "distinct (map fst fs)" and "distinct (map fst es)"
  shows "raise_fields U R fs es = traverse (raise_field U R es) fs"
  using assms
proof (induction fs arbitrary: es)
  case (Cons f fs)
  show ?case
  proof (cases "position (\<lambda>e. fst e = fst f) es")
    case None
    then have "map_of es (fst f) = None" using position_key [OF Cons.prems(2), of "fst f"] by simp
    with None Cons show ?thesis by (simp add: raise_field_def)
  next
    case (Some i)
    then have i: "i < length es" "fst (es ! i) = fst f" by (auto dest: position_Some)
    have m: "map_of es (fst f) = Some (snd (es ! i))"
      using position_key [OF Cons.prems(2), of "fst f"] Some by simp
    have "raise_fields U R fs (swap_remove i es) = traverse (raise_field U R (swap_remove i es)) fs"
      using Cons.prems Cons.IH distinct_swap_remove [of "map fst es" i] i
      by (simp add: swap_remove_map)
    also have "\<dots> = traverse (raise_field U R es) fs"
    proof (rule traverse_cong [OF refl])
      fix g assume "g \<in> set fs"
      with Cons.prems(1) i have "fst g \<noteq> fst (es ! i)" by (auto simp: image_iff)
      then show "raise_field U R (swap_remove i es) g = raise_field U R es g"
        by (simp add: raise_field_def map_of_swap_remove [OF Cons.prems(2) i(1)])
    qed
    finally show ?thesis by (simp add: Some m raise_field_def [of U R es f])
  qed
qed simp

text \<open>Values of document positions in the engine's positional form.\<close>

inductive document :: "resolve \<Rightarrow> ty \<Rightarrow> val \<Rightarrow> bool" for R where
  null: "document R t VNull"
| model: "\<lbrakk>R m = Some fs; distinct (map fst fs); list_all2 (\<lambda>f x. document R (snd f) x) fs vs\<rbrakk> \<Longrightarrow>
    document R (TModel m) (VRecord vs)"
| list: "list_all (document R elem) items \<Longrightarrow> document R (TList elem) (VList items)"
| leaf: "\<lbrakk>\<forall>m. t \<noteq> TModel m; \<forall>u. t \<noteq> TList u; is_a R v t\<rbrakk> \<Longrightarrow> document R t v"

lemma lower_null: "lower_document R t VNull = Ok VNull"
  by (simp add: lower_document.simps as_record_def as_list_def split: ty.split)

lemma leaf_null: "cast_document_leaf U R t VNull = Ok VNull"
  by (simp add: cast_document_leaf.simps leaf_of_def as_object_def as_list_def split: ty.split)

lemma list_all2_choice:
  "list_all2 (\<lambda>x y. \<exists>w. P x y w) xs ys \<Longrightarrow>
   \<exists>ws. length ws = length xs \<and> (\<forall>i < length xs. P (xs ! i) (ys ! i) (ws ! i))"
proof (induction rule: list_all2_induct)
  case (Cons x xs y ys)
  then obtain w ws where "P x y w" "length ws = length xs"
    "\<forall>i < length xs. P (xs ! i) (ys ! i) (ws ! i)" by blast
  then show ?case by (intro exI [of _ "w # ws"]) (auto simp: nth_Cons split: nat.split)
qed simp

lemma raise_lower_leaf:
  "document R t v \<Longrightarrow>
   \<exists>w. lower_document R t v = Ok w \<and> cast_document_leaf U R t w = Ok v"
proof (induction rule: document.induct)
  case (model m fs vs)
  then have "list_all2 (\<lambda>f x. \<exists>w. lower_document R (snd f) x = Ok w \<and>
      cast_document_leaf U R (snd f) w = Ok x) fs vs"
    by (auto elim: list_all2_mono)
  from list_all2_choice [OF this] obtain ws where len: "length ws = length fs"
    and ws: "\<forall>i < length fs. lower_document R (snd (fs ! i)) (vs ! i) = Ok (ws ! i) \<and>
      cast_document_leaf U R (snd (fs ! i)) (ws ! i) = Ok (vs ! i)"
    by auto
  from model have len': "length vs = length fs" by (simp add: list_all2_lengthD)
  let ?es = "zip (map fst fs) ws"
  have "traverse (\<lambda>(f, x). rmap (Pair (fst f)) (lower_document R (snd f) x)) (zip fs vs) = Ok ?es"
    using ws len len' by (auto simp: traverse_eq_Ok list_all2_conv_all_nth)
  then have lower: "lower_document R (TModel m) (VRecord vs) = Ok (VObject ?es)"
    using model by (simp add: lower_document.simps)
  have keys: "map fst ?es = map fst fs" using len by simp
  have field: "raise_field U R ?es (fs ! i) = Ok (vs ! i)" if "i < length fs" for i
  proof -
    have "(fst (fs ! i), ws ! i) \<in> set ?es" using that len by (auto simp: set_zip intro!: exI [of _ i])
    then have "map_of ?es (fst (fs ! i)) = Some (ws ! i)"
      using model(2) keys by (auto intro: map_of_is_SomeI)
    then show ?thesis using ws that by (simp add: raise_field_def)
  qed
  have "raise_fields U R fs ?es = Ok vs"
    using model(2) field len'
    by (subst raise_fields_spec) (simp_all add: keys traverse_eq_Ok list_all2_conv_all_nth)
  then have "cast_document_leaf U R (TModel m) (VObject ?es) = Ok (VRecord vs)"
    using model(1) by (simp add: cast_document_leaf.simps leaf_of_def raise_document.simps)
  with lower show ?case by blast
next
  case (list elem items)
  then have "\<forall>x \<in> set items. \<exists>w. lower_document R elem x = Ok w \<and> cast_document_leaf U R elem w = Ok x"
    by (auto simp: list_all_iff)
  then obtain g where "\<forall>x \<in> set items. lower_document R elem x = Ok (g x) \<and>
      cast_document_leaf U R elem (g x) = Ok x" by metis
  then show ?case
    by (auto simp: lower_document.simps [of R "TList elem"] cast_document_leaf.simps [of U R "TList elem"]
        leaf_of_def traverse_Ok_map [of items _ g] traverse_map traverse_Ok_map [of items _ id]
        intro!: exI [of _ "VList (map g items)"])
next
  case (leaf t v)
  then show ?case
    by (auto simp: lower_document.simps [of R t] cast_document_leaf.simps [of U R t] leaf_of_def
        split: ty.splits)
qed (simp add: lower_null leaf_null)

text \<open>The round trip of a document column: a value bound for storage is lowered by
  \<open>cast_from\<close>, and what comes back is raised by \<open>cast\<close>.\<close>

lemma raise_lower_document:
  assumes "document R (TModel m) v"
  shows "\<exists>w. cast_from U R (Some (TModel m)) t v = Ok w \<and> cast U R (TModel m) w = Ok v"
proof (cases "v = VNull")
  case False
  obtain w where w: "lower_document R (TModel m) v = Ok w"
    "cast_document_leaf U R (TModel m) w = Ok v"
    using raise_lower_leaf [OF assms] by blast
  from assms False obtain vs where v: "v = VRecord vs"
    by (cases rule: document.cases) auto
  with w(1) obtain es where "w = VObject es"
    by (auto simp: lower_document.simps [of R "TModel m"] result_simps split: option.splits)
  with w v show ?thesis
    by (simp add: cast_from_def cast_document_leaf.simps leaf_of_def cast.simps)
qed (simp add: cast_from_def)

end
