(* ===== verification/Ast.thy ===== *)
theory Ast
  imports ValueOps
begin

text \<open>
  The expression language of the statement AST (\<open>toasty-core/src/stmt/expr*.rs\<close>,
  \<open>func_*.rs\<close>, \<open>query.rs\<close>, \<open>expr_set.rs\<close>, \<open>values.rs\<close>, \<open>limit.rs\<close>, \<open>order_by*.rs\<close>).

  All 36 variants of \<open>Expr\<close> are present with the fields of their structs.  Statements appear
  inside expressions as subqueries; of them the query shell, \<open>VALUES\<close> bodies, set operations,
  ordering and limits are modelled, and the bodies that are not (\<open>SELECT\<close>, \<open>INSERT\<close>,
  \<open>UPDATE\<close>, \<open>DELETE\<close>) are tokens of \<open>opaque\<close>, which no definition inspects.
\<close>

datatype binop = OpEq | OpNe | OpGe | OpGt | OpLe | OpLt | OpAdd | OpSub

datatype expr_ref =
    RColumn nat nat nat \<comment> \<open>nesting, table, column\<close>
  | RField nat nat \<comment> \<open>nesting, index\<close>
  | RModel nat \<comment> \<open>nesting\<close>

datatype incoming = IncomingModel model_id | IncomingTable nat

type_synonym variant_id = "model_id \<times> nat"

datatype direction = Asc | Desc

datatype lock = LockUpdate | LockShare

datatype set_op = SetUnion | SetExcept | SetIntersect

datatype opaque = Opaque nat

datatype (plugins only: size code) expr =
    EAllOp expr binop expr
  | EAnd "expr list"
  | EAny expr
  | EAnyOp expr binop expr
  | EBetween expr expr expr
  | EArg nat nat \<comment> \<open>position, nesting\<close>
  | EBinaryOp expr binop expr
  | ECast expr "ty option" ty
  | EDefault
  | EError string
  | EExists query
  | EFunc expr_func
  | EIdent string
  | EInList expr expr
  | EInSubquery expr query bool bool
  | EIncoming incoming
  | EIntersects expr expr
  | EIsNull expr bool
  | EIsSuperset expr expr
  | EIsVariant expr variant_id
  | ELength expr
  | ELet "expr list" expr
  | ELike expr expr "char option" bool
  | EMap expr expr
  | EMatch expr "(val \<times> expr) list" expr
  | ENot expr
  | EOr "expr list"
  | EProject expr projection
  | ERecord "expr list"
  | EReference expr_ref
  | EList "expr list"
  | EStartsWith expr expr
  | EStmt stmt
  | EValue val
  | EStatic val
  | EVariant expr variant_id
and expr_func =
    FCount "expr option" "expr option"
  | FLastInsertId
  | FJsonExtract expr "string list" ty
  | FUnnest expr
and query =
    Query "query list option" expr_set bool "(expr \<times> direction option) list option"
      "limit option" "lock list"
and limit =
    LCursor expr "expr option"
  | LOffset expr "expr option"
and expr_set =
    SSelect opaque
  | SSetOp set_op "expr_set list"
  | SUpdate opaque
  | SDelete opaque
  | SValues "expr list"
  | SInsert opaque
and stmt =
    StDelete opaque
  | StInsert opaque
  | StQuery query
  | StUpdate opaque

end
