(* ===== verification/Exprs.thy ===== *)
theory Exprs
  imports Ast Casts
begin

text \<open>
  Predicates, constructors and navigation of expressions (\<open>toasty-core/src/stmt/expr.rs\<close>,
  \<open>op_binary.rs\<close>, \<open>expr_and.rs\<close>, \<open>expr_or.rs\<close>, \<open>expr_list.rs\<close>, \<open>entry.rs\<close>).
\<close>

subsection \<open>Binary operators\<close>

fun is_arithmetic :: "binop \<Rightarrow> bool" where
  "is_arithmetic OpAdd = True"
| "is_arithmetic OpSub = True"
| "is_arithmetic _ = False"

fun negate_op :: "binop \<Rightarrow> binop option" where
  "negate_op OpEq = Some OpNe"
| "negate_op OpNe = Some OpEq"
| "negate_op OpLt = Some OpGe"
| "negate_op OpGe = Some OpLt"
| "negate_op OpGt = Some OpLe"
| "negate_op OpLe = Some OpGt"
| "negate_op OpAdd = None"
| "negate_op OpSub = None"

fun commute_op :: "binop \<Rightarrow> binop option" where
  "commute_op OpEq = Some OpEq"
| "commute_op OpNe = Some OpNe"
| "commute_op OpGe = Some OpLe"
| "commute_op OpGt = Some OpLt"
| "commute_op OpLe = Some OpGe"
| "commute_op OpLt = Some OpGt"
| "commute_op OpAdd = Some OpAdd"
| "commute_op OpSub = None"

lemma negate_op_involutive: "negate_op op = Some op' \<Longrightarrow> negate_op op' = Some op"
  by (cases op) auto

lemma commute_op_involutive: "commute_op op = Some op' \<Longrightarrow> commute_op op' = Some op"
  by (cases op) auto

subsection \<open>Literals\<close>

fun is_value :: "expr \<Rightarrow> bool" where
  "is_value (EValue _) = True"
| "is_value _ = False"

definition is_value_null :: "expr \<Rightarrow> bool" where
  "is_value_null e \<longleftrightarrow> e = EValue VNull"

definition is_true :: "expr \<Rightarrow> bool" where
  "is_true e \<longleftrightarrow> e = EValue (VBool True)"

definition is_false :: "expr \<Rightarrow> bool" where
  "is_false e \<longleftrightarrow> e = EValue (VBool False)"

definition is_unsatisfiable :: "expr \<Rightarrow> bool" where
  "is_unsatisfiable e \<longleftrightarrow> is_false e \<or> is_value_null e"

fun as_value :: "expr \<Rightarrow> val option" where
  "as_value (EValue v) = Some v"
| "as_value _ = None"

lemma as_value_eq [simp]: "as_value e = Some v \<longleftrightarrow> e = EValue v"
  by (cases e) auto

lemma is_value_iff: "is_value e \<longleftrightarrow> (\<exists>v. e = EValue v)"
  by (cases e) auto

definition as_i64_literal :: "expr \<Rightarrow> int option" where
  "as_i64_literal e =
     (case e of EValue (VI64 n) \<Rightarrow> Some (sint n) | EStatic (VI64 n) \<Rightarrow> Some (sint n) | _ \<Rightarrow> None)"

definition is_list_empty :: "expr \<Rightarrow> bool" where
  "is_list_empty e = (e = EList [] \<or> e = EValue (VList []))"

subsection \<open>Stability, constness and evaluability\<close>

fun is_stable :: "expr \<Rightarrow> bool" where
  "is_stable (EValue _) = True"
| "is_stable (EStatic _) = True"
| "is_stable (EIdent _) = False"
| "is_stable EDefault = False"
| "is_stable (EError _) = True"
| "is_stable (ERecord es) = list_all is_stable es"
| "is_stable (EList es) = list_all is_stable es"
| "is_stable (ECast e _ _) = is_stable e"
| "is_stable (EStartsWith e p) = (is_stable e \<and> is_stable p)"
| "is_stable (ELike e p _ _) = (is_stable e \<and> is_stable p)"
| "is_stable (EBetween e l h) = (is_stable e \<and> is_stable l \<and> is_stable h)"
| "is_stable (EBinaryOp l _ r) = (is_stable l \<and> is_stable r)"
| "is_stable (EAnd es) = list_all is_stable es"
| "is_stable (EAny e) = is_stable e"
| "is_stable (EAnyOp l _ r) = (is_stable l \<and> is_stable r)"
| "is_stable (EAllOp l _ r) = (is_stable l \<and> is_stable r)"
| "is_stable (EOr es) = list_all is_stable es"
| "is_stable (EIsNull e _) = is_stable e"
| "is_stable (EIsVariant e _) = is_stable e"
| "is_stable (EVariant e _) = is_stable e"
| "is_stable (ENot e) = is_stable e"
| "is_stable (EInList e l) = (is_stable e \<and> is_stable l)"
| "is_stable (EProject e _) = is_stable e"
| "is_stable (ELet bs body) = (list_all is_stable bs \<and> is_stable body)"
| "is_stable (EMap b m) = (is_stable b \<and> is_stable m)"
| "is_stable (EMatch s arms els) = (is_stable s \<and> list_all (\<lambda>arm. is_stable (snd arm)) arms)"
| "is_stable (EReference _) = True"
| "is_stable (EIncoming _) = True"
| "is_stable (EArg _ _) = True"
| "is_stable (EIsSuperset l r) = (is_stable l \<and> is_stable r)"
| "is_stable (EIntersects l r) = (is_stable l \<and> is_stable r)"
| "is_stable (ELength e) = is_stable e"
| "is_stable (EStmt _) = False"
| "is_stable (EFunc _) = False"
| "is_stable (EInSubquery _ _ _ _) = False"
| "is_stable (EExists _) = False"

text \<open>\<open>is_const_at_depth\<close>: an argument is local when its scope is inside the expression.\<close>

fun is_const_at_depth :: "nat \<Rightarrow> expr \<Rightarrow> bool" where
  "is_const_at_depth d (EValue _) = True"
| "is_const_at_depth d (EStatic _) = True"
| "is_const_at_depth d (EIdent _) = False"
| "is_const_at_depth d (EArg _ nesting) = (nesting < d)"
| "is_const_at_depth d (EError _) = True"
| "is_const_at_depth d (EReference _) = False"
| "is_const_at_depth d (EIncoming _) = False"
| "is_const_at_depth d (EStmt _) = False"
| "is_const_at_depth d (EInSubquery _ _ _ _) = False"
| "is_const_at_depth d (EExists _) = False"
| "is_const_at_depth d EDefault = False"
| "is_const_at_depth d (EFunc _) = False"
| "is_const_at_depth d (ERecord es) = list_all (is_const_at_depth d) es"
| "is_const_at_depth d (EList es) = list_all (is_const_at_depth d) es"
| "is_const_at_depth d (ECast e _ _) = is_const_at_depth d e"
| "is_const_at_depth d (EStartsWith e p) = (is_const_at_depth d e \<and> is_const_at_depth d p)"
| "is_const_at_depth d (ELike e p _ _) = (is_const_at_depth d e \<and> is_const_at_depth d p)"
| "is_const_at_depth d (EBetween e l h) =
     (is_const_at_depth d e \<and> is_const_at_depth d l \<and> is_const_at_depth d h)"
| "is_const_at_depth d (EBinaryOp l _ r) = (is_const_at_depth d l \<and> is_const_at_depth d r)"
| "is_const_at_depth d (EAnd es) = list_all (is_const_at_depth d) es"
| "is_const_at_depth d (EAny e) = is_const_at_depth d e"
| "is_const_at_depth d (EAnyOp l _ r) = (is_const_at_depth d l \<and> is_const_at_depth d r)"
| "is_const_at_depth d (EAllOp l _ r) = (is_const_at_depth d l \<and> is_const_at_depth d r)"
| "is_const_at_depth d (ENot e) = is_const_at_depth d e"
| "is_const_at_depth d (EOr es) = list_all (is_const_at_depth d) es"
| "is_const_at_depth d (EIsNull e _) = is_const_at_depth d e"
| "is_const_at_depth d (EIsVariant e _) = is_const_at_depth d e"
| "is_const_at_depth d (EVariant e _) = is_const_at_depth d e"
| "is_const_at_depth d (EInList e l) = (is_const_at_depth d e \<and> is_const_at_depth d l)"
| "is_const_at_depth d (EProject e _) = is_const_at_depth d e"
| "is_const_at_depth d (ELet bs body) =
     (list_all (is_const_at_depth d) bs \<and> is_const_at_depth (Suc d) body)"
| "is_const_at_depth d (EMap b m) = (is_const_at_depth d b \<and> is_const_at_depth (Suc d) m)"
| "is_const_at_depth d (EMatch s arms els) =
     (is_const_at_depth d s \<and> list_all (\<lambda>arm. is_const_at_depth d (snd arm)) arms)"
| "is_const_at_depth d (EIsSuperset l r) = (is_const_at_depth d l \<and> is_const_at_depth d r)"
| "is_const_at_depth d (EIntersects l r) = (is_const_at_depth d l \<and> is_const_at_depth d r)"
| "is_const_at_depth d (ELength e) = is_const_at_depth d e"

definition is_const :: "expr \<Rightarrow> bool" where
  "is_const e = is_const_at_depth 0 e"

fun is_eval :: "expr \<Rightarrow> bool" where
  "is_eval (EValue _) = True"
| "is_eval (EStatic _) = True"
| "is_eval (EIdent _) = False"
| "is_eval (EArg _ _) = True"
| "is_eval (EError _) = True"
| "is_eval EDefault = False"
| "is_eval (EReference _) = False"
| "is_eval (EIncoming _) = False"
| "is_eval (EStmt _) = False"
| "is_eval (EInSubquery _ _ _ _) = False"
| "is_eval (EStartsWith _ _) = False"
| "is_eval (ELike _ _ _ _) = False"
| "is_eval (EBetween _ _ _) = False"
| "is_eval (EIsVariant _ _) = False"
| "is_eval (EVariant _ _) = False"
| "is_eval (EIsSuperset _ _) = False"
| "is_eval (EIntersects _ _) = False"
| "is_eval (ELength _) = False"
| "is_eval (ERecord es) = list_all is_eval es"
| "is_eval (EList es) = list_all is_eval es"
| "is_eval (ECast e _ _) = is_eval e"
| "is_eval (EBinaryOp l _ r) = (is_eval l \<and> is_eval r)"
| "is_eval (EAnd es) = list_all is_eval es"
| "is_eval (EAny e) = is_eval e"
| "is_eval (EAnyOp l _ r) = (is_eval l \<and> is_eval r)"
| "is_eval (EAllOp l _ r) = (is_eval l \<and> is_eval r)"
| "is_eval (EOr es) = list_all is_eval es"
| "is_eval (ENot e) = is_eval e"
| "is_eval (EIsNull e _) = is_eval e"
| "is_eval (EInList e l) = (is_eval e \<and> is_eval l)"
| "is_eval (EProject e _) = is_eval e"
| "is_eval (ELet bs body) = (list_all is_eval bs \<and> is_eval body)"
| "is_eval (EMap b m) = (is_eval b \<and> is_eval m)"
| "is_eval (EMatch s arms els) =
     (is_eval s \<and> list_all (\<lambda>arm. is_eval (snd arm)) arms \<and> is_eval els)"
| "is_eval (EExists (Query _ body _ _ _ _)) =
     (case body of SValues rows \<Rightarrow> list_all is_eval rows | _ \<Rightarrow> False)"
| "is_eval (EFunc (FJsonExtract base _ _)) = is_eval base"
| "is_eval (EFunc _) = False"

fun is_always_non_nullable :: "expr \<Rightarrow> bool" where
  "is_always_non_nullable (EValue v) = (\<not> is_null v)"
| "is_always_non_nullable (EAnd _) = True"
| "is_always_non_nullable (EOr _) = True"
| "is_always_non_nullable (ENot _) = True"
| "is_always_non_nullable (EAny _) = True"
| "is_always_non_nullable (EAnyOp _ _ _) = True"
| "is_always_non_nullable (EAllOp _ _ _) = True"
| "is_always_non_nullable (EBetween _ _ _) = True"
| "is_always_non_nullable (EBinaryOp _ _ _) = True"
| "is_always_non_nullable (EIsNull _ _) = True"
| "is_always_non_nullable (EIsVariant _ _) = True"
| "is_always_non_nullable (EExists _) = True"
| "is_always_non_nullable (EInList _ _) = True"
| "is_always_non_nullable (EInSubquery _ _ _ _) = True"
| "is_always_non_nullable (EIsSuperset _ _) = True"
| "is_always_non_nullable (EIntersects _ _) = True"
| "is_always_non_nullable (ELength _) = True"
| "is_always_non_nullable _ = False"

subsection \<open>Types of expressions\<close>

definition always_bool :: "expr \<Rightarrow> bool" where
  "always_bool e =
     (case e of
        EAnd _ \<Rightarrow> True | EOr _ \<Rightarrow> True | ENot _ \<Rightarrow> True | EAny _ \<Rightarrow> True
      | EAnyOp _ _ _ \<Rightarrow> True | EAllOp _ _ _ \<Rightarrow> True | EBetween _ _ _ \<Rightarrow> True
      | EExists _ \<Rightarrow> True | EInList _ _ \<Rightarrow> True | EInSubquery _ _ _ _ \<Rightarrow> True
      | EIntersects _ _ \<Rightarrow> True | EIsNull _ _ \<Rightarrow> True | EIsSuperset _ _ \<Rightarrow> True
      | EIsVariant _ _ \<Rightarrow> True | ELike _ _ _ _ \<Rightarrow> True | EStartsWith _ _ \<Rightarrow> True
      | EBinaryOp _ op _ \<Rightarrow> \<not> is_arithmetic op
      | _ \<Rightarrow> False)"

fun union_types :: "ty \<Rightarrow> ty list option" where
  "union_types (TUnion ts) = Some ts"
| "union_types _ = None"

lemma union_types_eq [simp]: "union_types t = Some ts \<longleftrightarrow> t = TUnion ts"
  by (cases t) auto

lemma size_arm: "arm \<in> set arms \<Longrightarrow> size (snd arm) \<le> size_list (size_prod f size) arms"
  by (rule size_list_estimation') (auto simp: size_prod_simp)

lemma size_arm_pair: "(p, e) \<in> set arms \<Longrightarrow> size e \<le> size_list (size_prod f size) arms"
  by (drule size_arm) simp

text \<open>\<open>Expr::is_a\<close>, whose fall-through arm is a \<open>todo!\<close>.\<close>

function expr_is_a :: "resolve \<Rightarrow> ty \<Rightarrow> expr \<Rightarrow> bool result" where
  "expr_is_a R t e =
     (case union_types t of
        Some ts \<Rightarrow> any_ok (\<lambda>u. expr_is_a R u e) ts
      | None \<Rightarrow>
        (case e of
           EValue v \<Rightarrow> Ok (is_a R v t)
         | ERecord es \<Rightarrow>
             (case t of
                TRecord tys \<Rightarrow>
                  (if length es = length tys
                   then all_ok (\<lambda>(x, u). expr_is_a R u x) (zip es tys)
                   else Ok False)
              | TModel m \<Rightarrow>
                  (case R m of
                     Some fs \<Rightarrow>
                       (if length es = length fs
                        then all_ok (\<lambda>(x, f). expr_is_a R (snd f) x) (zip es fs)
                        else Ok False)
                   | None \<Rightarrow> Ok True)
              | _ \<Rightarrow> Ok False)
         | EList es \<Rightarrow>
             (case t of
                TList item_ty \<Rightarrow> all_ok (expr_is_a R item_ty) es
              | _ \<Rightarrow> Ok False)
         | EFunc (FCount _ _) \<Rightarrow> Ok (t = TU64)
         | EFunc FLastInsertId \<Rightarrow> Ok (t = TI64)
         | EMatch s arms els \<Rightarrow>
             rbind (any_ok (\<lambda>arm. expr_is_a R t (snd arm)) arms)
               (\<lambda>b. if b then Ok True else expr_is_a R t els)
         | _ \<Rightarrow> if always_bool e then Ok (t = TBool) else todo))"
  by pat_completeness auto

termination
  by (relation "measures [\<lambda>(R, t, e). size e, \<lambda>(R, t, e). size t]")
    (auto simp: less_Suc_eq_le intro!: size_list_estimation' dest!: set_zip_leftD simp: size_arm_pair trans_le_add1)

declare expr_is_a.simps [simp del]

subsection \<open>Connectives\<close>

definition and_expr :: "expr \<Rightarrow> expr \<Rightarrow> expr" where
  "and_expr lhs rhs =
     (if is_true lhs then rhs
      else if is_true rhs then lhs
      else case (lhs, rhs) of
        (EAnd xs, EAnd ys) \<Rightarrow> EAnd (xs @ ys)
      | (EAnd xs, y) \<Rightarrow> EAnd (xs @ [y])
      | (x, EAnd ys) \<Rightarrow> EAnd (ys @ [x])
      | (x, y) \<Rightarrow> EAnd [x, y])"

definition or_expr :: "expr \<Rightarrow> expr \<Rightarrow> expr" where
  "or_expr lhs rhs =
     (case (lhs, rhs) of
        (EOr xs, EOr ys) \<Rightarrow> EOr (xs @ ys)
      | (EOr xs, y) \<Rightarrow> EOr (xs @ [y])
      | (x, EOr ys) \<Rightarrow> EOr (ys @ [x])
      | (x, y) \<Rightarrow> EOr [x, y])"

definition and_from_vec :: "expr list \<Rightarrow> expr" where
  "and_from_vec es = (case es of [] \<Rightarrow> EValue (VBool True) | [e] \<Rightarrow> e | _ \<Rightarrow> EAnd es)"

definition or_from_vec :: "expr list \<Rightarrow> expr" where
  "or_from_vec es = (case es of [] \<Rightarrow> EValue (VBool False) | [e] \<Rightarrow> e | _ \<Rightarrow> EOr es)"

subsection \<open>Entries\<close>

datatype entry = EntryExpr expr | EntryValue val

definition entry_step :: "entry \<Rightarrow> nat \<Rightarrow> entry option" where
  "entry_step en i =
     (case en of
        EntryExpr (ERecord es) \<Rightarrow> if i < length es then Some (EntryExpr (es ! i)) else None
      | EntryExpr (EList es) \<Rightarrow> if i < length es then Some (EntryExpr (es ! i)) else None
      | EntryValue (VRecord vs) \<Rightarrow> if i < length vs then Some (EntryValue (vs ! i)) else None
      | EntryExpr (EValue (VRecord vs)) \<Rightarrow>
          if i < length vs then Some (EntryValue (vs ! i)) else None
      | EntryValue (VList vs) \<Rightarrow> if i < length vs then Some (EntryValue (vs ! i)) else None
      | EntryExpr (EValue (VList vs)) \<Rightarrow>
          if i < length vs then Some (EntryValue (vs ! i)) else None
      | _ \<Rightarrow> None)"

fun entry_path :: "entry \<Rightarrow> projection \<Rightarrow> entry option" where
  "entry_path en [] = Some en"
| "entry_path en (i # path) = Option.bind (entry_step en i) (\<lambda>en'. entry_path en' path)"

definition expr_entry :: "expr \<Rightarrow> projection \<Rightarrow> entry option" where
  "expr_entry e path = entry_path (EntryExpr e) path"

definition entry_to_expr :: "entry \<Rightarrow> expr" where
  "entry_to_expr en = (case en of EntryExpr e \<Rightarrow> e | EntryValue v \<Rightarrow> EValue v)"

text \<open>\<open>Project for Expr\<close> and \<open>Project for Value\<close>; the latter panics out of range.\<close>

definition project_expr :: "expr \<Rightarrow> projection \<Rightarrow> expr option" where
  "project_expr e path = map_option entry_to_expr (expr_entry e path)"

definition project_value :: "val \<Rightarrow> projection \<Rightarrow> expr result" where
  "project_value v path = rmap EValue (value_entry v path)"

lemma entry_path_append:
  "entry_path en (p @ q) = Option.bind (entry_path en p) (\<lambda>en'. entry_path en' q)"
  by (induction p arbitrary: en) (auto split: Option.bind_splits)

text \<open>A literal is navigated like its value, as long as the path stays inside.\<close>

lemma entry_path_value:
  "entry_path (EntryValue v) path = Some en \<Longrightarrow> \<exists>w. en = EntryValue w \<and> value_entry v path = Ok w"
proof (induction path arbitrary: v)
  case (Cons i path)
  then show ?case
    by (cases v) (auto simp: entry_step_def split: if_splits Option.bind_splits)
qed simp

lemma project_literal:
  "project_expr (EValue v) path = Some e \<Longrightarrow> project_value v path = Ok e"
proof (cases path)
  case (Cons i path')
  assume p: "project_expr (EValue v) path = Some e"
  have step: "entry_step (EntryExpr (EValue v)) i = entry_step (EntryValue v) i"
    by (cases v) (simp_all add: entry_step_def)
  from p Cons obtain en where "entry_path (EntryValue v) path = Some en" "e = entry_to_expr en"
    by (auto simp: project_expr_def expr_entry_def step)
  moreover from entry_path_value [OF this(1)] obtain w where "en = EntryValue w"
    "value_entry v path = Ok w" by blast
  ultimately show ?thesis by (simp add: project_value_def entry_to_expr_def)
qed (simp add: project_expr_def project_value_def expr_entry_def entry_to_expr_def)

end
