(* ===== verification/Visit.thy ===== *)
theory Visit
  imports Exprs
begin

text \<open>
  Traversal of expressions (\<open>toasty-core/src/stmt/visit_mut.rs\<close>, \<open>visit.rs\<close>): one level of
  the default mutable traversal, in the order the source visits, the scoped walk, and the
  derived structural equality of expressions.
\<close>

text \<open>
  \<open>visit_expr f\<close> is the free function \<open>visit_expr_mut\<close> with a visitor whose only overridden
  method is \<open>visit_expr_mut\<close>, namely \<open>f\<close>.
\<close>

definition visit_pair :: "('b \<Rightarrow> 'c result) \<Rightarrow> 'a \<times> 'b \<Rightarrow> ('a \<times> 'c) result" where
  "visit_pair f p = rmap (Pair (fst p)) (f (snd p))"

lemma visit_pair_cong [fundef_cong]:
  "\<lbrakk>p = q; f (snd q) = g (snd q)\<rbrakk> \<Longrightarrow> visit_pair f p = visit_pair g q"
  by (simp add: visit_pair_def)

definition visit_fst :: "('a \<Rightarrow> 'c result) \<Rightarrow> 'a \<times> 'b \<Rightarrow> ('c \<times> 'b) result" where
  "visit_fst f p = rmap (\<lambda>x. (x, snd p)) (f (fst p))"

lemma visit_fst_cong [fundef_cong]:
  "\<lbrakk>p = q; f (fst q) = g (fst q)\<rbrakk> \<Longrightarrow> visit_fst f p = visit_fst g q"
  by (simp add: visit_fst_def)

definition rmap2 :: "('a \<Rightarrow> 'b \<Rightarrow> 'c) \<Rightarrow> 'a result \<Rightarrow> 'b result \<Rightarrow> 'c result" where
  "rmap2 c x y = rbind x (\<lambda>a. rmap (c a) y)"

definition rmap3 :: "('a \<Rightarrow> 'b \<Rightarrow> 'c \<Rightarrow> 'd) \<Rightarrow> 'a result \<Rightarrow> 'b result \<Rightarrow> 'c result \<Rightarrow> 'd result" where
  "rmap3 c x y z = rbind x (\<lambda>a. rmap2 (c a) y z)"

lemma rmap2_eq_Ok [result_simps]:
  "rmap2 c x y = Inr r \<longleftrightarrow> (\<exists>a b. x = Inr a \<and> y = Inr b \<and> r = c a b)"
  by (auto simp: rmap2_def rbind_eq_Ok rmap_eq_Ok)

lemma rmap3_eq_Ok [result_simps]:
  "rmap3 c x y z = Inr r \<longleftrightarrow> (\<exists>a b d. x = Inr a \<and> y = Inr b \<and> z = Inr d \<and> r = c a b d)"
  by (auto simp: rmap3_def rbind_eq_Ok rmap2_eq_Ok)

lemma rmap2_Ok [simp]: "rmap2 c (Inr a) (Inr b) = Inr (c a b)"
  by (simp add: rmap2_def)

lemma rmap3_Ok [simp]: "rmap3 c (Inr a) (Inr b) (Inr d) = Inr (c a b d)"
  by (simp add: rmap3_def)

fun visit_limit :: "(expr \<Rightarrow> expr result) \<Rightarrow> limit \<Rightarrow> limit result" where
  "visit_limit f (LCursor page after) = rmap2 LCursor (f page) (traverse_option f after)"
| "visit_limit f (LOffset lm off) = rmap2 LOffset (f lm) (traverse_option f off)"

fun visit_query :: "(expr \<Rightarrow> expr result) \<Rightarrow> query \<Rightarrow> query result"
  and visit_expr_set :: "(expr \<Rightarrow> expr result) \<Rightarrow> expr_set \<Rightarrow> expr_set result" where
  "visit_query f (Query ctes body single order lm locks) =
     rbind (traverse_option (traverse (visit_query f)) ctes) (\<lambda>ctes'.
     rbind (visit_expr_set f body) (\<lambda>body'.
     rbind (traverse_option (traverse (visit_fst f)) order) (\<lambda>order'.
     rmap (\<lambda>lm'. Query ctes' body' single order' lm' locks)
       (traverse_option (visit_limit f) lm))))"
| "visit_expr_set f (SSelect s) = Ok (SSelect s)"
| "visit_expr_set f (SSetOp op operands) = rmap (SSetOp op) (traverse (visit_expr_set f) operands)"
| "visit_expr_set f (SUpdate s) = Ok (SUpdate s)"
| "visit_expr_set f (SDelete s) = Ok (SDelete s)"
| "visit_expr_set f (SValues rows) = rmap SValues (traverse f rows)"
| "visit_expr_set f (SInsert s) = Ok (SInsert s)"

fun visit_stmt :: "(expr \<Rightarrow> expr result) \<Rightarrow> stmt \<Rightarrow> stmt result" where
  "visit_stmt f (StQuery q) = rmap StQuery (visit_query f q)"
| "visit_stmt f s = Ok s"

fun visit_func :: "(expr \<Rightarrow> expr result) \<Rightarrow> expr_func \<Rightarrow> expr_func result" where
  "visit_func f (FCount arg fil) = rmap2 FCount (traverse_option f arg) (traverse_option f fil)"
| "visit_func f FLastInsertId = Ok FLastInsertId"
| "visit_func f (FJsonExtract base path ty) = rmap (\<lambda>b. FJsonExtract b path ty) (f base)"
| "visit_func f (FUnnest arg) = rmap FUnnest (f arg)"

fun visit_expr :: "(expr \<Rightarrow> expr result) \<Rightarrow> expr \<Rightarrow> expr result" where
  "visit_expr f (EAllOp l op r) = rmap2 (\<lambda>a b. EAllOp a op b) (f l) (f r)"
| "visit_expr f (EAnd es) = rmap EAnd (traverse f es)"
| "visit_expr f (EAny e) = rmap EAny (f e)"
| "visit_expr f (EAnyOp l op r) = rmap2 (\<lambda>a b. EAnyOp a op b) (f l) (f r)"
| "visit_expr f (EArg p n) = Ok (EArg p n)"
| "visit_expr f (EBetween e l h) = rmap3 EBetween (f e) (f l) (f h)"
| "visit_expr f (EBinaryOp l op r) = rmap2 (\<lambda>a b. EBinaryOp a op b) (f l) (f r)"
| "visit_expr f (ECast e from ty) = rmap (\<lambda>a. ECast a from ty) (f e)"
| "visit_expr f EDefault = Ok EDefault"
| "visit_expr f (EError m) = Ok (EError m)"
| "visit_expr f (EExists q) = rmap EExists (visit_query f q)"
| "visit_expr f (EFunc fn) = rmap EFunc (visit_func f fn)"
| "visit_expr f (EIdent s) = Ok (EIdent s)"
| "visit_expr f (EInList e l) = rmap2 EInList (f e) (f l)"
| "visit_expr f (EInSubquery e q neg rk) =
     rmap2 (\<lambda>a b. EInSubquery a b neg rk) (f e) (visit_query f q)"
| "visit_expr f (EIncoming i) = Ok (EIncoming i)"
| "visit_expr f (EIntersects l r) = rmap2 EIntersects (f l) (f r)"
| "visit_expr f (EIsNull e neg) = rmap (\<lambda>a. EIsNull a neg) (f e)"
| "visit_expr f (EIsSuperset l r) = rmap2 EIsSuperset (f l) (f r)"
| "visit_expr f (EIsVariant e v) = rmap (\<lambda>a. EIsVariant a v) (f e)"
| "visit_expr f (EVariant e v) = rmap (\<lambda>a. EVariant a v) (f e)"
| "visit_expr f (ELength e) = rmap ELength (f e)"
| "visit_expr f (ELet bs body) = rmap2 ELet (traverse f bs) (f body)"
| "visit_expr f (ELike e p esc ci) = rmap2 (\<lambda>a b. ELike a b esc ci) (f e) (f p)"
| "visit_expr f (EMap b m) = rmap2 EMap (f b) (f m)"
| "visit_expr f (EMatch s arms els) =
     rmap3 EMatch (f s) (traverse (visit_pair f) arms) (f els)"
| "visit_expr f (ENot e) = rmap ENot (f e)"
| "visit_expr f (EOr es) = rmap EOr (traverse f es)"
| "visit_expr f (EProject e path) = rmap (\<lambda>a. EProject a path) (f e)"
| "visit_expr f (ERecord es) = rmap ERecord (traverse f es)"
| "visit_expr f (EReference r) = Ok (EReference r)"
| "visit_expr f (EList es) = rmap EList (traverse f es)"
| "visit_expr f (EStartsWith e p) = rmap2 EStartsWith (f e) (f p)"
| "visit_expr f (EStmt s) = rmap EStmt (visit_stmt f s)"
| "visit_expr f (EValue v) = Ok (EValue v)"
| "visit_expr f (EStatic v) = Ok (EStatic v)"

subsection \<open>The expressions directly below a node\<close>

fun limit_exprs :: "limit \<Rightarrow> expr list" where
  "limit_exprs (LCursor page after) = page # (case after of None \<Rightarrow> [] | Some e \<Rightarrow> [e])"
| "limit_exprs (LOffset lm off) = lm # (case off of None \<Rightarrow> [] | Some e \<Rightarrow> [e])"

fun query_exprs :: "query \<Rightarrow> expr list"
  and set_exprs :: "expr_set \<Rightarrow> expr list" where
  "query_exprs (Query ctes body single order lm locks) =
     (case ctes of None \<Rightarrow> [] | Some qs \<Rightarrow> concat (map query_exprs qs)) @
     set_exprs body @
     (case order of None \<Rightarrow> [] | Some os \<Rightarrow> map fst os) @
     (case lm of None \<Rightarrow> [] | Some l \<Rightarrow> limit_exprs l)"
| "set_exprs (SSetOp op operands) = concat (map set_exprs operands)"
| "set_exprs (SValues rows) = rows"
| "set_exprs (SSelect s) = []"
| "set_exprs (SUpdate s) = []"
| "set_exprs (SDelete s) = []"
| "set_exprs (SInsert s) = []"

fun stmt_exprs :: "stmt \<Rightarrow> expr list" where
  "stmt_exprs (StQuery q) = query_exprs q"
| "stmt_exprs _ = []"

fun func_exprs :: "expr_func \<Rightarrow> expr list" where
  "func_exprs (FCount arg fil) =
     (case arg of None \<Rightarrow> [] | Some e \<Rightarrow> [e]) @ (case fil of None \<Rightarrow> [] | Some e \<Rightarrow> [e])"
| "func_exprs FLastInsertId = []"
| "func_exprs (FJsonExtract base path ty) = [base]"
| "func_exprs (FUnnest arg) = [arg]"

fun children :: "expr \<Rightarrow> expr list" where
  "children (EAllOp l op r) = [l, r]"
| "children (EAnd es) = es"
| "children (EAny e) = [e]"
| "children (EAnyOp l op r) = [l, r]"
| "children (EBetween e l h) = [e, l, h]"
| "children (EBinaryOp l op r) = [l, r]"
| "children (ECast e from ty) = [e]"
| "children (EExists q) = query_exprs q"
| "children (EFunc fn) = func_exprs fn"
| "children (EInList e l) = [e, l]"
| "children (EInSubquery e q neg rk) = e # query_exprs q"
| "children (EIntersects l r) = [l, r]"
| "children (EIsNull e neg) = [e]"
| "children (EIsSuperset l r) = [l, r]"
| "children (EIsVariant e v) = [e]"
| "children (EVariant e v) = [e]"
| "children (ELength e) = [e]"
| "children (ELet bs body) = bs @ [body]"
| "children (ELike e p esc ci) = [e, p]"
| "children (EMap b m) = [b, m]"
| "children (EMatch s arms els) = s # map snd arms @ [els]"
| "children (ENot e) = [e]"
| "children (EOr es) = es"
| "children (EProject e path) = [e]"
| "children (ERecord es) = es"
| "children (EList es) = es"
| "children (EStartsWith e p) = [e, p]"
| "children (EStmt s) = stmt_exprs s"
| "children _ = []"

lemma size_in_list: "x \<in> set xs \<Longrightarrow> size x \<le> size_list size xs"
  by (simp add: size_list_estimation')

lemma limit_exprs_size: "e \<in> set (limit_exprs l) \<Longrightarrow> size e < size l"
  by (cases l) (auto split: option.splits)

lemma query_exprs_size:
  "e \<in> set (query_exprs q) \<Longrightarrow> size e < size q"
  "e \<in> set (set_exprs s) \<Longrightarrow> size e < size s"
proof (induction q and s rule: query_exprs_set_exprs.induct)
  case (1 ctes body single order lm locks)
  consider qs q where "ctes = Some qs" "q \<in> set qs" "e \<in> set (query_exprs q)"
    | "e \<in> set (set_exprs body)"
    | os d where "order = Some os" "(e, d) \<in> set os"
    | l where "lm = Some l" "e \<in> set (limit_exprs l)"
    using "1.prems" by (auto split: option.splits)
  then show ?case
  proof cases
    case (1 qs q)
    then show ?thesis
      using "1.IH"(1) [of qs q] size_in_list [of q qs] by simp
  next
    case 2
    then show ?thesis using "1.IH"(2) by simp
  next
    case (3 os d)
    have "size e < Suc (size_list (size_prod size (\<lambda>_. 0)) os)"
      using 3(2) by (induction os) auto
    with 3 show ?thesis by simp
  next
    case (4 l)
    then show ?thesis using limit_exprs_size [of e l] by simp
  qed
next
  case (2 op operands)
  then obtain s where s: "s \<in> set operands" "e \<in> set (set_exprs s)" by auto
  then have "size e < size s" using 2 by blast
  with size_in_list [OF s(1)] show ?case by simp
next
  case (3 rows)
  then show ?case using size_in_list [of e rows] by simp
qed auto

lemma children_size: "c \<in> set (children e) \<Longrightarrow> size c < size e"
proof (cases e)
  case (EExists q)
  assume "c \<in> set (children e)"
  with EExists show ?thesis using query_exprs_size(1) [of c q] by simp
next
  case (EInSubquery x q neg rk)
  assume "c \<in> set (children e)"
  with EInSubquery show ?thesis using query_exprs_size(1) [of c q] by auto
next
  case (EStmt s)
  assume "c \<in> set (children e)"
  with EStmt show ?thesis
    using query_exprs_size(1) [of c] by (cases s) fastforce+
next
  case (EFunc fn)
  assume "c \<in> set (children e)"
  with EFunc show ?thesis by (cases fn) (auto split: option.splits)
next
  case (EMatch s arms els)
  assume "c \<in> set (children e)"
  with EMatch show ?thesis by (auto simp: less_Suc_eq_le dest: size_arm_pair [where f = "\<lambda>_. 0"])
qed (use size_in_list [of c] in \<open>auto simp: less_Suc_eq_le intro: le_SucI trans_le_add1\<close>)

text \<open>Two visitors that agree below a node visit it alike, so recursion through
  \<open>visit_expr\<close> is recursion on the expression.\<close>

lemma traverse_option_same:
  "(\<And>a. x = Some a \<Longrightarrow> f a = g a) \<Longrightarrow> traverse_option f x = traverse_option g x"
  by (cases x) simp_all

lemma visit_limit_same:
  "(\<And>e. e \<in> set (limit_exprs l) \<Longrightarrow> f e = g e) \<Longrightarrow> visit_limit f l = visit_limit g l"
  by (cases l) (auto intro: traverse_option_same intro!: arg_cong2 [of _ _ _ _ "rmap2 _"])

lemma visit_query_same:
  "(\<And>e. e \<in> set (query_exprs q) \<Longrightarrow> f e = g e) \<Longrightarrow> visit_query f q = visit_query g q"
  "(\<And>e. e \<in> set (set_exprs s) \<Longrightarrow> f e = g e) \<Longrightarrow> visit_expr_set f s = visit_expr_set g s"
proof (induction q and s rule: query_exprs_set_exprs.induct)
  case (1 ctes body single order lm locks)
  have "traverse_option (traverse (visit_query f)) ctes = traverse_option (traverse (visit_query g)) ctes"
  proof (intro traverse_option_same traverse_cong refl)
    fix qs q assume "ctes = Some qs" "q \<in> set qs"
    then show "visit_query f q = visit_query g q"
      by (rule "1.IH"(1)) (use \<open>ctes = Some qs\<close> \<open>q \<in> set qs\<close> in \<open>auto intro!: "1.prems"\<close>)
  qed
  moreover have "visit_expr_set f body = visit_expr_set g body"
    using 1 by auto
  moreover have "traverse_option (traverse (visit_fst f)) order = traverse_option (traverse (visit_fst g)) order"
    using 1 by (intro traverse_option_same traverse_cong refl visit_fst_cong) auto
  moreover have "traverse_option (visit_limit f) lm = traverse_option (visit_limit g) lm"
    using 1 by (intro traverse_option_same visit_limit_same) auto
  ultimately show ?case by simp
qed (auto intro!: arg_cong [of _ _ "rmap _"] traverse_cong)

lemma visit_expr_cong [fundef_cong]:
  assumes "e = e'" and same: "\<And>c. c \<in> set (children e') \<Longrightarrow> f c = g c"
  shows "visit_expr f e = visit_expr g e'"
proof (cases e')
  case (EExists q)
  with assms show ?thesis by (simp add: visit_query_same(1) [of q f g])
next
  case (EInSubquery x q neg rk)
  with assms show ?thesis by (simp add: visit_query_same(1) [of q f g])
next
  case (EStmt s)
  with assms show ?thesis by (cases s) (simp_all add: visit_query_same(1) [of _ f g])
next
  case (EFunc fn)
  with assms show ?thesis
    by (cases fn) (auto intro!: arg_cong2 [of _ _ _ _ "rmap2 _"] traverse_option_same arg_cong [of _ _ "rmap _"])
next
  case (EMatch s arms els)
  have "traverse (visit_pair f) arms = traverse (visit_pair g) arms"
    using EMatch by (intro traverse_cong refl visit_pair_cong) (simp add: same)
  with EMatch assms show ?thesis by simp
next
  case (ELet bs body)
  have "traverse f bs = traverse g bs"
    using ELet by (intro traverse_cong refl) (simp add: same)
  with ELet assms show ?thesis by simp
qed (use assms in \<open>auto intro!: arg_cong [of _ _ "rmap _"] traverse_cong\<close>)

text \<open>A visitor that never fails.\<close>

definition map_children :: "(expr \<Rightarrow> expr) \<Rightarrow> expr \<Rightarrow> expr" where
  "map_children g e = projr (visit_expr (\<lambda>x. Ok (g x)) e)"

lemma map_children_cong [fundef_cong]:
  "\<lbrakk>e = e'; \<And>c. c \<in> set (children e') \<Longrightarrow> f c = g c\<rbrakk> \<Longrightarrow> map_children f e = map_children g e'"
  unfolding map_children_def by (rule arg_cong [of _ _ projr]) (rule visit_expr_cong; simp)

lemma traverse_pure [simp]: "traverse (\<lambda>x. Ok (g x)) xs = Ok (map g xs)"
  by (rule traverse_Ok_map) simp

lemma traverse_visit_pair_pure [simp]:
  "traverse (visit_pair (\<lambda>x. Ok (g x))) arms = Ok (map (map_prod id g) arms)"
  by (rule traverse_Ok_map) (simp add: visit_pair_def map_prod_def split: prod.split)

lemma traverse_option_pure [simp]: "traverse_option (\<lambda>x. Ok (g x)) x = Ok (map_option g x)"
  by (cases x) simp_all

lemma visit_fst_pure [simp]: "visit_fst (\<lambda>x. Ok (g x)) p = Ok (g (fst p), snd p)"
  by (simp add: visit_fst_def)

lemma visit_limit_total: "\<exists>l'. visit_limit (\<lambda>x. Ok (g x)) l = Ok l'"
  by (cases l) simp_all

lemma visit_query_total:
  "\<exists>q'. visit_query (\<lambda>x. Ok (g x)) q = Ok q'"
  "\<exists>s'. visit_expr_set (\<lambda>x. Ok (g x)) s = Ok s'"
proof (induction q and s rule: query_exprs_set_exprs.induct)
  case (1 ctes body single order lm locks)
  have "\<exists>c. traverse_option (traverse (visit_query (\<lambda>x. Ok (g x)))) ctes = Ok c"
    using 1 by (cases ctes) (auto intro!: traverse_all_Ok simp: rmap_eq_Ok)
  moreover have "\<exists>l. traverse_option (visit_limit (\<lambda>x. Ok (g x))) lm = Ok l"
    using visit_limit_total by (cases lm) (auto simp: rmap_eq_Ok)
  moreover have "\<exists>os. traverse_option (traverse (visit_fst (\<lambda>x. Ok (g x)))) order = Ok os"
    by (cases order) (auto intro!: traverse_all_Ok simp: rmap_eq_Ok)
  ultimately show ?case
    using 1 by auto
qed (auto intro!: traverse_all_Ok simp: rmap_eq_Ok)

lemma map_children_visit: "visit_expr (\<lambda>x. Ok (g x)) e = Ok (map_children g e)"
proof -
  have "\<exists>e'. visit_expr (\<lambda>x. Ok (g x)) e = Ok e'"
  proof (cases e)
    case (EFunc fn)
    then show ?thesis by (cases fn) simp_all
  next
    case (EStmt s)
    then show ?thesis using visit_query_total(1) by (cases s) (auto simp: rmap_eq_Ok)
  next
    case (EExists q)
    then show ?thesis using visit_query_total(1) [of g q] by auto
  next
    case (EInSubquery x q neg rk)
    then show ?thesis using visit_query_total(1) [of g q] by auto
  qed simp_all
  then show ?thesis by (auto simp: map_children_def)
qed

lemma map_children_simps [simp]:
  "map_children g (EAllOp l op r) = EAllOp (g l) op (g r)"
  "map_children g (EAnd es) = EAnd (map g es)"
  "map_children g (EAny e) = EAny (g e)"
  "map_children g (EAnyOp l op r) = EAnyOp (g l) op (g r)"
  "map_children g (EArg i n) = EArg i n"
  "map_children g (EBetween e lo hi) = EBetween (g e) (g lo) (g hi)"
  "map_children g (EBinaryOp l op r) = EBinaryOp (g l) op (g r)"
  "map_children g (ECast e from ty) = ECast (g e) from ty"
  "map_children g EDefault = EDefault"
  "map_children g (EError msg) = EError msg"
  "map_children g (EIdent s) = EIdent s"
  "map_children g (EInList e l) = EInList (g e) (g l)"
  "map_children g (EIncoming k) = EIncoming k"
  "map_children g (EIntersects l r) = EIntersects (g l) (g r)"
  "map_children g (EIsNull e neg) = EIsNull (g e) neg"
  "map_children g (EIsSuperset l r) = EIsSuperset (g l) (g r)"
  "map_children g (EIsVariant e vid) = EIsVariant (g e) vid"
  "map_children g (EVariant e vid) = EVariant (g e) vid"
  "map_children g (ELength e) = ELength (g e)"
  "map_children g (ELet bs body) = ELet (map g bs) (g body)"
  "map_children g (ELike e p esc ci) = ELike (g e) (g p) esc ci"
  "map_children g (EMap b m) = EMap (g b) (g m)"
  "map_children g (EMatch e arms els) = EMatch (g e) (map (map_prod id g) arms) (g els)"
  "map_children g (ENot e) = ENot (g e)"
  "map_children g (EOr es) = EOr (map g es)"
  "map_children g (EProject e path) = EProject (g e) path"
  "map_children g (ERecord es) = ERecord (map g es)"
  "map_children g (EReference ref) = EReference ref"
  "map_children g (EList es) = EList (map g es)"
  "map_children g (EStartsWith e p) = EStartsWith (g e) (g p)"
  "map_children g (EValue v) = EValue v"
  "map_children g (EStatic v) = EStatic v"
  "map_children g (EFunc (FJsonExtract e keys ty)) = EFunc (FJsonExtract (g e) keys ty)"
  "map_children g (EFunc (FUnnest e)) = EFunc (FUnnest (g e))"
  "map_children g (EFunc FLastInsertId) = EFunc FLastInsertId"
  by (simp_all add: map_children_def)

subsection \<open>The scoped walk\<close>

text \<open>
  \<open>walk_expr_scoped_mut\<close>: a callback that replaces the expression and stops (\<open>Some\<close>) or lets
  the walk go on (\<open>None\<close>), given the number of \<open>Let\<close> and \<open>Map\<close> scopes entered.  Every callback
  of the code either replaces and stops, or leaves the expression alone.
\<close>

datatype scope_view = ScopeLet "expr list" expr | ScopeMap expr expr | ScopeNone

fun view_scope :: "expr \<Rightarrow> scope_view" where
  "view_scope (ELet bs body) = ScopeLet bs body"
| "view_scope (EMap b m) = ScopeMap b m"
| "view_scope _ = ScopeNone"

lemma view_scope_eq [simp]:
  "view_scope e = ScopeLet bs body \<longleftrightarrow> e = ELet bs body"
  "view_scope e = ScopeMap b m \<longleftrightarrow> e = EMap b m"
  by (cases e; simp)+

function walk_scoped :: "(expr \<Rightarrow> nat \<Rightarrow> expr option) \<Rightarrow> nat \<Rightarrow> expr \<Rightarrow> expr" where
  "walk_scoped f d e =
     (case f e d of
        Some e' \<Rightarrow> e'
      | None \<Rightarrow>
          (case view_scope e of
             ScopeLet bs body \<Rightarrow> ELet (map (walk_scoped f d) bs) (walk_scoped f (Suc d) body)
           | ScopeMap b m \<Rightarrow> EMap (walk_scoped f d b) (walk_scoped f (Suc d) m)
           | ScopeNone \<Rightarrow> map_children (walk_scoped f d) e))"
  by pat_completeness auto

termination
  by (relation "measure (\<lambda>(f, d, e). size e)")
    (auto dest: children_size size_in_list simp: less_Suc_eq_le)

declare walk_scoped.simps [simp del]

function for_all_exprs :: "(expr \<Rightarrow> bool) \<Rightarrow> expr \<Rightarrow> bool" where
  "for_all_exprs p e = (list_all (for_all_exprs p) (children e) \<and> p e)"
  by pat_completeness auto

termination
  by (relation "measure (\<lambda>(p, e). size e)") (auto dest: children_size)

declare for_all_exprs.simps [simp del]

lemma for_all_exprs_simps [simp]:
  "for_all_exprs p (EAllOp l op r) \<longleftrightarrow>
     for_all_exprs p l \<and> for_all_exprs p r \<and> p (EAllOp l op r)"
  "for_all_exprs p (EAnd es) \<longleftrightarrow>
     list_all (for_all_exprs p) es \<and> p (EAnd es)"
  "for_all_exprs p (EAny e) \<longleftrightarrow>
     for_all_exprs p e \<and> p (EAny e)"
  "for_all_exprs p (EAnyOp l op r) \<longleftrightarrow>
     for_all_exprs p l \<and> for_all_exprs p r \<and> p (EAnyOp l op r)"
  "for_all_exprs p (EBetween e lo hi) \<longleftrightarrow>
     for_all_exprs p e \<and> for_all_exprs p lo \<and> for_all_exprs p hi \<and> p (EBetween e lo hi)"
  "for_all_exprs p (EBinaryOp l op r) \<longleftrightarrow>
     for_all_exprs p l \<and> for_all_exprs p r \<and> p (EBinaryOp l op r)"
  "for_all_exprs p (ECast e from t) \<longleftrightarrow>
     for_all_exprs p e \<and> p (ECast e from t)"
  "for_all_exprs p (EInList e l) \<longleftrightarrow>
     for_all_exprs p e \<and> for_all_exprs p l \<and> p (EInList e l)"
  "for_all_exprs p (EIntersects l r) \<longleftrightarrow>
     for_all_exprs p l \<and> for_all_exprs p r \<and> p (EIntersects l r)"
  "for_all_exprs p (EIsNull e neg) \<longleftrightarrow>
     for_all_exprs p e \<and> p (EIsNull e neg)"
  "for_all_exprs p (EIsSuperset l r) \<longleftrightarrow>
     for_all_exprs p l \<and> for_all_exprs p r \<and> p (EIsSuperset l r)"
  "for_all_exprs p (EIsVariant e vid) \<longleftrightarrow>
     for_all_exprs p e \<and> p (EIsVariant e vid)"
  "for_all_exprs p (EVariant e vid) \<longleftrightarrow>
     for_all_exprs p e \<and> p (EVariant e vid)"
  "for_all_exprs p (ELength e) \<longleftrightarrow>
     for_all_exprs p e \<and> p (ELength e)"
  "for_all_exprs p (ELike e x esc ci) \<longleftrightarrow>
     for_all_exprs p e \<and> for_all_exprs p x \<and> p (ELike e x esc ci)"
  "for_all_exprs p (ENot e) \<longleftrightarrow>
     for_all_exprs p e \<and> p (ENot e)"
  "for_all_exprs p (EOr es) \<longleftrightarrow>
     list_all (for_all_exprs p) es \<and> p (EOr es)"
  "for_all_exprs p (EProject e path) \<longleftrightarrow>
     for_all_exprs p e \<and> p (EProject e path)"
  "for_all_exprs p (ERecord es) \<longleftrightarrow>
     list_all (for_all_exprs p) es \<and> p (ERecord es)"
  "for_all_exprs p (EList es) \<longleftrightarrow>
     list_all (for_all_exprs p) es \<and> p (EList es)"
  "for_all_exprs p (EStartsWith e x) \<longleftrightarrow>
     for_all_exprs p e \<and> for_all_exprs p x \<and> p (EStartsWith e x)"
  "for_all_exprs p (EFunc (FJsonExtract e keys t)) \<longleftrightarrow>
     for_all_exprs p e \<and> p (EFunc (FJsonExtract e keys t))"
  "for_all_exprs p (EFunc (FUnnest e)) \<longleftrightarrow>
     for_all_exprs p e \<and> p (EFunc (FUnnest e))"
  "for_all_exprs p (EFunc FLastInsertId) \<longleftrightarrow> p (EFunc FLastInsertId)"
  "for_all_exprs p (EValue v) \<longleftrightarrow> p (EValue v)"
  "for_all_exprs p (EStatic v) \<longleftrightarrow> p (EStatic v)"
  "for_all_exprs p EDefault \<longleftrightarrow> p EDefault"
  "for_all_exprs p (EError msg) \<longleftrightarrow> p (EError msg)"
  "for_all_exprs p (EIdent msg) \<longleftrightarrow> p (EIdent msg)"
  "for_all_exprs p (EIncoming k) \<longleftrightarrow> p (EIncoming k)"
  "for_all_exprs p (EReference ref) \<longleftrightarrow> p (EReference ref)"
  "for_all_exprs p (ELet es e) \<longleftrightarrow>
     list_all (for_all_exprs p) es \<and> for_all_exprs p e \<and> p (ELet es e)"
  "for_all_exprs p (EMap e l) \<longleftrightarrow>
     for_all_exprs p e \<and> for_all_exprs p l \<and> p (EMap e l)"
  "for_all_exprs p (EMatch e arms els) \<longleftrightarrow>
     for_all_exprs p e \<and> list_all (\<lambda>arm. for_all_exprs p (snd arm)) arms \<and> for_all_exprs p els \<and> p (EMatch e arms els)"
  "for_all_exprs p (EArg i n) \<longleftrightarrow> p (EArg i n)"
  by (subst for_all_exprs.simps, simp add: list_all_iff conj_ac)+

subsection \<open>Equality\<close>

text \<open>The derived \<open>PartialEq\<close>: structural, except that a literal NaN differs from itself.\<close>

definition node_has_nan :: "expr \<Rightarrow> bool" where
  "node_has_nan e =
     (case e of
        EValue v \<Rightarrow> has_nan v
      | EStatic v \<Rightarrow> has_nan v
      | EMatch s arms els \<Rightarrow> list_ex (\<lambda>arm. has_nan (fst arm)) arms
      | _ \<Rightarrow> False)"

definition expr_eq :: "expr \<Rightarrow> expr \<Rightarrow> bool" where
  "expr_eq a b \<longleftrightarrow> a = b \<and> for_all_exprs (\<lambda>e. \<not> node_has_nan e) a"

lemma expr_eq_sym: "expr_eq a b = expr_eq b a"
  by (auto simp: expr_eq_def)

subsection \<open>Every expression\<close>

text \<open>
  The read-only traversal (\<open>toasty-core/src/stmt/visit.rs\<close>): the expressions below a node are those the
  default visitors go to, in their order (\<open>children\<close> and its parts), and
  \<open>for_each_expr\<close> visits all of them in post-order.  The bodies of \<open>SELECT\<close>, \<open>INSERT\<close>, \<open>UPDATE\<close> and
  \<open>DELETE\<close> are opaque and are not entered.
\<close>


function each_expr :: "expr \<Rightarrow> expr list" where
  "each_expr e = concat (map each_expr (children e)) @ [e]"
  by pat_completeness auto

termination
  by (relation "measure size") (auto dest: children_size)

declare each_expr.simps [simp del]

lemma each_expr_self: "e \<in> set (each_expr e)"
  by (subst each_expr.simps) simp

lemma each_expr_last: "last (each_expr e) = e"
  by (subst each_expr.simps) simp

lemma for_all_each: "for_all_exprs p e \<longleftrightarrow> (\<forall>x \<in> set (each_expr e). p x)"
proof (induction e rule: each_expr.induct)
  case (1 e)
  show ?case
    by (subst for_all_exprs.simps, subst each_expr.simps) (auto simp: list_all_iff 1)
qed

lemma each_expr_trans: "x \<in> set (each_expr e) \<Longrightarrow> y \<in> set (each_expr x) \<Longrightarrow> y \<in> set (each_expr e)"
proof (induction e rule: each_expr.induct)
  case (1 e)
  from "1.prems"(1) consider "x = e" | c where "c \<in> set (children e)" "x \<in> set (each_expr c)"
    by (subst (asm) each_expr.simps) auto
  then show ?case
  proof cases
    case 1
    with "1.prems"(2) show ?thesis by simp
  next
    case (2 c)
    from "1.IH" [OF this "1.prems"(2)] 2(1) show ?thesis by (subst each_expr.simps) auto
  qed
qed

end
