(* ===== verification/Sem.thy ===== *)
theory Sem
  imports Visit
begin

text \<open>
  The reference semantics of scalar expressions: SQL's three-valued logic over the engine's
  values.  It is the specification the canonicalization pass and the client-side evaluator
  are compared with, and it is partial: \<open>None\<close> stands for an expression without a value
  (an error, an overflow, a comparison of incomparable operands).

  What the engine leaves to the database is a parameter: external arguments, references,
  statements and the operators the client never computes are given by an \<open>interp\<close>.
\<close>

record interp =
  i_uuid :: uuid_ops
  i_models :: resolve
  i_arg :: "nat \<Rightarrow> nat \<Rightarrow> val option"
  i_leaf :: "expr \<Rightarrow> val option"
  i_op :: "expr \<Rightarrow> val list \<Rightarrow> val option"

definition truth :: "val \<Rightarrow> bool" where
  "truth v \<longleftrightarrow> v = VNull \<or> v = VBool True \<or> v = VBool False"

definition and3 :: "val list \<Rightarrow> val option" where
  "and3 vs =
     (if \<not> list_all truth vs then None
      else if VBool False \<in> set vs then Some (VBool False)
      else if VNull \<in> set vs then Some VNull
      else Some (VBool True))"

definition or3 :: "val list \<Rightarrow> val option" where
  "or3 vs =
     (if \<not> list_all truth vs then None
      else if VBool True \<in> set vs then Some (VBool True)
      else if VNull \<in> set vs then Some VNull
      else Some (VBool False))"

definition not3 :: "val \<Rightarrow> val option" where
  "not3 v = (case v of VBool b \<Rightarrow> Some (VBool (\<not> b)) | VNull \<Rightarrow> Some VNull | _ \<Rightarrow> None)"

definition is_bool :: "val \<Rightarrow> bool" where
  "is_bool v \<longleftrightarrow> v = VBool True \<or> v = VBool False"

text \<open>Comparing a boolean with anything else has no value.\<close>

fun op_values :: "binop \<Rightarrow> val \<Rightarrow> val \<Rightarrow> val option" where
  "op_values OpEq a b = (if is_bool a = is_bool b then Some (VBool (value_eq a b)) else None)"
| "op_values OpNe a b = (if is_bool a = is_bool b then Some (VBool (\<not> value_eq a b)) else None)"
| "op_values OpLt a b = map_option (\<lambda>c. VBool (c = Less)) (partial_cmp a b)"
| "op_values OpLe a b = map_option (\<lambda>c. VBool (c \<noteq> Greater)) (partial_cmp a b)"
| "op_values OpGt a b = map_option (\<lambda>c. VBool (c = Greater)) (partial_cmp a b)"
| "op_values OpGe a b = map_option (\<lambda>c. VBool (c \<noteq> Less)) (partial_cmp a b)"
| "op_values OpAdd a b = checked_add a b"
| "op_values OpSub a b = checked_sub a b"

definition sem_op :: "binop \<Rightarrow> val \<Rightarrow> val \<Rightarrow> val option" where
  "sem_op op a b = (if a = VNull \<or> b = VNull then Some VNull else op_values op a b)"

text \<open>
  \<open>NULL IN ()\<close> is left without a value: a membership test on the empty list is false, one of
  \<open>NULL\<close> is \<open>NULL\<close>, and the source applies both rules.
\<close>

definition sem_in :: "val \<Rightarrow> val list \<Rightarrow> val option" where
  "sem_in x vs =
     (if x = VNull \<and> vs = [] then None else Option.bind (opt_all (sem_op OpEq x) vs) or3)"

definition sem_quantified ::
  "(val list \<Rightarrow> val option) \<Rightarrow> binop \<Rightarrow> val \<Rightarrow> val list \<Rightarrow> val option" where
  "sem_quantified q op x vs =
     (if is_arithmetic op then None else Option.bind (opt_all (sem_op op x) vs) q)"

definition as_ok :: "'a result \<Rightarrow> 'a option" where
  "as_ok r = (case r of Inr a \<Rightarrow> Some a | Inl _ \<Rightarrow> None)"

lemma as_ok_simps [simp]: "as_ok (Inr a) = Some a" "as_ok (Inl e) = None"
  by (simp_all add: as_ok_def)

definition arm_for :: "val \<Rightarrow> (val \<times> 'a) list \<Rightarrow> 'a \<Rightarrow> 'a" where
  "arm_for v arms els =
     (case filter (\<lambda>arm. value_eq v (fst arm)) arms of [] \<Rightarrow> els | arm # _ \<Rightarrow> snd arm)"

definition opt2 :: "('a \<Rightarrow> 'b \<Rightarrow> 'c option) \<Rightarrow> 'a option \<Rightarrow> 'b option \<Rightarrow> 'c option" where
  "opt2 f a b = Option.bind a (\<lambda>x. Option.bind b (f x))"

definition opt3 :: "('a \<Rightarrow> 'b \<Rightarrow> 'c \<Rightarrow> 'd option) \<Rightarrow> 'a option \<Rightarrow> 'b option \<Rightarrow> 'c option \<Rightarrow> 'd option" where
  "opt3 f a b c = Option.bind a (\<lambda>x. opt2 (f x) b c)"

definition on_list :: "(val list \<Rightarrow> val option) \<Rightarrow> val \<Rightarrow> val option" where
  "on_list f v = Option.bind (as_list v) f"

lemma arm_for_cases: "arm_for v arms els = els \<or> arm_for v arms els \<in> snd ` set arms"
proof (cases "filter (\<lambda>arm. value_eq v (fst arm)) arms")
  case (Cons arm rest)
  then have "arm \<in> set arms" by (metis filter_is_subset list.set_intros(1) subsetD)
  with Cons show ?thesis by (simp add: arm_for_def)
qed (simp add: arm_for_def)

lemma arm_for_all: "(\<And>arm. arm \<in> set arms \<Longrightarrow> P (snd arm)) \<Longrightarrow> P els \<Longrightarrow> P (arm_for v arms els)"
  using arm_for_cases [of v arms els] by auto

lemma arm_for_map: "arm_for v (map (map_prod id g) arms) (g els) = g (arm_for v arms els)"
  by (induction arms) (auto simp: arm_for_def)

lemma Option_bind_cong [fundef_cong]:
  "\<lbrakk>x = y; \<And>a. y = Some a \<Longrightarrow> f a = g a\<rbrakk> \<Longrightarrow> Option.bind x f = Option.bind y g"
  by (cases y) auto

lemma size_arm_for: "size (arm_for v arms els) < Suc (size_list (size_prod (\<lambda>_. 0) size) arms + size els)"
  using arm_for_cases [of v arms els]
  by (auto simp: less_Suc_eq_le dest: size_arm_pair [where f = "\<lambda>_. 0"])

lemma size_arm_for_le:
  "size (arm_for v arms els) \<le> size_list (size_prod (\<lambda>_. 0) size) arms + k + size els"
  using size_arm_for [of v arms els] by linarith

function sem :: "interp \<Rightarrow> val list list \<Rightarrow> expr \<Rightarrow> val option" where
  "sem I \<rho> (EValue v) = Some v"
| "sem I \<rho> (EStatic v) = Some v"
| "sem I \<rho> (EArg i n) =
     (if n < length \<rho>
      then (if i < length (\<rho> ! n) then Some (\<rho> ! n ! i) else None)
      else i_arg I i (n - length \<rho>))"
| "sem I \<rho> (EAnd es) = Option.bind (opt_all (sem I \<rho>) es) and3"
| "sem I \<rho> (EOr es) = Option.bind (opt_all (sem I \<rho>) es) or3"
| "sem I \<rho> (ENot e) = Option.bind (sem I \<rho> e) not3"
| "sem I \<rho> (EBinaryOp l op r) = opt2 (sem_op op) (sem I \<rho> l) (sem I \<rho> r)"
| "sem I \<rho> (ECast e from t) =
     Option.bind (sem I \<rho> e) (\<lambda>v. as_ok (cast_from (i_uuid I) (i_models I) from t v))"
| "sem I \<rho> (EIsNull e negated) = Option.bind (sem I \<rho> e) (\<lambda>v. Some (VBool (is_null v \<noteq> negated)))"
| "sem I \<rho> (EInList e l) =
     opt2 (\<lambda>x. on_list (sem_in x)) (sem I \<rho> e) (sem I \<rho> l)"
| "sem I \<rho> (EAny e) = Option.bind (sem I \<rho> e) (on_list or3)"
| "sem I \<rho> (EAnyOp l op r) =
     opt2 (\<lambda>x. on_list (sem_quantified or3 op x)) (sem I \<rho> l) (sem I \<rho> r)"
| "sem I \<rho> (EAllOp l op r) =
     opt2 (\<lambda>x. on_list (sem_quantified and3 op x)) (sem I \<rho> l) (sem I \<rho> r)"
| "sem I \<rho> (EBetween e l h) =
     opt3 (\<lambda>x a b. opt2 (\<lambda>p q. and3 [p, q]) (sem_op OpGe x a) (sem_op OpLe x b))
       (sem I \<rho> e) (sem I \<rho> l) (sem I \<rho> h)"
| "sem I \<rho> (EList es) = map_option VList (opt_all (sem I \<rho>) es)"
| "sem I \<rho> (ERecord es) = map_option VRecord (opt_all (sem I \<rho>) es)"
| "sem I \<rho> (EProject e path) = Option.bind (sem I \<rho> e) (\<lambda>v. as_ok (value_entry v path))"
| "sem I \<rho> (ELet bs body) = Option.bind (opt_all (sem I \<rho>) bs) (\<lambda>vs. sem I (vs # \<rho>) body)"
| "sem I \<rho> (EMap b m) =
     Option.bind (sem I \<rho> b)
       (on_list (\<lambda>items. map_option VList (opt_all (\<lambda>x. sem I ([x] # \<rho>) m) items)))"
| "sem I \<rho> (EMatch s arms els) = Option.bind (sem I \<rho> s) (\<lambda>v. sem I \<rho> (arm_for v arms els))"
| "sem I \<rho> (EIsSuperset l r) =
     opt2 (\<lambda>a b. if b = VList [] then Some (VBool True) else i_op I (EIsSuperset EDefault EDefault) [a, b])
       (sem I \<rho> l) (sem I \<rho> r)"
| "sem I \<rho> (EIntersects l r) =
     opt2 (\<lambda>a b. if b = VList [] then Some (VBool False) else i_op I (EIntersects EDefault EDefault) [a, b])
       (sem I \<rho> l) (sem I \<rho> r)"
| "sem I \<rho> (ELike e p esc ci) =
     opt2 (\<lambda>a b. i_op I (ELike EDefault EDefault esc ci) [a, b]) (sem I \<rho> e) (sem I \<rho> p)"
| "sem I \<rho> (EStartsWith e p) =
     opt2 (\<lambda>a b. i_op I (EStartsWith EDefault EDefault) [a, b]) (sem I \<rho> e) (sem I \<rho> p)"
| "sem I \<rho> (ELength e) = Option.bind (sem I \<rho> e) (\<lambda>v. i_op I (ELength EDefault) [v])"
| "sem I \<rho> (EIsVariant e vid) = Option.bind (sem I \<rho> e) (\<lambda>v. i_op I (EIsVariant EDefault vid) [v])"
| "sem I \<rho> (EVariant e vid) = Option.bind (sem I \<rho> e) (\<lambda>v. i_op I (EVariant EDefault vid) [v])"
| "sem I \<rho> (EFunc (FJsonExtract b keys t)) =
     Option.bind (sem I \<rho> b) (\<lambda>v. i_op I (EFunc (FJsonExtract EDefault keys t)) [v])"
| "sem I \<rho> (EFunc (FUnnest b)) = Option.bind (sem I \<rho> b) (\<lambda>v. i_op I (EFunc (FUnnest EDefault)) [v])"
| "sem I \<rho> (EFunc (FCount arg fil)) = i_leaf I (EFunc (FCount arg fil))"
| "sem I \<rho> (EFunc FLastInsertId) = i_leaf I (EFunc FLastInsertId)"
| "sem I \<rho> EDefault = None"
| "sem I \<rho> (EError msg) = None"
| "sem I \<rho> (EIdent s) = i_leaf I (EIdent s)"
| "sem I \<rho> (EIncoming k) = i_leaf I (EIncoming k)"
| "sem I \<rho> (EReference ref) = i_leaf I (EReference ref)"
| "sem I \<rho> (EExists q) = i_leaf I (EExists q)"
| "sem I \<rho> (EInSubquery e q neg rk) = i_leaf I (EInSubquery e q neg rk)"
| "sem I \<rho> (EStmt s) = i_leaf I (EStmt s)"
  by pat_completeness auto

termination
  by (relation "measure (\<lambda>(I, \<rho>, e). size e)")
    (auto dest: size_in_list simp: less_Suc_eq_le size_arm_for_le)

subsection \<open>Arguments and scopes\<close>

text \<open>No statement and no aggregate anywhere below.\<close>

fun scalar_node :: "expr \<Rightarrow> bool" where
  "scalar_node (EExists _) = False"
| "scalar_node (EInSubquery _ _ _ _) = False"
| "scalar_node (EStmt _) = False"
| "scalar_node (EFunc (FCount arg fil)) = (arg = None \<and> fil = None)"
| "scalar_node _ = True"

abbreviation scalar :: "expr \<Rightarrow> bool" where
  "scalar e \<equiv> for_all_exprs scalar_node e"

fun no_scope_node :: "expr \<Rightarrow> bool" where
  "no_scope_node (ELet _ _) = False"
| "no_scope_node (EMap _ _) = False"
| "no_scope_node _ = True"

abbreviation no_scopes :: "expr \<Rightarrow> bool" where
  "no_scopes e \<equiv> for_all_exprs no_scope_node e"

lemma scalar_statement [simp]:
  "\<not> scalar (EExists q)" "\<not> scalar (EInSubquery e q neg rk)" "\<not> scalar (EStmt s)"
  by (subst for_all_exprs.simps, simp)+

lemma scalar_count [simp]: "scalar (EFunc (FCount arg fil)) \<longleftrightarrow> arg = None \<and> fil = None"
  by (subst for_all_exprs.simps) (cases arg; cases fil; simp)

fun view_arg :: "expr \<Rightarrow> (nat \<times> nat) option" where
  "view_arg (EArg i n) = Some (i, n)"
| "view_arg _ = None"

lemma view_arg_eq [simp]: "view_arg e = Some (i, n) \<longleftrightarrow> e = EArg i n"
  by (cases e) auto

text \<open>
  \<open>closed_in ns e\<close>: every argument refers to one of the innermost \<open>length ns\<close> scopes, counted
  from inside, and to one of the as many positions as that scope binds.
\<close>

function closed_in :: "nat list \<Rightarrow> expr \<Rightarrow> bool" where
  "closed_in ns e =
     (case view_scope e of
        ScopeLet bs body \<Rightarrow> list_all (closed_in ns) bs \<and> closed_in (length bs # ns) body
      | ScopeMap b m \<Rightarrow> closed_in ns b \<and> closed_in (1 # ns) m
      | ScopeNone \<Rightarrow>
          (case view_arg e of Some (i, n) \<Rightarrow> n < length ns \<and> i < ns ! n | None \<Rightarrow> True) \<and>
          list_all (closed_in ns) (children e))"
  by pat_completeness auto

termination
  by (relation "measure (\<lambda>(ns, e). size e)")
    (auto dest: children_size size_in_list simp: less_Suc_eq_le)

declare closed_in.simps [simp del]

lemma closed_in_simps [simp]:
  "closed_in ns (ELet bs body) \<longleftrightarrow> list_all (closed_in ns) bs \<and> closed_in (length bs # ns) body"
  "closed_in ns (EMap b m) \<longleftrightarrow> closed_in ns b \<and> closed_in (1 # ns) m"
  "closed_in ns (EArg i n) \<longleftrightarrow> n < length ns \<and> i < ns ! n"
  by (subst closed_in.simps, simp)+

lemma closed_in_other [simp]:
  "closed_in ns (EAllOp l op r) \<longleftrightarrow> closed_in ns l \<and> closed_in ns r"
  "closed_in ns (EAnd es) \<longleftrightarrow> list_all (closed_in ns) es"
  "closed_in ns (EAny e) \<longleftrightarrow> closed_in ns e"
  "closed_in ns (EAnyOp l op r) \<longleftrightarrow> closed_in ns l \<and> closed_in ns r"
  "closed_in ns (EBetween e lo hi) \<longleftrightarrow> closed_in ns e \<and> closed_in ns lo \<and> closed_in ns hi"
  "closed_in ns (EBinaryOp l op r) \<longleftrightarrow> closed_in ns l \<and> closed_in ns r"
  "closed_in ns (ECast e from t) \<longleftrightarrow> closed_in ns e"
  "closed_in ns (EInList e l) \<longleftrightarrow> closed_in ns e \<and> closed_in ns l"
  "closed_in ns (EIntersects l r) \<longleftrightarrow> closed_in ns l \<and> closed_in ns r"
  "closed_in ns (EIsNull e neg) \<longleftrightarrow> closed_in ns e"
  "closed_in ns (EIsSuperset l r) \<longleftrightarrow> closed_in ns l \<and> closed_in ns r"
  "closed_in ns (EIsVariant e vid) \<longleftrightarrow> closed_in ns e"
  "closed_in ns (EVariant e vid) \<longleftrightarrow> closed_in ns e"
  "closed_in ns (ELength e) \<longleftrightarrow> closed_in ns e"
  "closed_in ns (ELike e x esc ci) \<longleftrightarrow> closed_in ns e \<and> closed_in ns x"
  "closed_in ns (ENot e) \<longleftrightarrow> closed_in ns e"
  "closed_in ns (EOr es) \<longleftrightarrow> list_all (closed_in ns) es"
  "closed_in ns (EProject e path) \<longleftrightarrow> closed_in ns e"
  "closed_in ns (ERecord es) \<longleftrightarrow> list_all (closed_in ns) es"
  "closed_in ns (EList es) \<longleftrightarrow> list_all (closed_in ns) es"
  "closed_in ns (EStartsWith e x) \<longleftrightarrow> closed_in ns e \<and> closed_in ns x"
  "closed_in ns (EFunc (FJsonExtract e keys t)) \<longleftrightarrow> closed_in ns e"
  "closed_in ns (EFunc (FUnnest e)) \<longleftrightarrow> closed_in ns e"
  "closed_in ns (EFunc FLastInsertId) \<longleftrightarrow> True"
  "closed_in ns (EValue v) \<longleftrightarrow> True"
  "closed_in ns (EStatic v) \<longleftrightarrow> True"
  "closed_in ns EDefault \<longleftrightarrow> True"
  "closed_in ns (EError msg) \<longleftrightarrow> True"
  "closed_in ns (EIdent msg) \<longleftrightarrow> True"
  "closed_in ns (EIncoming k) \<longleftrightarrow> True"
  "closed_in ns (EReference ref) \<longleftrightarrow> True"
  "closed_in ns (EMatch e arms els) \<longleftrightarrow> closed_in ns e \<and> list_all (\<lambda>arm. closed_in ns (snd arm)) arms \<and> closed_in ns els"
  by (subst closed_in.simps, simp add: list_all_iff conj_ac)+

lemma closed_in_count [simp]: "closed_in ns (EFunc (FCount None None))"
  by (subst closed_in.simps) simp

subsection \<open>Monotonicity\<close>

lemma less_defined_opt2:
  "less_defined a a' \<Longrightarrow> less_defined b b' \<Longrightarrow> less_defined (opt2 f a b) (opt2 f a' b')"
  unfolding opt2_def by (intro less_defined_bind) auto

lemma less_defined_opt3:
  "\<lbrakk>less_defined a a'; less_defined b b'; less_defined c c'\<rbrakk> \<Longrightarrow>
   less_defined (opt3 f a b c) (opt3 f a' b' c')"
  unfolding opt3_def by (intro less_defined_bind less_defined_opt2) auto

lemma less_defined_map_option: "less_defined a b \<Longrightarrow> less_defined (map_option f a) (map_option f b)"
  by (cases a) auto

lemma less_defined_bind_same: "less_defined a b \<Longrightarrow> less_defined (Option.bind a f) (Option.bind b f)"
  by (intro less_defined_bind) auto

lemma less_defined_opt_all_visit:
  assumes "traverse f es = Ok es'"
    and "\<And>c c'. c \<in> set es \<Longrightarrow> f c = Ok c' \<Longrightarrow> less_defined (s c) (s' c')"
  shows "less_defined (opt_all s es) (opt_all s' es')"
proof (rule less_defined_opt_all)
  show "list_all2 (\<lambda>x y. less_defined (s x) (s' y)) es es'"
    using assms by (auto simp: traverse_eq_Ok intro: list.rel_mono_strong)
qed

lemma arm_for_visit:
  assumes "traverse (visit_pair f) arms = Ok arms'" "f els = Ok els'"
  shows "f (arm_for v arms els) = Ok (arm_for v arms' els')"
  using assms
proof (induction arms arbitrary: arms')
  case Nil
  then show ?case by (simp add: arm_for_def)
next
  case (Cons arm arms)
  then show ?case
    by (auto simp: result_simps visit_pair_def arm_for_def list_all2_Cons1 split: if_splits)
qed

lemmas less_defined_intros = less_defined_opt2 less_defined_opt3 less_defined_map_option
  less_defined_bind_same less_defined_opt_all_visit

lemma sem_visit_node:
  assumes v: "visit_expr f e = Ok e'"
    and "view_scope e = ScopeNone" "view_arg e = None" "scalar_node e"
    and c: "\<And>c c'. c \<in> set (children e) \<Longrightarrow> f c = Ok c' \<Longrightarrow> less_defined (sem I \<rho> c) (sem I \<rho>' c')"
  shows "less_defined (sem I \<rho> e) (sem I \<rho>' e')"
proof (cases e)
  case (EMatch s arms els)
  from v EMatch obtain s' arms' els' where e': "e' = EMatch s' arms' els'" and s: "f s = Ok s'"
    and arms: "traverse (visit_pair f) arms = Ok arms'" "f els = Ok els'"
    by (auto simp: rmap3_eq_Ok)
  have "less_defined (sem I \<rho> (arm_for v arms els)) (sem I \<rho>' (arm_for v arms' els'))" for v
    using arm_for_visit [OF arms, of v] EMatch arm_for_cases [of v arms els] by (intro c) auto
  moreover have "less_defined (sem I \<rho> s) (sem I \<rho>' s')"
    using EMatch s by (intro c) auto
  ultimately show ?thesis
    unfolding EMatch e' sem.simps by (intro less_defined_bind)
next
  case (EFunc fn)
  then show ?thesis
    using assms by (cases fn) (auto simp: result_simps rmap2_eq_Ok intro!: less_defined_intros)
qed (use assms in \<open>auto simp: result_simps rmap2_eq_Ok rmap3_eq_Ok simp del: traverse_eq_Ok intro!: less_defined_intros\<close>)

subsection \<open>Closed expressions\<close>

lemma children_no_scopes: "no_scopes e \<Longrightarrow> c \<in> set (children e) \<Longrightarrow> no_scopes c"
  by (subst (asm) for_all_exprs.simps) (auto simp: list_all_iff)

lemma children_scalar: "scalar e \<Longrightarrow> c \<in> set (children e) \<Longrightarrow> scalar c"
  by (subst (asm) for_all_exprs.simps) (auto simp: list_all_iff)

lemma scalar_imp_node: "scalar e \<Longrightarrow> scalar_node e"
  by (subst (asm) for_all_exprs.simps) simp

lemma children_closed:
  "closed_in ns e \<Longrightarrow> view_scope e = ScopeNone \<Longrightarrow> c \<in> set (children e) \<Longrightarrow> closed_in ns c"
  by (subst (asm) closed_in.simps) (auto simp: list_all_iff)

lemma traverse_Ok_self [simp]: "traverse Ok xs = Ok xs"
  by (induction xs) simp_all

lemma visit_self: "scalar_node e \<Longrightarrow> visit_expr Ok e = Ok e"
proof (cases e)
  case (EFunc fn)
  moreover assume "scalar_node e"
  ultimately show ?thesis by (cases fn) auto
next
  case (EMatch s arms els)
  have "traverse (visit_pair Ok) arms = Ok (map id arms)"
    by (rule traverse_Ok_map) (simp add: visit_pair_def)
  with EMatch show ?thesis by simp
qed simp_all

lemma sem_node_cong:
  assumes "view_scope e = ScopeNone" "view_arg e = None" "scalar_node e"
    and c: "\<And>c. c \<in> set (children e) \<Longrightarrow> sem I \<rho> c = sem I \<rho>' c"
  shows "sem I \<rho> e = sem I \<rho>' e"
proof -
  have "less_defined (sem I \<rho> e) (sem I \<rho>' e)"
    by (rule sem_visit_node [OF visit_self]) (use assms in auto)
  moreover have "less_defined (sem I \<rho>' e) (sem I \<rho> e)"
    by (rule sem_visit_node [OF visit_self]) (use assms in auto)
  ultimately show ?thesis by (cases "sem I \<rho> e"; cases "sem I \<rho>' e") auto
qed

text \<open>A closed expression does not see the scopes outside it, nor the external arguments.\<close>

lemma sem_closed:
  "closed_in ns e \<Longrightarrow> length ns = length \<rho>1 \<Longrightarrow> scalar e \<Longrightarrow>
   sem I (\<rho>1 @ \<rho>) e = sem I (\<rho>1 @ \<rho>') e"
proof (induction "size e" arbitrary: e ns \<rho>1 rule: less_induct)
  case less
  note prems = less.prems
  have IH: "sem I (\<rho>2 @ \<rho>) c = sem I (\<rho>2 @ \<rho>') c"
    if "c \<in> set (children e)" "closed_in ms c" "length ms = length \<rho>2" for c ms \<rho>2
    using that prems(3) less.hyps [of c ms \<rho>2] by (auto dest: children_size children_scalar)
  show ?case
  proof (cases "view_scope e")
    case (ScopeLet es body)
    then have e: "e = ELet es body" by simp
    have "sem I (\<rho>1 @ \<rho>) b = sem I (\<rho>1 @ \<rho>') b" if "b \<in> set es" for b
      using that prems e by (intro IH [of _ ns]) (auto simp: list_all_iff)
    moreover have "sem I ((vs # \<rho>1) @ \<rho>) body = sem I ((vs # \<rho>1) @ \<rho>') body" for vs
      using prems e by (intro IH [of _ "length es # ns"]) auto
    ultimately show ?thesis
      unfolding e sem.simps by (intro Option_bind_cong opt_all_cong refl) auto
  next
    case (ScopeMap b m)
    then have e: "e = EMap b m" by simp
    have "sem I (\<rho>1 @ \<rho>) b = sem I (\<rho>1 @ \<rho>') b"
      using prems e by (intro IH [of _ ns]) auto
    moreover have "sem I ((vs # \<rho>1) @ \<rho>) m = sem I ((vs # \<rho>1) @ \<rho>') m" for vs
      using prems e by (intro IH [of _ "1 # ns"]) auto
    ultimately show ?thesis by (simp add: e)
  next
    case ScopeNone
    show ?thesis
    proof (cases "view_arg e")
      case None
      show ?thesis
      proof (rule sem_node_cong [OF ScopeNone None scalar_imp_node [OF prems(3)]])
        fix c assume "c \<in> set (children e)"
        then show "sem I (\<rho>1 @ \<rho>) c = sem I (\<rho>1 @ \<rho>') c"
          using children_closed [OF prems(1) ScopeNone] prems(2) by (intro IH [of _ ns])
      qed
    next
      case (Some p)
      then obtain i n where "e = EArg i n" by (cases p) auto
      with prems show ?thesis by (simp add: nth_append)
    qed
  qed
qed

end
