(* ===== verification/Fold.thy ===== *)
theory Fold
  imports Visit
begin

text \<open>
  The canonicalization pass (\<open>toasty/src/engine/fold.rs\<close> and \<open>fold/\<close>): one rule per node
  kind, applied bottom-up, each replacement folded again.

  A rule either replaces the node (\<open>Some\<close> in the source) or leaves it, possibly changed in
  place (\<open>None\<close>).
\<close>

datatype folded = Replaced expr | InPlace expr

subsection \<open>Conjunction and disjunction\<close>

text \<open>The flattening loop runs over the original indices while the operand vector grows.\<close>

definition flatten_and_step :: "expr list \<Rightarrow> nat \<Rightarrow> expr list" where
  "flatten_and_step ops i =
     (case ops ! i of
        EAnd nested \<Rightarrow> ops[i := EValue (VBool True)] @ nested
      | _ \<Rightarrow> ops)"

definition flatten_and :: "expr list \<Rightarrow> expr list" where
  "flatten_and ops = foldl flatten_and_step ops [0..<length ops]"

definition fold_expr_and :: "expr list \<Rightarrow> folded" where
  "fold_expr_and operands =
     (let ops = flatten_and operands in
      if list_ex is_false ops then Replaced (EValue (VBool False))
      else
        let kept = filter (\<lambda>e. \<not> is_true e) ops in
        if kept \<noteq> [] \<and> list_all is_value_null kept then Replaced (EValue VNull)
        else case kept of
          [] \<Rightarrow> Replaced (EValue (VBool True))
        | [e] \<Rightarrow> Replaced e
        | _ \<Rightarrow> InPlace (EAnd kept))"

definition flatten_or_step :: "expr list \<Rightarrow> nat \<Rightarrow> expr list" where
  "flatten_or_step ops i =
     (case ops ! i of
        EOr nested \<Rightarrow> ops[i := EValue (VBool False)] @ nested
      | _ \<Rightarrow> ops)"

definition flatten_or :: "expr list \<Rightarrow> expr list" where
  "flatten_or ops = foldl flatten_or_step ops [0..<length ops]"

definition fold_expr_or :: "expr list \<Rightarrow> folded" where
  "fold_expr_or operands =
     (let ops = flatten_or operands in
      if list_ex is_true ops then Replaced (EValue (VBool True))
      else
        let kept = filter (\<lambda>e. \<not> is_false e) ops in
        if kept \<noteq> [] \<and> list_all is_value_null kept then Replaced (EValue VNull)
        else case kept of
          [] \<Rightarrow> Replaced (EValue (VBool False))
        | [e] \<Rightarrow> Replaced e
        | _ \<Rightarrow> InPlace (EOr kept))"

subsection \<open>Binary operators\<close>

fun is_lt :: "ordering \<Rightarrow> bool" where
  "is_lt Less = True" | "is_lt Equal = False" | "is_lt Greater = False"

fun is_gt :: "ordering \<Rightarrow> bool" where
  "is_gt Greater = True" | "is_gt Equal = False" | "is_gt Less = False"

fun const_binary_op :: "binop \<Rightarrow> val \<Rightarrow> val \<Rightarrow> val option" where
  "const_binary_op OpEq a b = Some (VBool (value_eq a b))"
| "const_binary_op OpNe a b = Some (VBool (\<not> value_eq a b))"
| "const_binary_op OpLt a b = map_option (\<lambda>c. VBool (is_lt c)) (partial_cmp a b)"
| "const_binary_op OpLe a b = map_option (\<lambda>c. VBool (\<not> is_gt c)) (partial_cmp a b)"
| "const_binary_op OpGt a b = map_option (\<lambda>c. VBool (is_gt c)) (partial_cmp a b)"
| "const_binary_op OpGe a b = map_option (\<lambda>c. VBool (\<not> is_lt c)) (partial_cmp a b)"
| "const_binary_op OpAdd a b = checked_add a b"
| "const_binary_op OpSub a b = checked_sub a b"

definition bool_literal :: "expr \<Rightarrow> bool option" where
  "bool_literal e = (case e of EValue (VBool b) \<Rightarrow> Some b | _ \<Rightarrow> None)"

lemma bool_literal_eq [simp]: "bool_literal e = Some b \<longleftrightarrow> e = EValue (VBool b)"
  by (auto simp: bool_literal_def split: expr.splits val.splits)

text \<open>\<open>x = true\<close>, \<open>x = false\<close> and their negations, for \<open>op\<close> one of \<open>=\<close> and \<open>!=\<close>.\<close>

definition fold_bool_comparison :: "binop \<Rightarrow> expr \<Rightarrow> bool \<Rightarrow> expr" where
  "fold_bool_comparison op e b = (if (op = OpEq \<and> b) \<or> (op = OpNe \<and> \<not> b) then e else ENot e)"

text \<open>The arms for operands that are not both literals.\<close>

definition fold_symbolic :: "binop \<Rightarrow> expr \<Rightarrow> expr \<Rightarrow> folded" where
  "fold_symbolic op lhs rhs =
     (case (if op = OpEq \<or> op = OpNe then bool_literal rhs else None) of
        Some b \<Rightarrow> Replaced (fold_bool_comparison op lhs b)
      | None \<Rightarrow>
        (case (if op = OpEq \<or> op = OpNe then bool_literal lhs else None) of
           Some b \<Rightarrow> Replaced (fold_bool_comparison op rhs b)
         | None \<Rightarrow>
             (if is_value_null rhs \<or> is_value_null lhs then Replaced (EValue VNull)
              else if is_value lhs \<and> \<not> is_value rhs then
                (case commute_op op of
                   Some op' \<Rightarrow> Replaced (EBinaryOp rhs op' lhs)
                 | None \<Rightarrow> InPlace (EBinaryOp lhs op rhs))
              else InPlace (EBinaryOp lhs op rhs))))"

definition fold_expr_binary_op :: "binop \<Rightarrow> expr \<Rightarrow> expr \<Rightarrow> folded" where
  "fold_expr_binary_op op lhs rhs =
     (case (as_value lhs, as_value rhs) of
        (Some a, Some b) \<Rightarrow>
          (if is_null a \<or> is_null b then Replaced (EValue VNull)
           else case const_binary_op op a b of
             Some v \<Rightarrow> Replaced (EValue v)
           | None \<Rightarrow> InPlace (EBinaryOp lhs op rhs))
      | _ \<Rightarrow> fold_symbolic op lhs rhs)"

subsection \<open>Casts, \<open>IS NULL\<close> and collections\<close>

text \<open>The cast of a literal is unwrapped, so a failing conversion panics.\<close>

definition fold_expr_cast :: "uuid_ops \<Rightarrow> expr \<Rightarrow> ty option \<Rightarrow> ty \<Rightarrow> folded result" where
  "fold_expr_cast U e from t =
     (if e = EDefault then Ok (Replaced EDefault)
      else if from \<noteq> None \<or> contains_model t then Ok (InPlace (ECast e from t))
      else case as_value e of
        None \<Rightarrow> Ok (InPlace (ECast e from t))
      | Some v \<Rightarrow> rmap (\<lambda>w. Replaced (EValue w)) (unwrap (cast U no_models t v)))"

definition fold_expr_is_null :: "expr \<Rightarrow> bool \<Rightarrow> folded" where
  "fold_expr_is_null e negated =
     (case e of
        EValue v \<Rightarrow> Replaced (EValue (VBool (is_null v \<noteq> negated)))
      | ERecord _ \<Rightarrow> Replaced (EValue (VBool negated))
      | EList _ \<Rightarrow> Replaced (EValue (VBool negated))
      | ECast x _ _ \<Rightarrow> InPlace (EIsNull x negated)
      | _ \<Rightarrow> InPlace (EIsNull e negated))"

definition fold_expr_list :: "expr list \<Rightarrow> folded" where
  "fold_expr_list items =
     (case opt_all as_value items of
        Some vs \<Rightarrow> Replaced (EValue (VList vs))
      | None \<Rightarrow> InPlace (EList items))"

definition fold_expr_record :: "expr list \<Rightarrow> folded" where
  "fold_expr_record es =
     (case opt_all as_value es of
        Some vs \<Rightarrow> Replaced (EValue (VRecord vs))
      | None \<Rightarrow> InPlace (ERecord es))"

definition fold_expr_intersects :: "expr \<Rightarrow> expr \<Rightarrow> folded" where
  "fold_expr_intersects l r =
     (if is_list_empty r then Replaced (EValue (VBool False)) else InPlace (EIntersects l r))"

definition fold_expr_is_superset :: "expr \<Rightarrow> expr \<Rightarrow> folded" where
  "fold_expr_is_superset l r =
     (if is_list_empty r then Replaced (EValue (VBool True)) else InPlace (EIsSuperset l r))"

subsection \<open>\<open>IN\<close> lists\<close>

definition rewrite_single_item :: "expr \<Rightarrow> expr \<Rightarrow> folded result" where
  "rewrite_single_item e l =
     (case l of
        EValue v \<Rightarrow>
          (case as_list v of
             Some [x] \<Rightarrow> Ok (Replaced (EBinaryOp e OpEq (EValue x)))
           | Some _ \<Rightarrow> Ok (InPlace (EInList e l))
           | None \<Rightarrow> todo)
      | EList [x] \<Rightarrow> Ok (Replaced (EBinaryOp e OpEq x))
      | ERecord _ \<Rightarrow> todo
      | _ \<Rightarrow> Ok (InPlace (EInList e l)))"

definition dedup_list :: "expr \<Rightarrow> expr" where
  "dedup_list l = (case l of EValue (VList vs) \<Rightarrow> EValue (VList (value_dedup [] vs)) | _ \<Rightarrow> l)"

definition fold_expr_in_list :: "expr \<Rightarrow> expr \<Rightarrow> folded result" where
  "fold_expr_in_list e l =
     (if is_list_empty l then Ok (Replaced (EValue (VBool False)))
      else if is_value_null e then Ok (Replaced (EValue VNull))
      else rewrite_single_item e (dedup_list l))"

subsection \<open>\<open>Let\<close>, \<open>Match\<close> and \<open>Not\<close>\<close>

definition let_callback :: "expr list \<Rightarrow> expr \<Rightarrow> nat \<Rightarrow> expr option" where
  "let_callback bindings e depth =
     (case e of
        EArg i nesting \<Rightarrow>
          (if nesting = depth \<and> i < length bindings then Some (bindings ! i)
           else if nesting > depth then Some (EArg i (nesting - 1))
           else None)
      | _ \<Rightarrow> None)"

definition substitute_let_bindings :: "expr list \<Rightarrow> expr \<Rightarrow> expr" where
  "substitute_let_bindings bindings body = walk_scoped (let_callback bindings) 0 body"

definition fold_expr_let :: "expr list \<Rightarrow> expr \<Rightarrow> folded" where
  "fold_expr_let bindings body =
     (if list_all is_stable bindings then Replaced (substitute_let_bindings bindings body)
      else InPlace (ELet bindings body))"

definition select_arm :: "val \<Rightarrow> (val \<times> expr) list \<Rightarrow> expr \<Rightarrow> expr" where
  "select_arm v arms els =
     (case filter (\<lambda>arm. value_eq v (fst arm)) arms of [] \<Rightarrow> els | arm # _ \<Rightarrow> snd arm)"

definition fold_expr_match :: "expr \<Rightarrow> (val \<times> expr) list \<Rightarrow> expr \<Rightarrow> folded" where
  "fold_expr_match subject arms els =
     (case as_value subject of
        Some v \<Rightarrow> Replaced (select_arm v arms els)
      | None \<Rightarrow>
        (case arms of
           [] \<Rightarrow> InPlace (EMatch subject arms els)
         | first # _ \<Rightarrow>
             (if list_all (\<lambda>arm. expr_eq (snd arm) (snd first)) arms \<and> expr_eq els (snd first)
              then Replaced (snd first)
              else InPlace (EMatch subject arms els))))"

definition fold_expr_not :: "expr \<Rightarrow> folded" where
  "fold_expr_not e =
     (case e of
        ENot inner \<Rightarrow> Replaced inner
      | EValue (VBool b) \<Rightarrow> Replaced (EValue (VBool (\<not> b)))
      | EValue VNull \<Rightarrow> Replaced (EValue VNull)
      | EBinaryOp l op r \<Rightarrow>
          (case negate_op op of
             Some op' \<Rightarrow> Replaced (EBinaryOp l op' r)
           | None \<Rightarrow> InPlace (ENot e))
      | EAnd es \<Rightarrow> Replaced (or_from_vec (map ENot es))
      | EOr es \<Rightarrow> Replaced (and_from_vec (map ENot es))
      | EInList _ l \<Rightarrow>
          (if is_list_empty l then Replaced (EValue (VBool True)) else InPlace (ENot e))
      | _ \<Rightarrow> InPlace (ENot e))"

subsection \<open>The pass\<close>

definition fold_one :: "uuid_ops \<Rightarrow> expr \<Rightarrow> folded result" where
  "fold_one U i =
     (case i of
        EAnd es \<Rightarrow> Ok (fold_expr_and es)
      | EBinaryOp l op r \<Rightarrow> Ok (fold_expr_binary_op op l r)
      | ECast e from t \<Rightarrow> fold_expr_cast U e from t
      | EInList e l \<Rightarrow> fold_expr_in_list e l
      | EIntersects l r \<Rightarrow> Ok (fold_expr_intersects l r)
      | EIsNull e negated \<Rightarrow> Ok (fold_expr_is_null e negated)
      | EIsSuperset l r \<Rightarrow> Ok (fold_expr_is_superset l r)
      | ELet bs body \<Rightarrow> Ok (fold_expr_let bs body)
      | EList es \<Rightarrow> Ok (fold_expr_list es)
      | EMatch s arms els \<Rightarrow> Ok (fold_expr_match s arms els)
      | ENot e \<Rightarrow> Ok (fold_expr_not e)
      | EOr es \<Rightarrow> Ok (fold_expr_or es)
      | ERecord es \<Rightarrow> Ok (fold_expr_record es)
      | _ \<Rightarrow> Ok (InPlace i))"

text \<open>\<open>Fold::visit_expr_mut\<close>; the fuel bounds the depth of the recursion.\<close>

fun fold_expr :: "uuid_ops \<Rightarrow> nat \<Rightarrow> expr \<Rightarrow> expr result" where
  "fold_expr U 0 e = Err OutOfFuel"
| "fold_expr U (Suc n) e =
     rbind (visit_expr (fold_expr U n) e) (\<lambda>i.
     rbind (fold_one U i) (\<lambda>r.
       case r of
         InPlace i' \<Rightarrow> Ok i'
       | Replaced e' \<Rightarrow> fold_expr U n e'))"

end
