(* ===== verification/FoldRules.thy ===== *)
theory FoldRules
  imports Fold Sem
begin

text \<open>
  What the rules of the canonicalization pass keep: the shape of the scopes, closedness and
  the reference semantics.
\<close>


subsection \<open>Flattening\<close>

definition strip_and :: "expr \<Rightarrow> expr" where
  "strip_and e = (case e of EAnd _ \<Rightarrow> EValue (VBool True) | _ \<Rightarrow> e)"

definition nested_and :: "expr \<Rightarrow> expr list" where
  "nested_and e = (case e of EAnd es \<Rightarrow> es | _ \<Rightarrow> [])"

definition strip_or :: "expr \<Rightarrow> expr" where
  "strip_or e = (case e of EOr _ \<Rightarrow> EValue (VBool False) | _ \<Rightarrow> e)"

definition nested_or :: "expr \<Rightarrow> expr list" where
  "nested_or e = (case e of EOr es \<Rightarrow> es | _ \<Rightarrow> [])"

lemma flatten_and_step_at:
  "flatten_and_step (pre @ e # rest) (length pre) = pre @ strip_and e # rest @ nested_and e"
  by (cases e) (simp_all add: flatten_and_step_def strip_and_def nested_and_def)

lemma flatten_or_step_at:
  "flatten_or_step (pre @ e # rest) (length pre) = pre @ strip_or e # rest @ nested_or e"
  by (cases e) (simp_all add: flatten_or_step_def strip_or_def nested_or_def)

text \<open>A loop over the original indices that rewrites the element at its index and appends.\<close>

lemma foldl_in_place:
  assumes step: "\<And>pre e rest. step (pre @ e # rest) (length pre) = pre @ g e # rest @ h e"
  shows "foldl step xs [0..<length xs] = map g xs @ concat (map h xs)"
proof -
  have "foldl step (pre @ rest @ tail) [length pre..<length pre + length rest] =
      pre @ map g rest @ tail @ concat (map h rest)" for pre rest tail
  proof (induction rest arbitrary: pre tail)
    case (Cons e rest)
    have "foldl step (pre @ (e # rest) @ tail) [length pre..<length pre + length (e # rest)] =
        foldl step (step (pre @ e # rest @ tail) (length pre))
          [Suc (length pre)..<Suc (length pre) + length rest]"
      by (simp add: upt_conv_Cons del: upt_Suc)
    also have "step (pre @ e # rest @ tail) (length pre) = (pre @ [g e]) @ rest @ (tail @ h e)"
      using step [of pre e "rest @ tail"] by simp
    finally show ?case using Cons.IH [of "pre @ [g e]" "tail @ h e"] by simp
  qed simp
  from this [of "[]" xs "[]"] show ?thesis by simp
qed

lemma flatten_and_eq: "flatten_and ops = map strip_and ops @ concat (map nested_and ops)"
  unfolding flatten_and_def by (rule foldl_in_place) (rule flatten_and_step_at)

lemma flatten_or_eq: "flatten_or ops = map strip_or ops @ concat (map nested_or ops)"
  unfolding flatten_or_def by (rule foldl_in_place) (rule flatten_or_step_at)

lemma strip_and_cases: "strip_and e = e \<and> nested_and e = [] \<or> strip_and e = EValue (VBool True) \<and> e = EAnd (nested_and e)"
  by (cases e) (simp_all add: strip_and_def nested_and_def)

lemma strip_or_cases: "strip_or e = e \<and> nested_or e = [] \<or> strip_or e = EValue (VBool False) \<and> e = EOr (nested_or e)"
  by (cases e) (simp_all add: strip_or_def nested_or_def)

subsection \<open>Predicates that only look at sub-expressions\<close>

fun folded_expr :: "folded \<Rightarrow> expr" where
  "folded_expr (Replaced e) = e"
| "folded_expr (InPlace e) = e"

lemma fold_symbolic_cases:
  obtains (right) b where "r = EValue (VBool b)" "op = OpEq \<or> op = OpNe"
      "fold_symbolic op l r = Replaced (fold_bool_comparison op l b)"
  | (left) b where "l = EValue (VBool b)" "op = OpEq \<or> op = OpNe"
      "fold_symbolic op l r = Replaced (fold_bool_comparison op r b)"
  | (null) "l = EValue VNull \<or> r = EValue VNull" "fold_symbolic op l r = Replaced (EValue VNull)"
  | (swap) op' v where "l = EValue v" "\<not> is_value r" "commute_op op = Some op'"
      "fold_symbolic op l r = Replaced (EBinaryOp r op' l)"
  | (keep) "fold_symbolic op l r = InPlace (EBinaryOp l op r)"
proof -
  let ?b = "\<lambda>e. if op = OpEq \<or> op = OpNe then bool_literal e else None"
  consider b where "?b r = Some b" | b where "?b r = None" "?b l = Some b"
    | "?b r = None" "?b l = None" "is_value_null r \<or> is_value_null l"
    | op' where "?b r = None" "?b l = None" "\<not> (is_value_null r \<or> is_value_null l)"
      "is_value l" "\<not> is_value r" "commute_op op = Some op'"
    | "?b r = None" "?b l = None" "\<not> (is_value_null r \<or> is_value_null l)"
      "is_value l \<longrightarrow> is_value r \<or> commute_op op = None"
    by fastforce
  then show thesis
  proof cases
    case 1
    then show thesis by (intro right) (auto simp: fold_symbolic_def split: if_splits)
  next
    case 2
    then show thesis by (intro left) (auto simp: fold_symbolic_def split: if_splits)
  next
    case 3
    then show thesis by (intro null) (auto simp: fold_symbolic_def is_value_null_def)
  next
    case 4
    then show thesis by (auto simp: fold_symbolic_def is_value_iff intro: swap)
  next
    case 5
    then show thesis by (intro keep) (auto simp: fold_symbolic_def)
  qed
qed

locale compositional =
  fixes Q :: "expr \<Rightarrow> bool"
  assumes value_node [simp]: "Q (EValue v)"
    and default_node [simp]: "Q EDefault"
    and and_node [simp]: "Q (EAnd es) \<longleftrightarrow> list_all Q es"
    and or_node [simp]: "Q (EOr es) \<longleftrightarrow> list_all Q es"
    and not_node [simp]: "Q (ENot e) \<longleftrightarrow> Q e"
    and binary_node [simp]: "Q (EBinaryOp l op r) \<longleftrightarrow> Q l \<and> Q r"
    and cast_node [simp]: "Q (ECast e from t) \<longleftrightarrow> Q e"
    and null_node [simp]: "Q (EIsNull e neg) \<longleftrightarrow> Q e"
    and in_list_node [simp]: "Q (EInList e l) \<longleftrightarrow> Q e \<and> Q l"
    and intersects_node [simp]: "Q (EIntersects l r) \<longleftrightarrow> Q l \<and> Q r"
    and superset_node [simp]: "Q (EIsSuperset l r) \<longleftrightarrow> Q l \<and> Q r"
    and list_node [simp]: "Q (EList es) \<longleftrightarrow> list_all Q es"
    and record_node [simp]: "Q (ERecord es) \<longleftrightarrow> list_all Q es"
    and match_node [simp]: "Q (EMatch s arms els) \<longleftrightarrow>
      Q s \<and> list_all (\<lambda>arm. Q (snd arm)) arms \<and> Q els"
begin

lemma flatten_and_all: "list_all Q ops \<Longrightarrow> list_all Q (flatten_and ops)"
proof -
  have "Q e \<Longrightarrow> Q (strip_and e) \<and> list_all Q (nested_and e)" for e
    by (cases e) (simp_all add: strip_and_def nested_and_def)
  then show "list_all Q ops \<Longrightarrow> list_all Q (flatten_and ops)"
    by (auto simp: flatten_and_eq list_all_iff)
qed

lemma flatten_or_all: "list_all Q ops \<Longrightarrow> list_all Q (flatten_or ops)"
proof -
  have "Q e \<Longrightarrow> Q (strip_or e) \<and> list_all Q (nested_or e)" for e
    by (cases e) (simp_all add: strip_or_def nested_or_def)
  then show "list_all Q ops \<Longrightarrow> list_all Q (flatten_or ops)"
    by (auto simp: flatten_or_eq list_all_iff)
qed

lemma fold_and: "list_all Q es \<Longrightarrow> Q (folded_expr (fold_expr_and es))"
proof -
  assume "list_all Q es"
  then have "list_all Q (filter (\<lambda>e. \<not> is_true e) (flatten_and es))"
    by (auto simp: list_all_iff dest: flatten_and_all [unfolded list_all_iff])
  then show ?thesis by (auto simp: fold_expr_and_def Let_def split: list.split)
qed

lemma fold_or: "list_all Q es \<Longrightarrow> Q (folded_expr (fold_expr_or es))"
proof -
  assume "list_all Q es"
  then have "list_all Q (filter (\<lambda>e. \<not> is_false e) (flatten_or es))"
    by (auto simp: list_all_iff dest: flatten_or_all [unfolded list_all_iff])
  then show ?thesis by (auto simp: fold_expr_or_def Let_def split: list.split)
qed

lemma fold_binary: "Q l \<Longrightarrow> Q r \<Longrightarrow> Q (folded_expr (fold_expr_binary_op op l r))"
proof -
  assume Q: "Q l" "Q r"
  then have b: "Q (fold_bool_comparison op l b)" "Q (fold_bool_comparison op r b)" for b
    by (simp_all add: fold_bool_comparison_def)
  show ?thesis
  proof (cases "\<exists>a b. as_value l = Some a \<and> as_value r = Some b")
    case True
    with Q show ?thesis by (auto simp: fold_expr_binary_op_def split: option.split)
  next
    case False
    then have "fold_expr_binary_op op l r = fold_symbolic op l r"
      by (cases "as_value l"; cases "as_value r") (auto simp: fold_expr_binary_op_def)
    with Q b show ?thesis
      by (cases rule: fold_symbolic_cases [of r op l]) simp_all
  qed
qed

lemma rewrite_single: "Q e \<Longrightarrow> Q l \<Longrightarrow> rewrite_single_item e l = Ok r \<Longrightarrow> Q (folded_expr r)"
proof (cases l)
  case (EValue v)
  moreover assume "Q e" "Q l" "rewrite_single_item e l = Ok r"
  ultimately show ?thesis
    by (cases "as_list v") (auto simp: rewrite_single_item_def todo_def split: list.splits)
next
  case (EList es)
  moreover assume "Q e" "Q l" "rewrite_single_item e l = Ok r"
  ultimately show ?thesis by (auto simp: rewrite_single_item_def split: list.splits)
qed (auto simp: rewrite_single_item_def todo_def)

lemma fold_in_list: "Q e \<Longrightarrow> Q l \<Longrightarrow> fold_expr_in_list e l = Ok r \<Longrightarrow> Q (folded_expr r)"
proof -
  assume "Q l"
  then have "Q (dedup_list l)" by (cases l) (auto simp: dedup_list_def split: val.split)
  moreover assume "Q e" "fold_expr_in_list e l = Ok r"
  ultimately show ?thesis
    by (auto simp: fold_expr_in_list_def rewrite_single split: if_splits)
qed

lemma fold_not: "Q e \<Longrightarrow> Q (folded_expr (fold_expr_not e))"
proof (cases e)
  case (EAnd es)
  moreover assume "Q e"
  ultimately show ?thesis
    by (auto simp: fold_expr_not_def or_from_vec_def list_all_iff split: list.split)
next
  case (EOr es)
  moreover assume "Q e"
  ultimately show ?thesis
    by (auto simp: fold_expr_not_def and_from_vec_def list_all_iff split: list.split)
qed (auto simp: fold_expr_not_def split: val.split option.split)

lemma fold_match:
  assumes "Q s" "list_all (\<lambda>arm. Q (snd arm)) arms" "Q els"
  shows "Q (folded_expr (fold_expr_match s arms els))"
proof -
  have "Q (select_arm v arms els)" for v
    using arm_for_all [of arms Q els v] assms
    by (auto simp: select_arm_def arm_for_def list_all_iff)
  then show ?thesis
    using assms by (auto simp: fold_expr_match_def split: option.split list.split)
qed

lemma fold_one_all:
  assumes "fold_one U e = Ok r" "Q e" "\<And>bs body. e \<noteq> ELet bs body"
  shows "Q (folded_expr r)"
proof (cases e)
  case (EInList x l)
  with assms show ?thesis by (auto simp: fold_one_def intro: fold_in_list)
next
  case (EIsNull x neg)
  with assms show ?thesis
    by (cases x) (auto simp: fold_one_def fold_expr_is_null_def)
qed (use assms in \<open>auto simp: fold_one_def fold_expr_cast_def fold_expr_list_def fold_expr_record_def
  fold_expr_intersects_def fold_expr_is_superset_def result_simps
  fold_and fold_or fold_binary fold_not fold_match split: option.splits if_splits\<close>)

end

abbreviation lsub :: "expr list \<Rightarrow> nat \<Rightarrow> expr \<Rightarrow> expr" where
  "lsub bs \<equiv> walk_scoped (let_callback bs)"

lemma let_callback_other: "view_arg e = None \<Longrightarrow> let_callback bs e d = None"
  by (cases e) (auto simp: let_callback_def)

lemma lsub_let [simp]: "lsub bs d (ELet es body) = ELet (map (lsub bs d) es) (lsub bs (Suc d) body)"
  and lsub_map [simp]: "lsub bs d (EMap b m) = EMap (lsub bs d b) (lsub bs (Suc d) m)"
  and lsub_arg [simp]: "lsub bs d (EArg i n) =
    (if n = d \<and> i < length bs then bs ! i else if n > d then EArg i (n - 1) else EArg i n)"
  by (subst walk_scoped.simps, simp add: let_callback_def)+

lemma lsub_other:
  "view_scope e = ScopeNone \<Longrightarrow> view_arg e = None \<Longrightarrow>
   lsub bs d e = map_children (lsub bs d) e"
  by (subst walk_scoped.simps) (simp add: let_callback_other)

text \<open>No scope of the body captures an argument of a binding.\<close>

definition capture_free :: "expr list \<Rightarrow> expr \<Rightarrow> bool" where
  "capture_free bs body \<longleftrightarrow> list_all (closed_in []) bs \<or> no_scopes body"

lemma sem_lsub:
  assumes vs: "opt_all (sem I \<rho>) bs = Some vs" and bs: "list_all scalar bs"
  shows "scalar e \<Longrightarrow> (\<rho>1 = [] \<and> no_scopes e) \<or> list_all (closed_in []) bs \<Longrightarrow>
    less_defined (sem I (\<rho>1 @ vs # \<rho>) e) (sem I (\<rho>1 @ \<rho>) (lsub bs (length \<rho>1) e))"
proof (induction "size e" arbitrary: e \<rho>1 rule: less_induct)
  case less
  note prems = less.prems
  have IH: "less_defined (sem I (\<rho>2 @ vs # \<rho>) c) (sem I (\<rho>2 @ \<rho>) (lsub bs (length \<rho>2) c))"
    if "c \<in> set (children e)" "\<rho>1 = [] \<and> no_scopes e \<longrightarrow> \<rho>2 = []" for c \<rho>2
    using that prems less.hyps [of c \<rho>2] 
    by (auto dest: children_size children_scalar children_no_scopes)
  show ?case
  proof (cases "view_scope e")
    case (ScopeLet es body)
    then have e: "e = ELet es body" by simp
    then have "list_all2 (\<lambda>x y. less_defined (sem I (\<rho>1 @ vs # \<rho>) x) (sem I (\<rho>1 @ \<rho>) y))
        es (map (lsub bs (length \<rho>1)) es)"
      by (auto simp: list.rel_map intro!: list_all2_refl_on IH)
    moreover have "less_defined (sem I ((ws # \<rho>1) @ vs # \<rho>) body)
        (sem I ((ws # \<rho>1) @ \<rho>) (lsub bs (length (ws # \<rho>1)) body))" for ws
      using e by (intro IH) auto
    ultimately show ?thesis
      by (auto simp: e intro!: less_defined_bind less_defined_opt_all)
  next
    case (ScopeMap b m)
    then have e: "e = EMap b m" by simp
    have b: "less_defined (sem I (\<rho>1 @ vs # \<rho>) b) (sem I (\<rho>1 @ \<rho>) (lsub bs (length \<rho>1) b))"
      using e by (intro IH) auto
    have "less_defined (sem I ((ws # \<rho>1) @ vs # \<rho>) m)
        (sem I ((ws # \<rho>1) @ \<rho>) (lsub bs (length (ws # \<rho>1)) m))" for ws
      using e by (intro IH) auto
    then show ?thesis
      using b by (auto simp: e on_list_def intro!: less_defined_bind less_defined_map_option less_defined_opt_all list_all2_refl_on)
  next
    case ScopeNone
    show ?thesis
    proof (cases "view_arg e")
      case None
      have "less_defined (sem I (\<rho>1 @ vs # \<rho>) e)
          (sem I (\<rho>1 @ \<rho>) (map_children (lsub bs (length \<rho>1)) e))"
        using IH [of _ \<rho>1] ScopeNone None scalar_imp_node [OF prems(1)]
        by (intro sem_visit_node [OF map_children_visit]) auto
      with ScopeNone None show ?thesis by (simp add: lsub_other)
    next
      case (Some p)
      then obtain i n where e: "e = EArg i n" by (cases p) auto
      show ?thesis
      proof (cases "n = length \<rho>1")
        case n: True
        show ?thesis
        proof (cases "i < length bs")
          case True
          then have s: "sem I \<rho> (bs ! i) = Some (vs ! i)" and "i < length vs" and "scalar (bs ! i)"
            using vs bs by (auto simp: opt_all_eq_Some list_all2_conv_all_nth list_all_length)
          moreover have "sem I (\<rho>1 @ \<rho>) (bs ! i) = sem I \<rho> (bs ! i)"
            using prems(2) True \<open>scalar (bs ! i)\<close> sem_closed [of "[]" "bs ! i" "[]" I "\<rho>1 @ \<rho>" \<rho>]
            by (auto simp: list_all_length)
          ultimately show ?thesis using e n True by simp
        next
          case False
          then show ?thesis using e n vs opt_all_length [OF vs] by (simp add: nth_append)
        qed
      next
        case False
        then consider "n < length \<rho>1" | m where "n = Suc (length \<rho>1 + m)"
          by (metis less_iff_Suc_add linorder_neqE_nat)
        then show ?thesis
          by cases (simp_all add: e nth_append)
      qed
    qed
  qed
qed

end
