(* ===== verification/FoldSem.thy ===== *)
theory FoldSem
  imports FoldRules
begin

text \<open>
  Each rule of the canonicalization pass keeps the reference semantics: wherever the expression
  has a value, the expression the rule leaves has the same value.
\<close>

subsection \<open>Three-valued connectives as sets of truth values\<close>

definition and_result :: "val set \<Rightarrow> val" where
  "and_result V = (if VBool False \<in> V then VBool False else if VNull \<in> V then VNull else VBool True)"

definition or_result :: "val set \<Rightarrow> val" where
  "or_result V = (if VBool True \<in> V then VBool True else if VNull \<in> V then VNull else VBool False)"

lemma and3_eq: "and3 vs = Some v \<longleftrightarrow> (\<forall>t \<in> set vs. truth t) \<and> v = and_result (set vs)"
  by (auto simp: and3_def and_result_def list_all_iff)

lemma or3_eq: "or3 vs = Some v \<longleftrightarrow> (\<forall>t \<in> set vs. truth t) \<and> v = or_result (set vs)"
  by (auto simp: or3_def or_result_def list_all_iff)

definition values_of :: "('a \<Rightarrow> val option) \<Rightarrow> 'a list \<Rightarrow> val set" where
  "values_of f xs = {t. \<exists>x \<in> set xs. f x = Some t}"

definition all_truth :: "('a \<Rightarrow> val option) \<Rightarrow> 'a list \<Rightarrow> bool" where
  "all_truth f xs \<longleftrightarrow> (\<forall>x \<in> set xs. \<exists>t. f x = Some t \<and> truth t)"

lemma opt_all_values: "opt_all f es = Some vs \<Longrightarrow> set vs = values_of f es"
  by (auto simp: opt_all_eq_Some values_of_def dest: list_all2_in_left list_all2_in_right)

lemma opt_all_defined: "(\<And>e. e \<in> set es \<Longrightarrow> \<exists>t. f e = Some t) \<Longrightarrow> \<exists>vs. opt_all f es = Some vs"
  by (induction es) fastforce+

lemma sem_connective:
  assumes q: "\<And>vs v. q vs = Some v \<longleftrightarrow> (\<forall>t \<in> set vs. truth t) \<and> v = res (set vs)"
  shows "Option.bind (opt_all f es) q = Some v \<longleftrightarrow> all_truth f es \<and> v = res (values_of f es)"
proof
  assume "Option.bind (opt_all f es) q = Some v"
  then obtain vs where "opt_all f es = Some vs" "q vs = Some v"
    by (auto simp: bind_eq_Some_conv)
  then show "all_truth f es \<and> v = res (values_of f es)"
    using opt_all_values [of f es vs] q
    by (auto simp: all_truth_def opt_all_eq_Some values_of_def dest!: list_all2_in_left)
next
  assume t: "all_truth f es \<and> v = res (values_of f es)"
  then obtain vs where vs: "opt_all f es = Some vs"
    using opt_all_defined [of es f] by (auto simp: all_truth_def)
  moreover have "\<forall>t \<in> set vs. truth t"
    using t opt_all_values [OF vs] by (auto simp: all_truth_def values_of_def)
  ultimately show "Option.bind (opt_all f es) q = Some v"
    using q t opt_all_values [OF vs] by simp
qed

lemma sem_and: "sem I \<rho> (EAnd es) = Some v \<longleftrightarrow> all_truth (sem I \<rho>) es \<and> v = and_result (values_of (sem I \<rho>) es)"
  unfolding sem.simps by (rule sem_connective) (rule and3_eq)

lemma sem_or: "sem I \<rho> (EOr es) = Some v \<longleftrightarrow> all_truth (sem I \<rho>) es \<and> v = or_result (values_of (sem I \<rho>) es)"
  unfolding sem.simps by (rule sem_connective) (rule or3_eq)

lemma truth_cases: "truth t \<Longrightarrow> t = VNull \<or> t = VBool True \<or> t = VBool False"
  by (simp add: truth_def)

lemma truth_results [simp]: "truth (and_result V)" "truth (or_result V)"
  by (simp_all add: and_result_def or_result_def truth_def)

lemma set_flatten_and:
  "set (flatten_and ops) = (\<Union>e \<in> set ops. insert (strip_and e) (set (nested_and e)))"
  by (auto simp: flatten_and_eq)

lemma set_flatten_or:
  "set (flatten_or ops) = (\<Union>e \<in> set ops. insert (strip_or e) (set (nested_or e)))"
  by (auto simp: flatten_or_eq)

lemma sem_flatten_and:
  assumes "sem I \<rho> (EAnd ops) = Some v"
  shows "sem I \<rho> (EAnd (flatten_and ops)) = Some v"
proof -
  from assms have t: "all_truth (sem I \<rho>) ops" and v: "v = and_result (values_of (sem I \<rho>) ops)"
    by (auto simp only: sem_and)
  have parts: "all_truth (sem I \<rho>) (strip_and e # nested_and e) \<and>
      sem I \<rho> e = Some (and_result (values_of (sem I \<rho>) (strip_and e # nested_and e)))"
    if "e \<in> set ops" for e
  proof -
    from that t obtain w where w: "sem I \<rho> e = Some w" "truth w" by (auto simp: all_truth_def)
    from strip_and_cases [of e] show ?thesis
    proof
      assume "strip_and e = e \<and> nested_and e = []"
      with w show ?thesis
        by (auto simp: all_truth_def values_of_def and_result_def truth_def)
    next
      assume e: "strip_and e = EValue (VBool True) \<and> e = EAnd (nested_and e)"
      with w have "all_truth (sem I \<rho>) (nested_and e)" "w = and_result (values_of (sem I \<rho>) (nested_and e))"
        by (metis sem_and)+
      with e w(1) show ?thesis
        by (auto simp: all_truth_def values_of_def and_result_def truth_def)
    qed
  qed
  have "all_truth (sem I \<rho>) (flatten_and ops)"
    using parts by (auto simp: all_truth_def set_flatten_and)
  moreover have "and_result (values_of (sem I \<rho>) (flatten_and ops)) = and_result (values_of (sem I \<rho>) ops)"
  proof -
    have union: "values_of (sem I \<rho>) (flatten_and ops) = (\<Union>e \<in> set ops. values_of (sem I \<rho>) (strip_and e # nested_and e))"
      unfolding values_of_def set_flatten_and by auto
    have vals: "values_of (sem I \<rho>) ops = (\<lambda>e. and_result (values_of (sem I \<rho>) (strip_and e # nested_and e))) ` set ops"
      using parts by (force simp: values_of_def)
    show ?thesis unfolding union vals
      by (auto simp: and_result_def split: if_splits)
  qed
  ultimately show ?thesis by (simp only: sem_and v)
qed

lemma sem_flatten_or:
  assumes "sem I \<rho> (EOr ops) = Some v"
  shows "sem I \<rho> (EOr (flatten_or ops)) = Some v"
proof -
  from assms have t: "all_truth (sem I \<rho>) ops" and v: "v = or_result (values_of (sem I \<rho>) ops)"
    by (auto simp only: sem_or)
  have parts: "all_truth (sem I \<rho>) (strip_or e # nested_or e) \<and>
      sem I \<rho> e = Some (or_result (values_of (sem I \<rho>) (strip_or e # nested_or e)))"
    if "e \<in> set ops" for e
  proof -
    from that t obtain w where w: "sem I \<rho> e = Some w" "truth w" by (auto simp: all_truth_def)
    from strip_or_cases [of e] show ?thesis
    proof
      assume "strip_or e = e \<and> nested_or e = []"
      with w show ?thesis
        by (auto simp: all_truth_def values_of_def or_result_def truth_def)
    next
      assume e: "strip_or e = EValue (VBool False) \<and> e = EOr (nested_or e)"
      with w have "all_truth (sem I \<rho>) (nested_or e)" "w = or_result (values_of (sem I \<rho>) (nested_or e))"
        by (metis sem_or)+
      with e w(1) show ?thesis
        by (auto simp: all_truth_def values_of_def or_result_def truth_def)
    qed
  qed
  have "all_truth (sem I \<rho>) (flatten_or ops)"
    using parts by (auto simp: all_truth_def set_flatten_or)
  moreover have "or_result (values_of (sem I \<rho>) (flatten_or ops)) = or_result (values_of (sem I \<rho>) ops)"
  proof -
    have union: "values_of (sem I \<rho>) (flatten_or ops) = (\<Union>e \<in> set ops. values_of (sem I \<rho>) (strip_or e # nested_or e))"
      unfolding values_of_def set_flatten_or by auto
    have vals: "values_of (sem I \<rho>) ops = (\<lambda>e. or_result (values_of (sem I \<rho>) (strip_or e # nested_or e))) ` set ops"
      using parts by (force simp: values_of_def)
    show ?thesis unfolding union vals
      by (auto simp: or_result_def split: if_splits)
  qed
  ultimately show ?thesis by (simp only: sem_or v)
qed


subsection \<open>Soundness of the rules\<close>

lemma values_filter_true:
  assumes "all_truth (sem I \<rho>) es"
  shows "all_truth (sem I \<rho>) (filter (\<lambda>e. \<not> is_true e) es)"
    and "and_result (values_of (sem I \<rho>) (filter (\<lambda>e. \<not> is_true e) es)) = and_result (values_of (sem I \<rho>) es)"
proof -
  show "all_truth (sem I \<rho>) (filter (\<lambda>e. \<not> is_true e) es)"
    using assms by (auto simp: all_truth_def)
  have "values_of (sem I \<rho>) es \<subseteq> insert (VBool True) (values_of (sem I \<rho>) (filter (\<lambda>e. \<not> is_true e) es))"
    by (auto simp: values_of_def is_true_def)
  moreover have "values_of (sem I \<rho>) (filter (\<lambda>e. \<not> is_true e) es) \<subseteq> values_of (sem I \<rho>) es"
    by (auto simp: values_of_def)
  ultimately show "and_result (values_of (sem I \<rho>) (filter (\<lambda>e. \<not> is_true e) es)) = and_result (values_of (sem I \<rho>) es)"
    by (auto simp: and_result_def)
qed

lemma values_filter_false:
  assumes "all_truth (sem I \<rho>) es"
  shows "all_truth (sem I \<rho>) (filter (\<lambda>e. \<not> is_false e) es)"
    and "or_result (values_of (sem I \<rho>) (filter (\<lambda>e. \<not> is_false e) es)) = or_result (values_of (sem I \<rho>) es)"
proof -
  show "all_truth (sem I \<rho>) (filter (\<lambda>e. \<not> is_false e) es)"
    using assms by (auto simp: all_truth_def)
  have "values_of (sem I \<rho>) es \<subseteq> insert (VBool False) (values_of (sem I \<rho>) (filter (\<lambda>e. \<not> is_false e) es))"
    by (auto simp: values_of_def is_false_def)
  moreover have "values_of (sem I \<rho>) (filter (\<lambda>e. \<not> is_false e) es) \<subseteq> values_of (sem I \<rho>) es"
    by (auto simp: values_of_def)
  ultimately show "or_result (values_of (sem I \<rho>) (filter (\<lambda>e. \<not> is_false e) es)) = or_result (values_of (sem I \<rho>) es)"
    by (auto simp: or_result_def)
qed

lemma values_nulls:
  "es \<noteq> [] \<Longrightarrow> list_all is_value_null es \<Longrightarrow> values_of (sem I \<rho>) es = {VNull}"
proof -
  assume ne: "es \<noteq> []" and nulls: "list_all is_value_null es"
  have "sem I \<rho> e = Some VNull" if "e \<in> set es" for e
  proof -
    from nulls that have "is_value_null e" by (simp only: list_all_iff)
    then have "e = EValue VNull" by (simp only: is_value_null_def)
    then show ?thesis by (simp only: sem.simps)
  qed
  then have "values_of (sem I \<rho>) es = {t. \<exists>e \<in> set es. Some VNull = Some t}"
    unfolding values_of_def by (intro Collect_cong bex_cong) simp_all
  also have "\<dots> = {VNull}" using ne by (cases es) auto
  finally show ?thesis .
qed

lemma values_single:
  "all_truth (sem I \<rho>) [e] \<Longrightarrow> \<exists>t. sem I \<rho> e = Some t \<and> truth t \<and> values_of (sem I \<rho>) [e] = {t}"
  by (auto simp: all_truth_def values_of_def)

lemma result_single: "truth t \<Longrightarrow> and_result {t} = t" "truth t \<Longrightarrow> or_result {t} = t"
  by (auto simp: truth_def and_result_def or_result_def)

lemma result_empty [simp]: "and_result (values_of (sem I \<rho>) []) = VBool True" "or_result (values_of (sem I \<rho>) []) = VBool False"
  by (simp_all add: values_of_def and_result_def or_result_def)

lemma sem_fold_and:
  assumes "sem I \<rho> (EAnd es) = Some v"
  shows "sem I \<rho> (folded_expr (fold_expr_and es)) = Some v"
proof -
  define ops where "ops = flatten_and es"
  define kept where "kept = filter (\<lambda>e. \<not> is_true e) ops"
  have t: "all_truth (sem I \<rho>) ops" and v: "v = and_result (values_of (sem I \<rho>) ops)"
    using sem_flatten_and [OF assms] by (simp_all only: sem_and ops_def)
  have kept: "all_truth (sem I \<rho>) kept" "v = and_result (values_of (sem I \<rho>) kept)"
    using values_filter_true [OF t] v by (simp_all add: kept_def)
  consider "list_ex is_false ops"
    | "\<not> list_ex is_false ops" "kept \<noteq> []" "list_all is_value_null kept"
    | "\<not> list_ex is_false ops" "\<not> (kept \<noteq> [] \<and> list_all is_value_null kept)"
    by blast
  then show ?thesis
  proof cases
    case 1
    then have "VBool False \<in> values_of (sem I \<rho>) ops"
      by (auto simp: list_ex_iff is_false_def values_of_def intro!: bexI [of _ "EValue (VBool False)"])
    with 1 v show ?thesis by (simp add: fold_expr_and_def ops_def [symmetric] and_result_def)
  next
    case 2
    with kept(2) show ?thesis
      by (simp add: fold_expr_and_def ops_def [symmetric] kept_def [symmetric] values_nulls and_result_def)
  next
    case 3
    then have f: "fold_expr_and es =
        (case kept of [] \<Rightarrow> Replaced (EValue (VBool True)) | [e] \<Rightarrow> Replaced e | _ \<Rightarrow> InPlace (EAnd kept))"
      by (auto simp: fold_expr_and_def ops_def [symmetric] kept_def [symmetric])
    have "sem I \<rho> (EAnd kept) = Some v" by (simp only: sem_and kept)
    moreover have "sem I \<rho> e = Some v" if "kept = [e]" for e
      using kept values_single [of I \<rho> e] that by (auto simp: result_single)
    ultimately show ?thesis
      using kept(2) by (auto simp: f split: list.split)
  qed
qed

lemma sem_fold_or:
  assumes "sem I \<rho> (EOr es) = Some v"
  shows "sem I \<rho> (folded_expr (fold_expr_or es)) = Some v"
proof -
  define ops where "ops = flatten_or es"
  define kept where "kept = filter (\<lambda>e. \<not> is_false e) ops"
  have t: "all_truth (sem I \<rho>) ops" and v: "v = or_result (values_of (sem I \<rho>) ops)"
    using sem_flatten_or [OF assms] by (simp_all only: sem_or ops_def)
  have kept: "all_truth (sem I \<rho>) kept" "v = or_result (values_of (sem I \<rho>) kept)"
    using values_filter_false [OF t] v by (simp_all add: kept_def)
  consider "list_ex is_true ops"
    | "\<not> list_ex is_true ops" "kept \<noteq> []" "list_all is_value_null kept"
    | "\<not> list_ex is_true ops" "\<not> (kept \<noteq> [] \<and> list_all is_value_null kept)"
    by blast
  then show ?thesis
  proof cases
    case 1
    then have "VBool True \<in> values_of (sem I \<rho>) ops"
      by (auto simp: list_ex_iff is_true_def values_of_def intro!: bexI [of _ "EValue (VBool True)"])
    with 1 v show ?thesis by (simp add: fold_expr_or_def ops_def [symmetric] or_result_def)
  next
    case 2
    with kept(2) show ?thesis
      by (simp add: fold_expr_or_def ops_def [symmetric] kept_def [symmetric] values_nulls or_result_def)
  next
    case 3
    then have f: "fold_expr_or es =
        (case kept of [] \<Rightarrow> Replaced (EValue (VBool False)) | [e] \<Rightarrow> Replaced e | _ \<Rightarrow> InPlace (EOr kept))"
      by (auto simp: fold_expr_or_def ops_def [symmetric] kept_def [symmetric])
    have "sem I \<rho> (EOr kept) = Some v" by (simp only: sem_or kept)
    moreover have "sem I \<rho> e = Some v" if "kept = [e]" for e
      using kept values_single [of I \<rho> e] that by (auto simp: result_single)
    ultimately show ?thesis
      using kept(2) by (auto simp: f split: list.split)
  qed
qed

lemma op_values_const: "op_values op a b = Some v \<Longrightarrow> const_binary_op op a b = Some v"
proof (cases op)
  case OpLt
  moreover have "is_lt c = (c = Less)" for c by (cases c) auto
  moreover assume "op_values op a b = Some v"
  ultimately show ?thesis by simp
next
  case OpLe
  moreover have "is_gt c = (c = Greater)" for c by (cases c) auto
  moreover assume "op_values op a b = Some v"
  ultimately show ?thesis by simp
next
  case OpGt
  moreover have "is_gt c = (c = Greater)" for c by (cases c) auto
  moreover assume "op_values op a b = Some v"
  ultimately show ?thesis by simp
next
  case OpGe
  moreover have "is_lt c = (c = Less)" for c by (cases c) auto
  moreover assume "op_values op a b = Some v"
  ultimately show ?thesis by simp
qed (auto split: if_splits)

lemma sem_op_commute: "commute_op op = Some op' \<Longrightarrow> sem_op op' b a = sem_op op a b"
proof -
  have rev: "ordering_reverse c = Less \<longleftrightarrow> c = Greater" "ordering_reverse c = Greater \<longleftrightarrow> c = Less" for c
    by (cases c; simp)+
  show "commute_op op = Some op' \<Longrightarrow> ?thesis"
    by (cases op)
      (auto simp: sem_op_def value_eq_sym checked_add_commute partial_cmp_reverse [of a b]
        option.map_comp comp_def rev)
qed

lemma sem_op_negate:
  assumes "negate_op op = Some op'" "sem_op op a b = Some w" "not3 w = Some v"
  shows "sem_op op' a b = Some v"
  using assms by (cases op) (auto simp: sem_op_def not3_def split: if_splits)

lemma sem_op_bool:
  assumes "op = OpEq \<or> op = OpNe" "sem_op op a (VBool b) = Some v"
  shows "truth a" "v = (if (op = OpEq) = b then a else if a = VNull then VNull else VBool (a = VBool False))"
  using assms by (auto simp: sem_op_def is_bool_def truth_def value_eq_bool_iff split: if_splits)

lemma sem_bool_comparison:
  assumes "op = OpEq \<or> op = OpNe" "sem I \<rho> e = Some a" "sem_op op a (VBool b) = Some v"
  shows "sem I \<rho> (fold_bool_comparison op e b) = Some v"
  using sem_op_bool [OF assms(1,3)] assms(1,2)
  by (auto simp: fold_bool_comparison_def not3_def truth_def split: if_splits)

lemma sem_fold_binary:
  assumes "sem I \<rho> (EBinaryOp l op r) = Some v"
  shows "sem I \<rho> (folded_expr (fold_expr_binary_op op l r)) = Some v"
proof -
  from assms obtain a b where ab: "sem I \<rho> l = Some a" "sem I \<rho> r = Some b" "sem_op op a b = Some v"
    by (auto simp: opt2_def bind_eq_Some_conv)
  show ?thesis
  proof (cases "as_value l \<noteq> None \<and> as_value r \<noteq> None")
    case True
    with ab have "l = EValue a" "r = EValue b" by auto
    with ab(3) show ?thesis
      by (auto simp: fold_expr_binary_op_def sem_op_def is_null_def op_values_const split: if_splits)
  next
    case False
    then have "fold_expr_binary_op op l r = fold_symbolic op l r"
      by (cases "as_value l"; cases "as_value r") (auto simp: fold_expr_binary_op_def)
    moreover have "sem I \<rho> (folded_expr (fold_symbolic op l r)) = Some v"
    proof (cases rule: fold_symbolic_cases [of r op l])
      case (right c)
      with ab show ?thesis by (simp add: sem_bool_comparison)
    next
      case (left c)
      with ab have "sem_op op b (VBool c) = Some v"
        using sem_op_commute [of op op b a] by auto
      with left ab show ?thesis by (simp add: sem_bool_comparison)
    next
      case null
      with ab show ?thesis by (auto simp: sem_op_def)
    next
      case (swap op' w)
      with ab show ?thesis by (simp add: opt2_def sem_op_commute)
    next
      case keep
      with assms show ?thesis by simp
    qed
    ultimately show ?thesis by simp
  qed
qed

lemma lower_non_null: "lower_document R f v = Ok w \<Longrightarrow> v \<noteq> VNull \<Longrightarrow> w \<noteq> VNull"
  by (auto simp: lower_document.simps [of R f] result_simps split: ty.splits option.splits)

lemma cast_from_is_null: "cast_from U R frm t v = Ok w \<Longrightarrow> is_null w = is_null v"
  by (auto simp: cast_from_def is_null_def split: if_splits option.splits
      dest: lower_non_null cast_non_null)

lemma sem_fold_cast:
  assumes "fold_expr_cast (i_uuid I) e frm t = Ok r"
  shows "less_defined (sem I \<rho> (ECast e frm t)) (sem I \<rho> (folded_expr r))"
proof (cases "e = EDefault \<or> frm \<noteq> None \<or> contains_model t \<or> as_value e = None")
  case True
  with assms show ?thesis by (auto simp: fold_expr_cast_def split: if_splits)
next
  case False
  then obtain v where "e = EValue v" "frm = None" "\<not> contains_model t" by auto
  with assms show ?thesis
    by (auto simp: fold_expr_cast_def result_simps cast_from_None
        cast_no_model [of t "i_uuid I" "i_models I" _ no_models])
qed

lemma sem_fold_is_null:
  "less_defined (sem I \<rho> (EIsNull e neg)) (sem I \<rho> (folded_expr (fold_expr_is_null e neg)))"
proof (cases e)
  case (ECast x frm t)
  show ?thesis
    by (cases "sem I \<rho> x")
      (auto simp: ECast fold_expr_is_null_def as_ok_def less_defined_def bind_eq_Some_conv
        dest: cast_from_is_null split: sum.splits)
qed (auto simp: fold_expr_is_null_def less_defined_def bind_eq_Some_conv is_null_def)

lemma sem_literals: "opt_all as_value es = Some vs \<Longrightarrow> opt_all (sem I \<rho>) es = Some vs"
  by (induction es arbitrary: vs) (auto split: option.splits)

lemma sem_in_eq:
  "sem_in x vs = Some t \<longleftrightarrow> (x = VNull \<longrightarrow> vs \<noteq> []) \<and>
     all_truth (sem_op OpEq x) vs \<and> t = or_result (values_of (sem_op OpEq x) vs)"
  using sem_connective [OF or3_eq, of "sem_op OpEq x" vs t] by (auto simp: sem_in_def)

lemma sem_in_same_set: "set ws = set vs \<Longrightarrow> sem_in x vs = Some t \<Longrightarrow> sem_in x ws = Some t"
  by (auto simp: sem_in_eq all_truth_def values_of_def)

lemma sem_in_single: "sem_in x [y] = Some t \<Longrightarrow> sem_op OpEq x y = Some t"
  by (auto simp: sem_in_eq all_truth_def values_of_def result_single)

lemma sem_empty_list: "is_list_empty l \<Longrightarrow> sem I \<rho> l = Some (VList [])"
  by (auto simp: is_list_empty_def)

lemma sem_dedup_list:
  assumes "sem I \<rho> l = Some (VList vs)" "sem_in x vs = Some v"
  shows "\<exists>ws. sem I \<rho> (dedup_list l) = Some (VList ws) \<and> sem_in x ws = Some v"
proof (cases "dedup_list l = l")
  case False
  then obtain us where "l = EValue (VList us)"
    by (auto simp: dedup_list_def split: expr.splits val.splits)
  with assms show ?thesis
    by (auto simp: dedup_list_def value_dedup_same_set intro: sem_in_same_set)
qed (use assms in auto)

lemma sem_fold_in_list:
  assumes f: "fold_expr_in_list e l = Ok r" and s: "sem I \<rho> (EInList e l) = Some v"
  shows "sem I \<rho> (folded_expr r) = Some v"
proof -
  from s obtain x vs where x: "sem I \<rho> e = Some x" "sem I \<rho> l = Some (VList vs)" "sem_in x vs = Some v"
    by (auto simp: opt2_def on_list_def bind_eq_Some_conv)
  obtain ws where ws: "sem I \<rho> (dedup_list l) = Some (VList ws)" "sem_in x ws = Some v"
    using sem_dedup_list [OF x(2,3)] by blast
  consider "is_list_empty l" | "\<not> is_list_empty l" "is_value_null e"
    | "rewrite_single_item e (dedup_list l) = Ok r"
    using f by (auto simp: fold_expr_in_list_def split: if_splits)
  then show ?thesis
  proof cases
    case 1
    with x have "vs = []" using sem_empty_list [of l I \<rho>] by simp
    with x(3) 1 f show ?thesis
      by (auto simp: fold_expr_in_list_def sem_in_eq values_of_def or_result_def)
  next
    case 2
    with x have "x = VNull" by (simp add: is_value_null_def)
    with x(3) have "v = VNull"
      by (auto simp: sem_in_eq values_of_def sem_op_def or_result_def split: if_splits)
    with 2 f show ?thesis by (auto simp: fold_expr_in_list_def)
  next
    case 3
    have keep: "sem I \<rho> (EInList e (dedup_list l)) = Some v"
      using x(1) ws by (simp add: opt2_def on_list_def)
    have single: "sem I \<rho> (EBinaryOp e OpEq y) = Some v" if "sem I \<rho> y = Some z" "ws = [z]" for y z
      using that x(1) ws(2) by (auto simp: opt2_def dest: sem_in_single)
    show ?thesis
    proof (cases "dedup_list l")
      case (EValue w)
      with ws(1) have "dedup_list l = EValue (VList ws)" by simp
      with 3 keep show ?thesis
        by (auto simp: rewrite_single_item_def split: list.splits intro!: single simp del: sem.simps(7,10))
    next
      case (EList es)
      show ?thesis
      proof (cases "\<exists>y. es = [y]")
        case True
        then obtain y where y: "es = [y]" by blast
        with EList ws(1) obtain z where "sem I \<rho> y = Some z" "ws = [z]"
          by (auto split: option.splits)
        moreover from y EList 3 have "r = Replaced (EBinaryOp e OpEq y)"
          by (simp add: rewrite_single_item_def)
        ultimately show ?thesis using single by (simp del: sem.simps)
      next
        case False
        with EList 3 have "r = InPlace (EInList e (dedup_list l))"
          by (auto simp: rewrite_single_item_def split: list.splits)
        with keep show ?thesis by (simp del: sem.simps)
      qed
    qed (use 3 keep in \<open>auto simp: rewrite_single_item_def todo_def simp del: sem.simps\<close>)
  qed
qed

lemma sem_fold_match:
  "less_defined (sem I \<rho> (EMatch s arms els)) (sem I \<rho> (folded_expr (fold_expr_match s arms els)))"
proof (cases "as_value s")
  case (Some v)
  then show ?thesis by (simp add: fold_expr_match_def select_arm_def arm_for_def)
next
  case None
  show ?thesis
  proof (cases arms)
    case (Cons arm rest)
    have "arm_for v arms els = snd arm"
      if "list_all (\<lambda>a. expr_eq (snd a) (snd arm)) arms" "expr_eq els (snd arm)" for v
      using arm_for_all [of arms "\<lambda>e. expr_eq e (snd arm)" els v] that
      by (auto simp: list_all_iff expr_eq_def)
    with None Cons show ?thesis
      by (auto simp: fold_expr_match_def less_defined_def bind_eq_Some_conv)
  qed (use None in \<open>simp add: fold_expr_match_def\<close>)
qed

lemma sem_or_from_vec: "sem I \<rho> (EOr es) = Some v \<Longrightarrow> sem I \<rho> (or_from_vec es) = Some v"
proof -
  assume a: "sem I \<rho> (EOr es) = Some v"
  then have t: "all_truth (sem I \<rho>) es" "v = or_result (values_of (sem I \<rho>) es)"
    by (simp_all only: sem_or)
  have "sem I \<rho> e = Some v" if "es = [e]" for e
    using t values_single [of I \<rho> e] that by (auto simp: result_single)
  moreover have "v = VBool False" if "es = []"
    using t(2) that by simp
  ultimately show ?thesis
    using a by (auto simp: or_from_vec_def split: list.split)
qed

lemma sem_and_from_vec: "sem I \<rho> (EAnd es) = Some v \<Longrightarrow> sem I \<rho> (and_from_vec es) = Some v"
proof -
  assume a: "sem I \<rho> (EAnd es) = Some v"
  then have t: "all_truth (sem I \<rho>) es" "v = and_result (values_of (sem I \<rho>) es)"
    by (simp_all only: sem_and)
  have "sem I \<rho> e = Some v" if "es = [e]" for e
    using t values_single [of I \<rho> e] that by (auto simp: result_single)
  moreover have "v = VBool True" if "es = []"
    using t(2) that by simp
  ultimately show ?thesis
    using a by (auto simp: and_from_vec_def split: list.split)
qed

lemma all_truth_not: "all_truth (sem I \<rho>) es \<Longrightarrow> all_truth (sem I \<rho>) (map ENot es)"
  by (force simp: all_truth_def not3_def truth_def)

lemma values_not:
  "all_truth (sem I \<rho>) es \<Longrightarrow>
   values_of (sem I \<rho>) (map ENot es) = (\<lambda>t. the (not3 t)) ` values_of (sem I \<rho>) es"
proof -
  assume t: "all_truth (sem I \<rho>) es"
  have e: "sem I \<rho> (ENot e) = Some t \<longleftrightarrow> (\<exists>u. sem I \<rho> e = Some u \<and> t = the (not3 u))"
    if "e \<in> set es" for e t
  proof -
    from that t obtain u where "sem I \<rho> e = Some u" "truth u" by (auto simp: all_truth_def)
    then show ?thesis by (auto simp: not3_def truth_def)
  qed
  show ?thesis
  proof (rule set_eqI)
    fix t
    have "t \<in> values_of (sem I \<rho>) (map ENot es) \<longleftrightarrow> (\<exists>e \<in> set es. sem I \<rho> (ENot e) = Some t)"
      by (simp add: values_of_def)
    also have "\<dots> \<longleftrightarrow> (\<exists>e \<in> set es. \<exists>u. sem I \<rho> e = Some u \<and> t = the (not3 u))"
      using e by (meson bex_cong)
    also have "\<dots> \<longleftrightarrow> t \<in> (\<lambda>t. the (not3 t)) ` values_of (sem I \<rho>) es"
      by (auto simp: values_of_def)
    finally show "t \<in> values_of (sem I \<rho>) (map ENot es) \<longleftrightarrow>
        t \<in> (\<lambda>t. the (not3 t)) ` values_of (sem I \<rho>) es" .
  qed
qed

lemma not3_results:
  assumes "\<forall>t \<in> V. truth t"
  shows "not3 (and_result V) = Some (or_result ((\<lambda>t. the (not3 t)) ` V))"
    and "not3 (or_result V) = Some (and_result ((\<lambda>t. the (not3 t)) ` V))"
proof -
  have n: "(VBool b = the (not3 t)) = (t = VBool (\<not> b))" "(VNull = the (not3 t)) = (t = VNull)"
    if "t \<in> V" for t b
  proof -
    from assms that have "truth t" by blast
    then have "t = VBool True \<or> t = VBool False \<or> t = VNull" by (auto simp: truth_def)
    then show "(VBool b = the (not3 t)) = (t = VBool (\<not> b))" "(VNull = the (not3 t)) = (t = VNull)"
      by (elim disjE; simp add: not3_def; blast)+
  qed
  define W where "W = (\<lambda>t. the (not3 t)) ` V"
  have w: "(VBool b \<in> W) = (VBool (\<not> b) \<in> V)" "(VNull \<in> W) = (VNull \<in> V)" for b
  proof -
    have "(VBool b \<in> W) = (\<exists>t \<in> V. VBool b = the (not3 t))" by (simp only: W_def image_iff)
    also have "\<dots> = (\<exists>t \<in> V. t = VBool (\<not> b))" using n(1) by (rule bex_cong [OF refl])
    finally show "(VBool b \<in> W) = (VBool (\<not> b) \<in> V)" by simp
    have "(VNull \<in> W) = (\<exists>t \<in> V. VNull = the (not3 t))" by (simp only: W_def image_iff)
    also have "\<dots> = (\<exists>t \<in> V. t = VNull)" using n(2) by (rule bex_cong [OF refl])
    finally show "(VNull \<in> W) = (VNull \<in> V)" by simp
  qed
  show "not3 (and_result V) = Some (or_result ((\<lambda>t. the (not3 t)) ` V))"
    "not3 (or_result V) = Some (and_result ((\<lambda>t. the (not3 t)) ` V))"
    unfolding W_def [symmetric] and_result_def or_result_def w
    by (cases "VBool False \<in> V"; cases "VNull \<in> V"; cases "VBool True \<in> V"; simp add: not3_def)+
qed

lemma values_truth: "all_truth f es \<Longrightarrow> \<forall>t \<in> values_of f es. truth t"
  by (auto simp: all_truth_def values_of_def)

lemma sem_fold_not:
  assumes "sem I \<rho> (ENot e) = Some v"
  shows "sem I \<rho> (folded_expr (fold_expr_not e)) = Some v"
proof -
  from assms obtain w where w: "sem I \<rho> e = Some w" "not3 w = Some v"
    by (auto simp: bind_eq_Some_conv)
  show ?thesis
  proof (cases e)
    case (EAnd es)
    with w have t: "all_truth (sem I \<rho>) es" "w = and_result (values_of (sem I \<rho>) es)"
      by (simp_all only: sem_and)
    with w have "sem I \<rho> (EOr (map ENot es)) = Some v"
      using not3_results(1) [OF values_truth [OF t(1)]]
      by (simp add: sem_or all_truth_not values_not del: sem.simps)
    with EAnd show ?thesis by (simp add: fold_expr_not_def sem_or_from_vec del: sem.simps)
  next
    case (EOr es)
    with w have t: "all_truth (sem I \<rho>) es" "w = or_result (values_of (sem I \<rho>) es)"
      by (simp_all only: sem_or)
    with w have "sem I \<rho> (EAnd (map ENot es)) = Some v"
      using not3_results(2) [OF values_truth [OF t(1)]]
      by (simp add: sem_and all_truth_not values_not del: sem.simps)
    with EOr show ?thesis by (simp add: fold_expr_not_def sem_and_from_vec del: sem.simps)
  next
    case (EBinaryOp l op r)
    with w obtain a b where "sem I \<rho> l = Some a" "sem I \<rho> r = Some b" "sem_op op a b = Some w"
      by (auto simp: opt2_def bind_eq_Some_conv)
    with EBinaryOp w(2) assms show ?thesis
      by (auto simp: fold_expr_not_def opt2_def dest: sem_op_negate split: option.split)
  next
    case (ENot x)
    with w obtain u where "sem I \<rho> x = Some u" "not3 u = Some w" by (auto simp: bind_eq_Some_conv)
    with ENot w(2) show ?thesis
      by (auto simp: fold_expr_not_def not3_def split: val.splits)
  next
    case (EInList x l)
    show ?thesis
    proof (cases "is_list_empty l")
      case True
      with EInList w have "w = VBool False"
        by (auto simp: sem_empty_list opt2_def on_list_def bind_eq_Some_conv sem_in_eq values_of_def or_result_def)
      with True EInList w(2) show ?thesis by (simp add: fold_expr_not_def not3_def)
    qed (use EInList assms in \<open>simp add: fold_expr_not_def del: sem.simps\<close>)
  next
    case (EValue u)
    with w assms show ?thesis
      by (auto simp: fold_expr_not_def not3_def split: val.splits)
  qed (use assms in \<open>simp_all add: fold_expr_not_def del: sem.simps\<close>)
qed

lemma sem_fold_one:
  assumes f: "fold_one (i_uuid I) e = Ok r" and "scalar e"
    and let_ok: "\<And>bs body. e = ELet bs body \<Longrightarrow> capture_free bs body"
  shows "less_defined (sem I \<rho> e) (sem I \<rho> (folded_expr r))"
proof (cases e)
  case (ECast x frm t)
  with f have "fold_expr_cast (i_uuid I) x frm t = Ok r" by (simp add: fold_one_def)
  from sem_fold_cast [OF this] ECast show ?thesis by (simp only:)
next
  case (ELet bs body)
  show ?thesis
  proof (cases "list_all is_stable bs")
    case True
    have "less_defined (sem I (vs # \<rho>) body) (sem I \<rho> (substitute_let_bindings bs body))"
      if "opt_all (sem I \<rho>) bs = Some vs" for vs
      using sem_lsub [OF that, of body "[]"] let_ok [OF ELet] \<open>scalar e\<close> ELet
      by (auto simp: capture_free_def substitute_let_bindings_def)
    with ELet True f show ?thesis
      by (auto simp: fold_one_def fold_expr_let_def less_defined_def bind_eq_Some_conv)
  qed (use ELet f in \<open>auto simp: fold_one_def fold_expr_let_def\<close>)
next
  case (EIsNull x neg)
  with f show ?thesis using sem_fold_is_null [of I \<rho> x neg] by (auto simp: fold_one_def)
next
  case (EMatch s arms els)
  with f show ?thesis using sem_fold_match [of I \<rho> s arms els] by (auto simp: fold_one_def simp del: sem.simps)
next
  case (EIsSuperset a b)
  with f show ?thesis
    by (cases "is_list_empty b")
      (auto simp: fold_one_def fold_expr_is_superset_def sem_empty_list less_defined_def opt2_def bind_eq_Some_conv)
next
  case (EIntersects a b)
  with f show ?thesis
    by (cases "is_list_empty b")
      (auto simp: fold_one_def fold_expr_intersects_def sem_empty_list less_defined_def opt2_def bind_eq_Some_conv)
next
  case (EList es)
  with f show ?thesis
    by (auto simp: fold_one_def fold_expr_list_def sem_literals split: option.split)
next
  case (ERecord es)
  with f show ?thesis
    by (auto simp: fold_one_def fold_expr_record_def sem_literals split: option.split)
next
  case (EAnd es)
  with f show ?thesis by (auto simp: fold_one_def less_defined_def sem_fold_and simp del: sem.simps)
next
  case (EOr es)
  with f show ?thesis by (auto simp: fold_one_def less_defined_def sem_fold_or simp del: sem.simps)
next
  case (ENot x)
  with f show ?thesis by (auto simp: fold_one_def less_defined_def sem_fold_not simp del: sem.simps)
next
  case (EBinaryOp a op b)
  with f show ?thesis by (auto simp: fold_one_def less_defined_def sem_fold_binary simp del: sem.simps)
next
  case (EInList x l)
  with f show ?thesis
    by (auto simp: fold_one_def less_defined_def intro: sem_fold_in_list simp del: sem.simps)
qed (use f in \<open>auto simp: fold_one_def simp del: sem.simps\<close>)

end
