(* ===== verification/FoldShape.thy ===== *)
theory FoldShape
  imports FoldRules
begin

text \<open>
  What the traversal and the substitution of \<open>Let\<close> bindings keep of the shape of an expression:
  its node kinds, its scopes and the arguments it leaves free.
\<close>

subsection \<open>The children of a visited node\<close>

lemma visit_children:
  "scalar_node e \<Longrightarrow> visit_expr f e = Ok e' \<Longrightarrow>
   list_all2 (\<lambda>c c'. f c = Ok c') (children e) (children e') \<and> scalar_node e'"
proof (cases e)
  case (EFunc fn)
  moreover assume "scalar_node e" "visit_expr f e = Ok e'"
  ultimately show ?thesis by (cases fn) (auto simp: result_simps)
next
  case (EMatch s arms els)
  moreover assume "visit_expr f e = Ok e'"
  moreover have "list_all2 (\<lambda>x y. visit_pair f x = Ok y) arms arms' \<Longrightarrow>
      list_all2 (\<lambda>c c'. f c = Ok c') (map snd arms) (map snd arms')" for arms'
    by (auto simp: list.rel_map visit_pair_def result_simps elim!: list_all2_mono)
  ultimately show ?thesis
    by (auto simp: result_simps intro!: list_all2_appendI)
qed (auto simp: result_simps intro: list_all2_appendI)

lemma visit_no_scope: "visit_expr f e = Ok e' \<Longrightarrow> no_scope_node e' = no_scope_node e"
  by (cases e) (auto simp: result_simps)

lemma visit_all:
  assumes "scalar_node e" "visit_expr f e = Ok e'" "p e'"
    and "\<And>c c'. c \<in> set (children e) \<Longrightarrow> f c = Ok c' \<Longrightarrow> for_all_exprs p c'"
  shows "for_all_exprs p e'"
  using visit_children [OF assms(1,2)] assms(3,4)
  by (subst for_all_exprs.simps) (auto simp: list_all_iff dest: list_all2_in_right)

lemma visit_scalar:
  assumes "scalar e" "visit_expr f e = Ok e'"
    and "\<And>c c'. c \<in> set (children e) \<Longrightarrow> f c = Ok c' \<Longrightarrow> scalar c'"
  shows "scalar e'"
  using visit_all [of e f e' scalar_node] visit_children [of e f e'] assms scalar_imp_node by blast

lemma map_children_all:
  assumes "scalar_node e" "p (map_children g e)" "\<And>c. c \<in> set (children e) \<Longrightarrow> for_all_exprs p (g c)"
  shows "for_all_exprs p (map_children g e)"
  by (rule visit_all [where f = "\<lambda>x. Ok (g x)", OF assms(1) map_children_visit]) (use assms in auto)

lemma map_children_scalar: "scalar_node e \<Longrightarrow> scalar_node (map_children g e)"
  using visit_children [OF _ map_children_visit] by blast

lemma map_children_no_scope: "no_scope_node (map_children g e) = no_scope_node e"
  by (rule visit_no_scope [OF map_children_visit])

subsection \<open>Substitution keeps the shape\<close>

definition lets_closed_node :: "expr \<Rightarrow> bool" where
  "lets_closed_node e = (case view_scope e of ScopeLet bs body \<Rightarrow> list_all (closed_in []) bs | _ \<Rightarrow> True)"

definition lets_flat_node :: "expr \<Rightarrow> bool" where
  "lets_flat_node e = (case view_scope e of ScopeLet bs body \<Rightarrow> no_scopes body | _ \<Rightarrow> True)"

abbreviation lets_closed :: "expr \<Rightarrow> bool" where
  "lets_closed e \<equiv> for_all_exprs lets_closed_node e"

abbreviation lets_flat :: "expr \<Rightarrow> bool" where
  "lets_flat e \<equiv> for_all_exprs lets_flat_node e"

lemma view_scope_no_scope: "no_scope_node e \<longleftrightarrow> view_scope e = ScopeNone"
  by (cases e) auto

lemma lets_node_simps [simp]:
  "no_scope_node e \<Longrightarrow> lets_closed_node e" "no_scope_node e \<Longrightarrow> lets_flat_node e"
  by (simp_all add: view_scope_no_scope lets_closed_node_def lets_flat_node_def)

lemma lets_let_simps [simp]:
  "lets_closed_node (ELet bs body) \<longleftrightarrow> list_all (closed_in []) bs" "lets_closed_node (EMap b m)"
  "lets_flat_node (ELet bs body) \<longleftrightarrow> no_scopes body" "lets_flat_node (EMap b m)"
  by (simp_all add: lets_closed_node_def lets_flat_node_def)

text \<open>Induction over an expression and the number of scopes entered, with the node kinds a
  substitution tells apart.\<close>

lemma scoped_induct [case_names let_node map_node arg other]:
  assumes "\<And>d bs body. (\<And>b. b \<in> set bs \<Longrightarrow> P d b) \<Longrightarrow> P (Suc d) body \<Longrightarrow> P d (ELet bs body)"
    and "\<And>d b m. P d b \<Longrightarrow> P (Suc d) m \<Longrightarrow> P d (EMap b m)"
    and "\<And>d i n. P d (EArg i n)"
    and "\<And>d e. no_scope_node e \<Longrightarrow> view_arg e = None \<Longrightarrow>
      (\<And>c. c \<in> set (children e) \<Longrightarrow> P d c) \<Longrightarrow> P d e"
  shows "P d e"
proof (induction "size e" arbitrary: e d rule: less_induct)
  case less
  have IH: "P d' c" if "c \<in> set (children e)" for c d'
    using less that children_size by blast
  consider bs body where "e = ELet bs body" | b m where "e = EMap b m" | i n where "e = EArg i n"
    | "no_scope_node e" "view_arg e = None"
    by (cases e) auto
  then show ?case using assms IH by cases auto
qed

lemma lsub_node: "no_scope_node e \<Longrightarrow> view_arg e = None \<Longrightarrow> lsub bs d e = map_children (lsub bs d) e"
  by (simp add: lsub_other view_scope_no_scope)

lemma lsub_scalar: "list_all scalar bs \<Longrightarrow> scalar e \<Longrightarrow> scalar (lsub bs d e)"
proof (induction d e rule: scoped_induct)
  case (other d e)
  then show ?case
    by (auto simp: lsub_node intro!: map_children_all map_children_scalar dest: children_scalar scalar_imp_node)
qed (auto simp: list_all_iff)

lemma map_children_id:
  assumes "scalar_node e" "\<And>c. c \<in> set (children e) \<Longrightarrow> g c = c"
  shows "map_children g e = e"
proof -
  have "map_children g e = map_children (\<lambda>c. c) e"
    using assms by (intro map_children_cong) auto
  also have "\<dots> = e"
    using visit_self [OF assms(1)] by (simp add: map_children_def)
  finally show ?thesis .
qed

lemma lsub_closed: "closed_in ns e \<Longrightarrow> length ns \<le> d \<Longrightarrow> scalar e \<Longrightarrow> lsub bs d e = e"
proof (induction d e arbitrary: ns rule: scoped_induct)
  case (let_node d es body)
  from let_node(2) [of "length es # ns"] let_node(3-5) have "lsub bs (Suc d) body = body" by auto
  moreover have "map (lsub bs d) es = es"
    using let_node by (auto simp: list_all_iff intro!: map_idI)
  ultimately show ?case by simp
next
  case (map_node d b m)
  from map_node(2) [of "1 # ns"] map_node(1) [of ns] map_node(3-5) show ?case by auto
next
  case (other d e)
  then have "lsub bs d c = c" if "c \<in> set (children e)" for c
    using that by (auto simp: view_scope_no_scope dest: children_closed children_scalar)
  with other show ?case by (simp add: lsub_node map_children_id scalar_imp_node)
qed auto

lemma lsub_lets_closed:
  "\<lbrakk>list_all scalar bs; list_all (closed_in []) bs; list_all lets_closed bs; scalar e; lets_closed e\<rbrakk> \<Longrightarrow>
   lets_closed (lsub bs d e)"
proof (induction d e rule: scoped_induct)
  case (let_node d es body)
  have "map (lsub bs d) es = es"
    using let_node by (intro map_idI lsub_closed [of "[]"]) (auto simp: list_all_iff)
  with let_node show ?case by (auto simp: list_all_iff)
next
  case (other d e)
  have "lets_closed c" if "c \<in> set (children e)" for c
    using other(8) that by (subst (asm) for_all_exprs.simps) (auto simp: list_all_iff)
  with other show ?case
    by (auto simp: lsub_node map_children_no_scope intro!: map_children_all dest: children_scalar scalar_imp_node)
qed (auto simp: list_all_iff)

lemma lsub_lets_flat:
  "\<lbrakk>list_all lets_flat bs; scalar e; no_scopes e\<rbrakk> \<Longrightarrow> lets_flat (lsub bs d e)"
proof (induction d e rule: scoped_induct)
  case (other d e)
  then show ?case
    by (auto simp: lsub_node map_children_no_scope intro!: map_children_all
        dest: children_scalar scalar_imp_node children_no_scopes)
qed (auto simp: list_all_iff)

end
