(* ===== verification/FoldWeight.thy ===== *)
theory FoldWeight
  imports FoldShape
begin

text \<open>
  A weight of expressions that every rule of the canonicalization pass decreases: the pass
  needs no more fuel than the weight of its input.
\<close>

subsection \<open>The weight\<close>

text \<open>
  \<open>wt env e\<close>: \<open>env\<close> holds the weights of the bindings of each enclosing scope, innermost
  first; an argument weighs what may be put in its place.
\<close>

definition look :: "nat list list \<Rightarrow> nat \<Rightarrow> nat \<Rightarrow> nat" where
  "look env i n =
     (if n < length env \<and> i < length (env ! n) then max 2 (env ! n ! i)
      else foldr max (concat (drop n env)) 2)"

function wt :: "nat list list \<Rightarrow> expr \<Rightarrow> nat" where
  "wt env (EValue v) = 1"
| "wt env (EArg i n) = look env i n"
| "wt env (EAnd es) = 2 + sum_list (map (\<lambda>e. Suc (wt env e)) es)"
| "wt env (EOr es) = 2 + sum_list (map (\<lambda>e. Suc (wt env e)) es)"
| "wt env (EList es) = 2 + sum_list (map (\<lambda>e. Suc (wt env e)) es)"
| "wt env (ERecord es) = 2 + sum_list (map (\<lambda>e. Suc (wt env e)) es)"
| "wt env (ENot e) = 2 * wt env e + 1"
| "wt env (EBinaryOp l op r) = 2 * wt env l + 3 * wt env r"
| "wt env (ECast e from t) = wt env e + 2"
| "wt env (EIsNull e neg) = wt env e + 2"
| "wt env (EInList e l) = 3 * wt env e + 3 * wt env l + 1"
| "wt env (EMatch s arms els) = 2 + wt env s + sum_list (map (\<lambda>arm. wt env (snd arm)) arms) + wt env els"
| "wt env (ELet bs body) = 2 + sum_list (map (wt env) bs) + wt (map (wt env) bs # env) body"
| "wt env (EMap b m) = 2 + wt env b + wt ([2] # env) m"
| "wt env (EAllOp l op r) = 2 + wt env l + wt env r"
| "wt env (EAnyOp l op r) = 2 + wt env l + wt env r"
| "wt env (EAny e) = 2 + wt env e"
| "wt env (EBetween e l h) = 2 + wt env e + wt env l + wt env h"
| "wt env (EIntersects l r) = 2 + wt env l + wt env r"
| "wt env (EIsSuperset l r) = 2 + wt env l + wt env r"
| "wt env (EIsVariant e vid) = 2 + wt env e"
| "wt env (EVariant e vid) = 2 + wt env e"
| "wt env (ELength e) = 2 + wt env e"
| "wt env (ELike e p esc ci) = 2 + wt env e + wt env p"
| "wt env (EProject e path) = 2 + wt env e"
| "wt env (EStartsWith e p) = 2 + wt env e + wt env p"
| "wt env (EFunc (FJsonExtract b keys t)) = 2 + wt env b"
| "wt env (EFunc (FUnnest b)) = 2 + wt env b"
| "wt env (EFunc (FCount arg fil)) = 2"
| "wt env (EFunc FLastInsertId) = 2"
| "wt env EDefault = 2"
| "wt env (EError msg) = 2"
| "wt env (EStatic v) = 2"
| "wt env (EIdent s) = 2"
| "wt env (EIncoming k) = 2"
| "wt env (EReference ref) = 2"
| "wt env (EExists q) = 2"
| "wt env (EInSubquery e q neg rk) = 2"
| "wt env (EStmt s) = 2"
  by pat_completeness auto

termination
  by (relation "measure (\<lambda>(env, e). size e)")
    (auto dest: size_in_list size_arm_pair [where f = "\<lambda>_. 0"] simp: less_Suc_eq_le)

lemma foldr_max_ge: "(k :: nat) \<le> foldr max xs k"
  by (induction xs) auto

lemma look_ge: "2 \<le> look env i n"
  by (simp add: look_def foldr_max_ge)

lemma wt_pos: "1 \<le> wt env e"
  by (induction env e rule: wt.induct) (use look_ge in \<open>auto intro: order_trans [OF _ look_ge]\<close>)

lemma wt_pos' [simp]: "0 < wt env e"
  using wt_pos [of env e] by simp

lemma wt_not_value: "\<not> is_value e \<Longrightarrow> 2 \<le> wt env e"
  using look_ge wt_pos
  by (cases "(env, e)" rule: wt.cases) (auto intro: le_trans [OF _ add_mono [OF mult_le_mono2 mult_le_mono2, OF wt_pos wt_pos]])

lemma sum_list_le:
  fixes f :: "'a \<Rightarrow> nat" and g :: "'b \<Rightarrow> nat"
  shows "list_all2 (\<lambda>x y. f x \<le> g y) xs ys \<Longrightarrow> sum_list (map f xs) \<le> sum_list (map g ys)"
  by (induction rule: list_all2_induct) auto

text \<open>A visit of a node that opens no scope weighs no more than the node, if the children do.\<close>

lemma wt_visit_sum:
  assumes "traverse f es = Ok es'"
    and "\<And>c c'. c \<in> set es \<Longrightarrow> f c = Ok c' \<Longrightarrow> w' c' \<le> (w c :: nat)"
  shows "sum_list (map w' es') \<le> sum_list (map w es)"
proof -
  have "list_all2 (\<lambda>c' c. w' c' \<le> w c) es' es"
    using assms unfolding traverse_eq_Ok list_all2_conv_all_nth by auto
  then show ?thesis by (rule sum_list_le)
qed

lemma wt_visit_node:
  assumes v: "visit_expr f e = Ok e'"
    and "view_scope e = ScopeNone" "view_arg e = None" "scalar_node e"
    and c: "\<And>c c'. c \<in> set (children e) \<Longrightarrow> f c = Ok c' \<Longrightarrow> wt env' c' \<le> wt env c"
  shows "wt env' e' \<le> wt env e"
proof (cases e)
  case (EMatch s arms els)
  from v EMatch obtain s' arms' els' where e': "e' = EMatch s' arms' els'" "f s = Ok s'" "f els = Ok els'"
    and arms: "traverse (visit_pair f) arms = Ok arms'"
    by (auto simp: rmap3_eq_Ok)
  have "sum_list (map (\<lambda>arm. wt env' (snd arm)) arms') \<le> sum_list (map (\<lambda>arm. wt env (snd arm)) arms)"
  proof (rule wt_visit_sum [OF arms])
    fix arm arm'
    assume "arm \<in> set arms" "visit_pair f arm = Ok arm'"
    then show "wt env' (snd arm') \<le> wt env (snd arm)"
      using EMatch by (auto simp: visit_pair_def result_simps intro!: c)
  qed
  moreover have "wt env' s' \<le> wt env s" "wt env' els' \<le> wt env els"
    using e' EMatch by (auto intro: c)
  ultimately show ?thesis by (simp add: EMatch e')
next
  case (EFunc fn)
  with assms show ?thesis by (cases fn) (auto simp: result_simps)
next
  case (EAnd es)
  with v obtain es' where e': "e' = EAnd es'" and "traverse f es = Ok es'" by (auto simp: rmap_eq_Ok)
  from wt_visit_sum [OF this(2), of "\<lambda>e. Suc (wt env' e)" "\<lambda>e. Suc (wt env e)"] c
  show ?thesis by (simp add: EAnd e')
next
  case (EOr es)
  with v obtain es' where e': "e' = EOr es'" and "traverse f es = Ok es'" by (auto simp: rmap_eq_Ok)
  from wt_visit_sum [OF this(2), of "\<lambda>e. Suc (wt env' e)" "\<lambda>e. Suc (wt env e)"] c
  show ?thesis by (simp add: EOr e')
next
  case (EList es)
  with v obtain es' where e': "e' = EList es'" and "traverse f es = Ok es'" by (auto simp: rmap_eq_Ok)
  from wt_visit_sum [OF this(2), of "\<lambda>e. Suc (wt env' e)" "\<lambda>e. Suc (wt env e)"] c
  show ?thesis by (simp add: EList e')
next
  case (ERecord es)
  with v obtain es' where e': "e' = ERecord es'" and "traverse f es = Ok es'" by (auto simp: rmap_eq_Ok)
  from wt_visit_sum [OF this(2), of "\<lambda>e. Suc (wt env' e)" "\<lambda>e. Suc (wt env e)"] c
  show ?thesis by (simp add: ERecord e')
next
  case (ENot x)
  with v c show ?thesis by (auto simp: rmap_eq_Ok)
next
  case (EBinaryOp l op r)
  with v obtain l' r' where "e' = EBinaryOp l' op r'" "f l = Ok l'" "f r = Ok r'"
    by (auto simp: rmap2_eq_Ok)
  with c [of l l'] c [of r r'] show ?thesis by (simp add: EBinaryOp)
next
  case (EInList l r)
  with v obtain l' r' where "e' = EInList l' r'" "f l = Ok l'" "f r = Ok r'"
    by (auto simp: rmap2_eq_Ok)
  with c [of l l'] c [of r r'] show ?thesis by (simp add: EInList)
qed (use assms in \<open>auto simp: rmap_eq_Ok rmap2_eq_Ok rmap3_eq_Ok intro!: add_mono\<close>)


text \<open>A node that opens a scope.\<close>

lemma view_cases:
  obtains bs body where "e = ELet bs body" | b m where "e = EMap b m" | i n where "e = EArg i n"
    | "view_scope e = ScopeNone" "view_arg e = None"
  by (cases e) auto

lemma wt_node_cong:
  assumes "view_scope e = ScopeNone" "view_arg e = None" "scalar_node e"
    and c: "\<And>c. c \<in> set (children e) \<Longrightarrow> wt env' c = wt env c"
  shows "wt env' e = wt env e"
  using wt_visit_node [OF visit_self [OF assms(3)] assms(1-3), of env' env]
    wt_visit_node [OF visit_self [OF assms(3)] assms(1-3), of env env'] c
  by (metis Inr_inject le_antisym order_refl)

lemma wt_closed:
  "closed_in (map length env1) e \<Longrightarrow> scalar e \<Longrightarrow> wt (env1 @ env) e = wt (env1 @ env') e"
proof (induction "size e" arbitrary: e env1 rule: less_induct)
  case less
  have IH: "wt (env2 @ env) c = wt (env2 @ env') c"
    if "c \<in> set (children e)" "closed_in (map length env2) c" for c env2
    using that less.prems(2) less.hyps [of c env2] by (auto dest: children_size children_scalar)
  show ?case
  proof (cases e rule: view_cases)
    case (1 bs body)
    have b: "wt (env1 @ env) b = wt (env1 @ env') b" if "b \<in> set bs" for b
      using that less.prems 1 by (intro IH) (auto simp: list_all_iff)
    then have m: "map (wt (env1 @ env)) bs = map (wt (env1 @ env')) bs" by (intro map_cong refl)
    have "wt ((ws # env1) @ env) body = wt ((ws # env1) @ env') body" if "length ws = length bs" for ws
      using that less.prems 1 by (intro IH) auto
    from this [of "map (wt (env1 @ env')) bs"] show ?thesis unfolding 1 wt.simps m by simp
  next
    case (2 b m)
    then show ?thesis
      using IH [of b env1] IH [of m "[2] # env1"] less.prems by simp
  next
    case (3 i n)
    with less.prems show ?thesis by (auto simp: look_def nth_append)
  next
    case 4
    show ?thesis
    proof (rule wt_node_cong [OF 4 scalar_imp_node [OF less.prems(2)]])
      fix c assume c: "c \<in> set (children e)"
      with children_closed [OF less.prems(1) 4(1)] show "wt (env1 @ env) c = wt (env1 @ env') c"
        by (intro IH) auto
    qed
  qed
qed

lemma foldr_max_mono:
  "list_all2 (\<le>) xs ys \<Longrightarrow> (k :: nat) \<le> k' \<Longrightarrow> foldr max xs k \<le> foldr max ys k'"
  by (induction rule: list_all2_induct) (auto intro: max.mono)

abbreviation env_le :: "nat list list \<Rightarrow> nat list list \<Rightarrow> bool" where
  "env_le \<equiv> list_all2 (list_all2 (\<le>))"

lemma concat_le: "env_le env env' \<Longrightarrow> list_all2 (\<le>) (concat env) (concat env')"
  by (induction rule: list_all2_induct) (auto intro: list_all2_appendI)

lemma look_mono: "env_le env env' \<Longrightarrow> look env i n \<le> look env' i n"
proof -
  assume le: "env_le env env'"
  then have "foldr max (concat (drop n env)) 2 \<le> foldr max (concat (drop n env')) 2"
    by (intro foldr_max_mono concat_le list_all2_dropI) auto
  moreover have "length env = length env'" using le by (rule list_all2_lengthD)
  moreover have "length (env ! n) = length (env' ! n)" "i < length (env ! n) \<Longrightarrow> env ! n ! i \<le> env' ! n ! i"
    if "n < length env"
    using list_all2_nthD [OF le that] by (auto dest: list_all2_lengthD list_all2_nthD)
  ultimately show ?thesis by (auto simp: look_def)
qed

lemma env_le_refl [simp]: "env_le env env"
  by (simp add: list_all2_refl_on list.rel_refl)

lemma wt_mono: "env_le env env' \<Longrightarrow> scalar e \<Longrightarrow> wt env e \<le> wt env' e"
proof (induction "size e" arbitrary: e env env' rule: less_induct)
  case less
  have IH: "wt env1 c \<le> wt env2 c"
    if "c \<in> set (children e)" "env_le env1 env2" for c env1 env2
    using that less.prems(2) less.hyps [of c env1 env2] by (auto dest: children_size children_scalar)
  show ?case
  proof (cases e rule: view_cases)
    case (1 bs body)
    have b: "list_all2 (\<lambda>x y. wt env x \<le> wt env' y) bs bs"
      using less.prems 1 IH by (auto intro!: list_all2_refl_on)
    then have "wt (map (wt env) bs # env) body \<le> wt (map (wt env') bs # env') body"
      using less.prems 1 by (intro IH) (auto simp: list.rel_map)
    with sum_list_le [OF b] show ?thesis by (simp add: 1)
  next
    case (2 b m)
    then show ?thesis
      using IH [of b env env'] IH [of m "[2] # env" "[2] # env'"] less.prems by simp
  next
    case (3 i n)
    with less.prems show ?thesis by (simp add: look_mono)
  next
    case 4
    with less.prems show ?thesis
      by (intro wt_visit_node [OF visit_self]) (auto dest: scalar_imp_node intro: IH)
  qed
qed


subsection \<open>Substitution\<close>

lemma foldr_max_append: "foldr max (xs @ ys) (k :: nat) = max (foldr max xs k) (foldr max ys k)"
  by (induction xs) (auto simp: foldr_max_ge max.assoc max_absorb2)

lemma foldr_max_le: "k \<le> k' \<Longrightarrow> foldr max xs (k :: nat) \<le> foldr max xs k'"
  by (rule foldr_max_mono) (simp_all add: list.rel_refl)

lemma foldr_max_mem: "x \<in> set xs \<Longrightarrow> x \<le> foldr max xs (k :: nat)"
  by (induction xs) (auto simp: le_max_iff_disj)

lemma look_skip:
  "n \<noteq> length ks \<Longrightarrow> look (ks @ ns) i (if n > length ks then n - 1 else n) \<le> look (ks @ ws # ns) i n"
proof (cases "n < length ks")
  case True
  then show ?thesis
    by (auto simp: look_def nth_append foldr_max_ge intro!: foldr_max_le)
next
  case False
  moreover assume "n \<noteq> length ks"
  ultimately obtain m where "n = Suc (length ks + m)"
    by (metis less_iff_Suc_add linorder_neqE_nat)
  then show ?thesis by (simp add: look_def nth_append)
qed

lemma look_beyond: "length ws \<le> i \<Longrightarrow> look (ks @ ns) i (length ks) \<le> look (ks @ ws # ns) i (length ks)"
proof -
  assume i: "length ws \<le> i"
  have "look ns i 0 \<le> foldr max (concat ns) 2"
    using foldr_max_ge [of 2 "concat ns"]
    by (cases ns) (auto simp: look_def intro: foldr_max_mem)
  also have "\<dots> \<le> foldr max (concat (ws # ns)) 2" by (simp add: foldr_max_ge)
  also have "\<dots> = look (ks @ ws # ns) i (length ks)" using i by (simp add: look_def nth_append)
  also have "look ns i 0 = look (ks @ ns) i (length ks)" by (simp add: look_def nth_append)
  finally show ?thesis .
qed

lemma wt_lsub:
  assumes bs: "list_all scalar bs"
  shows "scalar e \<Longrightarrow> (ks = [] \<and> no_scopes e) \<or> list_all (closed_in []) bs \<Longrightarrow>
    wt (ks @ ns) (lsub bs (length ks) e) \<le> wt (ks @ map (wt ns) bs # ns) e"
proof (induction "size e" arbitrary: e ks rule: less_induct)
  case less
  note prems = less.prems
  have IH: "wt (ls @ ns) (lsub bs (length ls) c) \<le> wt (ls @ map (wt ns) bs # ns) c"
    if "c \<in> set (children e)" "ks = [] \<and> no_scopes e \<longrightarrow> ls = []" for c ls
    using that prems less.hyps [of c ls]
    by (auto dest: children_size children_scalar children_no_scopes)
  show ?case
  proof (cases e rule: view_cases)
    case (1 es body)
    let ?d = "length ks"
    have b: "list_all2 (\<lambda>x y. wt (ks @ ns) (lsub bs ?d x) \<le> wt (ks @ map (wt ns) bs # ns) y) es es"
      using 1 by (auto intro!: list_all2_refl_on IH)
    let ?vs = "map (wt (ks @ ns)) (map (lsub bs ?d) es)" and ?ws = "map (wt (ks @ map (wt ns) bs # ns)) es"
    have "wt (?vs # ks @ ns) (lsub bs (Suc ?d) body) \<le> wt (?ws # ks @ ns) (lsub bs (Suc ?d) body)"
      using b bs prems 1 by (intro wt_mono lsub_scalar) (auto simp: list.rel_map)
    also have "\<dots> \<le> wt (?ws # ks @ map (wt ns) bs # ns) body"
      using IH [of body "?ws # ks"] 1 by simp
    finally show ?thesis using sum_list_le [OF b] by (simp add: 1 comp_def)
  next
    case (2 b m)
    then show ?thesis using IH [of b ks] IH [of m "[2] # ks"] by simp
  next
    case (3 i n)
    show ?thesis
    proof (cases "n = length ks")
      case n: True
      show ?thesis
      proof (cases "i < length bs")
        case True
        then have "scalar (bs ! i)" using bs by (simp add: list_all_length)
        then have "wt (ks @ ns) (bs ! i) = wt ns (bs ! i)"
          using prems(2) True wt_closed [of "[]" "bs ! i" "ks @ ns" ns] by (auto simp: list_all_length)
        with 3 n True show ?thesis by (simp add: look_def nth_append)
      next
        case False
        with 3 n show ?thesis using look_beyond [of "map (wt ns) bs" i ks ns] by simp
      qed
    next
      case False
      with 3 look_skip [of n ks ns i "map (wt ns) bs"] show ?thesis by (auto split: if_splits)
    qed
  next
    case 4
    then have "wt (ks @ ns) (map_children (lsub bs (length ks)) e) \<le> wt (ks @ map (wt ns) bs # ns) e"
      using prems by (intro wt_visit_node [OF map_children_visit]) (auto dest: scalar_imp_node intro: IH)
    with 4 show ?thesis by (simp add: lsub_other)
  qed
qed


subsection \<open>The rules\<close>

abbreviation wts :: "nat list list \<Rightarrow> expr list \<Rightarrow> nat" where
  "wts env es \<equiv> sum_list (map (\<lambda>e. Suc (wt env e)) es)"

definition lighter :: "folded \<Rightarrow> expr \<Rightarrow> bool" where
  "lighter r e \<longleftrightarrow> (\<forall>env. wt env (folded_expr r) \<le> wt env e \<and>
     (\<forall>e'. r = Replaced e' \<longrightarrow> wt env e' < wt env e))"

lemma lighter_simps [simp]:
  "lighter (InPlace e') e \<longleftrightarrow> (\<forall>env. wt env e' \<le> wt env e)"
  "lighter (Replaced e') e \<longleftrightarrow> (\<forall>env. wt env e' < wt env e)"
  by (auto simp: lighter_def dest: less_imp_le)

lemma wts_filter: "wts env (filter p es) \<le> wts env es"
  by (induction es) auto

lemma wts_flatten_and: "wts env (flatten_and es) \<le> wts env es"
proof -
  have "Suc (wt env (strip_and e)) + wts env (nested_and e) \<le> Suc (wt env e)" for e
    by (cases e) (simp_all add: strip_and_def nested_and_def)
  then have "wts env (map strip_and es @ concat (map nested_and es)) \<le> wts env es"
    by (induction es) (simp_all, metis (no_types, lifting) add.assoc add.commute add_mono plus_1_eq_Suc)
  then show ?thesis by (simp only: flatten_and_eq)
qed

lemma wts_flatten_or: "wts env (flatten_or es) \<le> wts env es"
proof -
  have "Suc (wt env (strip_or e)) + wts env (nested_or e) \<le> Suc (wt env e)" for e
    by (cases e) (simp_all add: strip_or_def nested_or_def)
  then have "wts env (map strip_or es @ concat (map nested_or es)) \<le> wts env es"
    by (induction es) (simp_all, metis (no_types, lifting) add.assoc add.commute add_mono plus_1_eq_Suc)
  then show ?thesis by (simp only: flatten_or_eq)
qed

lemma lighter_and: "lighter (fold_expr_and es) (EAnd es)"
proof -
  let ?kept = "filter (\<lambda>e. \<not> is_true e) (flatten_and es)"
  have "wts env ?kept \<le> wts env es" for env
    using wts_filter wts_flatten_and by (rule order_trans)
  then show ?thesis
    by (auto simp: fold_expr_and_def Let_def less_Suc_eq_le split: list.split)
      (metis Suc_leD le_SucI)
qed

lemma lighter_or: "lighter (fold_expr_or es) (EOr es)"
proof -
  let ?kept = "filter (\<lambda>e. \<not> is_false e) (flatten_or es)"
  have "wts env ?kept \<le> wts env es" for env
    using wts_filter wts_flatten_or by (rule order_trans)
  then show ?thesis
    by (auto simp: fold_expr_or_def Let_def less_Suc_eq_le split: list.split)
      (metis Suc_leD le_SucI)
qed

lemma lighter_binary: "lighter (fold_expr_binary_op op l r) (EBinaryOp l op r)"
proof (cases "\<exists>a b. as_value l = Some a \<and> as_value r = Some b")
  case True
  then show ?thesis by (auto simp: fold_expr_binary_op_def split: option.split)
next
  case False
  then have eq: "fold_expr_binary_op op l r = fold_symbolic op l r"
    by (cases "as_value l"; cases "as_value r") (auto simp: fold_expr_binary_op_def)
  have c: "lighter (Replaced (fold_bool_comparison op x b)) (EBinaryOp x op y)"
    "lighter (Replaced (fold_bool_comparison op y b)) (EBinaryOp x op y)" for x y b
  proof -
    have "2 * wt env x + 1 < 2 * wt env x + 3 * wt env y" "2 * wt env y + 1 < 2 * wt env x + 3 * wt env y"
      for env using wt_pos [of env x] wt_pos [of env y] by linarith+
    then show "lighter (Replaced (fold_bool_comparison op x b)) (EBinaryOp x op y)"
      "lighter (Replaced (fold_bool_comparison op y b)) (EBinaryOp x op y)"
      by (auto simp: fold_bool_comparison_def)
  qed
  have "lighter (fold_symbolic op l r) (EBinaryOp l op r)"
  proof (cases rule: fold_symbolic_cases [of r op l])
    case (swap op' v)
    have "2 * wt env r + 3 < 2 + 3 * wt env r" for env
      using wt_not_value [OF swap(2), of env] by linarith
    with swap show ?thesis by simp
  next
    case (right b)
    then show ?thesis using c(1) [of l b r] by simp
  next
    case (left b)
    then show ?thesis using c(2) [of r b l] by simp
  next
    case null
    have "1 < 2 * wt env l + 3 * wt env r" for env
      using wt_pos [of env l] wt_pos [of env r] by linarith
    with null show ?thesis by simp
  qed simp
  then show ?thesis by (simp only: eq)
qed

lemma lighter_cast: "fold_expr_cast U e from t = Ok r \<Longrightarrow> lighter r (ECast e from t)"
  by (auto simp: fold_expr_cast_def result_simps split: if_splits option.splits)

lemma lighter_is_null: "lighter (fold_expr_is_null e neg) (EIsNull e neg)"
  by (cases e) (auto simp: fold_expr_is_null_def)

lemma lighter_list: "lighter (fold_expr_list es) (EList es)" "lighter (fold_expr_record es) (ERecord es)"
  by (auto simp: fold_expr_list_def fold_expr_record_def split: option.split)

lemma lighter_sets: "lighter (fold_expr_intersects l r) (EIntersects l r)"
  "lighter (fold_expr_is_superset l r) (EIsSuperset l r)"
  by (auto simp: fold_expr_intersects_def fold_expr_is_superset_def)

lemma lighter_rewrite_single: "rewrite_single_item e l = Ok r \<Longrightarrow> lighter r (EInList e l)"
proof -
  have "2 * wt env e + 3 < 3 * wt env e + 3 + 1" for env by simp
  moreover have "2 * wt env e + 3 * wt env x < 3 * wt env e + 3 * (2 + Suc (wt env x)) + 1" for env x by simp
  ultimately show "rewrite_single_item e l = Ok r \<Longrightarrow> ?thesis"
    by (auto simp: rewrite_single_item_def todo_def split: expr.splits option.splits list.splits)
qed

lemma lighter_in_list: "fold_expr_in_list e l = Ok r \<Longrightarrow> lighter r (EInList e l)"
proof -
  have "wt env (dedup_list l) = wt env l" for env
    by (auto simp: dedup_list_def split: expr.split val.split)
  then have d: "lighter r (EInList e (dedup_list l)) \<Longrightarrow> lighter r (EInList e l)"
    by (simp add: lighter_def)
  assume r: "fold_expr_in_list e l = Ok r"
  show ?thesis
  proof (cases "is_list_empty l \<or> is_value_null e")
    case True
    with r show ?thesis by (auto simp: fold_expr_in_list_def split: if_splits)
  next
    case False
    with r have "rewrite_single_item e (dedup_list l) = Ok r" by (simp add: fold_expr_in_list_def)
    then show ?thesis by (intro d lighter_rewrite_single)
  qed
qed

lemma lighter_match: "lighter (fold_expr_match s arms els) (EMatch s arms els)"
proof -
  have arm: "wt env (snd arm) < wt env (EMatch s arms els)" if "arm \<in> set arms" for env arm
  proof -
    have "wt env (snd arm) \<le> sum_list (map (\<lambda>arm. wt env (snd arm)) arms)"
      using that by (intro member_le_sum_list) auto
    then show ?thesis by simp
  qed
  have sel: "wt env (select_arm v arms els) < wt env (EMatch s arms els)" for v env
  proof -
    have "select_arm v arms els = arm_for v arms els" by (simp add: select_arm_def arm_for_def)
    moreover consider "arm_for v arms els = els" | arm where "arm \<in> set arms" "arm_for v arms els = snd arm"
      using arm_for_cases [of v arms els] by auto
    then have "wt env (arm_for v arms els) < wt env (EMatch s arms els)"
      by cases (simp, simp only: arm)
    ultimately show ?thesis by (simp only:)
  qed
  show ?thesis
  proof (cases "as_value s")
    case None
    then show ?thesis by (cases arms) (simp_all add: fold_expr_match_def)
  next
    case (Some v)
    with sel [of _ v] show ?thesis by (simp add: fold_expr_match_def del: wt.simps)
  qed
qed

lemma wts_not: "2 + wts env (map ENot es) < wt env (ENot (EAnd es))"
  "2 + wts env (map ENot es) < wt env (ENot (EOr es))"
  by (induction es) auto

lemma lighter_not: "lighter (fold_expr_not e) (ENot e)"
proof (cases e)
  case (EAnd es)
  have "wt env (or_from_vec (map ENot es)) < wt env (ENot e)" for env
    using wts_not(1) [of env es] by (auto simp: EAnd or_from_vec_def split: list.split)
  then show ?thesis by (simp add: EAnd fold_expr_not_def)
next
  case (EOr es)
  have "wt env (and_from_vec (map ENot es)) < wt env (ENot e)" for env
    using wts_not(2) [of env es] by (auto simp: EOr and_from_vec_def split: list.split)
  then show ?thesis by (simp add: EOr fold_expr_not_def)
next
  case (EBinaryOp a op b)
  have "2 * wt env a + 3 * wt env b < 2 * (2 * wt env a + 3 * wt env b) + 1" for env by simp
  then show ?thesis by (simp add: EBinaryOp fold_expr_not_def split: option.split)
qed (auto simp: fold_expr_not_def split: val.split)

lemma lighter_let:
  "list_all scalar bs \<Longrightarrow> scalar body \<Longrightarrow> capture_free bs body \<Longrightarrow> lighter (fold_expr_let bs body) (ELet bs body)"
  using wt_lsub [of bs body "[]"]
  by (auto simp: fold_expr_let_def substitute_let_bindings_def capture_free_def less_Suc_eq_le
      intro: trans_le_add2 le_SucI)

lemma lighter_rule:
  assumes "fold_one U e = Ok r" "scalar e" "\<And>bs body. e = ELet bs body \<Longrightarrow> capture_free bs body"
  shows "lighter r e"
proof (cases e)
  case (ELet bs body)
  with assms show ?thesis by (auto simp: fold_one_def intro: lighter_let)
qed (use assms in \<open>auto simp: fold_one_def lighter_and lighter_or lighter_binary lighter_cast
  lighter_is_null lighter_list lighter_sets lighter_in_list lighter_match lighter_not\<close>)

subsection \<open>Where the fuel runs out\<close>

lemma rmap2_eq_Err: "rmap2 g a b = Err x \<longleftrightarrow> a = Err x \<or> (\<exists>y. a = Ok y \<and> b = Err x)"
  by (auto simp: rmap2_def rbind_eq_Err rmap_eq_Err)

lemma rmap3_eq_Err:
  "rmap3 g a b d = Err x \<longleftrightarrow>
     a = Err x \<or> (\<exists>y. a = Ok y \<and> (b = Err x \<or> (\<exists>z. b = Ok z \<and> d = Err x)))"
  by (auto simp: rmap3_def rbind_eq_Err rmap2_eq_Err)

lemmas result_errs = rmap_eq_Err rbind_eq_Err rmap2_eq_Err rmap3_eq_Err

lemma unwrap_fuel: "unwrap m \<noteq> Err OutOfFuel"
  by (auto simp: unwrap_def split: sum.split error.split)

lemma fold_one_fuel: "fold_one U e \<noteq> Err OutOfFuel"
proof (cases e)
  case (ECast x frm t)
  then show ?thesis
    by (auto simp: fold_one_def fold_expr_cast_def result_errs unwrap_fuel split: option.split)
next
  case (EInList x l)
  have "rewrite_single_item x l' \<noteq> Err OutOfFuel" for l'
    by (auto simp: rewrite_single_item_def todo_def split: expr.split option.split list.split)
  with EInList show ?thesis by (simp add: fold_one_def fold_expr_in_list_def)
qed (simp_all add: fold_one_def)

lemma visit_expr_Err:
  "visit_expr f e = Err x \<Longrightarrow> scalar_node e \<Longrightarrow> \<exists>c \<in> set (children e). f c = Err x"
proof (cases e)
  case (EFunc fn)
  moreover assume "visit_expr f e = Err x" "scalar_node e"
  ultimately show ?thesis by (cases fn) (auto simp: result_errs)
next
  case (EMatch s arms els)
  moreover assume "visit_expr f e = Err x"
  ultimately show ?thesis
    by (fastforce simp: result_errs visit_pair_def dest!: traverse_eq_Err)
qed (auto simp: result_errs dest!: traverse_eq_Err)

text \<open>A child weighs less than its node, in the scopes the node puts it in.\<close>

lemma child_weight:
  "scalar e \<Longrightarrow> c \<in> set (children e) \<Longrightarrow> \<exists>env'. wt env' c < wt env e"
proof -
  assume s: "scalar e" and c: "c \<in> set (children e)"
  have sum: "wt env x < Suc (Suc (wts env es))" if "x \<in> set es" for x es
    using that by (induction es) auto
  show ?thesis
  proof (cases e)
    case (ELet bs body)
    have "wt env b \<le> sum_list (map (wt env) bs)" if "b \<in> set bs" for b
      using that by (intro member_le_sum_list) auto
    then have "wt env b < wt env e" if "b \<in> set bs" for b
      using that by (simp add: ELet less_Suc_eq_le le_SucI trans_le_add1)
    moreover have "wt (map (wt env) bs # env) body < wt env e" by (simp add: ELet)
    moreover from c ELet have "c \<in> set bs \<or> c = body" by auto
    ultimately show ?thesis by blast
  next
    case (EMap b m)
    have "wt env b < wt env e" "wt ([2] # env) m < wt env e" by (simp_all add: EMap)
    moreover from c EMap have "c = b \<or> c = m" by auto
    ultimately show ?thesis by blast
  next
    case (EMatch x arms els)
    have "wt env (snd arm) \<le> sum_list (map (\<lambda>arm. wt env (snd arm)) arms)" if "arm \<in> set arms" for arm
      using that by (intro member_le_sum_list) auto
    then have "wt env (snd arm) < wt env e" if "arm \<in> set arms" for arm
      using that by (fastforce simp: EMatch)
    moreover have "wt env x < wt env e" "wt env els < wt env e" by (simp_all add: EMatch)
    moreover from c EMatch have "c = x \<or> c = els \<or> (\<exists>arm \<in> set arms. c = snd arm)" by auto
    ultimately show ?thesis by blast
  next
    case (EBinaryOp l op r)
    have "wt env l < wt env e" "wt env r < wt env e"
      using wt_pos [of env l] wt_pos [of env r] by (simp_all add: EBinaryOp)
    moreover from c EBinaryOp have "c = l \<or> c = r" by auto
    ultimately show ?thesis by blast
  next
    case (EFunc fn)
    with s c show ?thesis by (cases fn) (auto intro: exI [of _ env])
  qed (use s c sum in \<open>auto intro!: exI [of _ env]\<close>)
qed

end
