(* ===== verification/FoldSound.thy ===== *)
theory FoldSound
  imports FoldSem FoldWeight
begin

text \<open>
  The canonicalization pass as a whole: a relation that every node of the traversal and every
  rule respects holds between an expression and what the pass makes of it.  It is used twice, for
  expressions whose \<open>Let\<close> bindings are closed and for expressions whose \<open>Let\<close> bodies open no
  further scope: in both no binding is captured when it is inlined.
\<close>

subsection \<open>The relation between an expression and its folded form\<close>

locale fold_relation =
  fixes U :: uuid_ops and ok :: "expr \<Rightarrow> bool" and R :: "expr \<Rightarrow> expr \<Rightarrow> bool"
  assumes refl: "R e e"
    and trans: "R a b \<Longrightarrow> R b c \<Longrightarrow> R a c"
    and children: "ok e \<Longrightarrow> c \<in> set (children e) \<Longrightarrow> ok c"
    and node: "\<lbrakk>ok e; visit_expr f e = Ok e';
      \<And>c c'. c \<in> set (children e) \<Longrightarrow> f c = Ok c' \<Longrightarrow> ok c' \<and> R c c'\<rbrakk> \<Longrightarrow> ok e' \<and> R e e'"
    and rule: "ok e \<Longrightarrow> fold_one U e = Ok r \<Longrightarrow> ok (folded_expr r) \<and> R e (folded_expr r)"
begin

lemma fold_expr: "ok e \<Longrightarrow> fold_expr U n e = Ok e' \<Longrightarrow> ok e' \<and> R e e'"
proof (induction n arbitrary: e e')
  case (Suc n)
  from Suc.prems(2) obtain i r where i: "visit_expr (fold_expr U n) e = Ok i"
    and r: "fold_one U i = Ok r"
    and res: "(case r of InPlace i' \<Rightarrow> Ok i' | Replaced e'' \<Rightarrow> fold_expr U n e'') = Ok e'"
    by (auto simp: result_simps)
  have "ok i \<and> R e i"
    using Suc.IH children [OF Suc.prems(1)] by (intro node [OF Suc.prems(1) i]) blast
  moreover from this r have "ok (folded_expr r) \<and> R i (folded_expr r)" by (intro rule) auto
  moreover from this res have "ok e' \<and> R (folded_expr r) e'"
  proof (cases r)
    case (Replaced e'')
    with res \<open>ok (folded_expr r) \<and> R i (folded_expr r)\<close> show ?thesis
      using Suc.IH [of e'' e'] by simp
  next
    case (InPlace i')
    with res \<open>ok (folded_expr r) \<and> R i (folded_expr r)\<close> show ?thesis
      using refl [of e'] by simp
  qed
  ultimately show ?case by (blast intro: trans)
qed simp

end

text \<open>A relation that never raises the weight, with rules that lower it when they replace.\<close>

locale fold_measure = fold_relation +
  assumes ok_scalar: "ok e \<Longrightarrow> scalar e"
    and weight: "R e e' \<Longrightarrow> wt env e' \<le> wt env e"
    and lowers: "ok e \<Longrightarrow> fold_one U e = Ok r \<Longrightarrow> lighter r e"
begin

lemma fuel: "ok e \<Longrightarrow> wt env e < n \<Longrightarrow> fold_expr U n e \<noteq> Err OutOfFuel"
proof (induction n arbitrary: e env)
  case (Suc n)
  note s = ok_scalar [OF Suc.prems(1)]
  have child: "fold_expr U n c \<noteq> Err OutOfFuel" if c: "c \<in> set (children e)" for c
  proof -
    from child_weight [OF s c, of env] obtain env' where "wt env' c < wt env e" by blast
    then show ?thesis using Suc.prems(2) children [OF Suc.prems(1) c] by (intro Suc.IH [of c env']) auto
  qed
  then have v: "visit_expr (fold_expr U n) e \<noteq> Err OutOfFuel"
    using visit_expr_Err [of "fold_expr U n" e OutOfFuel] scalar_imp_node [OF s] by blast
  have step: "fold_expr U n e' \<noteq> Err OutOfFuel"
    if i: "visit_expr (fold_expr U n) e = Ok i" and r: "fold_one U i = Ok (Replaced e')" for i e'
  proof -
    have i': "ok i \<and> R e i"
      using fold_expr children [OF Suc.prems(1)] by (intro node [OF Suc.prems(1) i]) blast
    then have "wt env i \<le> wt env e" and "wt env e' < wt env i" and "ok e'"
      using weight lowers [OF _ r] rule [OF _ r] by auto
    with Suc.prems(2) show ?thesis by (intro Suc.IH [of e' env]) auto
  qed
  show ?case
  proof
    assume "fold_expr U (Suc n) e = Err OutOfFuel"
    with v fold_one_fuel obtain i r where "visit_expr (fold_expr U n) e = Ok i" "fold_one U i = Ok r"
      "(case r of InPlace i' \<Rightarrow> Ok i' | Replaced e' \<Rightarrow> fold_expr U n e') = Err OutOfFuel"
      by (auto simp: rbind_eq_Err)
    with step show False by (cases r) auto
  qed
qed simp

lemma fuel_mono: "ok e \<Longrightarrow> fold_expr U n e = Ok e' \<Longrightarrow> n \<le> m \<Longrightarrow> fold_expr U m e = Ok e'"
proof (induction n arbitrary: m e e')
  case (Suc n)
  then obtain k where m: "m = Suc k" "n \<le> k" by (cases m) auto
  note s = scalar_imp_node [OF ok_scalar [OF Suc.prems(1)]]
  from Suc.prems(2) obtain i r where i: "visit_expr (fold_expr U n) e = Ok i"
    and r: "fold_one U i = Ok r"
    and res: "(case r of InPlace i' \<Rightarrow> Ok i' | Replaced e'' \<Rightarrow> fold_expr U n e'') = Ok e'"
    by (auto simp: result_simps)
  have "visit_expr (fold_expr U k) e = visit_expr (fold_expr U n) e"
  proof (rule visit_expr_cong [OF HOL.refl])
    fix c assume c: "c \<in> set (children e)"
    have "list_all2 (\<lambda>c c'. fold_expr U n c = Ok c') (children e) (children i)"
      using visit_children [OF s i] by simp
    from list_all2_in_left [OF this c] obtain c' where "fold_expr U n c = Ok c'" by blast
    with Suc.IH [OF children [OF Suc.prems(1) c] this m(2)]
    show "fold_expr U k c = fold_expr U n c" by simp
  qed
  with i have vi: "visit_expr (fold_expr U k) e = Ok i" by simp
  have "ok i"
    using node [OF Suc.prems(1) i] fold_expr children [OF Suc.prems(1)] by blast
  have "(case r of InPlace i' \<Rightarrow> Ok i' | Replaced e'' \<Rightarrow> fold_expr U k e'') = Ok e'"
  proof (cases r)
    case (Replaced e'')
    then have "ok e''" using rule [OF \<open>ok i\<close> r] by simp
    with Replaced res show ?thesis using Suc.IH [OF _ _ m(2)] by simp
  qed (use res in simp)
  with vi r show ?case by (simp add: m)
qed simp

end

subsection \<open>Semantics and weight of a visited node\<close>

definition lowers :: "expr \<Rightarrow> expr \<Rightarrow> bool" where
  "lowers e e' \<longleftrightarrow> (\<forall>env. wt env e' \<le> wt env e)"

lemma lowers_node:
  assumes "visit_expr f e = Ok e'" "scalar e"
    and c: "\<And>c c'. c \<in> set (children e) \<Longrightarrow> f c = Ok c' \<Longrightarrow> scalar c' \<and> lowers c c'"
  shows "lowers e e'"
  unfolding lowers_def
proof
  fix env
  have less: "wt env c' \<le> wt env c" if "c \<in> set (children e)" "f c = Ok c'" for c c' env
    using c [OF that] by (simp add: lowers_def)
  show "wt env e' \<le> wt env e"
  proof (cases e rule: view_cases)
    case (1 bs body)
    with assms(1) obtain bs' body' where e': "e' = ELet bs' body'" "f body = Ok body'"
      and v: "traverse f bs = Ok bs'"
      by (auto simp: rmap2_eq_Ok)
    have b: "list_all2 (\<lambda>x y. wt env x \<le> wt env y) bs' bs"
      using v less 1 unfolding traverse_eq_Ok list_all2_conv_all_nth by auto
    have "wt (map (wt env) bs' # env) body' \<le> wt (map (wt env) bs # env) body'"
      using b e' 1 c [of body body'] by (intro wt_mono) (auto simp: list.rel_map)
    also have "\<dots> \<le> wt (map (wt env) bs # env) body"
      using e' 1 by (intro less) auto
    finally show ?thesis using sum_list_le [OF b] by (simp add: 1 e')
  next
    case (2 b m)
    with assms(1) obtain b' m' where e': "e' = EMap b' m'" "f b = Ok b'" "f m = Ok m'"
      by (auto simp: rmap2_eq_Ok)
    with less [of b b' env] less [of m m' "[2] # env"] 2 show ?thesis by simp
  next
    case (3 i n)
    with assms(1) show ?thesis by simp
  next
    case 4
    show ?thesis
      by (rule wt_visit_node [OF assms(1) 4 scalar_imp_node [OF assms(2)]]) (rule less)
  qed
qed

lemma lowers_trans: "lowers a b \<Longrightarrow> lowers b d \<Longrightarrow> lowers a d"
  by (auto simp: lowers_def intro: order_trans)

lemma lowers_refl [simp]: "lowers e e"
  by (simp add: lowers_def)

lemma lowers_lighter: "lighter r e \<Longrightarrow> lowers e (folded_expr r)"
  by (simp add: lowers_def lighter_def)

definition refines :: "uuid_ops \<Rightarrow> expr \<Rightarrow> expr \<Rightarrow> bool" where
  "refines U e e' \<longleftrightarrow> (\<forall>I \<rho>. i_uuid I = U \<longrightarrow> less_defined (sem I \<rho> e) (sem I \<rho> e'))"

lemma refines_refl [simp]: "refines U e e"
  by (simp add: refines_def)

lemma refines_trans: "refines U a b \<Longrightarrow> refines U b c \<Longrightarrow> refines U a c"
  by (auto simp: refines_def less_defined_def)

lemma refines_node:
  assumes "visit_expr f e = Ok e'" "scalar e"
    and c: "\<And>c c'. c \<in> set (children e) \<Longrightarrow> f c = Ok c' \<Longrightarrow> refines U c c'"
  shows "refines U e e'"
  unfolding refines_def
proof (intro allI impI)
  fix I :: interp and \<rho> :: "val list list"
  assume "i_uuid I = U"
  then have less: "less_defined (sem I \<rho> c) (sem I \<rho> c')"
    if "c \<in> set (children e)" "f c = Ok c'" for c c' \<rho>
    using c [OF that] by (simp add: refines_def)
  show "less_defined (sem I \<rho> e) (sem I \<rho> e')"
  proof (cases "view_scope e")
    case (ScopeLet bs body)
    then have e: "e = ELet bs body" by simp
    with assms(1) obtain bs' body' where e': "e' = ELet bs' body'"
      and v: "traverse f bs = Ok bs'" "f body = Ok body'"
      by (auto simp: rmap2_eq_Ok)
    show ?thesis
      unfolding e e' sem.simps using v e less
      by (intro less_defined_bind less_defined_opt_all_visit [OF v(1)]) auto
  next
    case (ScopeMap b m)
    then have e: "e = EMap b m" by simp
    with assms(1) obtain b' m' where e': "e' = EMap b' m'" and v: "f b = Ok b'" "f m = Ok m'"
      by (auto simp: rmap2_eq_Ok)
    have "less_defined (sem I \<rho> b) (sem I \<rho> b')" using v e by (intro less) auto
    moreover have "less_defined (sem I ([x] # \<rho>) m) (sem I ([x] # \<rho>) m')" for x
      using v e by (intro less) auto
    ultimately show ?thesis
      unfolding e e' sem.simps on_list_def
      by (intro less_defined_bind less_defined_map_option less_defined_opt_all list_all2_refl_on)
        auto
  next
    case ScopeNone
    show ?thesis
    proof (cases "view_arg e")
      case None
      show ?thesis
        by (rule sem_visit_node [OF assms(1) ScopeNone None scalar_imp_node [OF assms(2)]])
          (rule less)
    next
      case (Some p)
      then obtain i k where "e = EArg i k" by (cases p) auto
      with assms(1) show ?thesis by simp
    qed
  qed
qed

lemma refines_rule:
  "\<lbrakk>fold_one U e = Ok r; scalar e; \<And>bs body. e = ELet bs body \<Longrightarrow> capture_free bs body\<rbrakk> \<Longrightarrow>
   refines U e (folded_expr r)"
  unfolding refines_def by (blast intro: sem_fold_one)

subsection \<open>The predicates the rules keep\<close>

lemma children_all: "for_all_exprs p e \<Longrightarrow> c \<in> set (children e) \<Longrightarrow> for_all_exprs p c"
  by (subst (asm) for_all_exprs.simps) (auto simp: list_all_iff)

interpretation scalar: compositional scalar
  by unfold_locales simp_all

interpretation scopeless: compositional no_scopes
  by unfold_locales simp_all

interpretation let_closed: compositional lets_closed
  by unfold_locales simp_all

interpretation let_flat: compositional lets_flat
  by unfold_locales simp_all

interpretation closed: compositional "closed_in ns" for ns
  by unfold_locales (simp_all add: list_all_iff)

lemma fold_let_cases:
  assumes "fold_one U (ELet bs body) = Ok r"
  obtains "r = Replaced (lsub bs 0 body)" | "r = InPlace (ELet bs body)"
  using assms
  by (auto simp: fold_one_def fold_expr_let_def substitute_let_bindings_def split: if_splits)

lemma scalar_rule: "scalar e \<Longrightarrow> fold_one U e = Ok r \<Longrightarrow> scalar (folded_expr r)"
proof (cases e)
  case (ELet bs body)
  moreover assume "scalar e" "fold_one U e = Ok r"
  ultimately show ?thesis by (auto elim!: fold_let_cases intro: lsub_scalar)
qed (use scalar.fold_one_all in blast)+

subsection \<open>Closed bindings\<close>

lemma closed_in_node:
  "view_scope e = ScopeNone \<Longrightarrow> view_arg e = None \<Longrightarrow>
   closed_in ns e \<longleftrightarrow> list_all (closed_in ns) (children e)"
  by (subst closed_in.simps) simp

lemma visit_arg: "visit_expr f e = Ok e' \<Longrightarrow> view_arg e = None \<Longrightarrow> view_arg e' = None"
  by (cases e) (auto simp: result_simps)

lemma closed_in_visit:
  assumes "scalar_node e" "visit_expr f e = Ok e'" "closed_in ns e"
    and c: "\<And>c c' ns. c \<in> set (children e) \<Longrightarrow> f c = Ok c' \<Longrightarrow> closed_in ns c \<Longrightarrow> closed_in ns c'"
  shows "closed_in ns e'"
proof (cases "view_scope e")
  case (ScopeLet bs body)
  then have e: "e = ELet bs body" by simp
  with assms(2) obtain bs' body' where e': "e' = ELet bs' body'"
    and bs: "list_all2 (\<lambda>b b'. f b = Ok b') bs bs'" and body: "f body = Ok body'"
    by (auto simp: rmap2_eq_Ok traverse_eq_Ok)
  have "closed_in ns b'" if b': "b' \<in> set bs'" for b'
  proof -
    from list_all2_in_right [OF bs b'] obtain b where "b \<in> set bs" "f b = Ok b'" by blast
    then show ?thesis using e assms(3) by (intro c [of b b' ns]) (auto simp: list_all_iff)
  qed
  moreover have "closed_in (length bs' # ns) body'"
    using e assms(3) list_all2_lengthD [OF bs] by (intro c [OF _ body]) simp_all
  ultimately show ?thesis by (simp add: e' list_all_iff)
next
  case (ScopeMap b m)
  then have e: "e = EMap b m" by simp
  with assms(2) obtain b' m' where e': "e' = EMap b' m'" "f b = Ok b'" "f m = Ok m'"
    by (auto simp: rmap2_eq_Ok)
  with e assms(3) c [of b b' ns] c [of m m' "1 # ns"] show ?thesis by simp
next
  case ScopeNone
  then have n: "view_scope e' = ScopeNone"
    using visit_no_scope [OF assms(2)] by (simp add: view_scope_no_scope)
  show ?thesis
  proof (cases "view_arg e")
    case None
    have "closed_in ns c'" if "c' \<in> set (children e')" for c'
    proof -
      from visit_children [OF assms(1,2)]
      have "list_all2 (\<lambda>c c'. f c = Ok c') (children e) (children e')" by simp
      from list_all2_in_right [OF this that]
      obtain b where "b \<in> set (children e)" "f b = Ok c'" by blast
      with children_closed [OF assms(3) ScopeNone] show ?thesis by (blast intro: c [of b c' ns])
    qed
    with n visit_arg [OF assms(2) None] show ?thesis by (simp add: closed_in_node list_all_iff)
  next
    case (Some p)
    then obtain i k where "e = EArg i k" by (cases p) auto
    with assms show ?thesis by simp
  qed
qed

lemma closed_in_weaken: "closed_in ns e \<Longrightarrow> scalar e \<Longrightarrow> closed_in (ns @ ms) e"
proof (induction "size e" arbitrary: e ns rule: less_induct)
  case less
  have IH: "closed_in (ns' @ ms) c" if "c \<in> set (children e)" "closed_in ns' c" for c ns'
    using that less.prems(2) less.hyps [of c ns'] by (auto dest: children_size children_scalar)
  consider bs body where "e = ELet bs body" | b m where "e = EMap b m" | i n where "e = EArg i n"
    | "view_scope e = ScopeNone" "view_arg e = None"
    by (cases e) auto
  then show ?case
  proof cases
    case (1 bs body)
    with IH [of _ ns] IH [of body "length bs # ns"] less.prems show ?thesis
      by (simp add: list_all_iff)
  next
    case (2 b m)
    with IH [of b ns] IH [of m "1 # ns"] less.prems show ?thesis by simp
  next
    case (3 i n)
    with less.prems show ?thesis by (simp add: nth_append)
  next
    case 4
    with IH [of _ ns] less.prems show ?thesis by (simp add: closed_in_node list_all_iff)
  qed
qed

lemma lsub_closed_in:
  "\<lbrakk>closed_in (ks @ length bs # ns) e; list_all (closed_in []) bs; list_all scalar bs; scalar e\<rbrakk> \<Longrightarrow>
   closed_in (ks @ ns) (lsub bs (length ks) e)"
proof (induction "length ks" e arbitrary: ks rule: scoped_induct)
  case (let_node es body)
  have "closed_in (ks @ ns) (lsub bs (length ks) b)" if "b \<in> set es" for b
    using let_node that by (auto simp: list_all_iff)
  moreover have "closed_in ((length es # ks) @ ns) (lsub bs (length (length es # ks)) body)"
    using let_node(3-) by (intro let_node(2)) auto
  ultimately show ?case by (auto simp: list_all_iff)
next
  case (map_node b m)
  have "closed_in ((1 # ks) @ ns) (lsub bs (length (1 # ks)) m)"
    using map_node(3-) by (intro map_node(2)) auto
  with map_node show ?case by auto
next
  case (arg i n)
  have "closed_in (ks @ ns) (bs ! i)" if "i < length bs"
    using arg that closed_in_weaken [of "[]" "bs ! i" "ks @ ns"] by (simp add: list_all_length)
  with arg show ?case by (auto simp: nth_append split: if_splits)
next
  case (other e)
  have "closed_in (ks @ ns) (map_children (lsub bs (length ks)) e)"
  proof -
    have "list_all (closed_in (ks @ ns)) (children (map_children (lsub bs (length ks)) e))"
    proof (unfold list_all_iff, intro ballI)
      fix c' assume "c' \<in> set (children (map_children (lsub bs (length ks)) e))"
      moreover have "list_all2 (\<lambda>c c'. Ok (lsub bs (length ks) c) = Ok c') (children e)
          (children (map_children (lsub bs (length ks)) e))"
        using visit_children [OF scalar_imp_node map_children_visit] other by blast
      ultimately obtain c where c: "c \<in> set (children e)" "c' = lsub bs (length ks) c"
        by (auto dest: list_all2_in_right)
      with other show "closed_in (ks @ ns) c'"
        using children_closed [of _ e c] children_scalar [of e c] by (auto simp: view_scope_no_scope)
    qed
    with other show ?thesis
      using visit_arg [OF map_children_visit, of e] map_children_no_scope [of _ e]
      by (simp add: closed_in_node view_scope_no_scope [symmetric])
  qed
  with other show ?case by (simp add: lsub_node)
qed


lemma closed_in_rule:
  "\<lbrakk>fold_one U e = Ok r; scalar e; lets_closed e; closed_in ns e\<rbrakk> \<Longrightarrow> closed_in ns (folded_expr r)"
proof (cases e)
  case (ELet bs body)
  moreover assume "fold_one U e = Ok r" "scalar e" "lets_closed e" "closed_in ns e"
  ultimately show ?thesis
    using lsub_closed_in [of "[]" bs ns body] by (auto elim!: fold_let_cases)
qed (use closed.fold_one_all in blast)+

lemma lets_closed_rule:
  "\<lbrakk>fold_one U e = Ok r; scalar e; lets_closed e\<rbrakk> \<Longrightarrow> lets_closed (folded_expr r)"
proof (cases e)
  case (ELet bs body)
  moreover assume "fold_one U e = Ok r" "scalar e" "lets_closed e"
  ultimately show ?thesis by (auto elim!: fold_let_cases intro: lsub_lets_closed)
qed (use let_closed.fold_one_all in blast)+

definition refines_closed :: "uuid_ops \<Rightarrow> expr \<Rightarrow> expr \<Rightarrow> bool" where
  "refines_closed U e e' \<longleftrightarrow> refines U e e' \<and> lowers e e' \<and> (\<forall>ns. closed_in ns e \<longrightarrow> closed_in ns e')"

interpretation closed_lets: fold_measure U "\<lambda>e. scalar e \<and> lets_closed e" "refines_closed U" for U
proof unfold_locales
  fix f :: "expr \<Rightarrow> expr result" and e e'
  assume ok: "scalar e \<and> lets_closed e" and v: "visit_expr f e = Ok e'"
    and c: "\<And>c c'. c \<in> set (children e) \<Longrightarrow> f c = Ok c' \<Longrightarrow>
      (scalar c' \<and> lets_closed c') \<and> refines_closed U c c'"
  note n = scalar_imp_node [of e]
  have "closed_in ns c \<Longrightarrow> closed_in ns c'" if "c \<in> set (children e)" "f c = Ok c'" for c c' ns
    using c [OF that] by (simp add: refines_closed_def)
  then have "closed_in ns e \<Longrightarrow> closed_in ns e'" for ns
    using ok closed_in_visit [OF n v] by blast
  moreover have "refines U e e'" "lowers e e'"
    using ok c by (auto simp: refines_closed_def intro!: refines_node [OF v] lowers_node [OF v])
  moreover have "scalar e'"
    using ok c by (intro visit_scalar [OF _ v]) auto
  moreover have "lets_closed e'"
  proof (rule visit_all [OF n v])
    show "lets_closed_node e'"
    proof (cases "view_scope e")
      case (ScopeLet bs body)
      then have e: "e = ELet bs body" by simp
      with v obtain bs' body' where e': "e' = ELet bs' body'"
        and bs: "list_all2 (\<lambda>b b'. f b = Ok b') bs bs'"
        by (auto simp: rmap2_eq_Ok traverse_eq_Ok)
      have "closed_in [] b'" if b': "b' \<in> set bs'" for b'
      proof -
        from list_all2_in_right [OF bs b'] obtain b where "b \<in> set bs" "f b = Ok b'" by blast
        with e ok c [of b b'] show ?thesis by (auto simp: refines_closed_def list_all_iff)
      qed
      then show ?thesis by (simp add: e' list_all_iff)
    next
      case (ScopeMap b m)
      with v show ?thesis by (auto simp: rmap2_eq_Ok)
    next
      case ScopeNone
      with visit_no_scope [OF v] show ?thesis by (simp add: view_scope_no_scope)
    qed
  qed (use ok c in auto)
  ultimately show "(scalar e' \<and> lets_closed e') \<and> refines_closed U e e'"
    by (simp add: refines_closed_def)
next
  fix e r
  assume ok: "scalar e \<and> lets_closed e" and r: "fold_one U e = Ok r"
  then have "lighter r e" "refines U e (folded_expr r)"
    by (intro lighter_rule refines_rule; auto simp: capture_free_def)+
  note rules = this lowers_lighter [OF this(1)]
  from rules show "lighter r e" by simp
  from rules ok r show "(scalar (folded_expr r) \<and> lets_closed (folded_expr r)) \<and> refines_closed U e (folded_expr r)"
    using scalar_rule [of e U r] lets_closed_rule [of U e r] closed_in_rule [of U e r]
    by (simp add: refines_closed_def)
next
  fix e c
  assume "scalar e \<and> lets_closed e" "c \<in> set (children e)"
  then show "scalar c \<and> lets_closed c"
    using children_scalar [of e c] children_all [of lets_closed_node e c] by simp
qed (auto simp: refines_closed_def lowers_def intro: refines_trans order_trans)

subsection \<open>Bodies that open no scope\<close>

lemma scopeless_rule:
  "fold_one U e = Ok r \<Longrightarrow> no_scopes e \<Longrightarrow> no_scopes (folded_expr r)"
  using scopeless.fold_one_all [of U e r] by (cases e) auto

lemma lets_flat_rule:
  "\<lbrakk>fold_one U e = Ok r; scalar e; lets_flat e\<rbrakk> \<Longrightarrow> lets_flat (folded_expr r)"
proof (cases e)
  case (ELet bs body)
  moreover assume "fold_one U e = Ok r" "scalar e" "lets_flat e"
  ultimately show ?thesis by (auto elim!: fold_let_cases intro: lsub_lets_flat)
qed (use let_flat.fold_one_all in blast)+

definition refines_flat :: "uuid_ops \<Rightarrow> expr \<Rightarrow> expr \<Rightarrow> bool" where
  "refines_flat U e e' \<longleftrightarrow> refines U e e' \<and> lowers e e' \<and> (no_scopes e \<longrightarrow> no_scopes e')"

interpretation flat_lets: fold_measure U "\<lambda>e. scalar e \<and> lets_flat e" "refines_flat U" for U
proof unfold_locales
  fix f :: "expr \<Rightarrow> expr result" and e e'
  assume ok: "scalar e \<and> lets_flat e" and v: "visit_expr f e = Ok e'"
    and c: "\<And>c c'. c \<in> set (children e) \<Longrightarrow> f c = Ok c' \<Longrightarrow>
      (scalar c' \<and> lets_flat c') \<and> refines_flat U c c'"
  note n = scalar_imp_node [of e]
  have "no_scopes e'" if "no_scopes e"
  proof (rule visit_all [OF n v])
    show "no_scope_node e'"
      using that visit_no_scope [OF v] by (subst (asm) for_all_exprs.simps) simp
  qed (use ok c that in \<open>auto simp: refines_flat_def dest: children_no_scopes\<close>)
  moreover have "refines U e e'" "lowers e e'"
    using ok c by (auto simp: refines_flat_def intro!: refines_node [OF v] lowers_node [OF v])
  moreover have "scalar e'"
    using ok c by (intro visit_scalar [OF _ v]) auto
  moreover have "lets_flat e'"
  proof (rule visit_all [OF n v])
    show "lets_flat_node e'"
    proof (cases "view_scope e")
      case (ScopeLet bs body)
      then have e: "e = ELet bs body" by simp
      with v obtain bs' body' where "e' = ELet bs' body'" "f body = Ok body'"
        by (auto simp: rmap2_eq_Ok)
      with e ok c [of body body'] show ?thesis by (simp add: refines_flat_def)
    next
      case (ScopeMap b m)
      with v show ?thesis by (auto simp: rmap2_eq_Ok)
    next
      case ScopeNone
      with visit_no_scope [OF v] show ?thesis by (simp add: view_scope_no_scope)
    qed
  qed (use ok c in auto)
  ultimately show "(scalar e' \<and> lets_flat e') \<and> refines_flat U e e'"
    by (simp add: refines_flat_def)
next
  fix e r
  assume ok: "scalar e \<and> lets_flat e" and r: "fold_one U e = Ok r"
  then have "lighter r e" "refines U e (folded_expr r)"
    by (intro lighter_rule refines_rule; auto simp: capture_free_def)+
  note rules = this lowers_lighter [OF this(1)]
  from rules show "lighter r e" by simp
  from rules ok r show "(scalar (folded_expr r) \<and> lets_flat (folded_expr r)) \<and> refines_flat U e (folded_expr r)"
    using scalar_rule [of e U r] lets_flat_rule [of U e r] scopeless_rule [of U e r]
    by (simp add: refines_flat_def)
next
  fix e c
  assume "scalar e \<and> lets_flat e" "c \<in> set (children e)"
  then show "scalar c \<and> lets_flat c"
    using children_scalar [of e c] children_all [of lets_flat_node e c] by simp
qed (auto simp: refines_flat_def lowers_def intro: refines_trans order_trans)

text \<open>The expressions the pass is sound for.\<close>

definition foldable :: "expr \<Rightarrow> bool" where
  "foldable e \<longleftrightarrow> scalar e \<and> (lets_closed e \<or> lets_flat e)"

lemma fold_expr_refines: "foldable e \<Longrightarrow> fold_expr U n e = Ok e' \<Longrightarrow> foldable e' \<and> refines U e e'"
  using closed_lets.fold_expr [of e U n e'] flat_lets.fold_expr [of e U n e']
  by (auto simp: foldable_def refines_closed_def refines_flat_def)

lemma fold_expr_closed:
  "\<lbrakk>scalar e; lets_closed e; closed_in ns e; fold_expr U n e = Ok e'\<rbrakk> \<Longrightarrow> closed_in ns e'"
  using closed_lets.fold_expr [of e U n e'] by (auto simp: refines_closed_def)

lemma fold_expr_fuel: "foldable e \<Longrightarrow> wt env e < n \<Longrightarrow> fold_expr U n e \<noteq> Err OutOfFuel"
  using closed_lets.fuel [of e env n U] flat_lets.fuel [of e env n U] by (auto simp: foldable_def)

lemma fold_expr_fuel_mono:
  "\<lbrakk>foldable e; fold_expr U n e = Ok e'; n \<le> m\<rbrakk> \<Longrightarrow> fold_expr U m e = Ok e'"
  using closed_lets.fuel_mono [of e U n e' m] flat_lets.fuel_mono [of e U n e' m]
  by (auto simp: foldable_def)

end
