(* ===== verification/Eval.thy ===== *)
theory Eval
  imports Sem
begin

text \<open>
  The client-side evaluator (\<open>toasty-core/src/stmt/eval.rs\<close>), its inputs (\<open>input.rs\<close>) and
  the substitution of arguments (\<open>substitute.rs\<close>).

  An \<open>impl Input\<close> is a record of functions; it may panic, and it may answer with any expression,
  which is evaluated in turn.  The fuel bounds how often that happens.  Debug assertions are off.
\<close>

subsection \<open>Inputs\<close>

record input =
  in_arg :: "nat \<Rightarrow> nat \<Rightarrow> projection \<Rightarrow> expr option result" \<comment> \<open>position, nesting\<close>
  in_ref :: "expr_ref \<Rightarrow> projection \<Rightarrow> expr option result"
  in_model :: resolve

definition const_input :: input where
  "const_input = \<lparr>in_arg = (\<lambda>_ _ _. Ok None), in_ref = (\<lambda>_ _. Ok None), in_model = no_models\<rparr>"

text \<open>\<open>impl Input for &[T]\<close> at \<open>T = Value\<close> and \<open>T = Expr\<close>.\<close>

definition slice_at :: "'a list \<Rightarrow> nat \<Rightarrow> 'a result" where
  "slice_at xs i = (if i < length xs then Ok (xs ! i) else Err (Panic ''index out of bounds''))"

definition resolve_values :: "val list \<Rightarrow> nat \<Rightarrow> projection \<Rightarrow> expr option result" where
  "resolve_values args i path = rbind (slice_at args i) (\<lambda>v. rmap Some (project_value v path))"

definition value_input :: "val list \<Rightarrow> input" where
  "value_input args = \<lparr>in_arg = (\<lambda>i n path. resolve_values args i path), in_ref = (\<lambda>_ _. Ok None),
     in_model = no_models\<rparr>"

definition expr_input :: "expr list \<Rightarrow> input" where
  "expr_input args = \<lparr>in_arg = (\<lambda>i n path. rmap (\<lambda>e. project_expr e path) (slice_at args i)),
     in_ref = (\<lambda>_ _. Ok None), in_model = no_models\<rparr>"

text \<open>\<open>TypedInput\<close> checks what another input answers against the declared argument types.\<close>

fun type_at :: "ty \<Rightarrow> projection \<Rightarrow> ty result" where
  "type_at t [] = Ok t"
| "type_at t (step # path) =
     (case t of
        TRecord tys \<Rightarrow> rbind (slice_at tys step) (\<lambda>u. type_at u path)
      | TList item_ty \<Rightarrow> type_at item_ty path
      | _ \<Rightarrow> todo)"

definition check_typed :: "resolve \<Rightarrow> ty list \<Rightarrow> nat \<Rightarrow> projection \<Rightarrow> expr \<Rightarrow> expr option result" where
  "check_typed R tys i path e =
     rbind (slice_at tys i) (\<lambda>t.
     rbind (type_at t path) (\<lambda>u.
     rbind (expr_is_a R u e) (\<lambda>ok.
       if ok then Ok (Some e)
       else Err (Panic ''resolved input cannot evaluate to the requested argument type''))))"

definition typed_input :: "resolve \<Rightarrow> ty list \<Rightarrow> input \<Rightarrow> input" where
  "typed_input R tys P =
     \<lparr>in_arg = (\<lambda>i n path. rbind (in_arg P i n path) (\<lambda>found.
        case found of None \<Rightarrow> Ok None | Some e \<Rightarrow> check_typed R tys i path e)),
      in_ref = (\<lambda>_ _. Ok None), in_model = R\<rparr>"

text \<open>\<open>ScopeStack\<close>: the arguments of the enclosing scopes, innermost first.\<close>

definition resolve_arg :: "input \<Rightarrow> val list list \<Rightarrow> nat \<Rightarrow> nat \<Rightarrow> projection \<Rightarrow> expr option result" where
  "resolve_arg P \<rho> i nesting path =
     (if nesting < length \<rho> then resolve_values (\<rho> ! nesting) i path
      else if nesting = length \<rho> then in_arg P i nesting path
      else Ok None)"

subsection \<open>Comparisons and navigation\<close>

definition eval_failed :: "string \<Rightarrow> 'a result" where
  "eval_failed msg = Err (ExpressionEvaluationFailed msg)"

definition cmp_ordered :: "val \<Rightarrow> val \<Rightarrow> ordering result" where
  "cmp_ordered l r =
     (if is_null l \<or> is_null r
      then eval_failed ''ordered comparison with NULL is undefined''
      else case partial_cmp l r of
        Some c \<Rightarrow> Ok c
      | None \<Rightarrow> eval_failed ''ordered comparison between incompatible types'')"

fun eval_op :: "binop \<Rightarrow> val \<Rightarrow> val \<Rightarrow> val result" where
  "eval_op OpEq l r = Ok (VBool (value_eq l r))"
| "eval_op OpNe l r = Ok (VBool (\<not> value_eq l r))"
| "eval_op OpGe l r = rmap (\<lambda>c. VBool (c \<noteq> Less)) (cmp_ordered l r)"
| "eval_op OpGt l r = rmap (\<lambda>c. VBool (c = Greater)) (cmp_ordered l r)"
| "eval_op OpLe l r = rmap (\<lambda>c. VBool (c \<noteq> Greater)) (cmp_ordered l r)"
| "eval_op OpLt l r = rmap (\<lambda>c. VBool (c = Less)) (cmp_ordered l r)"
| "eval_op OpAdd l r =
     (case checked_add l r of
        Some v \<Rightarrow> Ok v
      | None \<Rightarrow> eval_failed ''arithmetic overflow or type mismatch in `+`'')"
| "eval_op OpSub l r =
     (case checked_sub l r of
        Some v \<Rightarrow> Ok v
      | None \<Rightarrow> eval_failed ''arithmetic overflow or type mismatch in `-`'')"

definition any_all_match :: "binop \<Rightarrow> val \<Rightarrow> val \<Rightarrow> bool result" where
  "any_all_match op l item =
     (case op of
        OpEq \<Rightarrow> Ok (value_eq l item)
      | OpNe \<Rightarrow> Ok (\<not> value_eq l item)
      | OpGe \<Rightarrow> rmap (\<lambda>c. c \<noteq> Less) (cmp_ordered l item)
      | OpGt \<Rightarrow> rmap (\<lambda>c. c = Greater) (cmp_ordered l item)
      | OpLe \<Rightarrow> rmap (\<lambda>c. c \<noteq> Greater) (cmp_ordered l item)
      | OpLt \<Rightarrow> rmap (\<lambda>c. c = Less) (cmp_ordered l item)
      | _ \<Rightarrow> eval_failed ''ANY/ALL only supports comparison operators'')"

fun any_all_compare :: "val \<Rightarrow> val list \<Rightarrow> binop \<Rightarrow> bool \<Rightarrow> bool result" where
  "any_all_compare l [] op all = Ok all"
| "any_all_compare l (item # items) op all =
     rbind (any_all_match op l item) (\<lambda>matches.
       if all \<and> \<not> matches then Ok False
       else if \<not> all \<and> matches then Ok True
       else any_all_compare l items op all)"

definition expect_bool :: "val \<Rightarrow> bool result" where
  "expect_bool v = (case v of VBool b \<Rightarrow> Ok b | _ \<Rightarrow> eval_failed ''expected boolean value'')"

definition expect_usize :: "val \<Rightarrow> nat result" where
  "expect_usize v =
     (case v of
        VI64 n \<Rightarrow> (if 0 \<le> sint n then Ok (nat (sint n)) else eval_failed ''expected non-negative integer'')
      | _ \<Rightarrow> eval_failed ''expected non-negative integer'')"

definition expect_list :: "string \<Rightarrow> val \<Rightarrow> val list result" where
  "expect_list msg v = ok_or (as_list v) (ExpressionEvaluationFailed msg)"

text \<open>The items of \<open>Any\<close>: a \<open>true\<close> ends the loop, anything but a boolean is an error.\<close>

definition any_item :: "val \<Rightarrow> bool result" where
  "any_item v =
     (case v of VBool b \<Rightarrow> Ok b | _ \<Rightarrow> eval_failed ''Any expression items must evaluate to bool'')"

text \<open>The document path of \<open>JsonExtract\<close>; \<open>Ok None\<close> is the early return of \<open>NULL\<close>.\<close>

fun document_path :: "val \<Rightarrow> string list \<Rightarrow> val option result" where
  "document_path v [] = Ok (Some v)"
| "document_path v (key # path) =
     (case v of
        VObject entries \<Rightarrow>
          (case map_of entries key of
             Some w \<Rightarrow> document_path w path
           | None \<Rightarrow> Ok None)
      | VNull \<Rightarrow> Ok None
      | _ \<Rightarrow> eval_failed (''document path step `'' @ key @ ''` into non-object value''))"

definition row_exists :: "val \<Rightarrow> bool" where
  "row_exists v \<longleftrightarrow> v \<noteq> VList [] \<and> v \<noteq> VNull"

definition eval_todo :: "'a result" where
  "eval_todo = Err (Panic ''not yet implemented: expr'')"

subsection \<open>Expressions\<close>

function eval_ref :: "uuid_ops \<Rightarrow> input \<Rightarrow> nat \<Rightarrow> val list list \<Rightarrow> expr \<Rightarrow> val result"
  and eval_resolved :: "uuid_ops \<Rightarrow> input \<Rightarrow> nat \<Rightarrow> val list list \<Rightarrow> string \<Rightarrow> expr option \<Rightarrow> val result"
  where
  "eval_ref U P k \<rho> (EAnd es) =
     rmap VBool (all_ok (\<lambda>e. rbind (eval_ref U P k \<rho> e) expect_bool) es)"
| "eval_ref U P k \<rho> (EOr es) =
     rmap VBool (any_ok (\<lambda>e. rbind (eval_ref U P k \<rho> e) expect_bool) es)"
| "eval_ref U P k \<rho> (EArg i n) =
     rbind (resolve_arg P \<rho> i n []) (eval_resolved U P k \<rho> ''failed to resolve argument'')"
| "eval_ref U P k \<rho> (EBinaryOp l op r) =
     rbind (eval_ref U P k \<rho> l) (\<lambda>a. rbind (eval_ref U P k \<rho> r) (eval_op op a))"
| "eval_ref U P k \<rho> (ECast e from t) =
     rbind (eval_ref U P k \<rho> e) (cast_from U (in_model P) from t)"
| "eval_ref U P k \<rho> EDefault = eval_failed ''DEFAULT can only be evaluated by the database''"
| "eval_ref U P k \<rho> (EError msg) = eval_failed msg"
| "eval_ref U P k \<rho> (EIsNull e negated) =
     rmap (\<lambda>v. VBool (is_null v \<noteq> negated)) (eval_ref U P k \<rho> e)"
| "eval_ref U P k \<rho> (EIsVariant e vid) = eval_failed ''IsVariant must be lowered before evaluation''"
| "eval_ref U P k \<rho> (EVariant e vid) = eval_failed ''Variant must be lowered before evaluation''"
| "eval_ref U P k \<rho> (ELet bs body) =
     rbind (traverse (eval_ref U P k \<rho>) bs) (\<lambda>args. eval_ref U P k (args # \<rho>) body)"
| "eval_ref U P k \<rho> (ENot e) =
     rmap (\<lambda>b. VBool (\<not> b)) (rbind (eval_ref U P k \<rho> e) expect_bool)"
| "eval_ref U P k \<rho> (EList es) = rmap VList (traverse (eval_ref U P k \<rho>) es)"
| "eval_ref U P k \<rho> (EMap b m) =
     rbind (eval_ref U P k \<rho> b) (\<lambda>v.
     rbind (expect_list ''Map base must evaluate to a list'' v) (\<lambda>items.
     rmap VList (traverse (\<lambda>x. eval_ref U P k ([x] # \<rho>) m) items)))"
| "eval_ref U P k \<rho> (EProject b path) =
     (case b of
        EArg i n \<Rightarrow>
          rbind (resolve_arg P \<rho> i n path) (eval_resolved U P k \<rho> ''failed to resolve argument'')
      | EReference ref \<Rightarrow>
          rbind (in_ref P ref path) (eval_resolved U P k \<rho> ''failed to resolve reference'')
      | _ \<Rightarrow> rbind (eval_ref U P k \<rho> b) (\<lambda>v. value_entry v path))"
| "eval_ref U P k \<rho> (ERecord es) = rmap VRecord (traverse (eval_ref U P k \<rho>) es)"
| "eval_ref U P k \<rho> (EReference ref) =
     rbind (in_ref P ref []) (eval_resolved U P k \<rho> ''failed to resolve reference'')"
| "eval_ref U P k \<rho> (EAny e) =
     rbind (eval_ref U P k \<rho> e) (\<lambda>v.
     rbind (expect_list ''Any expression must evaluate to a list'' v) (\<lambda>items.
     rmap VBool (any_ok any_item items)))"
| "eval_ref U P k \<rho> (EInList e l) =
     rbind (eval_ref U P k \<rho> e) (\<lambda>needle.
     rbind (eval_ref U P k \<rho> l) (\<lambda>v.
     rmap (\<lambda>items. VBool (list_ex (\<lambda>item. value_eq item needle) items))
       (expect_list ''InList right-hand side must evaluate to a list'' v)))"
| "eval_ref U P k \<rho> (EAnyOp l op r) =
     rbind (eval_ref U P k \<rho> l) (\<lambda>a.
     rbind (eval_ref U P k \<rho> r) (\<lambda>v.
     rbind (expect_list ''ANY right-hand side must evaluate to a list'' v) (\<lambda>items.
     rmap VBool (any_all_compare a items op False))))"
| "eval_ref U P k \<rho> (EAllOp l op r) =
     rbind (eval_ref U P k \<rho> l) (\<lambda>a.
     rbind (eval_ref U P k \<rho> r) (\<lambda>v.
     rbind (expect_list ''ALL right-hand side must evaluate to a list'' v) (\<lambda>items.
     rmap VBool (any_all_compare a items op True))))"
| "eval_ref U P k \<rho> (EMatch s arms els) =
     rbind (eval_ref U P k \<rho> s) (\<lambda>v. eval_ref U P k \<rho> (arm_for v arms els))"
| "eval_ref U P k \<rho> (EExists (Query ctes body single order lm locks)) =
     (case body of
        SValues rows \<Rightarrow> rmap VBool (any_ok (\<lambda>e. rmap row_exists (eval_ref U P k \<rho> e)) rows)
      | _ \<Rightarrow> Err (Panic ''not yet implemented: ExprExists with non-Values body''))"
| "eval_ref U P k \<rho> (EValue v) = Ok v"
| "eval_ref U P k \<rho> (EStatic v) = Ok v"
| "eval_ref U P k \<rho> (EFunc (FJsonExtract b path t)) =
     rbind (eval_ref U P k \<rho> b) (\<lambda>v.
     rbind (document_path v path) (\<lambda>leaf.
       case leaf of None \<Rightarrow> Ok VNull | Some w \<Rightarrow> cast U (in_model P) t w))"
| "eval_ref U P k \<rho> (EFunc (FCount arg fil)) =
     eval_failed ''database functions cannot be evaluated client-side''"
| "eval_ref U P k \<rho> (EFunc FLastInsertId) =
     eval_failed ''database functions cannot be evaluated client-side''"
| "eval_ref U P k \<rho> (EFunc (FUnnest b)) =
     eval_failed ''database functions cannot be evaluated client-side''"
| "eval_ref U P k \<rho> (EIncoming i) = eval_failed ''incoming values can only be evaluated by the database''"
| "eval_ref U P k \<rho> (EBetween e l h) = eval_todo"
| "eval_ref U P k \<rho> (EIdent s) = eval_todo"
| "eval_ref U P k \<rho> (EInSubquery e q neg rk) = eval_todo"
| "eval_ref U P k \<rho> (EIntersects l r) = eval_todo"
| "eval_ref U P k \<rho> (EIsSuperset l r) = eval_todo"
| "eval_ref U P k \<rho> (ELength e) = eval_todo"
| "eval_ref U P k \<rho> (ELike e p esc ci) = eval_todo"
| "eval_ref U P k \<rho> (EStartsWith e p) = eval_todo"
| "eval_ref U P k \<rho> (EStmt s) = eval_todo"
| "eval_resolved U P k \<rho> msg None = eval_failed msg"
| "eval_resolved U P 0 \<rho> msg (Some e) = Err OutOfFuel"
| "eval_resolved U P (Suc k) \<rho> msg (Some e) = eval_ref U P k \<rho> e"
  by pat_completeness auto

termination
  by (relation "measures [\<lambda>x. case x of Inl (U, P, k, \<rho>, e) \<Rightarrow> 2 * k + 1 | Inr (U, P, k, \<rho>, msg, e) \<Rightarrow> 2 * k,
      \<lambda>x. case x of Inl (U, P, k, \<rho>, e) \<Rightarrow> size e | Inr _ \<Rightarrow> 0]")
    (auto dest: size_in_list simp: less_Suc_eq_le size_arm_for_le)

subsection \<open>Statements\<close>

definition eval_bool :: "uuid_ops \<Rightarrow> input \<Rightarrow> nat \<Rightarrow> expr \<Rightarrow> bool result" where
  "eval_bool U P k e = rbind (eval_ref U P k [] e) expect_bool"

definition eval_usize :: "uuid_ops \<Rightarrow> input \<Rightarrow> nat \<Rightarrow> val list list \<Rightarrow> expr \<Rightarrow> nat result" where
  "eval_usize U P k \<rho> e = rbind (eval_ref U P k \<rho> e) expect_usize"

definition eval_limit :: "uuid_ops \<Rightarrow> input \<Rightarrow> nat \<Rightarrow> val list list \<Rightarrow> limit \<Rightarrow> val \<Rightarrow> val result" where
  "eval_limit U P k \<rho> lm v =
     rbind (expect_list ''LIMIT requires body to evaluate to a list'' v) (\<lambda>items.
       case lm of
         LCursor page after \<Rightarrow> eval_failed ''cursor-based pagination cannot be evaluated client-side''
       | LOffset lim_expr off \<Rightarrow>
           rbind (case off of
                    None \<Rightarrow> Ok items
                  | Some e \<Rightarrow> rmap (\<lambda>skip. if length items \<le> skip then [] else drop skip items)
                      (eval_usize U P k \<rho> e)) (\<lambda>rest.
           rmap (\<lambda>n. VList (take n rest)) (eval_usize U P k \<rho> lim_expr)))"

definition eval_expr_set :: "uuid_ops \<Rightarrow> input \<Rightarrow> nat \<Rightarrow> val list list \<Rightarrow> expr_set \<Rightarrow> val result" where
  "eval_expr_set U P k \<rho> s =
     (case s of
        SValues rows \<Rightarrow> rmap VList (traverse (eval_ref U P k \<rho>) rows)
      | _ \<Rightarrow> eval_failed ''can only evaluate Values expressions'')"

definition single_row :: "val \<Rightarrow> val result" where
  "single_row v =
     rbind (expect_list ''single-row query requires body to evaluate to a list'' v) (\<lambda>items.
       case items of [x] \<Rightarrow> Ok x | _ \<Rightarrow> eval_failed ''single-row query did not return exactly one row'')"

definition eval_stmt :: "uuid_ops \<Rightarrow> input \<Rightarrow> nat \<Rightarrow> val list list \<Rightarrow> stmt \<Rightarrow> val result" where
  "eval_stmt U P k \<rho> s =
     (case s of
        StQuery (Query ctes body single order lm locks) \<Rightarrow>
          (if ctes \<noteq> None then eval_failed ''cannot evaluate statement with WITH clause''
           else if order \<noteq> None then eval_failed ''cannot evaluate statement with ORDER BY clause''
           else
             rbind (eval_expr_set U P k \<rho> body) (\<lambda>v.
             rbind (case lm of None \<Rightarrow> Ok v | Some l \<Rightarrow> eval_limit U P k \<rho> l v) (\<lambda>w.
             if single then single_row w else Ok w)))
      | _ \<Rightarrow> eval_failed ''can only evaluate Query statements'')"

end
