(* ===== verification/EvalRules.thy ===== *)
theory EvalRules
  imports Eval
begin

text \<open>
  What the evaluator's classification predicates promise: an expression \<open>is_eval\<close> accepts never
  reaches the evaluator's \<open>todo!\<close>, one \<open>is_const\<close> accepts does not look at its input, and over
  inputs that are values the evaluator needs one unit of fuel.
\<close>

subsection \<open>Errors of the layers below\<close>

text \<open>An error the value layer may raise.\<close>

definition value_error :: "error \<Rightarrow> bool" where
  "value_error x \<longleftrightarrow> x \<noteq> OutOfFuel \<and> x \<noteq> Panic ''not yet implemented: expr''"

definition only_errors :: "(error \<Rightarrow> bool) \<Rightarrow> 'a result \<Rightarrow> bool" where
  "only_errors p m \<longleftrightarrow> (\<forall>x. m = Err x \<longrightarrow> p x)"

lemma only_errors_simps [simp]:
  "only_errors p (Ok a)"
  "only_errors p (Err x) \<longleftrightarrow> p x"
  "only_errors p (rmap f m) \<longleftrightarrow> only_errors p m"
  "only_errors p (ok_or opt x) \<longleftrightarrow> (opt = None \<longrightarrow> p x)"
  by (auto simp: only_errors_def ok_or_def split: option.split)

lemma only_errors_rbind:
  "only_errors p m \<Longrightarrow> (\<And>a. m = Ok a \<Longrightarrow> only_errors p (f a)) \<Longrightarrow> only_errors p (rbind m f)"
  by (auto simp: only_errors_def rbind_eq_Err)

lemma only_errors_traverse:
  "(\<And>x. x \<in> set xs \<Longrightarrow> only_errors p (f x)) \<Longrightarrow> only_errors p (traverse f xs)"
  by (auto simp: only_errors_def dest: traverse_eq_Err)

lemma only_errors_any_ok:
  "(\<And>x. x \<in> set xs \<Longrightarrow> only_errors p (f x)) \<Longrightarrow> only_errors p (any_ok f xs)"
  by (induction xs) (auto intro!: only_errors_rbind)

lemma only_errors_all_ok:
  "(\<And>x. x \<in> set xs \<Longrightarrow> only_errors p (f x)) \<Longrightarrow> only_errors p (all_ok f xs)"
  by (induction xs) (auto intro!: only_errors_rbind)

lemmas only_errors_intros = only_errors_rbind only_errors_traverse only_errors_any_ok only_errors_all_ok

lemma value_error_simps [simp]:
  "value_error (ExpressionEvaluationFailed s)" "value_error (TypeConversion s)"
  "only_errors value_error (todo :: 'a result)" "only_errors value_error (eval_failed msg :: 'a result)"
  "value_error (type_conversion s)" "value_error (Panic ''index out of bounds'')"
  "value_error (Panic ''resolved input cannot evaluate to the requested argument type'')"
  "value_error (Panic ''not yet implemented'')" "value_error (Panic ''could not parse uuid'')"
  by (simp_all add: value_error_def todo_def eval_failed_def type_conversion_def)

lemma cast_scalar_errors: "only_errors value_error (cast_scalar U t v)"
  by (auto simp: cast_scalar_def cast_int_def split: ty.split val.split)

lemma cast_errors:
  "only_errors value_error (cast U R t v)" "only_errors value_error (raise_document U R m v)"
  "only_errors value_error (raise_fields U R fs es)" "only_errors value_error (cast_document_leaf U R t v)"
proof (induction U R t v and U R m v and U R fs es and U R t v
    rule: cast_raise_document_raise_fields_cast_document_leaf.induct)
  case (1 U R t v)
  then show ?case
    by (subst cast.simps)
      (auto split: ty.split option.split list.split prod.split intro!: only_errors_intros
        simp: cast_scalar_errors)
next
  case (2 U R m v)
  then show ?case
    by (auto simp: raise_document.simps split: option.split)
next
  case (4 U R f fs es)
  then show ?case
    by (auto split: option.split intro!: only_errors_intros)
next
  case (5 U R t v)
  then show ?case
    by (auto simp: cast_document_leaf.simps split: leaf.split intro!: only_errors_intros)
qed simp

lemma lower_document_errors: "only_errors value_error (lower_document R from v)"
proof (induction R "from" v rule: lower_document.induct)
  case (1 R frm v)
  then show ?case
    by (subst lower_document.simps)
      (auto split: ty.split option.split prod.split intro!: only_errors_intros)
qed

lemma cast_from_errors: "only_errors value_error (cast_from U R from t v)"
  by (simp add: cast_from_def cast_errors lower_document_errors split: option.split)

lemma value_entry_errors: "only_errors value_error (value_entry v path)"
  by (induction v path rule: value_entry.induct) (auto simp: value_error_def split: val.split)

lemma resolve_values_errors: "only_errors value_error (resolve_values args i path)"
  by (auto simp: resolve_values_def slice_at_def project_value_def value_entry_errors)

lemma cmp_ordered_errors: "only_errors value_error (cmp_ordered l r)"
  by (simp add: cmp_ordered_def split: option.split)

lemma eval_op_errors: "only_errors value_error (eval_op op l r)"
  by (cases op) (simp_all add: cmp_ordered_errors split: option.split)

lemma any_all_compare_errors: "only_errors value_error (any_all_compare l items op all)"
proof -
  have "only_errors value_error (any_all_match op l item)" for item
    by (cases op) (simp_all add: any_all_match_def cmp_ordered_errors)
  then show ?thesis by (induction items) (auto intro!: only_errors_rbind)
qed

lemma expect_errors [simp]:
  "only_errors value_error (expect_bool v)" "only_errors value_error (expect_list msg v)"
  "only_errors value_error (any_item v)"
  by (auto simp: expect_bool_def expect_list_def any_item_def split: val.split)

lemma document_path_errors: "only_errors value_error (document_path v path)"
  by (induction v path rule: document_path.induct) (auto split: val.split option.split)

lemmas below_errors = cast_errors(1) cast_from_errors value_entry_errors eval_op_errors
  any_all_compare_errors document_path_errors

subsection \<open>Inputs that are values\<close>

text \<open>
  The contract of an input under which evaluation is a function of the values it holds: every
  answer is a literal, a path it does not know is a position it does not know, and it raises only
  errors of the value layer.
\<close>

lemma resolve_values_value: "resolve_values args i path = Ok (Some e) \<Longrightarrow> is_value e"
  by (auto simp: resolve_values_def project_value_def result_simps)

lemma expr_is_a_literal: "only_errors value_error (expr_is_a R t (EValue v))"
proof (induction "size t" arbitrary: t rule: less_induct)
  case less
  show ?case
  proof (cases t)
    case (TUnion ts)
    have "only_errors value_error (any_ok (\<lambda>u. expr_is_a R u (EValue v)) ts)"
      using TUnion by (intro only_errors_any_ok less) (auto simp: less_Suc_eq_le size_list_estimation')
    then show ?thesis by (subst expr_is_a.simps) (simp add: TUnion)
  qed (subst expr_is_a.simps; simp)+
qed

lemma type_at_errors: "only_errors value_error (type_at t path)"
  by (induction t path rule: type_at.induct) (auto simp: slice_at_def split: ty.split)

lemma check_typed_errors: "is_value e \<Longrightarrow> only_errors value_error (check_typed R tys i path e)"
  by (auto simp: check_typed_def slice_at_def is_value_iff
      intro!: only_errors_rbind type_at_errors expr_is_a_literal)

locale resolved_input =
  fixes P :: input
  assumes arg_errors: "only_errors value_error (in_arg P i n path)"
    and ref_errors: "only_errors value_error (in_ref P ref path)"
    and arg_value: "in_arg P i n path = Ok (Some e) \<Longrightarrow> is_value e"
    and ref_value: "in_ref P ref path = Ok (Some e) \<Longrightarrow> is_value e"
    and arg_unknown: "in_arg P i n path = Ok None \<Longrightarrow> in_arg P i n [] = Ok None"
    and ref_unknown: "in_ref P ref path = Ok None \<Longrightarrow> in_ref P ref [] = Ok None"
begin

lemma resolve_arg_errors: "only_errors value_error (resolve_arg P \<rho> i n path)"
  using resolve_values_errors by (simp add: resolve_arg_def arg_errors)

lemma resolve_arg_value: "resolve_arg P \<rho> i n path = Ok (Some e) \<Longrightarrow> is_value e"
  using resolve_values_value arg_value by (auto simp: resolve_arg_def split: if_splits)

lemma eval_resolved_errors:
  "(\<And>e. found = Some e \<Longrightarrow> is_value e) \<Longrightarrow>
   only_errors value_error (eval_resolved U P (Suc k) \<rho> msg found)"
  by (cases found) (auto simp: is_value_iff)

text \<open>Over such inputs one unit of fuel is enough, and \<open>is_eval\<close> keeps clear of the \<open>todo!\<close>.\<close>

lemma eval_errors:
  "is_eval e \<Longrightarrow> only_errors value_error (eval_ref U P (Suc k) \<rho> e)"
proof (induction "size e" arbitrary: e \<rho> rule: less_induct)
  case less
  have IH: "only_errors value_error (eval_ref U P (Suc k) \<rho>' c)"
    if "c \<in> set (children e)" "is_eval c" for c \<rho>'
    using that less.hyps children_size by blast
  have arg: "only_errors value_error (rbind (resolve_arg P \<rho> i n path) (eval_resolved U P (Suc k) \<rho> msg))"
    for i n path msg
    by (intro only_errors_rbind resolve_arg_errors eval_resolved_errors resolve_arg_value) simp
  have ref: "only_errors value_error (rbind (in_ref P ref path) (eval_resolved U P (Suc k) \<rho> msg))"
    for ref path msg
    by (intro only_errors_rbind ref_errors eval_resolved_errors ref_value) simp
  show ?case
  proof (cases e)
    case (EArg i n)
    then show ?thesis using arg by (simp only: eval_ref.simps)
  next
    case (EMatch s arms els)
    have "only_errors value_error (eval_ref U P (Suc k) \<rho> (arm_for v arms els))" for v
    proof (rule IH)
      show "arm_for v arms els \<in> set (children e)"
        using arm_for_cases [of v arms els] by (auto simp: EMatch)
      show "is_eval (arm_for v arms els)"
        using less.prems arm_for_all [of arms is_eval els v] by (auto simp: EMatch list_all_iff)
    qed
    moreover have "only_errors value_error (eval_ref U P (Suc k) \<rho> s)"
      using less.prems by (intro IH) (auto simp: EMatch)
    ultimately show ?thesis by (auto simp: EMatch intro!: only_errors_rbind)
  next
    case (EProject b path)
    have b: "only_errors value_error (eval_ref U P (Suc k) \<rho> b)"
      using less.prems by (intro IH) (auto simp: EProject)
    then have "only_errors value_error (rbind (eval_ref U P (Suc k) \<rho> b) (\<lambda>v. value_entry v path))"
      by (intro only_errors_rbind) (auto simp: below_errors)
    with EProject arg ref show ?thesis by (cases b) (simp_all del: eval_ref.simps add: eval_ref.simps(15))
  next
    case (EExists q)
    obtain ctes body single order lm locks where q: "q = Query ctes body single order lm locks"
      by (cases q)
    with less.prems EExists obtain rows where rows: "body = SValues rows" "list_all is_eval rows"
      by (auto split: expr_set.splits)
    then show ?thesis using EExists q
      by (auto simp: list_all_iff intro!: only_errors_any_ok IH)
  next
    case (EFunc fn)
    with less.prems obtain b path t where "fn = FJsonExtract b path t" "is_eval b" by (cases fn) auto
    with EFunc show ?thesis
      by (auto intro!: only_errors_rbind IH simp: below_errors split: option.split)
  next
    case (EMap b m)
    with less.prems show ?thesis
      by (auto intro!: only_errors_rbind only_errors_traverse IH)
  next
    case (ELet bs body)
    with less.prems have "only_errors value_error (traverse (eval_ref U P (Suc k) \<rho>) bs)"
      by (auto simp: list_all_iff intro!: only_errors_traverse IH)
    with less.prems ELet show ?thesis by (auto intro!: only_errors_rbind IH)
  qed (use less.prems in \<open>auto simp: list_all_iff below_errors intro!: only_errors_intros IH\<close>)
qed

end

interpretation const: resolved_input const_input
  by unfold_locales (simp_all add: const_input_def)

interpretation slice: resolved_input "value_input args" for args
  by unfold_locales
    (auto simp: value_input_def resolve_values_errors resolve_values_value, auto simp: resolve_values_def project_value_def rbind_eq_Ok rmap_eq_Ok)

lemma check_typed_value: "check_typed R tys i path e = Ok found \<Longrightarrow> found = Some e"
  by (auto simp: check_typed_def rbind_eq_Ok split: if_splits)

interpretation typed: resolved_input "typed_input R tys (value_input args)" for R tys args
proof unfold_locales
  fix i n path
  have v: "only_errors value_error (in_arg (value_input args) i n path)" by (rule slice.arg_errors)
  show "only_errors value_error (in_arg (typed_input R tys (value_input args)) i n path)"
    using slice.arg_value [of args i n path]
    by (auto simp: typed_input_def v intro!: only_errors_rbind check_typed_errors split: option.split)
  show "is_value e" if "in_arg (typed_input R tys (value_input args)) i n path = Ok (Some e)" for e
    using that slice.arg_value [of args i n path]
    by (auto simp: typed_input_def rbind_eq_Ok split: option.splits dest!: check_typed_value)
  show "in_arg (typed_input R tys (value_input args)) i n [] = Ok None"
    if "in_arg (typed_input R tys (value_input args)) i n path = Ok None"
  proof -
    from that obtain found where f: "in_arg (value_input args) i n path = Ok found"
      and c: "(case found of None \<Rightarrow> Ok None | Some e \<Rightarrow> check_typed R tys i path e) = Ok None"
      by (auto simp: typed_input_def rbind_eq_Ok)
    from c have "found = None" by (cases found) (auto dest: check_typed_value)
    with f have "in_arg (value_input args) i n [] = Ok None" by (auto intro: slice.arg_unknown)
    then show ?thesis by (simp add: typed_input_def)
  qed
qed (simp_all add: typed_input_def)

subsection \<open>Constants\<close>

text \<open>\<open>is_const\<close> does not look at the \<open>else\<close> branch of a \<open>Match\<close>.\<close>

definition const_else_node :: "expr \<Rightarrow> bool" where
  "const_else_node e = (case e of EMatch s arms els \<Rightarrow> is_const els | _ \<Rightarrow> True)"

abbreviation const_elses :: "expr \<Rightarrow> bool" where
  "const_elses e \<equiv> for_all_exprs const_else_node e"

lemma is_const_deeper: "is_const_at_depth d e \<Longrightarrow> d \<le> d' \<Longrightarrow> is_const_at_depth d' e"
  by (induction d e arbitrary: d' rule: is_const_at_depth.induct) (auto simp: list_all_iff)

lemma const_elses_children: "const_elses e \<Longrightarrow> c \<in> set (children e) \<Longrightarrow> const_elses c"
  by (subst (asm) for_all_exprs.simps) (auto simp: list_all_iff)

text \<open>\<open>locals_only d e\<close>: every argument belongs to one of the \<open>d\<close> scopes around the expression or
  to a scope inside it, and there is no reference.\<close>

fun is_reference :: "expr \<Rightarrow> bool" where
  "is_reference (EReference _) = True"
| "is_reference _ = False"

function locals_only :: "nat \<Rightarrow> expr \<Rightarrow> bool" where
  "locals_only d e =
     (case view_scope e of
        ScopeLet bs body \<Rightarrow> list_all (locals_only d) bs \<and> locals_only (Suc d) body
      | ScopeMap b m \<Rightarrow> locals_only d b \<and> locals_only (Suc d) m
      | ScopeNone \<Rightarrow>
          scalar_node e \<and> \<not> is_reference e \<and>
          (case view_arg e of Some (i, n) \<Rightarrow> n < d | None \<Rightarrow> True) \<and>
          list_all (locals_only d) (children e))"
  by pat_completeness auto

termination
  by (relation "measure (\<lambda>(d, e). size e)")
    (auto dest: children_size size_in_list simp: less_Suc_eq_le)

declare locals_only.simps [simp del]

lemma locals_only_scopes [simp]:
  "locals_only d (ELet bs body) \<longleftrightarrow> list_all (locals_only d) bs \<and> locals_only (Suc d) body"
  "locals_only d (EMap b m) \<longleftrightarrow> locals_only d b \<and> locals_only (Suc d) m"
  "locals_only d (EArg i n) \<longleftrightarrow> n < d"
  by (subst locals_only.simps, simp)+

lemma locals_only_node:
  "view_scope e = ScopeNone \<Longrightarrow> locals_only d e \<Longrightarrow>
   scalar_node e \<and> \<not> is_reference e \<and> (\<forall>c \<in> set (children e). locals_only d c)"
  by (subst (asm) locals_only.simps) (simp add: list_all_iff)

lemma is_const_locals_only: "is_const_at_depth d e \<Longrightarrow> const_elses e \<Longrightarrow> locals_only d e"
proof (induction "size e" arbitrary: e d rule: less_induct)
  case less
  have IH: "locals_only d' c" if "c \<in> set (children e)" "is_const_at_depth d' c" for c d'
    using that less.prems(2) less.hyps [of c d'] const_elses_children children_size by blast
  show ?case
  proof (cases e)
    case (ELet bs body)
    with less.prems IH show ?thesis by (auto simp: list_all_iff)
  next
    case (EMap b m)
    with less.prems IH show ?thesis by auto
  next
    case (EMatch s arms els)
    have "is_const els" using less.prems(2) by (simp add: EMatch const_else_node_def)
    then have "is_const_at_depth d els"
      using is_const_deeper [of 0 els d] by (simp add: is_const_def)
    with EMatch less.prems IH show ?thesis
      by (subst locals_only.simps) (auto simp: list_all_iff)
  next
    case (EArg i n)
    with less.prems show ?thesis by simp
  next
    case (EFunc fn)
    with less.prems show ?thesis by simp
  qed (use less.prems IH in \<open>subst locals_only.simps; auto simp: list_all_iff\<close>)+
qed

subsection \<open>Evaluation of a visited node\<close>

definition resolves_base :: "expr \<Rightarrow> bool" where
  "resolves_base e \<longleftrightarrow> view_arg e \<noteq> None \<or> is_reference e"

lemma eval_project:
  "\<not> resolves_base b \<Longrightarrow>
   eval_ref U P k \<rho> (EProject b path) = rbind (eval_ref U P k \<rho> b) (\<lambda>v. value_entry v path)"
  by (cases b) (simp_all add: resolves_base_def del: eval_ref.simps add: eval_ref.simps(15))

lemma traverse_visit_eq:
  "\<lbrakk>traverse f es = Ok es'; \<And>c c'. c \<in> set es \<Longrightarrow> f c = Ok c' \<Longrightarrow> g c = h c'\<rbrakk> \<Longrightarrow>
   traverse g es = traverse h es'"
  by (induction es arbitrary: es') (auto simp: rbind_eq_Ok rmap_eq_Ok simp del: traverse_eq_Ok)

lemma any_ok_visit_eq:
  "\<lbrakk>traverse f es = Ok es'; \<And>c c'. c \<in> set es \<Longrightarrow> f c = Ok c' \<Longrightarrow> g c = h c'\<rbrakk> \<Longrightarrow>
   any_ok g es = any_ok h es'"
  by (induction es arbitrary: es') (auto simp: rbind_eq_Ok rmap_eq_Ok simp del: traverse_eq_Ok cong: if_cong)

lemma all_ok_visit_eq:
  "\<lbrakk>traverse f es = Ok es'; \<And>c c'. c \<in> set es \<Longrightarrow> f c = Ok c' \<Longrightarrow> g c = h c'\<rbrakk> \<Longrightarrow>
   all_ok g es = all_ok h es'"
  by (induction es arbitrary: es') (auto simp: rbind_eq_Ok rmap_eq_Ok simp del: traverse_eq_Ok cong: if_cong)

lemma eval_visit_node:
  assumes v: "visit_expr f e = Ok e'"
    and n: "view_scope e = ScopeNone" "view_arg e = None" "scalar_node e" "\<not> is_reference e"
    and m: "in_model P = in_model Q"
    and base: "\<And>b path b'. e = EProject b path \<Longrightarrow> f b = Ok b' \<Longrightarrow> \<not> resolves_base b \<and> \<not> resolves_base b'"
    and c: "\<And>c c'. c \<in> set (children e) \<Longrightarrow> f c = Ok c' \<Longrightarrow> eval_ref U P k \<rho> c = eval_ref U Q k \<rho>' c'"
  shows "eval_ref U P k \<rho> e = eval_ref U Q k \<rho>' e'"
proof (cases e)
  case (EMatch s arms els)
  from v EMatch obtain s' arms' els' where e': "e' = EMatch s' arms' els'" "f s = Ok s'"
    and arms: "traverse (visit_pair f) arms = Ok arms'" "f els = Ok els'"
    by (auto simp: rmap3_eq_Ok)
  have "eval_ref U P k \<rho> (arm_for v arms els) = eval_ref U Q k \<rho>' (arm_for v arms' els')" for v
    using arm_for_visit [OF arms, of v] EMatch arm_for_cases [of v arms els] by (intro c) auto
  moreover have "eval_ref U P k \<rho> s = eval_ref U Q k \<rho>' s'"
    using EMatch e' by (intro c) auto
  ultimately show ?thesis by (simp add: EMatch e')
next
  case (EProject b path)
  with v obtain b' where b': "e' = EProject b' path" "f b = Ok b'" by (auto simp: rmap_eq_Ok)
  moreover have "eval_ref U P k \<rho> b = eval_ref U Q k \<rho>' b'" using EProject b' by (intro c) auto
  ultimately show ?thesis using base [OF EProject b'(2)]
    by (simp add: EProject eval_project del: eval_ref.simps)
next
  case (EFunc fn)
  with n obtain "fn = FLastInsertId \<or> fn = FCount None None \<or> (\<exists>b path t. fn = FJsonExtract b path t) \<or> (\<exists>b. fn = FUnnest b)"
    by (cases fn) auto
  with EFunc v c show ?thesis by (auto simp: m rmap_eq_Ok rmap2_eq_Ok)
next
  case (EAnd es)
  with v obtain es' where "e' = EAnd es'" "traverse f es = Ok es'" by (auto simp: rmap_eq_Ok simp del: traverse_eq_Ok)
  with EAnd c show ?thesis by (auto intro!: arg_cong [of _ _ "rmap _"] all_ok_visit_eq)
next
  case (EOr es)
  with v obtain es' where "e' = EOr es'" "traverse f es = Ok es'" by (auto simp: rmap_eq_Ok simp del: traverse_eq_Ok)
  with EOr c show ?thesis by (auto intro!: arg_cong [of _ _ "rmap _"] any_ok_visit_eq)
next
  case (EList es)
  with v obtain es' where "e' = EList es'" "traverse f es = Ok es'" by (auto simp: rmap_eq_Ok simp del: traverse_eq_Ok)
  with EList c show ?thesis by (auto intro!: arg_cong [of _ _ "rmap _"] traverse_visit_eq)
next
  case (ERecord es)
  with v obtain es' where "e' = ERecord es'" "traverse f es = Ok es'" by (auto simp: rmap_eq_Ok simp del: traverse_eq_Ok)
  with ERecord c show ?thesis by (auto intro!: arg_cong [of _ _ "rmap _"] traverse_visit_eq)
qed (use v n m c in \<open>auto simp: rmap_eq_Ok rmap2_eq_Ok rmap3_eq_Ok\<close>)

text \<open>An expression whose arguments are all local does not look at the input.\<close>

lemma eval_locals_only:
  assumes m: "in_model P = in_model Q"
  shows "locals_only (length \<rho>) e \<Longrightarrow> eval_ref U P k \<rho> e = eval_ref U Q k \<rho> e"
proof (induction "size e" arbitrary: e \<rho> rule: less_induct)
  case less
  have IH: "eval_ref U P k \<rho>' c = eval_ref U Q k \<rho>' c"
    if "c \<in> set (children e)" "locals_only (length \<rho>') c" for c \<rho>'
    using that less.hyps [of c \<rho>'] children_size by blast
  have local_arg: "rbind (resolve_arg P \<rho> i n path) (eval_resolved U P k \<rho> msg) =
      rbind (resolve_arg Q \<rho> i n path) (eval_resolved U Q k \<rho> msg)" if "n < length \<rho>" for i n path msg
  proof -
    have "resolve_arg P \<rho> i n path = resolve_arg Q \<rho> i n path" using that by (simp add: resolve_arg_def)
    moreover have "eval_resolved U P k \<rho> msg found = eval_resolved U Q k \<rho> msg found"
      if f: "resolve_arg Q \<rho> i n path = Ok found" for found
    proof (cases found)
      case (Some e)
      with f \<open>n < length \<rho>\<close> have "is_value e"
        by (intro resolve_values_value) (simp add: resolve_arg_def)
      with Some show ?thesis by (cases k) (auto simp: is_value_iff)
    qed simp
    ultimately show ?thesis by (cases "resolve_arg Q \<rho> i n path") simp_all
  qed
  consider (let_node) bs body where "e = ELet bs body" | (map_node) b m where "e = EMap b m"
    | (arg) i n where "e = EArg i n" | (project) i n path where "e = EProject (EArg i n) path"
    | (node) "view_scope e = ScopeNone" "view_arg e = None" "\<And>i n path. e \<noteq> EProject (EArg i n) path"
    by (metis not_None_eq old.prod.exhaust scope_view.exhaust view_arg_eq view_scope_eq(1,2))
  then show ?case
  proof cases
    case let_node
    have "traverse (eval_ref U P k \<rho>) bs = traverse (eval_ref U Q k \<rho>) bs"
      using less.prems let_node by (intro traverse_cong refl IH) (auto simp: list_all_iff)
    moreover have "eval_ref U P k (args # \<rho>) body = eval_ref U Q k (args # \<rho>) body" for args
      using less.prems let_node by (intro IH) auto
    ultimately show ?thesis by (simp add: let_node)
  next
    case map_node
    have "eval_ref U P k \<rho> b = eval_ref U Q k \<rho> b"
      "eval_ref U P k ([x] # \<rho>) m = eval_ref U Q k ([x] # \<rho>) m" for x
      using less.prems map_node by (auto intro!: IH)
    then show ?thesis by (simp add: map_node)
  next
    case arg
    then show ?thesis using less.prems local_arg by simp
  next
    case (project i n path)
    with less.prems have "n < length \<rho>" by (subst (asm) locals_only.simps) simp
    with project show ?thesis using local_arg by simp
  next
    case node
    note n = locals_only_node [OF node(1) less.prems]
    show ?thesis
    proof (rule eval_visit_node [OF visit_self node(1,2) _ _ m])
      fix b path b'
      assume "e = EProject b path" "Ok b = Ok b'"
      moreover from this n have "\<not> is_reference b"
        by (cases b) (auto dest: locals_only_node [rotated])
      ultimately show "\<not> resolves_base b \<and> \<not> resolves_base b'"
        using node(3) by (cases b) (auto simp: resolves_base_def)
    qed (use n IH in auto)
  qed
qed

lemma eval_const_independent:
  "\<lbrakk>is_const_at_depth (length \<rho>) e; const_elses e; in_model P = in_model Q\<rbrakk> \<Longrightarrow>
   eval_ref U P k \<rho> e = eval_ref U Q k \<rho> e"
  by (intro eval_locals_only is_const_locals_only)

end
