(* ===== verification/Substitute.thy ===== *)
theory Substitute
  imports EvalRules
begin

text \<open>
  Substitution of arguments and references through an input (\<open>substitute.rs\<close>), and its
  relation to evaluation under the same input.
\<close>

definition substitute_node :: "input \<Rightarrow> expr \<Rightarrow> expr option result" where
  "substitute_node P e =
     (case e of
        EProject b path \<Rightarrow>
          (case b of
             EArg i n \<Rightarrow> in_arg P i n path
           | EReference ref \<Rightarrow> in_ref P ref path
           | _ \<Rightarrow> Ok None)
      | EReference ref \<Rightarrow> in_ref P ref []
      | EArg i n \<Rightarrow> in_arg P i n []
      | _ \<Rightarrow> Ok None)"

text \<open>The bodies of \<open>Let\<close> and \<open>Map\<close> are left alone: their arguments are local.\<close>

function substitute :: "input \<Rightarrow> expr \<Rightarrow> expr result" where
  "substitute P e =
     rbind (substitute_node P e) (\<lambda>found.
       case found of
         Some e' \<Rightarrow> Ok e'
       | None \<Rightarrow>
           (case view_scope e of
              ScopeLet bs body \<Rightarrow> rmap (\<lambda>bs'. ELet bs' body) (traverse (substitute P) bs)
            | ScopeMap b m \<Rightarrow> rmap (\<lambda>b'. EMap b' m) (substitute P b)
            | ScopeNone \<Rightarrow> visit_expr (substitute P) e))"
  by pat_completeness auto

termination
  by (relation "measure (\<lambda>(P, e). size e)")
    (auto dest: children_size size_in_list simp: less_Suc_eq_le)

declare substitute.simps [simp del]

text \<open>
  What substitution is meant for: arguments without nesting, and local arguments only in the
  bodies it does not enter.
\<close>

function substitutable :: "expr \<Rightarrow> bool" where
  "substitutable e =
     (case view_scope e of
        ScopeLet bs body \<Rightarrow> list_all substitutable bs \<and> locals_only 1 body
      | ScopeMap b m \<Rightarrow> substitutable b \<and> locals_only 1 m
      | ScopeNone \<Rightarrow>
          scalar_node e \<and> (case view_arg e of Some (i, n) \<Rightarrow> n = 0 | None \<Rightarrow> True) \<and>
          list_all substitutable (children e))"
  by pat_completeness auto

termination
  by (relation "measure size") (auto dest: children_size size_in_list simp: less_Suc_eq_le)

declare substitutable.simps [simp del]

lemma substitutable_simps [simp]:
  "substitutable (ELet bs body) \<longleftrightarrow> list_all substitutable bs \<and> locals_only 1 body"
  "substitutable (EMap b m) \<longleftrightarrow> substitutable b \<and> locals_only 1 m"
  "substitutable (EArg i n) \<longleftrightarrow> n = 0"
  "substitutable (EProject b path) \<longleftrightarrow> substitutable b"
  by (subst substitutable.simps, simp)+

lemma substitutable_node:
  "view_scope e = ScopeNone \<Longrightarrow> substitutable e \<Longrightarrow>
   scalar_node e \<and> (\<forall>c \<in> set (children e). substitutable c)"
  by (subst (asm) substitutable.simps) (simp add: list_all_iff)

text \<open>The input that is left after substitution: it knows the models and nothing else.\<close>

definition models_only :: "input \<Rightarrow> input" where
  "models_only P = const_input\<lparr>in_model := in_model P\<rparr>"

lemma models_only_simps [simp]:
  "in_arg (models_only P) i n path = Ok None" "in_ref (models_only P) ref path = Ok None"
  "in_model (models_only P) = in_model P"
  by (simp_all add: models_only_def const_input_def)

lemma substitute_let [simp]:
  "substitute P (ELet bs body) = rmap (\<lambda>bs'. ELet bs' body) (traverse (substitute P) bs)"
  "substitute P (EMap b m) = rmap (\<lambda>b'. EMap b' m) (substitute P b)"
  by (subst substitute.simps, simp add: substitute_node_def)+

lemma substitute_cases:
  assumes "substitute P e = Ok e'" "view_scope e = ScopeNone"
  shows "substitute_node P e = Ok (Some e') \<or>
    substitute_node P e = Ok None \<and> visit_expr (substitute P) e = Ok e'"
proof (cases "substitute_node P e")
  case (Inr found)
  with assms show ?thesis
    by (cases found) (simp_all add: substitute.simps [of P e])
qed (use assms in \<open>simp add: substitute.simps [of P e]\<close>)

lemma substitute_other:
  "view_scope e = ScopeNone \<Longrightarrow> substitute_node P e = Ok None \<Longrightarrow>
   substitute P e = visit_expr (substitute P) e"
  by (subst substitute.simps) simp

lemma substitute_found: "substitute_node P e = Ok (Some e') \<Longrightarrow> substitute P e = Ok e'"
  by (subst substitute.simps) simp

context resolved_input begin

lemma substitute_node_value: "substitute_node P e = Ok (Some e') \<Longrightarrow> is_value e'"
  by (auto simp: substitute_node_def split: expr.splits intro: arg_value ref_value)

text \<open>A node the input resolves is evaluated to the value that replaces it.\<close>

lemma eval_substituted:
  assumes "substitute_node P e = Ok (Some e')" "substitutable e"
  shows "eval_ref U P (Suc k) [] e = eval_ref U Q (Suc k) [] e'"
proof -
  from substitute_node_value [OF assms(1)] obtain v where e': "e' = EValue v" by (auto simp: is_value_iff)
  consider i n where "e = EArg i n" | ref where "e = EReference ref"
    | i n path where "e = EProject (EArg i n) path" | ref path where "e = EProject (EReference ref) path"
    using assms(1) by (cases e; simp add: substitute_node_def) (auto split: expr.splits)
  then show ?thesis
  proof cases
    case (1 i n)
    with assms e' have "in_arg P i 0 [] = Ok (Some (EValue v))" "n = 0" by (simp_all add: substitute_node_def)
    then show ?thesis by (simp add: 1 e' resolve_arg_def)
  next
    case (2 ref)
    with assms e' have "in_ref P ref [] = Ok (Some (EValue v))" by (simp add: substitute_node_def)
    then show ?thesis by (simp add: 2 e')
  next
    case (3 i n path)
    with assms e' have "in_arg P i 0 path = Ok (Some (EValue v))" "n = 0"
      by (auto simp: substitute_node_def)
    then show ?thesis by (simp add: 3 e' resolve_arg_def)
  next
    case (4 ref path)
    with assms e' have "in_ref P ref path = Ok (Some (EValue v))" by (simp add: substitute_node_def)
    then show ?thesis by (simp add: 4 e')
  qed
qed

text \<open>A node the input does not know is not resolved by the evaluator either.\<close>

lemma unresolved_arg:
  "substitute_node P (EArg i 0) = Ok None \<Longrightarrow> eval_ref U P (Suc k) [] (EArg i 0) = eval_ref U (models_only P) (Suc k) [] (EArg i 0)"
  "substitute_node P (EReference ref) = Ok None \<Longrightarrow>
   eval_ref U P (Suc k) [] (EReference ref) = eval_ref U (models_only P) (Suc k) [] (EReference ref)"
  "substitute_node P (EProject (EArg i 0) path) = Ok None \<Longrightarrow>
   eval_ref U P (Suc k) [] (EProject (EArg i 0) path) = eval_ref U (models_only P) (Suc k) [] (EProject (EArg i 0) path)"
  "substitute_node P (EProject (EReference ref) path) = Ok None \<Longrightarrow>
   eval_ref U P (Suc k) [] (EProject (EReference ref) path) = eval_ref U (models_only P) (Suc k) [] (EProject (EReference ref) path)"
  by (auto simp: substitute_node_def resolve_arg_def)

lemma substitute_base:
  assumes "substitute P b = Ok b'" "\<not> resolves_base b" "substitutable b"
  shows "\<not> resolves_base b'"
proof (cases "view_scope b")
  case ScopeNone
  from substitute_cases [OF assms(1) ScopeNone] consider "substitute_node P b = Ok (Some b')"
    | "substitute_node P b = Ok None" "visit_expr (substitute P) b = Ok b'"
    by blast
  then show ?thesis
  proof cases
    case 1
    with substitute_node_value [OF 1] show ?thesis by (auto simp: is_value_iff resolves_base_def)
  next
    case 2
    with assms(2) show ?thesis
      by (cases b) (auto simp: resolves_base_def result_simps)
  qed
qed (use assms in \<open>auto simp: resolves_base_def rmap_eq_Ok\<close>)

lemma eval_substitute:
  "\<lbrakk>substitutable e; substitute P e = Ok e'\<rbrakk> \<Longrightarrow>
   eval_ref U P (Suc k) [] e = eval_ref U (models_only P) (Suc k) [] e'"
proof (induction "size e" arbitrary: e e' rule: less_induct)
  case less
  have IH: "eval_ref U P (Suc k) [] c = eval_ref U (models_only P) (Suc k) [] c'"
    if "c \<in> set (children e)" "substitutable c" "substitute P c = Ok c'" for c c'
    using that less.hyps children_size by blast
  consider (let_node) bs body where "e = ELet bs body" | (map_node) b m where "e = EMap b m"
    | (found) x where "substitute_node P e = Ok (Some x)" "view_scope e = ScopeNone"
    | (node) "substitute_node P e = Ok None" "view_scope e = ScopeNone"
    using substitute_cases [OF less.prems(2)] by (cases "view_scope e") auto
  then show ?case
  proof cases
    case let_node
    with less.prems(2) obtain bs' where e': "e' = ELet bs' body" and bs: "traverse (substitute P) bs = Ok bs'"
      by (auto simp: rmap_eq_Ok simp del: traverse_eq_Ok)
    have "traverse (eval_ref U P (Suc k) []) bs = traverse (eval_ref U (models_only P) (Suc k) []) bs'"
      using less.prems(1) let_node by (intro traverse_visit_eq [OF bs] IH) (auto simp: list_all_iff)
    moreover have "eval_ref U P (Suc k) [args] body = eval_ref U (models_only P) (Suc k) [args] body" for args
      using less.prems(1) let_node by (intro eval_locals_only) simp_all
    ultimately show ?thesis by (simp add: let_node e')
  next
    case map_node
    with less.prems(2) obtain b' where e': "e' = EMap b' m" and b: "substitute P b = Ok b'"
      by (auto simp: rmap_eq_Ok)
    have "eval_ref U P (Suc k) [] b = eval_ref U (models_only P) (Suc k) [] b'"
      using less.prems(1) map_node b by (intro IH) auto
    moreover have "eval_ref U P (Suc k) [[x]] m = eval_ref U (models_only P) (Suc k) [[x]] m" for x
      using less.prems(1) map_node by (intro eval_locals_only) simp_all
    ultimately show ?thesis by (simp add: map_node e')
  next
    case found
    with substitute_found [OF found(1)] less.prems show ?thesis by (simp add: eval_substituted)
  next
    case node
    have v: "visit_expr (substitute P) e = Ok e'"
      using substitute_other [OF node(2,1)] less.prems(2) by simp
    note s = substitutable_node [OF node(2) less.prems(1)]
    show ?thesis
    proof (cases "resolves_base e \<or> (\<exists>b path. e = EProject b path \<and> resolves_base b)")
      case True
      then consider i n where "e = EArg i n" | ref where "e = EReference ref"
        | i n path where "e = EProject (EArg i n) path" | ref path where "e = EProject (EReference ref) path"
        by (cases e) (auto simp: resolves_base_def elim!: is_reference.elims)
      then show ?thesis
      proof cases
        case (1 i n)
        with less.prems(1) v unresolved_arg(1) [of i] node(1) show ?thesis by auto
      next
        case (2 ref)
        with v unresolved_arg(2) [of ref] node(1) show ?thesis by auto
      next
        case (3 i n path)
        with node(1) less.prems(1) have "in_arg P i 0 [] = Ok None" and n: "n = 0"
          by (auto simp: substitute_node_def intro: arg_unknown)
        then have "substitute P (EArg i 0) = Ok (EArg i 0)"
          by (subst substitute_other) (simp_all add: substitute_node_def)
        with 3 n v unresolved_arg(3) [of i path] node(1) show ?thesis by simp
      next
        case (4 ref path)
        with node(1) have "in_ref P ref [] = Ok None"
          by (auto simp: substitute_node_def intro: ref_unknown)
        then have "substitute P (EReference ref) = Ok (EReference ref)"
          by (subst substitute_other) (simp_all add: substitute_node_def)
        with 4 v unresolved_arg(4) [of ref path] node(1) show ?thesis by simp
      qed
    next
      case False
      show ?thesis
      proof (rule eval_visit_node [OF v node(2)])
        fix b path b'
        assume "e = EProject b path" "substitute P b = Ok b'"
        with False less.prems(1) show "\<not> resolves_base b \<and> \<not> resolves_base b'"
          using substitute_base by auto
      next
        show "view_arg e = None" "\<not> is_reference e"
          using False by (cases "view_arg e"; auto simp: resolves_base_def)+
      qed (use s IH in auto)
    qed
  qed
qed

end

end
