(* ===== verification/EvalSem.thy ===== *)
theory EvalSem
  imports EvalRules FoldSem
begin

text \<open>
  The evaluator against the reference semantics.  The evaluator has no third truth value: it
  compares \<open>NULL\<close> like any other value.  On filters built from comparisons by the connectives it
  still agrees with SQL wherever SQL's answer is not \<open>NULL\<close>.
\<close>

text \<open>Expressions for values, whose \<open>NULL\<close> is a \<open>NULL\<close> for both.\<close>

fun value_expr :: "expr \<Rightarrow> bool" where
  "value_expr (EValue v) = True"
| "value_expr (EStatic v) = True"
| "value_expr (EArg i n) = (n = 0)"
| "value_expr (EReference ref) = True"
| "value_expr (ECast e from t) = value_expr e"
| "value_expr (EBinaryOp l op r) = (is_arithmetic op \<and> value_expr l \<and> value_expr r)"
| "value_expr _ = False"

fun filter_list :: "expr \<Rightarrow> bool" where
  "filter_list (EValue v) = True"
| "filter_list (EList es) = list_all value_expr es"
| "filter_list _ = False"

fun filter_expr :: "expr \<Rightarrow> bool" where
  "filter_expr (EValue v) = True"
| "filter_expr (EBinaryOp l op r) = (\<not> is_arithmetic op \<and> value_expr l \<and> value_expr r)"
| "filter_expr (EIsNull e neg) = value_expr e"
| "filter_expr (EInList e l) = (value_expr e \<and> filter_list l)"
| "filter_expr (EAnd es) = list_all filter_expr es"
| "filter_expr (EOr es) = list_all filter_expr es"
| "filter_expr (ENot e) = filter_expr e"
| "filter_expr _ = False"

text \<open>The interpretation gives the arguments and references the values the input holds.\<close>

definition same_inputs :: "input \<Rightarrow> interp \<Rightarrow> bool" where
  "same_inputs P I \<longleftrightarrow>
     i_models I = in_model P \<and>
     (\<forall>i e. in_arg P i 0 [] = Ok (Some e) \<longrightarrow> e = EValue (the (i_arg I i 0))) \<and>
     (\<forall>ref e. in_ref P ref [] = Ok (Some e) \<longrightarrow> e = EValue (the (i_leaf I (EReference ref))))"

lemma same_inputs_arg:
  "same_inputs P I \<Longrightarrow> in_arg P i 0 [] = Ok (Some e) \<Longrightarrow> i_arg I i 0 = Some w \<Longrightarrow> e = EValue w"
  unfolding same_inputs_def by (metis option.sel)

lemma same_inputs_ref:
  "same_inputs P I \<Longrightarrow> in_ref P ref [] = Ok (Some e) \<Longrightarrow> i_leaf I (EReference ref) = Some w \<Longrightarrow> e = EValue w"
  unfolding same_inputs_def by (metis option.sel)

lemma expect_bool_eq [simp]: "expect_bool v = Ok b \<longleftrightarrow> v = VBool b"
  by (auto simp: expect_bool_def eval_failed_def split: val.split)

definition up_to_null :: "val \<Rightarrow> val \<Rightarrow> bool" where
  "up_to_null v w \<longleftrightarrow> w = VNull \<or> w = v"

lemma checked_null [simp]:
  "checked_add VNull v = None" "checked_add v VNull = None"
  "checked_sub VNull v = None" "checked_sub v VNull = None"
  by (cases v; simp add: checked_add_def checked_sub_def)+

lemma eval_value_expr:
  assumes same: "same_inputs P I"
  shows "\<lbrakk>value_expr e; eval_ref (i_uuid I) P k [] e = Ok v; sem I [] e = Some w\<rbrakk> \<Longrightarrow> v = w"
proof (induction e arbitrary: v w rule: value_expr.induct)
  case (3 i n)
  then obtain k' e where "k = Suc k'" "in_arg P i 0 [] = Ok (Some e)" "eval_ref (i_uuid I) P k' [] e = Ok v"
    by (auto simp: resolve_arg_def rbind_eq_Ok eval_failed_def elim!: eval_resolved.elims)
  moreover from this same 3 have "e = EValue w" by (simp add: same_inputs_arg)
  ultimately show ?case by simp
next
  case (4 ref)
  then obtain k' e where "k = Suc k'" "in_ref P ref [] = Ok (Some e)" "eval_ref (i_uuid I) P k' [] e = Ok v"
    by (auto simp: rbind_eq_Ok eval_failed_def elim!: eval_resolved.elims)
  moreover from this same 4 have "e = EValue w" by (simp add: same_inputs_ref)
  ultimately show ?case by simp
next
  case (5 e frm t)
  then obtain a b where "eval_ref (i_uuid I) P k [] e = Ok a" "cast_from (i_uuid I) (in_model P) frm t a = Ok v"
    and "sem I [] e = Some b" "as_ok (cast_from (i_uuid I) (i_models I) frm t b) = Some w"
    by (auto simp: rbind_eq_Ok bind_eq_Some_conv)
  moreover from this 5 have "a = b" by simp
  moreover have "i_models I = in_model P" using same by (simp add: same_inputs_def)
  ultimately show ?case by simp
next
  case (6 l op r)
  then obtain a b where ab: "eval_ref (i_uuid I) P k [] l = Ok a" "eval_ref (i_uuid I) P k [] r = Ok b"
    and v: "eval_op op a b = Ok v" by (auto simp: rbind_eq_Ok)
  from 6 obtain a' b' where s: "sem I [] l = Some a'" "sem I [] r = Some b'" "sem_op op a' b' = Some w"
    by (auto simp: opt2_def bind_eq_Some_conv)
  have "a = a'" "b = b'" using 6(1) [OF _ ab(1) s(1)] 6(2) [OF _ ab(2) s(2)] 6(3) by simp_all
  with s(3) have w: "sem_op op a b = Some w" by simp
  consider "op = OpAdd" | "op = OpSub" using 6(3) by (cases op) simp_all
  then show ?case
    using v w by cases (auto simp: sem_op_def eval_failed_def split: if_splits option.splits)
qed simp_all

lemma compare_up_to_null:
  "\<not> is_arithmetic op \<Longrightarrow> eval_op op a b = Ok v \<Longrightarrow> sem_op op a b = Some w \<Longrightarrow> up_to_null v w"
  by (cases op)
    (auto simp: sem_op_def up_to_null_def cmp_ordered_def eval_failed_def split: if_splits option.splits)

lemma in_up_to_null:
  "sem_in x vs = Some w \<Longrightarrow> up_to_null (VBool (list_ex (\<lambda>u. value_eq u x) vs)) w"
proof -
  assume "sem_in x vs = Some w"
  then obtain ts where ts: "opt_all (sem_op OpEq x) vs = Some ts" and w: "or3 ts = Some w"
    by (auto simp: sem_in_def bind_eq_Some_conv split: if_splits)
  have t: "t = VNull \<or> t = VBool (value_eq u x)" if "sem_op OpEq x u = Some t" for u t
    using that by (auto simp: sem_op_def value_eq_sym split: if_splits)
  from ts have "list_all2 (\<lambda>u t. t = VNull \<or> t = VBool (value_eq u x)) vs ts"
    using t by (auto simp: opt_all_eq_Some elim!: list_all2_mono)
  then have "VBool True \<in> set ts \<Longrightarrow> list_ex (\<lambda>u. value_eq u x) vs"
    and "list_ex (\<lambda>u. value_eq u x) vs \<Longrightarrow> VNull \<in> set ts \<or> VBool True \<in> set ts"
    by (induction rule: list_all2_induct) auto
  with w show ?thesis by (auto simp: or3_def up_to_null_def split: if_splits)
qed

lemma all_ok_up_to_null:
  assumes "\<And>x v w. x \<in> set es \<Longrightarrow> g x = Ok v \<Longrightarrow> f x = Some w \<Longrightarrow> up_to_null v w"
  shows "\<lbrakk>all_ok (\<lambda>x. rbind (g x) expect_bool) es = Ok b; opt_all f es = Some ws\<rbrakk> \<Longrightarrow>
    if b then VBool False \<notin> set ws else VBool False \<in> set ws \<or> VNull \<in> set ws"
  using assms
proof (induction es arbitrary: ws)
  case (Cons x es)
  then obtain w ws' where ws: "ws = w # ws'" "f x = Some w" "opt_all f es = Some ws'"
    by (auto split: option.splits)
  from Cons.prems obtain c where c: "g x = Ok (VBool c)" "(if c then all_ok (\<lambda>x. rbind (g x) expect_bool) es else Ok False) = Ok b"
    by (auto simp: rbind_eq_Ok)
  have "w = VNull \<or> w = VBool c"
    using Cons.prems(3) [OF _ c(1) ws(2)] by (simp add: up_to_null_def)
  moreover have "all_ok (\<lambda>x. rbind (g x) expect_bool) es = Ok b \<Longrightarrow>
      if b then VBool False \<notin> set ws' else VBool False \<in> set ws' \<or> VNull \<in> set ws'"
    by (rule Cons.IH [OF _ ws(3)]) (use Cons.prems(3) in auto)
  ultimately show ?case using c ws(1) by (cases c) (auto split: if_splits)
qed simp

lemma any_ok_up_to_null:
  assumes "\<And>x v w. x \<in> set es \<Longrightarrow> g x = Ok v \<Longrightarrow> f x = Some w \<Longrightarrow> up_to_null v w"
  shows "\<lbrakk>any_ok (\<lambda>x. rbind (g x) expect_bool) es = Ok b; opt_all f es = Some ws\<rbrakk> \<Longrightarrow>
    if b then VBool True \<in> set ws \<or> VNull \<in> set ws else VBool True \<notin> set ws"
  using assms
proof (induction es arbitrary: ws)
  case (Cons x es)
  then obtain w ws' where ws: "ws = w # ws'" "f x = Some w" "opt_all f es = Some ws'"
    by (auto split: option.splits)
  from Cons.prems obtain c where c: "g x = Ok (VBool c)" "(if c then Ok True else any_ok (\<lambda>x. rbind (g x) expect_bool) es) = Ok b"
    by (auto simp: rbind_eq_Ok)
  have "w = VNull \<or> w = VBool c"
    using Cons.prems(3) [OF _ c(1) ws(2)] by (simp add: up_to_null_def)
  moreover have "any_ok (\<lambda>x. rbind (g x) expect_bool) es = Ok b \<Longrightarrow>
      if b then VBool True \<in> set ws' \<or> VNull \<in> set ws' else VBool True \<notin> set ws'"
    by (rule Cons.IH [OF _ ws(3)]) (use Cons.prems(3) in auto)
  ultimately show ?case using c ws(1) by (cases c) (auto split: if_splits)
qed simp

lemma eval_connectives:
  assumes ws: "opt_all f es = Some ws"
    and e: "\<And>x v w. x \<in> set es \<Longrightarrow> g x = Ok v \<Longrightarrow> f x = Some w \<Longrightarrow> up_to_null v w"
  shows "all_ok (\<lambda>x. rbind (g x) expect_bool) es = Ok b \<Longrightarrow> and3 ws = Some w \<Longrightarrow> up_to_null (VBool b) w"
    and "any_ok (\<lambda>x. rbind (g x) expect_bool) es = Ok b \<Longrightarrow> or3 ws = Some w \<Longrightarrow> up_to_null (VBool b) w"
  using all_ok_up_to_null [OF e _ ws, where b = b] any_ok_up_to_null [OF e _ ws, where b = b]
  by (cases b; auto simp: and3_def or3_def up_to_null_def split: if_splits)+

lemma eval_filter_list:
  assumes same: "same_inputs P I"
  shows "\<lbrakk>filter_list l; eval_ref (i_uuid I) P k [] l = Ok v; sem I [] l = Some w\<rbrakk> \<Longrightarrow> v = w"
proof (cases l)
  case (EList es)
  assume "filter_list l" "eval_ref (i_uuid I) P k [] l = Ok v" "sem I [] l = Some w"
  with EList obtain vs ws where "list_all2 (\<lambda>e v. eval_ref (i_uuid I) P k [] e = Ok v) es vs" "v = VList vs"
    and "list_all2 (\<lambda>e w. sem I [] e = Some w) es ws" "w = VList ws" "list_all value_expr es"
    by (auto simp: rmap_eq_Ok traverse_eq_Ok opt_all_eq_Some)
  moreover have "vs = ws"
  proof (rule nth_equalityI)
    show "length vs = length ws" using calculation by (simp add: list_all2_lengthD [symmetric])
    fix i assume "i < length vs"
    with calculation show "vs ! i = ws ! i"
      by (intro eval_value_expr [OF same, of "es ! i" k])
        (auto simp: list_all2_conv_all_nth list_all_length)
  qed
  ultimately show ?thesis by simp
qed simp_all

lemma eval_filter:
  assumes same: "same_inputs P I"
  shows "\<lbrakk>filter_expr e; eval_ref (i_uuid I) P k [] e = Ok v; sem I [] e = Some w\<rbrakk> \<Longrightarrow> up_to_null v w"
proof (induction e arbitrary: v w rule: filter_expr.induct)
  case (2 l op r)
  then obtain a b where ab: "eval_ref (i_uuid I) P k [] l = Ok a" "eval_ref (i_uuid I) P k [] r = Ok b"
    and v: "eval_op op a b = Ok v" by (auto simp: rbind_eq_Ok)
  from 2 obtain a' b' where s: "sem I [] l = Some a'" "sem I [] r = Some b'" "sem_op op a' b' = Some w"
    by (auto simp: opt2_def bind_eq_Some_conv)
  have "a = a'" "b = b'"
    using eval_value_expr [OF same _ ab(1) s(1)] eval_value_expr [OF same _ ab(2) s(2)] 2(1) by simp_all
  with v s(3) 2(1) show ?case by (intro compare_up_to_null) auto
next
  case (3 e neg)
  then show ?case
    using eval_value_expr [OF same, of e]
    by (auto simp: rmap_eq_Ok bind_eq_Some_conv up_to_null_def)
next
  case (4 e l)
  then obtain x vs where e: "eval_ref (i_uuid I) P k [] e = Ok x" "eval_ref (i_uuid I) P k [] l = Ok (VList vs)"
    and v: "v = VBool (list_ex (\<lambda>u. value_eq u x) vs)"
    by (auto simp: rbind_eq_Ok rmap_eq_Ok expect_list_def ok_or_eq_Ok)
  from 4 obtain y ws where s: "sem I [] e = Some y" "sem I [] l = Some (VList ws)" "sem_in y ws = Some w"
    by (auto simp: opt2_def on_list_def bind_eq_Some_conv)
  have "x = y" "vs = ws"
    using eval_value_expr [OF same _ e(1) s(1)] eval_filter_list [OF same _ e(2) s(2)] 4(1) by simp_all
  with s(3) v show ?case by (simp add: in_up_to_null)
next
  case (5 es)
  then obtain ws b where "opt_all (sem I []) es = Some ws" "and3 ws = Some w"
    "all_ok (\<lambda>e. rbind (eval_ref (i_uuid I) P k [] e) expect_bool) es = Ok b" "v = VBool b"
    by (auto simp: bind_eq_Some_conv rmap_eq_Ok)
  with 5 show ?case
    by (auto intro!: eval_connectives(1) [of "sem I []" es ws "eval_ref (i_uuid I) P k []"] simp: list_all_iff)
next
  case (6 es)
  then obtain ws b where "opt_all (sem I []) es = Some ws" "or3 ws = Some w"
    "any_ok (\<lambda>e. rbind (eval_ref (i_uuid I) P k [] e) expect_bool) es = Ok b" "v = VBool b"
    by (auto simp: bind_eq_Some_conv rmap_eq_Ok)
  with 6 show ?case
    by (auto intro!: eval_connectives(2) [of "sem I []" es ws "eval_ref (i_uuid I) P k []"] simp: list_all_iff)
next
  case (7 e)
  then obtain b u where "eval_ref (i_uuid I) P k [] e = Ok (VBool b)" "v = VBool (\<not> b)"
    and "sem I [] e = Some u" "not3 u = Some w"
    by (auto simp: rmap_eq_Ok rbind_eq_Ok bind_eq_Some_conv)
  with 7 have "up_to_null (VBool b) u" by auto
  with \<open>not3 u = Some w\<close> \<open>v = VBool (\<not> b)\<close> show ?case by (auto simp: up_to_null_def not3_def)
qed (simp_all add: up_to_null_def)

end
