(* ===== verification/ValueProps.thy ===== *)
theory ValueProps
  imports ValueOps Casts
begin

text \<open>
  Properties of the value layer: ordering, exact arithmetic, type inference, union types,
  the value set behind deduplication, and casts.
\<close>

subsection \<open>Ordering and arithmetic\<close>

text \<open>Comparing two values the other way round reverses the answer, and is undefined
  exactly when the original comparison is (in particular for \<open>NULL\<close> and NaN).\<close>

lemma value_cmp_antisymmetric:
  "partial_cmp y x = map_option ordering_reverse (partial_cmp x y)"
  by (rule partial_cmp_reverse)

text \<open>The order on values is transitive, across all kinds that compare.\<close>

lemma value_cmp_transitive:
  "\<lbrakk>partial_cmp x y = Some Less; partial_cmp y z = Some Less\<rbrakk> \<Longrightarrow> partial_cmp x z = Some Less"
  by (rule partial_cmp_trans)

lemma value_cmp_transitive_witness:
  "partial_cmp (VString ''a'') (VString ''c'') = Some Less"
  by (rule value_cmp_transitive [of _ "VString ''b''"]; code_simp)

text \<open>The order is consistent with equality: a comparison answers \<open>Equal\<close> exactly for
  values that the derived \<open>PartialEq\<close> identifies.\<close>

lemma value_cmp_consistent:
  "partial_cmp x y = Some c \<Longrightarrow> (c = Equal) = value_eq x y"
  by (rule partial_cmp_eq_iff)

lemma value_cmp_consistent_witness: "\<not> value_eq (VI8 1) (VI8 2)"
proof -
  have "partial_cmp (VI8 1) (VI8 2) = Some Less" by code_simp
  from value_cmp_consistent [OF this] show ?thesis by simp
qed

text \<open>C15. Integer addition is exact: when it succeeds the result has the mathematical sum,
  within the range of its type, and it fails only on overflow or mismatched types.\<close>

theorem checked_add_exact:
  "\<lbrakk>value_int x = Some m; value_int y = Some n; checked_add x y = Some z\<rbrakk> \<Longrightarrow>
   value_int z = Some (m + n)"
  by (cases x; cases y)
    (auto simp: checked_add_def checked_sword_sint checked_uword_uint)

theorem checked_add_exact_witness: "value_int (VI8 120) = Some (100 + 20)"
  by (rule checked_add_exact [of "VI8 100" _ "VI8 20"]; code_simp)

text \<open>Subtraction undoes addition on every integer type.\<close>

lemma checked_sub_add:
  "\<lbrakk>value_int x = Some m; value_int y = Some n; checked_add x y = Some z\<rbrakk> \<Longrightarrow>
   checked_sub z y = Some x"
  by (cases x; cases y)
    (auto simp: checked_add_def checked_sub_def dest!: checked_sword_sint checked_uword_uint)

lemma checked_sub_add_witness: "checked_sub (VU8 250) (VU8 50) = Some (VU8 200)"
  by (rule checked_sub_add; code_simp)

subsection \<open>Types\<close>

text \<open>C16. A value that holds no document object is a member of the type inferred for it.\<close>

theorem infer_ty_sound: "object_free v \<Longrightarrow> is_a R v (infer_ty v)"
  by (rule is_a_infer_ty)

theorem infer_ty_sound_witness:
  "is_a no_models (VList [VNull, VRecord [VI64 3, VString ''a'']])
     (infer_ty (VList [VNull, VRecord [VI64 3, VString ''a'']]))"
  by (rule infer_ty_sound) simp

text \<open>Building a union by repeated \<open>insert\<close> keeps its members pairwise different.\<close>

lemma union_built_distinct: "union_distinct (foldl union_insert [] ts)"
  by (rule foldl_union_insert_distinct) (simp add: union_distinct_def)

text \<open>Deduplication through the value set keeps exactly the members of the list, although
  the set never finds an object again.\<close>

lemma dedup_keeps_members: "set (value_dedup [] vs) = set vs"
  by (rule value_dedup_same_set)

subsection \<open>Casts\<close>

text \<open>A cast never turns a value into \<open>NULL\<close> nor \<open>NULL\<close> into a value.\<close>

lemma cast_keeps_nullness: "cast U R t v = Ok w \<Longrightarrow> is_null w = is_null v"
  by (rule cast_is_null)

lemma cast_keeps_nullness_witness:
  "\<forall>U. \<exists>w. cast U no_models TI16 (VI8 5) = Ok w \<and> \<not> is_null w"
proof
  fix U
  have c: "cast U no_models TI16 (VI8 5) = Ok (VI16 5)"
    by (simp add: cast.simps cast_scalar_def cast_int_def to_i16_def checked_sword_def)
  from cast_keeps_nullness [OF this] c
  show "\<exists>w. cast U no_models TI16 (VI8 5) = Ok w \<and> \<not> is_null w" by (auto simp: is_null_def)
qed

text \<open>C17. A cast between integer types that succeeds is undone by the cast back, so it loses
  nothing and maps different values to different values: integer casts preserve equality, as
  \<open>cast_preserves_equality\<close> claims for them.\<close>

theorem integer_cast_round_trip:
  assumes "is_numeric s" "is_numeric t" "is_a R v s" "cast U R t v = Ok w"
  shows "cast_preserves_equality s t \<and> cast U R s w = Ok v"
  using assms cast_numeric_back [OF assms] by (simp add: cast_preserves_equality.simps)

theorem integer_cast_round_trip_witness:
  "\<forall>U. cast U no_models TI64 (VU8 200) = Ok (VI64 200)"
proof
  fix U
  have "cast U no_models TU8 (VI64 200) = Ok (VU8 200)"
    by (simp add: cast.simps cast_scalar_def cast_int_def to_u8_def checked_uword_def)
  with integer_cast_round_trip [of TI64 TU8 no_models "VI64 200" U]
  show "cast U no_models TI64 (VU8 200) = Ok (VI64 200)"
    by (simp add: is_numeric_def)
qed

definition sample_models :: resolve where
  "sample_models = (\<lambda>_. Some [(''a'', TString), (''b'', TList TI64)])"

text \<open>C18. A document value bound for storage is lowered to a named object that raises back to
  it: \<open>cast\<close> after \<open>cast_from\<close> is the identity on well-formed positional records, whatever the
  order in which the entries come.\<close>

theorem document_round_trip:
  "document R (TModel m) v \<Longrightarrow>
   \<exists>w. cast_from U R (Some (TModel m)) t v = Ok w \<and> cast U R (TModel m) w = Ok v"
  by (rule raise_lower_document)

theorem document_round_trip_witness:
  "\<forall>U. \<exists>w. cast_from U sample_models (Some (TModel 0)) TObject (VRecord [VString ''x'', VList [VI64 1]]) = Ok w \<and>
    cast U sample_models (TModel 0) w = Ok (VRecord [VString ''x'', VList [VI64 1]])"
proof (rule allI, rule document_round_trip)
  let ?R = sample_models
  have "document ?R TString (VString ''x'')" "document ?R TI64 (VI64 1)"
    by (rule document.leaf; simp)+
  moreover have "document ?R (TList TI64) (VList [VI64 1])"
    by (rule document.list) (simp add: calculation)
  ultimately show "document ?R (TModel 0) (VRecord [VString ''x'', VList [VI64 1]])"
    by (intro document.model [of _ _ "[(''a'', TString), (''b'', TList TI64)]"]) (simp_all add: sample_models_def)
qed

text \<open>Raising a named object is independent of the order of its entries: with distinct
  names, the loop of \<open>swap_remove\<close> gives each field the entry of its name, \<open>NULL\<close> when it is
  missing, and drops unknown keys.\<close>

lemma raise_by_name:
  "\<lbrakk>R m = Some fs; distinct (map fst fs); distinct (map fst es)\<rbrakk> \<Longrightarrow>
   raise_document U R m (VObject es) = rmap VRecord (traverse (raise_field U R es) fs)"
  by (simp add: raise_document.simps raise_fields_spec)

lemma raise_by_name_witness:
  "\<forall>U. raise_document U sample_models 0 (VObject [(''z'', VNull), (''a'', VString ''x'')]) =
    Ok (VRecord [VString ''x'', VNull])"
proof
  fix U
  have "raise_document U sample_models 0 (VObject [(''z'', VNull), (''a'', VString ''x'')]) =
      rmap VRecord (traverse (raise_field U sample_models [(''z'', VNull), (''a'', VString ''x'')])
        [(''a'', TString), (''b'', TList TI64)])"
    by (rule raise_by_name) (simp_all add: sample_models_def)
  then show "raise_document U sample_models 0 (VObject [(''z'', VNull), (''a'', VString ''x'')]) =
      Ok (VRecord [VString ''x'', VNull])"
    by (simp add: raise_field_def cast_document_leaf.simps leaf_of_def is_a.simps)
qed

subsection \<open>Where the code departs from its documentation\<close>

text \<open>The documented identity casts are not supported for \<open>bool\<close>, \<open>bytes\<close> and \<open>uuid\<close>: they
  reach the \<open>todo!\<close> of the last arm and panic, and the value set does not find an object
  again.\<close>

lemma identity_cast_panics:
  "cast U R TBool (VBool b) = todo \<and> cast U R TBytes (VBytes bs) = todo \<and>
   cast U R TUuid (VUuid u) = todo \<and> \<not> set_value_eq (VObject es) (VObject es)"
  by (simp add: cast.simps cast_scalar_def)

end
