(* ===== verification/FoldProps.thy ===== *)
theory FoldProps
  imports FoldSound
begin

text \<open>
  Properties of the canonicalization pass: it is sound for the reference semantics, keeps
  closed expressions closed and ends; where its rules do not do what they say, a concrete
  expression shows it.
\<close>

text \<open>The expressions and the interpretation of the external arguments used below.\<close>

definition demo_uuid :: uuid_ops where
  "demo_uuid = \<lparr>uuid_to_string = (\<lambda>_. ''''), uuid_parse = (\<lambda>_. None), uuid_as_bytes = (\<lambda>_. []),
     uuid_from_bytes = (\<lambda>_. None)\<rparr>"

definition demo_interp :: interp where
  "demo_interp = \<lparr>i_uuid = demo_uuid, i_models = no_models, i_arg = (\<lambda>i n. Some (VI64 7)),
     i_leaf = (\<lambda>_. None), i_op = (\<lambda>_ _. None)\<rparr>"

definition demo_guard :: expr where
  "demo_guard =
     ENot (EAnd [EBinaryOp (EValue (VI64 1)) OpEq (EArg 0 0),
       EAnd [EInList (EArg 0 0) (EList [EValue (VI64 5)])], EValue (VBool True)])"

definition demo_folded :: expr where
  "demo_folded =
     EOr [EBinaryOp (EArg 0 0) OpNe (EValue (VI64 1)), EBinaryOp (EArg 0 0) OpNe (EValue (VI64 5))]"

definition dead_arm :: expr where
  "dead_arm = EMatch (EArg 0 0) [(VI64 1, ECast (EValue (VString ''x'')) None TI64)] (EValue (VI64 0))"



lemma demo_folds: "fold_expr demo_uuid 12 demo_guard = Ok demo_folded"
  by code_simp

lemma demo_foldable: "foldable demo_guard"
  by (simp_all add: foldable_def demo_guard_def)

subsection \<open>Correctness\<close>

text \<open>C6. The canonicalization pass keeps the meaning: wherever a foldable expression has a value
  in the reference semantics (under any scopes and any external arguments), the expression the
  pass returns has the same value.\<close>

theorem fold_sound:
  "\<lbrakk>foldable e; fold_expr (i_uuid I) n e = Ok e'; sem I \<rho> e = Some v\<rbrakk> \<Longrightarrow> sem I \<rho> e' = Some v"
  using fold_expr_refines [of e "i_uuid I" n e'] by (auto simp: refines_def less_defined_def)

theorem fold_sound_witness: "sem demo_interp [] demo_folded = Some (VBool True)"
proof (rule fold_sound [of demo_guard _ 12])
  show "foldable demo_guard" by (rule demo_foldable)
  show "fold_expr (i_uuid demo_interp) 12 demo_guard = Ok demo_folded"
    using demo_folds by (simp add: demo_interp_def)
  show "sem demo_interp [] demo_guard = Some (VBool True)"
    by (simp add: demo_guard_def demo_interp_def) code_simp
qed

text \<open>C9. The pass ends: no foldable expression exhausts a fuel above its weight, whatever rules
  fire and however often a replacement is folded again.\<close>

theorem fold_terminates: "foldable e \<Longrightarrow> wt [] e < n \<Longrightarrow> fold_expr U n e \<noteq> Err OutOfFuel"
  by (rule fold_expr_fuel)

theorem fold_terminates_witness: "fold_expr demo_uuid 100 demo_guard \<noteq> Err OutOfFuel"
  by (rule fold_terminates [OF demo_foldable]) (simp add: demo_guard_def look_def)

text \<open>C10. The pass introduces no dangling argument: folding an expression whose arguments are all
  bound (and whose \<open>Let\<close> bindings are closed) gives an expression whose arguments are all
  bound by the same scopes.\<close>

theorem fold_keeps_closed:
  "\<lbrakk>scalar e; lets_closed e; closed_in ns e; fold_expr U n e = Ok e'\<rbrakk> \<Longrightarrow> closed_in ns e'"
  by (rule fold_expr_closed)

theorem fold_keeps_closed_witness: "closed_in [1] demo_folded"
  by (rule fold_keeps_closed [OF _ _ _ demo_folds]) (simp_all add: demo_guard_def)

subsection \<open>Where the rules fall short\<close>

text \<open>One run of the pass is not a normal form: \<open>fold_expr_is_null\<close> removes one cast in place
  and reports no change, so a nested cast needs a second run.\<close>

lemma fold_not_idempotent:
  "fold_expr U 9 (EIsNull (ECast (ECast (EReference r) None TString) None TString) neg) =
     Ok (EIsNull (ECast (EReference r) None TString) neg) \<and>
   fold_expr U 9 (EIsNull (ECast (EReference r) None TString) neg) = Ok (EIsNull (EReference r) neg)"
  by (simp_all add: eval_nat_numeral fold_one_def fold_expr_cast_def fold_expr_is_null_def)

text \<open>The pass panics on an arm that is never taken: the cast of a literal is folded wherever
  it stands, and its conversion error is unwrapped, although the expression has a value.\<close>

lemma fold_dead_arm_panics:
  "fold_expr demo_uuid 9 dead_arm = Err (Panic ''called unwrap on an Err value'') \<and>
   sem demo_interp [] dead_arm = Some (VI64 0)"
  by (rule conjI; code_simp)


end
