(* ===== verification/EvalProps.thy ===== *)
theory EvalProps
  imports EvalSem Substitute FoldProps
begin

text \<open>Properties of the client-side evaluator and of substitution.\<close>

definition demo_filter :: expr where
  "demo_filter =
     EAnd [ENot (EBinaryOp (EArg 0 0) OpLt (EValue (VI64 3))),
       EInList (EArg 0 0) (EList [EValue (VI64 1), EValue (VI64 7)])]"

definition demo_input :: input where
  "demo_input = value_input [VI64 7]"

definition bound_filter :: expr where
  "bound_filter =
     EAnd [ENot (EBinaryOp (EValue (VI64 7)) OpLt (EValue (VI64 3))),
       EInList (EValue (VI64 7)) (EList [EValue (VI64 1), EValue (VI64 7)])]"

definition open_else :: expr where
  "open_else = EMatch (EValue (VI64 1)) [(VI64 2, EValue (VI64 0))] (EArg 0 0)"



text \<open>C11. The evaluator refines SQL on filters: where the reference semantics of a filter is not
  \<open>NULL\<close>, the evaluator gives the same truth value (when it gives one).\<close>

theorem eval_filter_sound:
  "\<lbrakk>same_inputs P I; filter_expr e; eval_ref (i_uuid I) P k [] e = Ok v;
    sem I [] e \<noteq> None; sem I [] e \<noteq> Some VNull\<rbrakk> \<Longrightarrow>
   sem I [] e = Some v"
  using eval_filter [of P I e k v] by (auto simp: up_to_null_def)

theorem eval_filter_sound_witness: "sem demo_interp [] demo_filter = Some (VBool True)"
proof (rule eval_filter_sound)
  show "same_inputs demo_input demo_interp"
    by (auto simp: same_inputs_def demo_input_def value_input_def demo_interp_def resolve_values_def
        slice_at_def project_value_def split: if_splits)
  show "filter_expr demo_filter" by (simp add: demo_filter_def)
  show "eval_ref (i_uuid demo_interp) demo_input 1 [] demo_filter = Ok (VBool True)"
    by (simp add: demo_interp_def demo_uuid_def) code_simp
  show "sem demo_interp [] demo_filter \<noteq> None" "sem demo_interp [] demo_filter \<noteq> Some VNull"
    by code_simp+
qed

text \<open>C12. Binding commutes with evaluation: substituting the arguments and then evaluating without
  any input gives what evaluating under the input gives, errors included.\<close>

theorem substitute_then_eval:
  "\<lbrakk>substitutable e; substitute (value_input args) e = Ok e'\<rbrakk> \<Longrightarrow>
   eval_ref U const_input (Suc k) [] e' = eval_ref U (value_input args) (Suc k) [] e"
  using slice.eval_substitute [of e args e' U k]
  by (simp add: models_only_def value_input_def const_input_def)

theorem substitute_then_eval_witness:
  "eval_ref demo_uuid const_input 1 [] bound_filter = eval_ref demo_uuid (value_input [VI64 7]) 1 [] demo_filter"
proof -
  have "substitutable demo_filter" by code_simp
  moreover have "substitute (value_input [VI64 7]) demo_filter = Ok bound_filter" by code_simp
  ultimately show ?thesis using substitute_then_eval [of demo_filter "[VI64 7]" bound_filter demo_uuid 0] by simp
qed



text \<open>C14. An expression that \<open>is_const\<close> accepts, and whose \<open>else\<close> branches are constant as well, is
  evaluated alike under every input.\<close>

theorem const_input_independent:
  "\<lbrakk>is_const e; const_elses e; in_model P = in_model Q\<rbrakk> \<Longrightarrow> eval_ref U P k [] e = eval_ref U Q k [] e"
  by (rule eval_const_independent) (simp_all add: is_const_def)

theorem const_input_independent_witness:
  "eval_ref demo_uuid const_input 0 [] (ELet [EValue (VI64 1)] (EArg 0 0)) =
   eval_ref demo_uuid (value_input [VI64 5]) 0 [] (ELet [EValue (VI64 1)] (EArg 0 0))"
  by (rule const_input_independent) (simp_all add: is_const_def const_else_node_def const_input_def value_input_def)

text \<open>The condition on \<open>else\<close> branches is needed: \<open>is_const\<close> and \<open>is_stable\<close> skip them and accept
  an expression whose value is the argument it is given.\<close>

lemma is_const_ignores_else:
  "is_const open_else \<and> is_stable (EMatch (EValue (VI64 1)) [] EDefault) \<and>
   eval_ref U (value_input [v]) 1 [] open_else = Ok v"
proof -
  have "\<not> value_eq (VI64 1) (VI64 2)" by code_simp
  then show ?thesis
    by (simp add: open_else_def is_const_def arm_for_def value_input_def resolve_arg_def
        resolve_values_def slice_at_def project_value_def)
qed


text \<open>C19. \<open>LIMIT\<close> and \<open>OFFSET\<close> of an evaluated \<open>VALUES\<close> query select the rows from the offset on, at most
  the limit of them.\<close>

theorem eval_values_limit:
  "\<lbrakk>traverse (eval_ref U P k []) rows = Ok vs; 0 \<le> sint n; 0 \<le> sint off\<rbrakk> \<Longrightarrow>
   eval_stmt U P k [] (StQuery (Query None (SValues rows) False None
     (Some (LOffset (EValue (VI64 n)) (Some (EValue (VI64 off))))) locks)) =
   Ok (VList (take (nat (sint n)) (drop (nat (sint off)) vs)))"
  by (simp add: eval_stmt_def eval_expr_set_def eval_limit_def expect_list_def eval_usize_def expect_usize_def
      del: traverse_eq_Ok)

theorem eval_values_limit_witness:
  "eval_stmt demo_uuid const_input 0 [] (StQuery (Query None (SValues [EValue (VBool True), EValue VNull, EValue (VI8 3)])
     False None (Some (LOffset (EValue (VI64 5)) (Some (EValue (VI64 1))))) [])) =
   Ok (VList [VNull, VI8 3])"
  using eval_values_limit [of demo_uuid const_input 0 "[EValue (VBool True), EValue VNull, EValue (VI8 3)]"
      "[VBool True, VNull, VI8 3]" 5 1 "[]"] by simp

end
