(* ===== verification/Comparator.thy ===== *)
theory Comparator
  imports Floats "HOL-Library.Multiset"
begin

text \<open>
  Comparison functions as the standard library takes them: the contract of \<open>sort_by\<close> and
  \<open>partition_point\<close>, the stable sort, the binary search for a boundary and the range
  between two boundaries.  Everything is proved once for a lawful comparator.
\<close>

subsection \<open>Slices, sorting and boundaries\<close>

text \<open>The element-wise comparison of two slices, the shorter one first when one is a prefix.\<close>

fun lex_by :: "('a \<Rightarrow> 'b \<Rightarrow> ordering) \<Rightarrow> 'a list \<Rightarrow> 'b list \<Rightarrow> ordering" where
  "lex_by f [] [] = Equal"
| "lex_by f [] (_ # _) = Less"
| "lex_by f (_ # _) [] = Greater"
| "lex_by f (x # xs) (y # ys) = (case f x y of Equal \<Rightarrow> lex_by f xs ys | c \<Rightarrow> c)"

text \<open>\<open>slice::sort_by\<close> is a stable sort.\<close>

fun insert_by :: "('a \<Rightarrow> 'a \<Rightarrow> ordering) \<Rightarrow> 'a \<Rightarrow> 'a list \<Rightarrow> 'a list" where
  "insert_by cmp x [] = [x]"
| "insert_by cmp x (y # ys) = (if cmp x y = Greater then y # insert_by cmp x ys else x # y # ys)"

fun sort_by :: "('a \<Rightarrow> 'a \<Rightarrow> ordering) \<Rightarrow> 'a list \<Rightarrow> 'a list" where
  "sort_by cmp [] = []"
| "sort_by cmp (x # xs) = insert_by cmp x (sort_by cmp xs)"

text \<open>
  \<open>slice::partition_point\<close>: the index of the first element without the property, on a slice
  whose elements with the property come first.
\<close>

definition partition_point :: "('a \<Rightarrow> bool) \<Rightarrow> 'a list \<Rightarrow> nat" where
  "partition_point p xs = length (takeWhile p xs)"

subsection \<open>Lawful comparators\<close>

text \<open>What \<open>sort_by\<close> and \<open>partition_point\<close> rely on: a total order up to \<open>Equal\<close>.\<close>

locale comparator_laws =
  fixes cmp :: "'k \<Rightarrow> 'k \<Rightarrow> ordering"
  assumes reverse: "cmp b a = ordering_reverse (cmp a b)"
    and trans: "cmp a b \<noteq> Greater \<Longrightarrow> cmp b c \<noteq> Greater \<Longrightarrow> cmp a c \<noteq> Greater"
begin

lemma self [simp]: "cmp a a = Equal"
  using reverse [of a a] by (cases "cmp a a") auto

lemma Equal_sym: "cmp a b = Equal \<Longrightarrow> cmp b a = Equal"
  using reverse [of a b] by simp

lemma Less_iff: "cmp a b = Less \<longleftrightarrow> cmp b a = Greater"
  using reverse [of a b] by simp

lemma total: "cmp a b \<noteq> Greater \<or> cmp b a \<noteq> Greater"
  using reverse [of a b] by (cases "cmp a b") auto

text \<open>Equal keys compare alike with everything.\<close>

lemma Equal_left: "cmp a b = Equal \<Longrightarrow> cmp a c = cmp b c"
proof -
  assume e: "cmp a b = Equal"
  then have e': "cmp b a = Equal" by (rule Equal_sym)
  have "cmp a c \<noteq> Greater \<longleftrightarrow> cmp b c \<noteq> Greater"
    using trans [of a b c] trans [of b a c] e e' by auto
  moreover have "cmp c a \<noteq> Greater \<longleftrightarrow> cmp c b \<noteq> Greater"
    using trans [of c a b] trans [of c b a] e e' by auto
  then have "cmp a c = Less \<longleftrightarrow> cmp b c = Less" by (simp add: Less_iff)
  ultimately show ?thesis by (cases "cmp a c"; cases "cmp b c") auto
qed

lemma Less_trans: "cmp a b = Less \<Longrightarrow> cmp b c \<noteq> Greater \<Longrightarrow> cmp a c = Less"
proof -
  assume ab: "cmp a b = Less" and bc: "cmp b c \<noteq> Greater"
  then have "cmp a c \<noteq> Greater" by (intro trans [of a b c]) auto
  moreover have "cmp a c \<noteq> Equal"
  proof
    assume "cmp a c = Equal"
    with bc have "cmp b a \<noteq> Greater"
      by (intro trans [of b c a]) (auto dest: Equal_sym)
    with ab show False using Less_iff by simp
  qed
  ultimately show ?thesis by (cases "cmp a c") auto
qed

lemma le_Less_trans: "cmp a b \<noteq> Greater \<Longrightarrow> cmp b c = Less \<Longrightarrow> cmp a c = Less"
proof -
  assume ab: "cmp a b \<noteq> Greater" and bc: "cmp b c = Less"
  then have "cmp a c \<noteq> Greater" by (intro trans [of a b c]) auto
  moreover have "cmp a c \<noteq> Equal"
    using ab bc Equal_left [of a c b] Less_iff [of b c] reverse [of a b] by (cases "cmp a b") auto
  ultimately show ?thesis by (cases "cmp a c") auto
qed

subsubsection \<open>The stable sort\<close>

abbreviation ordered :: "'k list \<Rightarrow> bool" where
  "ordered \<equiv> sorted_wrt (\<lambda>x y. cmp x y \<noteq> Greater)"

lemma set_insert_by [simp]: "set (insert_by cmp x xs) = insert x (set xs)"
  by (induction xs) auto

lemma mset_insert_by [simp]: "mset (insert_by cmp x xs) = add_mset x (mset xs)"
  by (induction xs) auto

lemma ordered_insert_by: "ordered xs \<Longrightarrow> ordered (insert_by cmp x xs)"
proof (induction xs)
  case (Cons y ys)
  have "cmp x z \<noteq> Greater" if "cmp x y \<noteq> Greater" "z \<in> set ys" for z
    using that Cons.prems by (intro trans [of x y z]) auto
  moreover have "cmp x y = Greater \<Longrightarrow> cmp y x = Less" by (simp add: Less_iff)
  ultimately show ?case using Cons by auto
qed simp

lemma mset_sort_by: "mset (sort_by cmp xs) = mset xs"
  by (induction xs) auto

lemma ordered_sort_by: "ordered (sort_by cmp xs)"
  by (induction xs) (auto intro: ordered_insert_by)

lemma insert_by_least: "(\<And>y. y \<in> set ys \<Longrightarrow> cmp x y \<noteq> Greater) \<Longrightarrow> insert_by cmp x ys = x # ys"
  by (cases ys) auto

text \<open>Sorting commutes with selecting, which is what stability gives for every selection.\<close>

lemma filter_insert_by:
  "ordered ys \<Longrightarrow>
   filter P (insert_by cmp x ys) =
     (if P x then insert_by cmp x (filter P ys) else filter P ys)"
proof (induction ys)
  case (Cons y ys)
  have "cmp x z \<noteq> Greater" if "cmp x y \<noteq> Greater" "z \<in> set ys" for z
    using that Cons.prems by (intro trans [of x y z]) auto
  then have "cmp x y \<noteq> Greater \<Longrightarrow> insert_by cmp x (filter P ys) = x # filter P ys"
    by (intro insert_by_least) auto
  then show ?case using Cons by auto
qed simp

lemma filter_sort_by: "filter P (sort_by cmp xs) = sort_by cmp (filter P xs)"
  by (induction xs) (simp_all add: filter_insert_by ordered_sort_by)

lemma sort_by_same: "(\<And>x y. x \<in> set xs \<Longrightarrow> y \<in> set xs \<Longrightarrow> cmp x y = Equal) \<Longrightarrow> sort_by cmp xs = xs"
  by (induction xs) (auto intro!: insert_by_least)

lemma sort_by_stable: "filter (\<lambda>x. cmp x k = Equal) (sort_by cmp xs) = filter (\<lambda>x. cmp x k = Equal) xs"
proof -
  have "cmp x y = Equal" if "cmp x k = Equal" "cmp y k = Equal" for x y
    using Equal_left [OF that(1), of y] Equal_sym [OF that(2)] by simp
  then have "sort_by cmp (filter (\<lambda>x. cmp x k = Equal) xs) = filter (\<lambda>x. cmp x k = Equal) xs"
    by (intro sort_by_same) simp
  then show ?thesis by (simp add: filter_sort_by)
qed

end

subsubsection \<open>Boundaries in an ordered list\<close>

text \<open>The elements from the boundary of \<open>p\<close> up to the boundary of \<open>q\<close>.\<close>

lemma range_between:
  assumes "sorted_wrt le xs"
    and "\<And>x y. le x y \<Longrightarrow> p y \<Longrightarrow> p x" and "\<And>x y. le x y \<Longrightarrow> q y \<Longrightarrow> q x"
  shows "drop (partition_point p xs) (take (partition_point q xs) xs) = filter (\<lambda>x. \<not> p x \<and> q x) xs"
  using assms(1)
proof (induction xs)
  case (Cons x xs)
  show ?case
  proof (cases "p x \<or> \<not> q x")
    case True
    have "filter (\<lambda>x. \<not> p x \<and> q x) xs = []" if "\<not> q x"
      using Cons.prems assms(3) that by (auto simp: filter_empty_conv)
    with True Cons show ?thesis by (auto simp: partition_point_def)
  next
    case False
    then have no: "\<not> p y" if "y \<in> set xs" for y
      using Cons.prems assms(2) that by auto
    then have "filter (\<lambda>x. \<not> p x \<and> q x) xs = take (partition_point q xs) xs"
      using Cons.IH Cons.prems by (cases xs) (auto simp: partition_point_def)
    with False show ?thesis by (simp add: partition_point_def)
  qed
qed (simp add: partition_point_def)

subsection \<open>Comparing slices\<close>

lemma lex_by_cong [fundef_cong]:
  "\<lbrakk>xs = xs'; ys = ys'; \<And>x y. x \<in> set xs' \<Longrightarrow> y \<in> set ys' \<Longrightarrow> f x y = g x y\<rbrakk> \<Longrightarrow>
   lex_by f xs ys = lex_by g xs' ys'"
proof -
  have "(\<And>x y. x \<in> set xs' \<Longrightarrow> y \<in> set ys' \<Longrightarrow> f x y = g x y) \<Longrightarrow> lex_by f xs' ys' = lex_by g xs' ys'"
    by (induction g xs' ys' rule: lex_by.induct) (auto split: ordering.split)
  then show "\<lbrakk>xs = xs'; ys = ys'; \<And>x y. x \<in> set xs' \<Longrightarrow> y \<in> set ys' \<Longrightarrow> f x y = g x y\<rbrakk> \<Longrightarrow>
   lex_by f xs ys = lex_by g xs' ys'" by simp
qed

lemma lex_by_reverse:
  "(\<And>x y. x \<in> set xs \<Longrightarrow> y \<in> set ys \<Longrightarrow> f y x = ordering_reverse (f x y)) \<Longrightarrow>
   lex_by f ys xs = ordering_reverse (lex_by f xs ys)"
  by (induction f xs ys rule: lex_by.induct) (auto split: ordering.split)

lemma lex_by_Equal:
  "lex_by f xs ys = Equal \<longleftrightarrow> list_all2 (\<lambda>x y. f x y = Equal) xs ys"
  by (induction f xs ys rule: lex_by.induct) (auto split: ordering.split)

text \<open>Transitivity of the comparison of slices, given that of the items.\<close>

lemma lex_by_trans:
  assumes rev: "\<And>a b. f b a = ordering_reverse (f a b)"
    and trans: "\<And>a b c. {a, b, c} \<subseteq> S \<Longrightarrow> f a b \<noteq> Greater \<Longrightarrow> f b c \<noteq> Greater \<Longrightarrow> f a c \<noteq> Greater"
  shows "set xs \<union> set ys \<union> set zs \<subseteq> S \<Longrightarrow>
    lex_by f xs ys \<noteq> Greater \<Longrightarrow> lex_by f ys zs \<noteq> Greater \<Longrightarrow> lex_by f xs zs \<noteq> Greater"
proof (induction xs arbitrary: ys zs)
  case Nil
  then show ?case by (cases zs) auto
next
  case (Cons x xs)
  show ?case
  proof (cases "ys = [] \<or> zs = []")
    case True
    with Cons.prems show ?thesis by (cases ys; cases zs) auto
  next
    case False
    then obtain y ys' z zs' where l: "ys = y # ys'" "zs = z # zs'" by (metis neq_Nil_conv)
    have in_S: "{x, y, z} \<subseteq> S" using Cons.prems l by auto
    have le: "f x y \<noteq> Greater" "f y z \<noteq> Greater"
      using Cons.prems l by (auto split: ordering.splits)
    then have xz: "f x z \<noteq> Greater" using trans [of x y z] in_S by auto
    show ?thesis
    proof (cases "f x z")
      case Equal
      have "f z x = Equal" using rev [of z x] Equal by simp
      then have "f z y \<noteq> Greater" "f y x \<noteq> Greater"
        using trans [of z x y] trans [of y z x] in_S le by auto
      then have "f x y = Equal" "f y z = Equal"
        using le rev [of y x] rev [of z y] by (cases "f x y"; cases "f y z"; simp)+
      then show ?thesis using Cons l Equal by auto
    qed (use l xz in auto)
  qed
qed

end
