(* ===== verification/SortedIndex.thy ===== *)
theory SortedIndex
  imports Comparator Casts
begin

text \<open>
  The in-memory indexes over loaded rows (\<open>toasty-core/src/stmt/sorted_index.rs\<close>,
  \<open>hash_index.rs\<close>): the total order on values, the sorted index with its binary searches and
  the hash table with unique keys.
\<close>

subsection \<open>The order on values\<close>

fun variant_index :: "val \<Rightarrow> nat" where
  "variant_index VNull = 0"
| "variant_index (VBool _) = 1"
| "variant_index (VI8 _) = 2"
| "variant_index (VI16 _) = 3"
| "variant_index (VI32 _) = 4"
| "variant_index (VI64 _) = 5"
| "variant_index (VU8 _) = 6"
| "variant_index (VU16 _) = 7"
| "variant_index (VU32 _) = 8"
| "variant_index (VU64 _) = 9"
| "variant_index (VF32 _) = 10"
| "variant_index (VF64 _) = 11"
| "variant_index (VString _) = 12"
| "variant_index (VBytes _) = 13"
| "variant_index (VUuid _) = 14"
| "variant_index (VRecord _) = 15"
| "variant_index (VList _) = 16"
| "variant_index (VSparseRecord _ _) = 17"
| "variant_index (VObject _) = 25"

text \<open>\<open>f32::total_cmp\<close> on the modelled floats: NaN is the largest.\<close>

definition flt_total_cmp :: "flt \<Rightarrow> flt \<Rightarrow> ordering" where
  "flt_total_cmp a b =
     (case flt_cmp a b of
        Some c \<Rightarrow> c
      | None \<Rightarrow> cmp_of (if a = FNaN then 1 else 0 :: nat) (if b = FNaN then 1 else 0))"

text \<open>The arms on scalars, \<open>NULL\<close> and values of different variants.\<close>

definition scalar_total_cmp :: "val \<Rightarrow> val \<Rightarrow> ordering" where
  "scalar_total_cmp a b =
     (if a = VNull then (if b = VNull then Equal else Less)
      else if b = VNull then Greater
      else case (a, b) of
        (VBool x, VBool y) \<Rightarrow> cmp_of x y
      | (VI8 x, VI8 y) \<Rightarrow> cmp_of (sint x) (sint y)
      | (VI16 x, VI16 y) \<Rightarrow> cmp_of (sint x) (sint y)
      | (VI32 x, VI32 y) \<Rightarrow> cmp_of (sint x) (sint y)
      | (VI64 x, VI64 y) \<Rightarrow> cmp_of (sint x) (sint y)
      | (VU8 x, VU8 y) \<Rightarrow> cmp_of (uint x) (uint y)
      | (VU16 x, VU16 y) \<Rightarrow> cmp_of (uint x) (uint y)
      | (VU32 x, VU32 y) \<Rightarrow> cmp_of (uint x) (uint y)
      | (VU64 x, VU64 y) \<Rightarrow> cmp_of (uint x) (uint y)
      | (VF32 x, VF32 y) \<Rightarrow> flt_total_cmp x y
      | (VF64 x, VF64 y) \<Rightarrow> flt_total_cmp x y
      | (VString x, VString y) \<Rightarrow> lex_cmp (string_bytes x) (string_bytes y)
      | (VBytes x, VBytes y) \<Rightarrow> lex_cmp (map uint x) (map uint y)
      | (VUuid x, VUuid y) \<Rightarrow> cmp_of (uint x) (uint y)
      | _ \<Rightarrow> cmp_of (variant_index a) (variant_index b))"

text \<open>The items of two records or of two lists.\<close>

definition both_sequences :: "val \<Rightarrow> val \<Rightarrow> (val list \<times> val list) option" where
  "both_sequences a b =
     (case (a, b) of
        (VRecord as, VRecord bs) \<Rightarrow> Some (as, bs)
      | (VList as, VList bs) \<Rightarrow> Some (as, bs)
      | _ \<Rightarrow> None)"

lemma both_sequences_eq:
  "both_sequences a b = Some (as, bs) \<longleftrightarrow>
   a = VRecord as \<and> b = VRecord bs \<or> a = VList as \<and> b = VList bs"
  by (cases a; cases b) (auto simp: both_sequences_def)

function value_total_cmp :: "val \<Rightarrow> val \<Rightarrow> ordering" where
  "value_total_cmp a b =
     (case both_sequences a b of
        Some (as, bs) \<Rightarrow> lex_by value_total_cmp as bs
      | None \<Rightarrow> scalar_total_cmp a b)"
  by pat_completeness auto

termination
  by (relation "measure (\<lambda>(a, b). size a)")
    (auto simp: both_sequences_eq size_value_member)

declare value_total_cmp.simps [simp del]

abbreviation slice_total_cmp :: "val list \<Rightarrow> val list \<Rightarrow> ordering" where
  "slice_total_cmp \<equiv> lex_by value_total_cmp"

lemma value_total_cmp_sequences [simp]:
  "value_total_cmp (VRecord as) (VRecord bs) = slice_total_cmp as bs"
  "value_total_cmp (VList as) (VList bs) = slice_total_cmp as bs"
  by (subst value_total_cmp.simps; simp add: both_sequences_def)+

lemma value_total_cmp_scalar:
  "both_sequences a b = None \<Longrightarrow> value_total_cmp a b = scalar_total_cmp a b"
  by (subst value_total_cmp.simps) simp

text \<open>Values of different variants compare by the variant's index, \<open>NULL\<close> included.\<close>

lemma cross_variant:
  "variant_index a \<noteq> variant_index b \<Longrightarrow>
   both_sequences a b = None \<and> scalar_total_cmp a b = cmp_of (variant_index a) (variant_index b)"
  by (cases a; cases b) (simp_all add: both_sequences_def scalar_total_cmp_def cmp_of_def)

lemma flt_total_cmp_reverse: "flt_total_cmp b a = ordering_reverse (flt_total_cmp a b)"
  by (cases a; cases b) (simp_all add: flt_total_cmp_def cmp_of_def)

lemma flt_total_cmp_trans:
  "flt_total_cmp a b \<noteq> Greater \<Longrightarrow> flt_total_cmp b c \<noteq> Greater \<Longrightarrow> flt_total_cmp a c \<noteq> Greater"
  by (cases a; cases b; cases c) (auto simp: flt_total_cmp_def cmp_of_def split: if_splits)

lemma scalar_total_cmp_reverse: "scalar_total_cmp b a = ordering_reverse (scalar_total_cmp a b)"
proof (cases "variant_index a = variant_index b")
  case True
  then show ?thesis
    by (cases a; cases b)
      (simp_all add: scalar_total_cmp_def cmp_of_reverse [symmetric] lex_cmp_reverse [symmetric]
        flt_total_cmp_reverse [symmetric])
next
  case False
  with cross_variant [of a b] cross_variant [of b a] show ?thesis
    by (simp add: cmp_of_reverse [symmetric])
qed

lemma both_sequences_sym: "both_sequences b a = map_option (\<lambda>(x, y). (y, x)) (both_sequences a b)"
  by (cases a; cases b) (simp_all add: both_sequences_def)

lemma size_both_sequences: "both_sequences a b = Some (as, bs) \<Longrightarrow> x \<in> set as \<Longrightarrow> size x < size a"
  by (auto simp: both_sequences_eq size_value_member)

lemma value_total_cmp_reverse: "value_total_cmp b a = ordering_reverse (value_total_cmp a b)"
proof (induction "size a" arbitrary: a b rule: less_induct)
  case less
  show ?case
  proof (cases "both_sequences a b")
    case None
    then show ?thesis
      using both_sequences_sym [of b a]
      by (simp add: value_total_cmp_scalar scalar_total_cmp_reverse [of b a])
  next
    case (Some p)
    then obtain as bs where p: "both_sequences a b = Some (as, bs)" by (cases p) auto
    have "lex_by value_total_cmp bs as = ordering_reverse (lex_by value_total_cmp as bs)"
      by (rule lex_by_reverse, rule less) (use p in \<open>auto dest: size_both_sequences\<close>)
    with p show ?thesis by (auto simp: both_sequences_eq)
  qed
qed

lemma lex_cmp_le_trans: "lex_cmp xs ys \<noteq> Greater \<Longrightarrow> lex_cmp ys zs \<noteq> Greater \<Longrightarrow> lex_cmp xs zs \<noteq> Greater"
  by (cases "lex_cmp xs ys"; cases "lex_cmp ys zs") (auto dest: lex_cmp_trans simp: lex_cmp_Equal [THEN iffD2])

lemma scalar_total_cmp_trans:
  assumes "variant_index a = variant_index b" "variant_index b = variant_index c"
    "scalar_total_cmp a b \<noteq> Greater" "scalar_total_cmp b c \<noteq> Greater"
  shows "scalar_total_cmp a c \<noteq> Greater"
  using assms
  by (cases a; cases b; simp; cases c)
    (auto simp: scalar_total_cmp_def not_less dest: flt_total_cmp_trans lex_cmp_le_trans)

lemma value_total_cmp_index:
  "value_total_cmp a b \<noteq> Greater \<Longrightarrow> variant_index a \<le> variant_index b"
  "variant_index a < variant_index b \<Longrightarrow> value_total_cmp a b = Less"
proof -
  have "variant_index a \<noteq> variant_index b \<Longrightarrow>
      value_total_cmp a b = cmp_of (variant_index a) (variant_index b)"
    using cross_variant value_total_cmp_scalar by simp
  then show "value_total_cmp a b \<noteq> Greater \<Longrightarrow> variant_index a \<le> variant_index b"
    "variant_index a < variant_index b \<Longrightarrow> value_total_cmp a b = Less"
    by (cases "variant_index a = variant_index b"; auto simp: cmp_of_def split: if_splits)+
qed

lemma both_sequences_same:
  "variant_index a = variant_index b \<Longrightarrow> variant_index b = variant_index c \<Longrightarrow>
   both_sequences a b = None \<and> both_sequences b c = None \<and> both_sequences a c = None \<or>
   (\<exists>as bs cs. both_sequences a b = Some (as, bs) \<and> both_sequences b c = Some (bs, cs) \<and>
      both_sequences a c = Some (as, cs))"
  by (cases a; simp; cases b; simp; cases c; simp add: both_sequences_def)

lemma value_total_cmp_trans_bounded:
  "\<lbrakk>size a < n; size b < n; size c < n; value_total_cmp a b \<noteq> Greater; value_total_cmp b c \<noteq> Greater\<rbrakk> \<Longrightarrow>
   value_total_cmp a c \<noteq> Greater"
proof (induction n arbitrary: a b c)
  case (Suc n)
  have le: "variant_index a \<le> variant_index b" "variant_index b \<le> variant_index c"
    using Suc.prems value_total_cmp_index by blast+
  show ?case
  proof (cases "variant_index a = variant_index b \<and> variant_index b = variant_index c")
    case True
    then have "variant_index a = variant_index b" "variant_index b = variant_index c" by simp_all
    from both_sequences_same [OF this] show ?thesis
    proof (elim disjE exE conjE)
      assume "both_sequences a b = None" "both_sequences b c = None" "both_sequences a c = None"
      then show ?thesis
        using scalar_total_cmp_trans [of a b c] True Suc.prems by (simp add: value_total_cmp_scalar)
    next
      fix as bs cs
      assume seq: "both_sequences a b = Some (as, bs)" "both_sequences b c = Some (bs, cs)"
        "both_sequences a c = Some (as, cs)"
      have "lex_by value_total_cmp as cs \<noteq> Greater"
      proof (rule lex_by_trans [where S = "{v. size v < n}"])
        show "set as \<union> set bs \<union> set cs \<subseteq> {v. size v < n}"
          using seq Suc.prems(1-3) by (fastforce simp: both_sequences_eq dest: size_value_member)
        show "value_total_cmp y x = ordering_reverse (value_total_cmp x y)" for x y
          by (rule value_total_cmp_reverse)
        show "value_total_cmp x z \<noteq> Greater"
          if "{x, y, z} \<subseteq> {v. size v < n}" "value_total_cmp x y \<noteq> Greater" "value_total_cmp y z \<noteq> Greater"
          for x y z using Suc.IH [of x y z] that by simp
        show "lex_by value_total_cmp as bs \<noteq> Greater" "lex_by value_total_cmp bs cs \<noteq> Greater"
          using Suc.prems(4,5) seq by (auto simp: both_sequences_eq)
      qed
      with seq show ?thesis by (auto simp: both_sequences_eq)
    qed
  qed (use le value_total_cmp_index(2) [of a c] in auto)
qed simp

lemma value_total_cmp_trans:
  "value_total_cmp a b \<noteq> Greater \<Longrightarrow> value_total_cmp b c \<noteq> Greater \<Longrightarrow> value_total_cmp a c \<noteq> Greater"
  by (rule value_total_cmp_trans_bounded [of a "Suc (size a + size b + size c)" b c]) auto

interpretation value_order: comparator_laws value_total_cmp
  by unfold_locales (rule value_total_cmp_reverse, rule value_total_cmp_trans)

interpretation key_order: comparator_laws slice_total_cmp
proof unfold_locales
  show "slice_total_cmp b a = ordering_reverse (slice_total_cmp a b)" for a b
    by (rule lex_by_reverse) (rule value_total_cmp_reverse)
  show "slice_total_cmp a b \<noteq> Greater \<Longrightarrow> slice_total_cmp b c \<noteq> Greater \<Longrightarrow> slice_total_cmp a c \<noteq> Greater" for a b c
    by (rule lex_by_trans [OF value_total_cmp_reverse value_total_cmp_trans subset_UNIV])
qed

subsection \<open>The sorted index\<close>

type_synonym index_entry = "val list \<times> val"

definition entry_cmp :: "index_entry \<Rightarrow> index_entry \<Rightarrow> ordering" where
  "entry_cmp a b = slice_total_cmp (fst a) (fst b)"

interpretation entry_order: comparator_laws entry_cmp
  by unfold_locales
    (simp_all add: entry_cmp_def key_order.reverse [symmetric], metis key_order.trans)

definition extract_key :: "val \<Rightarrow> projection list \<Rightarrow> val list result" where
  "extract_key row projections = traverse (value_entry row) projections"

definition sorted_index_new :: "val list \<Rightarrow> projection list \<Rightarrow> index_entry list result" where
  "sorted_index_new rows projections =
     rmap (sort_by entry_cmp)
       (traverse (\<lambda>row. rmap (\<lambda>key. (key, row)) (extract_key row projections)) rows)"

datatype 'a bound = Included 'a | Excluded 'a | Unbounded

definition range_start :: "index_entry list \<Rightarrow> val list bound \<Rightarrow> nat" where
  "range_start entries lower =
     (case lower of
        Unbounded \<Rightarrow> 0
      | Included lo \<Rightarrow> partition_point (\<lambda>e. slice_total_cmp (fst e) lo = Less) entries
      | Excluded lo \<Rightarrow> partition_point (\<lambda>e. slice_total_cmp (fst e) lo \<noteq> Greater) entries)"

definition range_end :: "index_entry list \<Rightarrow> val list bound \<Rightarrow> nat" where
  "range_end entries upper =
     (case upper of
        Unbounded \<Rightarrow> length entries
      | Included hi \<Rightarrow> partition_point (\<lambda>e. slice_total_cmp (fst e) hi \<noteq> Greater) entries
      | Excluded hi \<Rightarrow> partition_point (\<lambda>e. slice_total_cmp (fst e) hi = Less) entries)"

definition find_range :: "index_entry list \<Rightarrow> val list bound \<Rightarrow> val list bound \<Rightarrow> val list" where
  "find_range entries lower upper =
     (let s = range_start entries lower; e = range_end entries upper
      in map snd (if s \<le> e then take (e - s) (drop s entries) else []))"

definition find_eq :: "index_entry list \<Rightarrow> val list \<Rightarrow> val option" where
  "find_eq entries key =
     (case find_range entries (Included key) (Included key) of [] \<Rightarrow> None | row # _ \<Rightarrow> Some row)"

definition find_lt :: "index_entry list \<Rightarrow> val list \<Rightarrow> val list" where
  "find_lt entries key = find_range entries Unbounded (Excluded key)"

definition find_le :: "index_entry list \<Rightarrow> val list \<Rightarrow> val list" where
  "find_le entries key = find_range entries Unbounded (Included key)"

definition find_gt :: "index_entry list \<Rightarrow> val list \<Rightarrow> val list" where
  "find_gt entries key = find_range entries (Excluded key) Unbounded"

definition find_ge :: "index_entry list \<Rightarrow> val list \<Rightarrow> val list" where
  "find_ge entries key = find_range entries (Included key) Unbounded"

text \<open>What a range of keys promises.\<close>

definition above_bound :: "val list bound \<Rightarrow> val list \<Rightarrow> bool" where
  "above_bound lower k =
     (case lower of
        Unbounded \<Rightarrow> True
      | Included lo \<Rightarrow> slice_total_cmp k lo \<noteq> Less
      | Excluded lo \<Rightarrow> slice_total_cmp k lo = Greater)"

definition below_bound :: "val list bound \<Rightarrow> val list \<Rightarrow> bool" where
  "below_bound upper k =
     (case upper of
        Unbounded \<Rightarrow> True
      | Included hi \<Rightarrow> slice_total_cmp k hi \<noteq> Greater
      | Excluded hi \<Rightarrow> slice_total_cmp k hi = Less)"

lemma partition_point_all: "partition_point (\<lambda>_. True) xs = length xs"
  "partition_point (\<lambda>_. False) xs = 0"
  by (induction xs) (simp_all add: partition_point_def)

lemma range_start_eq: "range_start entries lower = partition_point (\<lambda>e. \<not> above_bound lower (fst e)) entries"
proof (cases lower)
  case Unbounded
  then show ?thesis by (simp add: range_start_def above_bound_def partition_point_all)
qed (simp_all add: range_start_def above_bound_def)

lemma range_end_eq: "range_end entries upper = partition_point (\<lambda>e. below_bound upper (fst e)) entries"
proof (cases upper)
  case Unbounded
  then show ?thesis by (simp add: range_end_def below_bound_def partition_point_all)
qed (simp_all add: range_end_def below_bound_def)

lemma le_key_mono:
  assumes "entry_cmp x y \<noteq> Greater"
  shows "slice_total_cmp (fst y) k = Less \<Longrightarrow> slice_total_cmp (fst x) k = Less"
    and "slice_total_cmp (fst y) k \<noteq> Greater \<Longrightarrow> slice_total_cmp (fst x) k \<noteq> Greater"
  using assms key_order.le_Less_trans key_order.trans unfolding entry_cmp_def by blast+

lemma above_mono: "entry_cmp x y \<noteq> Greater \<Longrightarrow> \<not> above_bound lower (fst y) \<Longrightarrow> \<not> above_bound lower (fst x)"
  using le_key_mono [of x y] by (cases lower) (simp_all add: above_bound_def)

lemma below_mono: "entry_cmp x y \<noteq> Greater \<Longrightarrow> below_bound upper (fst y) \<Longrightarrow> below_bound upper (fst x)"
  using le_key_mono [of x y] by (cases upper) (simp_all add: below_bound_def)

lemma find_range_filter:
  assumes "entry_order.ordered entries"
  shows "find_range entries lower upper =
    map snd (filter (\<lambda>e. above_bound lower (fst e) \<and> below_bound upper (fst e)) entries)"
proof -
  have "drop (range_start entries lower) (take (range_end entries upper) entries) =
      filter (\<lambda>e. \<not> \<not> above_bound lower (fst e) \<and> below_bound upper (fst e)) entries"
    unfolding range_start_eq range_end_eq
    by (rule range_between [OF assms]) (fact above_mono, fact below_mono)
  then show ?thesis
    by (auto simp: find_range_def Let_def drop_take)
qed

text \<open>The rows paired with their keys, in the order of the rows.\<close>

definition keyed :: "val list \<Rightarrow> projection list \<Rightarrow> index_entry list result" where
  "keyed rows projections =
     traverse (\<lambda>row. rmap (\<lambda>key. (key, row)) (extract_key row projections)) rows"

lemma keyed_Ok:
  "keyed rows projections = Ok pairs \<longleftrightarrow>
   list_all2 (\<lambda>row e. extract_key row projections = Ok (fst e) \<and> snd e = row) rows pairs"
proof -
  have "rmap (\<lambda>key. (key, row)) (extract_key row projections) = Ok e \<longleftrightarrow>
      extract_key row projections = Ok (fst e) \<and> snd e = row" for row e
    by (cases e) (auto simp: result_simps)
  then show ?thesis by (simp add: keyed_def traverse_eq_Ok)
qed

lemma sorted_index_new_Ok:
  "sorted_index_new rows projections = Ok entries \<longleftrightarrow>
   (\<exists>pairs. keyed rows projections = Ok pairs \<and> entries = sort_by entry_cmp pairs)"
  by (auto simp: sorted_index_new_def keyed_def rmap_eq_Ok)

lemma sorted_index_ordered:
  "sorted_index_new rows projections = Ok entries \<Longrightarrow> entry_order.ordered entries"
  by (auto simp: sorted_index_new_Ok intro: entry_order.ordered_sort_by)

lemma keyed_filter:
  "keyed rows projections = Ok pairs \<Longrightarrow>
   map snd (filter (\<lambda>e. P (fst e)) pairs) =
   filter (\<lambda>row. \<exists>key. extract_key row projections = Ok key \<and> P key) rows"
  unfolding keyed_Ok by (induction rule: list_all2_induct) auto

text \<open>A point lookup returns the rows with an equal key, in their original order.\<close>

lemma find_range_point:
  assumes "sorted_index_new rows projections = Ok entries"
  shows "find_range entries (Included key) (Included key) =
    filter (\<lambda>row. \<exists>k. extract_key row projections = Ok k \<and> slice_total_cmp k key = Equal) rows"
proof -
  obtain pairs where pairs: "keyed rows projections = Ok pairs" and e: "entries = sort_by entry_cmp pairs"
    using assms by (auto simp: sorted_index_new_Ok)
  have "(above_bound (Included key) k \<and> below_bound (Included key) k) = (slice_total_cmp k key = Equal)" for k
    by (cases "slice_total_cmp k key") (simp_all add: above_bound_def below_bound_def)
  then have "find_range entries (Included key) (Included key) =
      map snd (filter (\<lambda>e. entry_cmp e (key, VNull) = Equal) entries)"
    by (simp add: find_range_filter [OF sorted_index_ordered [OF assms]] entry_cmp_def)
  also have "\<dots> = map snd (filter (\<lambda>e. entry_cmp e (key, VNull) = Equal) pairs)"
    by (simp only: e entry_order.sort_by_stable)
  also have "\<dots> = map snd (filter (\<lambda>e. slice_total_cmp (fst e) key = Equal) pairs)"
    by (simp add: entry_cmp_def)
  finally show ?thesis using keyed_filter [OF pairs, of "\<lambda>k. slice_total_cmp k key = Equal"] by simp
qed

text \<open>A range lookup returns a permutation of the rows in the range, in key order.\<close>

lemma find_range_rows:
  assumes "sorted_index_new rows projections = Ok entries"
  shows "mset (find_range entries lower upper) =
    mset (filter (\<lambda>row. \<exists>k. extract_key row projections = Ok k \<and> above_bound lower k \<and> below_bound upper k) rows)"
proof -
  obtain pairs where pairs: "keyed rows projections = Ok pairs" and e: "entries = sort_by entry_cmp pairs"
    using assms by (auto simp: sorted_index_new_Ok)
  have "mset (find_range entries lower upper) =
      image_mset snd (filter_mset (\<lambda>e. above_bound lower (fst e) \<and> below_bound upper (fst e)) (mset entries))"
    by (simp add: find_range_filter [OF sorted_index_ordered [OF assms]])
  also have "\<dots> = mset (map snd (filter (\<lambda>e. above_bound lower (fst e) \<and> below_bound upper (fst e)) pairs))"
    by (simp add: e entry_order.mset_sort_by)
  finally show ?thesis using keyed_filter [OF pairs, of "\<lambda>k. above_bound lower k \<and> below_bound upper k"] by simp
qed

text \<open>The rows of a range come in the order of their keys.\<close>

lemma find_range_ordered:
  assumes "sorted_index_new rows projections = Ok entries"
  shows "sorted_wrt (\<lambda>r r'. \<exists>k k'. extract_key r projections = Ok k \<and> extract_key r' projections = Ok k' \<and>
      slice_total_cmp k k' \<noteq> Greater) (find_range entries lower upper)"
proof -
  obtain pairs where pairs: "keyed rows projections = Ok pairs" and e: "entries = sort_by entry_cmp pairs"
    using assms by (auto simp: sorted_index_new_Ok)
  note ord = sorted_index_ordered [OF assms]
  have "set entries = set pairs" by (metis e entry_order.mset_sort_by mset_eq_setD)
  then have key: "extract_key (snd x) projections = Ok (fst x)" if "x \<in> set entries" for x
    using that pairs by (auto simp: keyed_Ok in_set_conv_nth list_all2_conv_all_nth)
  have "entry_order.ordered (filter (\<lambda>e. above_bound lower (fst e) \<and> below_bound upper (fst e)) entries)"
    by (rule sorted_wrt_filter [OF ord])
  then show ?thesis
    unfolding find_range_filter [OF ord] sorted_wrt_map
    by (rule sorted_wrt_mono_rel [rotated]) (auto simp: entry_cmp_def key)
qed

subsection \<open>The hash index\<close>

text \<open>Hashed keys compare with the equality of \<open>value_set\<close>, element by element.\<close>

definition hash_keys_eq :: "val list \<Rightarrow> val list \<Rightarrow> bool" where
  "hash_keys_eq = list_all2 set_value_eq"

definition hash_find :: "index_entry list \<Rightarrow> val list \<Rightarrow> val option" where
  "hash_find table key = map_option snd (find (\<lambda>e. hash_keys_eq (fst e) key) table)"

fun hash_insert_rows :: "projection list \<Rightarrow> index_entry list \<Rightarrow> val list \<Rightarrow> index_entry list result" where
  "hash_insert_rows projections table [] = Ok table"
| "hash_insert_rows projections table (row # rows) =
     rbind (extract_key row projections) (\<lambda>key.
       if hash_find table key = None then hash_insert_rows projections ((key, row) # table) rows
       else Err (Panic ''HashIndex: duplicate key detected''))"

definition hash_index_new :: "val list \<Rightarrow> projection list \<Rightarrow> index_entry list result" where
  "hash_index_new rows projections = hash_insert_rows projections [] rows"

end
