(* ===== verification/HashIndex.thy ===== *)
theory HashIndex
  imports SortedIndex
begin

text \<open>
  What the hash index holds (\<open>toasty-core/src/stmt/hash_index.rs\<close>), and the keys on which the
  equalities of the two indexes and of the evaluator agree.
\<close>

subsection \<open>The contents of the table\<close>

lemma hash_keys_eq_same: "hash_keys_eq k key \<Longrightarrow> k = key"
  unfolding hash_keys_eq_def
  by (drule list_all2_mono [where Q = "(=)"]) (auto simp: list.rel_eq dest: set_value_eq_imp_eq)

lemma hash_find_None:
  "hash_find table key = None \<longleftrightarrow> (\<forall>e \<in> set table. \<not> hash_keys_eq (fst e) key)"
  by (auto simp: hash_find_def find_None_iff)

lemma hash_find_append:
  "hash_find (t @ t') key = (case hash_find t key of None \<Rightarrow> hash_find t' key | Some r \<Rightarrow> Some r)"
  by (induction t) (auto simp: hash_find_def)

abbreviation keys_differ :: "index_entry list \<Rightarrow> bool" where
  "keys_differ \<equiv> sorted_wrt (\<lambda>e e'. \<not> hash_keys_eq (fst e) (fst e'))"

lemma keyed_Cons:
  "keyed (row # rows) ps = rbind (extract_key row ps) (\<lambda>k. rmap (Cons (k, row)) (keyed rows ps))"
  by (cases "extract_key row ps") (simp_all add: keyed_def)

lemma hash_insert_rows_Ok:
  "hash_insert_rows ps t rows = Ok t' \<longleftrightarrow>
   (\<exists>pairs. keyed rows ps = Ok pairs \<and> t' = rev pairs @ t \<and> keys_differ pairs \<and>
      (\<forall>e \<in> set pairs. hash_find t (fst e) = None))"
proof (induction rows arbitrary: t)
  case Nil
  show ?case by (auto simp: keyed_def)
next
  case (Cons row rows)
  show ?case
  proof (cases "extract_key row ps")
    case (Inr k)
    have "hash_find ((k, row) # t) key = None \<longleftrightarrow> \<not> hash_keys_eq k key \<and> hash_find t key = None" for key
      by (auto simp: hash_find_None)
    then show ?thesis
      by (auto simp: Inr Cons keyed_Cons rmap_eq_Ok)
  qed (simp add: keyed_Cons)
qed

lemma hash_index_new_Ok:
  "hash_index_new rows ps = Ok table \<longleftrightarrow>
   (\<exists>pairs. keyed rows ps = Ok pairs \<and> table = rev pairs \<and> keys_differ pairs)"
  by (auto simp: hash_index_new_def hash_insert_rows_Ok hash_find_def)

lemma keys_differ_find:
  "keys_differ pairs \<Longrightarrow>
   filter (\<lambda>e. hash_keys_eq (fst e) key) pairs =
     (case find (\<lambda>e. hash_keys_eq (fst e) key) (rev pairs) of None \<Rightarrow> [] | Some e \<Rightarrow> [e])"
proof (induction pairs)
  case (Cons e pairs)
  have none: "filter (\<lambda>e. hash_keys_eq (fst e) key) pairs = []" if "hash_keys_eq (fst e) key"
    using that Cons.prems hash_keys_eq_same by (fastforce simp: filter_empty_conv)
  have "find P (xs @ [x]) = (case find P xs of None \<Rightarrow> if P x then Some x else None | Some y \<Rightarrow> Some y)"
    for P and xs :: "index_entry list" and x by (induction xs) auto
  then show ?case
    using Cons none by (auto split: option.splits)
qed simp

text \<open>A lookup returns the one row with an equal key.\<close>

lemma hash_find_point:
  assumes "hash_index_new rows ps = Ok table"
  shows "filter (\<lambda>row. \<exists>k. extract_key row ps = Ok k \<and> hash_keys_eq k key) rows =
    (case hash_find table key of None \<Rightarrow> [] | Some row \<Rightarrow> [row])"
proof -
  obtain pairs where pairs: "keyed rows ps = Ok pairs" and t: "table = rev pairs" "keys_differ pairs"
    using assms by (auto simp: hash_index_new_Ok)
  have "filter (\<lambda>row. \<exists>k. extract_key row ps = Ok k \<and> hash_keys_eq k key) rows =
      map snd (filter (\<lambda>e. hash_keys_eq (fst e) key) pairs)"
    using keyed_filter [OF pairs, of "\<lambda>k. hash_keys_eq k key"] by simp
  then show ?thesis
    using t by (simp add: keys_differ_find hash_find_def split: option.splits)
qed

subsection \<open>Keys on which the equalities agree\<close>

text \<open>
  Objects are never equal to themselves in the hash index, and objects and sparse records
  have no order of their own in the sorted one.  Floats are left out too: the indexes compare
  their bits, which the model of floats does not keep.
\<close>

fun indexable :: "val \<Rightarrow> bool" where
  "indexable (VRecord vs) = list_all indexable vs"
| "indexable (VList vs) = list_all indexable vs"
| "indexable (VSparseRecord _ _) = False"
| "indexable (VObject _) = False"
| "indexable (VF32 _) = False"
| "indexable (VF64 _) = False"
| "indexable _ = True"

lemma flt_total_cmp_Equal: "flt_total_cmp a b = Equal \<longleftrightarrow> a = b"
  by (cases a; cases b) (auto simp: flt_total_cmp_def cmp_of_def)

lemma scalar_total_cmp_Equal:
  "indexable a \<Longrightarrow> both_sequences a b = None \<Longrightarrow> scalar_total_cmp a b = Equal \<longleftrightarrow> a = b"
  by (cases a; cases b)
    (auto simp: scalar_total_cmp_def both_sequences_def flt_total_cmp_Equal cmp_of_def split: if_splits)

lemma indexable_sequence:
  "both_sequences a b = Some (as, bs) \<Longrightarrow> indexable a \<longleftrightarrow> list_all indexable as"
  by (auto simp: both_sequences_eq)

lemma value_total_cmp_Equal: "indexable a \<Longrightarrow> value_total_cmp a b = Equal \<longleftrightarrow> a = b"
proof (induction "size a" arbitrary: a b rule: less_induct)
  case less
  show ?case
  proof (cases "both_sequences a b")
    case None
    with less.prems show ?thesis by (simp add: value_total_cmp_scalar scalar_total_cmp_Equal)
  next
    case (Some p)
    then obtain as bs where p: "both_sequences a b = Some (as, bs)" by (cases p) auto
    have "x \<in> set as \<Longrightarrow> value_total_cmp x y = Equal \<longleftrightarrow> x = y" for x y
      using less p size_both_sequences by (auto simp: indexable_sequence [OF p] list_all_iff)
    then have "slice_total_cmp as bs = Equal \<longleftrightarrow> list_all2 (=) as bs"
      unfolding lex_by_Equal by (intro list.rel_cong) auto
    with p show ?thesis by (auto simp: both_sequences_eq list.rel_eq)
  qed
qed

lemma slice_total_cmp_Equal: "list_all indexable k \<Longrightarrow> slice_total_cmp k key = Equal \<longleftrightarrow> k = key"
proof -
  assume "list_all indexable k"
  then have "slice_total_cmp k key = Equal \<longleftrightarrow> list_all2 (=) k key"
    unfolding lex_by_Equal by (intro list.rel_cong) (auto simp: value_total_cmp_Equal list_all_iff)
  then show ?thesis by (simp add: list.rel_eq)
qed

lemma set_value_eq_self: "indexable a \<Longrightarrow> set_value_eq a a"
  by (induction a) (auto simp: list_all_iff zip_same)

lemma set_value_eq_indexable: "indexable a \<Longrightarrow> set_value_eq a b \<longleftrightarrow> a = b"
  using set_value_eq_self set_value_eq_imp_eq by blast

lemma hash_keys_eq_indexable: "list_all indexable k \<Longrightarrow> hash_keys_eq k key \<longleftrightarrow> k = key"
proof -
  assume "list_all indexable k"
  then have "hash_keys_eq k key \<longleftrightarrow> list_all2 (=) k key"
    unfolding hash_keys_eq_def by (intro list.rel_cong) (auto simp: set_value_eq_indexable list_all_iff)
  then show ?thesis by (simp add: list.rel_eq)
qed

end
