(* ===== verification/ValueStream.thy ===== *)
theory ValueStream
  imports Eval
begin

text \<open>
  Streams of rows (\<open>toasty-core/src/stmt/value_stream.rs\<close>) and driver responses
  (\<open>toasty-core/src/driver/response.rs\<close>).

  The asynchronous source of a stream is the list of the items it still has to deliver, each a
  value or the driver's error; polling it again after its end answers \<open>None\<close> again.  An
  asynchronous method that changes its receiver returns the new receiver with its result.
\<close>

type_synonym ('s, 'a) fallible = "'s \<Rightarrow> 'a result \<times> 's"

subsection \<open>The buffer\<close>

datatype vbuffer = BEmpty | BOne val | BMany "val list"

fun buf_len :: "vbuffer \<Rightarrow> nat" where
  "buf_len BEmpty = 0"
| "buf_len (BOne _) = 1"
| "buf_len (BMany vs) = length vs"

definition buf_is_empty :: "vbuffer \<Rightarrow> bool" where
  "buf_is_empty b \<longleftrightarrow> buf_len b = 0"

fun buf_first :: "vbuffer \<Rightarrow> val option" where
  "buf_first BEmpty = None"
| "buf_first (BOne v) = Some v"
| "buf_first (BMany vs) = (case vs of [] \<Rightarrow> None | v # _ \<Rightarrow> Some v)"

fun buf_next :: "vbuffer \<Rightarrow> val option \<times> vbuffer" where
  "buf_next BEmpty = (None, BEmpty)"
| "buf_next (BOne v) = (Some v, BEmpty)"
| "buf_next (BMany vs) = (case vs of [] \<Rightarrow> (None, BMany []) | v # ws \<Rightarrow> (Some v, BMany ws))"

fun buf_push :: "vbuffer \<Rightarrow> val \<Rightarrow> vbuffer" where
  "buf_push BEmpty v = BOne v"
| "buf_push (BOne u) v = BMany [u, v]"
| "buf_push (BMany vs) v = BMany (vs @ [v])"

text \<open>The queue a buffer stands for.\<close>

fun buf_items :: "vbuffer \<Rightarrow> val list" where
  "buf_items BEmpty = []"
| "buf_items (BOne v) = [v]"
| "buf_items (BMany vs) = vs"

lemma buf_len_items: "buf_len b = length (buf_items b)"
  by (cases b) simp_all

lemma buf_items_push [simp]: "buf_items (buf_push b v) = buf_items b @ [v]"
  by (cases b) simp_all

lemma buf_next_items:
  "buf_next b = (case buf_items b of [] \<Rightarrow> (None, b) | v # vs \<Rightarrow> (Some v, snd (buf_next b)))"
  "buf_items (snd (buf_next b)) = tl (buf_items b)"
  by (cases b; simp split: list.split)+

subsection \<open>Streams\<close>

record value_stream =
  vs_buffer :: vbuffer
  vs_stream :: "val result list option"
  vs_ty :: "ty option"

definition stream_from_vec :: "val list \<Rightarrow> value_stream" where
  "stream_from_vec vs = \<lparr>vs_buffer = BMany vs, vs_stream = None, vs_ty = None\<rparr>"

definition stream_from_value :: "val \<Rightarrow> value_stream" where
  "stream_from_value v = \<lparr>vs_buffer = BOne v, vs_stream = None, vs_ty = None\<rparr>"

definition stream_from_stream :: "val result list \<Rightarrow> value_stream" where
  "stream_from_stream items = \<lparr>vs_buffer = BEmpty, vs_stream = Some items, vs_ty = None\<rparr>"

definition stream_default :: value_stream where
  "stream_default = \<lparr>vs_buffer = BEmpty, vs_stream = None, vs_ty = None\<rparr>"

definition typed_item :: "resolve \<Rightarrow> ty option \<Rightarrow> val \<Rightarrow> val result" where
  "typed_item R t v =
     (case t of
        None \<Rightarrow> Ok v
      | Some u \<Rightarrow> if is_a R v u then Ok v else Err (Panic ''value of the wrong type in a stream''))"

definition stream_next :: "resolve \<Rightarrow> value_stream \<Rightarrow> val result option \<times> value_stream" where
  "stream_next R vs =
     (case buf_next (vs_buffer vs) of
        (Some v, b) \<Rightarrow> (Some (Ok v), vs\<lparr>vs_buffer := b\<rparr>)
      | (None, b) \<Rightarrow>
          (case vs_stream vs of
             Some (item # items) \<Rightarrow>
               (Some (rbind item (typed_item R (vs_ty vs))), vs\<lparr>vs_stream := Some items\<rparr>)
           | _ \<Rightarrow> (None, vs)))"

definition stream_peek :: "resolve \<Rightarrow> value_stream \<Rightarrow> val result option \<times> value_stream" where
  "stream_peek R vs =
     (let (early, vs') =
        (if buf_is_empty (vs_buffer vs)
         then (case stream_next R vs of
                 (Some (Inr v), vs') \<Rightarrow> (None, vs'\<lparr>vs_buffer := buf_push (vs_buffer vs') v\<rparr>)
               | (Some (Inl e), vs') \<Rightarrow> (Some (Some (Inl e)), vs')
               | (None, vs') \<Rightarrow> (Some None, vs'))
         else (None, vs))
      in case early of
           Some r \<Rightarrow> (r, vs')
         | None \<Rightarrow> (map_option Inr (buf_first (vs_buffer vs')), vs'))"

definition stream_tap :: "resolve \<Rightarrow> (value_stream, unit) fallible" where
  "stream_tap R vs =
     (case stream_peek R vs of
        (Some (Inl e), vs') \<Rightarrow> (Err e, vs')
      | (_, vs') \<Rightarrow> (Ok (), vs'))"

definition stream_left :: "value_stream \<Rightarrow> nat" where
  "stream_left vs =
     length (buf_items (vs_buffer vs)) + (case vs_stream vs of None \<Rightarrow> 0 | Some items \<Rightarrow> length items)"

lemma stream_next_left: "stream_next R vs = (Some r, vs') \<Longrightarrow> stream_left vs' < stream_left vs"
  by (cases "vs_buffer vs")
    (auto simp: stream_next_def stream_left_def split: option.splits list.splits)

function stream_collect :: "resolve \<Rightarrow> value_stream \<Rightarrow> val list result" where
  "stream_collect R vs =
     (case stream_next R vs of
        (None, _) \<Rightarrow> Ok []
      | (Some r, vs') \<Rightarrow> rbind r (\<lambda>v. rmap (Cons v) (stream_collect R vs')))"
  by pat_completeness auto

termination
  by (relation "measure (\<lambda>(R, vs). stream_left vs)") (auto dest: stream_next_left [OF sym])

declare stream_collect.simps [simp del]

text \<open>The loop of \<open>buffer\<close>: it takes from the source, not from the buffer.\<close>

fun drain :: "resolve \<Rightarrow> ty option \<Rightarrow> vbuffer \<Rightarrow> val result list \<Rightarrow> unit result \<times> vbuffer \<times> val result list"
  where
  "drain R t b [] = (Ok (), b, [])"
| "drain R t b (item # items) =
     (case rbind item (typed_item R t) of
        Inl e \<Rightarrow> (Err e, b, items)
      | Inr v \<Rightarrow> drain R t (buf_push b v) items)"

definition stream_buffer :: "resolve \<Rightarrow> (value_stream, unit) fallible" where
  "stream_buffer R vs =
     (case vs_stream vs of
        None \<Rightarrow> (Ok (), vs)
      | Some items \<Rightarrow>
          (case drain R (vs_ty vs) (vs_buffer vs) items of
             (r, b, rest) \<Rightarrow> (r, vs\<lparr>vs_buffer := b, vs_stream := Some rest\<rparr>)))"

definition stream_dup :: "resolve \<Rightarrow> (value_stream, value_stream) fallible" where
  "stream_dup R vs =
     (case stream_buffer R vs of
        (Inl e, vs') \<Rightarrow> (Err e, vs')
      | (Inr _, vs') \<Rightarrow> (Ok (vs'\<lparr>vs_stream := None\<rparr>), vs'))"

definition stream_try_clone :: "value_stream \<Rightarrow> value_stream option" where
  "stream_try_clone vs = (if vs_stream vs \<noteq> None then None else Some vs)"

definition is_buffered :: "value_stream \<Rightarrow> bool" where
  "is_buffered vs \<longleftrightarrow> vs_stream vs = None"

definition buffered_to_vec :: "value_stream \<Rightarrow> val list" where
  "buffered_to_vec vs = buf_items (vs_buffer vs)"

definition stream_typed :: "resolve \<Rightarrow> ty \<Rightarrow> value_stream \<Rightarrow> value_stream result" where
  "stream_typed R t vs =
     (case vs_ty vs of
        Some prev \<Rightarrow>
          (if ty_eq prev t then Ok vs else Err (Panic ''assertion failed: the stream has another type''))
      | None \<Rightarrow>
          rmap (\<lambda>vals. vs\<lparr>vs_buffer := foldl buf_push BEmpty vals, vs_ty := Some t\<rparr>)
            (traverse (typed_item R (Some t)) (buf_items (vs_buffer vs))))"

subsection \<open>Responses\<close>

datatype rows = RCount "64 word" | RValue val | RStream value_stream

record response =
  re_values :: rows
  re_next :: "val option"
  re_prev :: "val option"

definition from_rows :: "rows \<Rightarrow> response" where
  "from_rows r = \<lparr>re_values = r, re_next = None, re_prev = None\<rparr>"

definition is_unpaginated :: "response \<Rightarrow> bool" where
  "is_unpaginated r \<longleftrightarrow> re_next r = None \<and> re_prev r = None"

definition value_rows :: "val list \<Rightarrow> rows" where
  "value_rows vs = RStream (stream_from_vec vs)"

text \<open>\<open>Rows::buffer\<close> leaves a count of zero behind when the stream fails.\<close>

definition rows_buffer :: "resolve \<Rightarrow> (rows, unit) fallible" where
  "rows_buffer R r =
     (case r of
        RStream vs \<Rightarrow>
          (case stream_collect R vs of
             Inl e \<Rightarrow> (Err e, RCount 0)
           | Inr items \<Rightarrow> (Ok (), RValue (VList items)))
      | _ \<Rightarrow> (Ok (), r))"

definition rows_dup :: "resolve \<Rightarrow> (rows, rows) fallible" where
  "rows_dup R r =
     (case r of
        RStream vs \<Rightarrow>
          (case stream_dup R vs of
             (Inl e, vs') \<Rightarrow> (Err e, RStream vs')
           | (Inr d, vs') \<Rightarrow> (Ok (RStream d), RStream vs'))
      | _ \<Rightarrow> (Ok r, r))"

definition rows_try_clone :: "rows \<Rightarrow> rows option" where
  "rows_try_clone r =
     (case r of RStream vs \<Rightarrow> map_option RStream (stream_try_clone vs) | _ \<Rightarrow> Some r)"

definition collect_as_value :: "resolve \<Rightarrow> rows \<Rightarrow> val result" where
  "collect_as_value R r =
     (case r of
        RCount _ \<Rightarrow> Err (Panic ''expected value'')
      | RValue v \<Rightarrow> Ok v
      | RStream vs \<Rightarrow> rmap VList (stream_collect R vs))"

definition into_value_stream :: "rows \<Rightarrow> value_stream result" where
  "into_value_stream r =
     (case r of
        RValue (VList items) \<Rightarrow> Ok (stream_from_vec items)
      | RStream vs \<Rightarrow> Ok vs
      | _ \<Rightarrow> Err (Panic ''expected ValueStream''))"

subsection \<open>Buffering does not change what a stream delivers\<close>

lemma stream_collect_items:
  "stream_collect R vs =
   rmap ((@) (buf_items (vs_buffer vs)))
     (traverse (\<lambda>item. rbind item (typed_item R (vs_ty vs))) (case vs_stream vs of None \<Rightarrow> [] | Some items \<Rightarrow> items))"
proof (induction R vs rule: stream_collect.induct)
  case (1 R vs)
  show ?case
  proof (cases "buf_items (vs_buffer vs)")
    case Nil
    then have n: "fst (buf_next (vs_buffer vs)) = None" using buf_next_items(1) [of "vs_buffer vs"] by simp
    show ?thesis
    proof (cases "vs_stream vs")
      case None
      with n Nil show ?thesis
        by (subst stream_collect.simps) (auto simp: stream_next_def split: prod.splits)
    next
      case (Some items)
      show ?thesis
      proof (cases items)
        case Nil
        with n \<open>buf_items (vs_buffer vs) = []\<close> Some show ?thesis
          by (subst stream_collect.simps) (auto simp: stream_next_def split: prod.splits)
      next
        case (Cons item rest)
        have "stream_next R vs = (Some (rbind item (typed_item R (vs_ty vs))), vs\<lparr>vs_stream := Some rest\<rparr>)"
          using n Some Cons by (auto simp: stream_next_def split: prod.splits)
        with 1 Some Cons Nil show ?thesis
          by (subst stream_collect.simps; cases "rbind item (typed_item R (vs_ty vs))")
            (auto simp: rmap_def rbind_assoc)
      qed
    qed
  next
    case (Cons v ws)
    then have "stream_next R vs = (Some (Ok v), vs\<lparr>vs_buffer := snd (buf_next (vs_buffer vs))\<rparr>)"
      using buf_next_items(1) [of "vs_buffer vs"] by (auto simp: stream_next_def split: prod.splits)
    with 1 Cons buf_next_items(2) [of "vs_buffer vs"] show ?thesis
      by (subst stream_collect.simps) (simp add: rmap_def rbind_assoc)
  qed
qed

lemma drain_Ok:
  "drain R t b items = (Ok (), b', rest) \<Longrightarrow>
   rest = [] \<and> (\<exists>vals. traverse (\<lambda>item. rbind item (typed_item R t)) items = Ok vals \<and> buf_items b' = buf_items b @ vals)"
  by (induction R t b items rule: drain.induct) (auto split: sum.splits)

lemma drain_Err:
  "drain R t b items = (Err e, b', rest) \<Longrightarrow>
   traverse (\<lambda>item. rbind item (typed_item R t)) items = Err e"
  by (induction R t b items rule: drain.induct) (auto split: sum.splits)

lemma stream_buffer_collect:
  "stream_buffer R vs = (Ok (), vs') \<Longrightarrow> stream_collect R vs' = stream_collect R vs"
  by (auto simp: stream_buffer_def stream_collect_items [of R vs] stream_collect_items [of R vs']
      split: option.splits prod.splits dest!: drain_Ok)

lemma stream_dup_collect:
  "stream_dup R vs = (Ok d, vs') \<Longrightarrow>
   stream_collect R d = stream_collect R vs \<and> stream_collect R vs' = stream_collect R vs"
  by (auto simp: stream_dup_def stream_buffer_def stream_collect_items
      split: option.splits prod.splits sum.splits dest!: drain_Ok)

lemma foldl_buf_push: "buf_items (foldl buf_push b vals) = buf_items b @ vals"
  by (induction vals arbitrary: b) simp_all

lemma typed_item_Ok: "typed_item R t v = Ok w \<longleftrightarrow> w = v \<and> (\<forall>u. t = Some u \<longrightarrow> is_a R v u)"
  by (auto simp: typed_item_def split: option.splits)

lemma traverse_typed_item: "traverse (typed_item R t) vals = Ok vals' \<Longrightarrow> vals' = vals"
  by (auto simp: traverse_eq_Ok typed_item_Ok list_all2_conv_all_nth intro: nth_equalityI)

text \<open>A type only rejects items: a typed stream that delivers, delivers the same.\<close>

lemma stream_typed_collect:
  assumes "stream_typed R t vs = Ok vs'" "stream_collect R vs' = Ok items"
  shows "stream_collect R vs = Ok items"
proof (cases "vs_ty vs")
  case (Some prev)
  with assms show ?thesis by (auto simp: stream_typed_def split: if_splits)
next
  case None
  then have ty: "vs_ty vs' = Some t" and stream: "vs_stream vs' = vs_stream vs"
    and buf: "buf_items (vs_buffer vs') = buf_items (vs_buffer vs)"
    using assms(1) by (auto simp: stream_typed_def rmap_eq_Ok foldl_buf_push dest: traverse_typed_item)
  define src where "src = (case vs_stream vs of None \<Rightarrow> [] | Some items \<Rightarrow> items)"
  obtain vals where vals: "traverse (\<lambda>item. rbind item (typed_item R (Some t))) src = Ok vals"
    "items = buf_items (vs_buffer vs) @ vals"
    using assms(2) unfolding stream_collect_items [of R vs'] ty stream buf src_def [symmetric]
    by (auto simp: rmap_eq_Ok)
  have "traverse (\<lambda>item. rbind item (typed_item R None)) src = Ok vals"
    using vals(1) by (auto simp: traverse_eq_Ok rbind_eq_Ok typed_item_Ok elim!: list_all2_mono)
  with vals(2) show ?thesis
    by (simp add: stream_collect_items [of R vs] None src_def)
qed

end
