(* ===== verification/VarStore.thy ===== *)
theory VarStore
  imports ValueStream
begin

text \<open>
  The runtime store of node outputs (\<open>toasty/src/engine/exec/var.rs\<close>): one slot per node of the
  plan, holding the output and the number of loads it still has to serve.

  A step of the executor changes its state and ends in one of three ways: with a value, with
  an error (a panic outside the store included), or with a panic of the store itself.  The
  last is a constructor of its own, so that its absence can be stated and proved.
\<close>

subsection \<open>Steps of the executor\<close>

type_synonym node_id = nat

datatype var_panic =
    NoStream node_id
  | LoadOfSkipped node_id
  | ReleaseOfUnset node_id
  | NoSlot node_id \<comment> \<open>index out of bounds\<close>

datatype 'a outcome = Done 'a | Fail error | VarPanic var_panic

type_synonym ('s, 'a) step = "'s \<Rightarrow> 'a outcome \<times> 's"

definition sret :: "'a \<Rightarrow> ('s, 'a) step" where
  "sret a s = (Done a, s)"

definition outcome_of :: "'a result \<Rightarrow> 'a outcome" where
  "outcome_of r = (case r of Inl e \<Rightarrow> Fail e | Inr a \<Rightarrow> Done a)"

definition slift :: "'a result \<Rightarrow> ('s, 'a) step" where
  "slift r s = (outcome_of r, s)"

definition sbind :: "('s, 'a) step \<Rightarrow> ('a \<Rightarrow> ('s, 'b) step) \<Rightarrow> ('s, 'b) step" where
  "sbind m f s =
     (case m s of
        (Done a, s') \<Rightarrow> f a s'
      | (Fail e, s') \<Rightarrow> (Fail e, s')
      | (VarPanic p, s') \<Rightarrow> (VarPanic p, s'))"

fun straverse :: "('a \<Rightarrow> ('s, 'b) step) \<Rightarrow> 'a list \<Rightarrow> ('s, 'b list) step" where
  "straverse f [] = sret []"
| "straverse f (x # xs) = sbind (f x) (\<lambda>y. sbind (straverse f xs) (\<lambda>ys. sret (y # ys)))"

subsection \<open>Slots\<close>

datatype entry_value = EvResponse response | EvSkipped

record slot_entry =
  en_value :: entry_value
  en_count :: nat

type_synonym slots = "slot_entry option list"

definition vars_new :: "nat \<Rightarrow> slots" where
  "vars_new node_count = replicate node_count None"

text \<open>Every method indexes the slots first; what follows sees the slot's entry, if any.\<close>

definition at_slot :: "node_id \<Rightarrow> (slot_entry option \<Rightarrow> (slots, 'a) step) \<Rightarrow> (slots, 'a) step" where
  "at_slot node f slots =
     (if node < length slots then f (slots ! node) slots else (VarPanic (NoSlot node), slots))"

definition put_slot :: "node_id \<Rightarrow> slot_entry option \<Rightarrow> (slots, unit) step" where
  "put_slot node entry slots = (Done (), slots[node := entry])"

definition with_rows :: "response \<Rightarrow> rows \<Rightarrow> response" where
  "with_rows resp r = resp\<lparr>re_values := r\<rparr>"

definition vars_load :: "resolve \<Rightarrow> node_id \<Rightarrow> (slots, response) step" where
  "vars_load R node =
     at_slot node (\<lambda>found. case found of
        None \<Rightarrow> (\<lambda>slots. (VarPanic (NoStream node), slots))
      | Some entry \<Rightarrow>
          (case en_value entry of
             EvSkipped \<Rightarrow> (\<lambda>slots. (VarPanic (LoadOfSkipped node), slots))
           | EvResponse resp \<Rightarrow>
               if en_count entry = 1 then sbind (put_slot node None) (\<lambda>_. sret resp)
               else
                 (let (dup, kept) = rows_dup R (re_values resp)
                  in sbind (put_slot node
                        (Some \<lparr>en_value = EvResponse (with_rows resp kept), en_count = en_count entry - 1\<rparr>))
                      (\<lambda>_. slift (rmap (with_rows resp) dup)))))"

definition vars_release :: "node_id \<Rightarrow> (slots, unit) step" where
  "vars_release node =
     at_slot node (\<lambda>found. case found of
        None \<Rightarrow> (\<lambda>slots. (VarPanic (ReleaseOfUnset node), slots))
      | Some entry \<Rightarrow>
          put_slot node
            (if en_count entry = 1 then None else Some (entry\<lparr>en_count := en_count entry - 1\<rparr>)))"

definition rows_non_empty :: "rows \<Rightarrow> bool result" where
  "rows_non_empty r =
     (case r of
        RCount c \<Rightarrow> Ok (c > 0)
      | RValue (VList items) \<Rightarrow> Ok (items \<noteq> [])
      | RValue VNull \<Rightarrow> Ok False
      | RValue _ \<Rightarrow> Ok True
      | RStream _ \<Rightarrow> Err (Panic ''stream was buffered above''))"

definition vars_peek_non_empty :: "resolve \<Rightarrow> node_id \<Rightarrow> (slots, bool) step" where
  "vars_peek_non_empty R node =
     at_slot node (\<lambda>found. case found of
        None \<Rightarrow> (\<lambda>slots. (VarPanic (NoStream node), slots))
      | Some entry \<Rightarrow>
          (case en_value entry of
             EvSkipped \<Rightarrow> sret False
           | EvResponse resp \<Rightarrow>
               (let (r, kept) = rows_buffer R (re_values resp)
                in sbind (put_slot node (Some (entry\<lparr>en_value := EvResponse (with_rows resp kept)\<rparr>)))
                    (\<lambda>_. sbind (slift r) (\<lambda>_. slift (rows_non_empty kept))))))"

definition vars_empty :: "slots \<Rightarrow> bool" where
  "vars_empty slots = list_all (\<lambda>entry. entry = None) slots"

definition vars_store_skipped :: "node_id \<Rightarrow> nat \<Rightarrow> (slots, unit) step" where
  "vars_store_skipped node uses =
     (if uses = 0 then sret ()
      else at_slot node (\<lambda>_. put_slot node (Some \<lparr>en_value = EvSkipped, en_count = uses\<rparr>)))"

definition checked_rows :: "resolve \<Rightarrow> ty \<Rightarrow> rows \<Rightarrow> rows result" where
  "checked_rows R t r =
     (case r of
        RCount c \<Rightarrow> (if t = TUnit then Ok r else Err (Panic ''assertion failed: ty.is_unit()''))
      | RValue v \<Rightarrow> (if is_a R v t then Ok r else Err (Panic ''type mismatch''))
      | RStream vs \<Rightarrow>
          (case t of
             TList item \<Rightarrow> rmap RStream (stream_typed R item vs)
           | _ \<Rightarrow> todo))"

definition vars_store :: "resolve \<Rightarrow> node_id \<Rightarrow> ty \<Rightarrow> nat \<Rightarrow> response \<Rightarrow> (slots, unit) step" where
  "vars_store R node t uses resp =
     (if uses = 0 then sret ()
      else sbind (slift (checked_rows R t (re_values resp))) (\<lambda>r.
        at_slot node (\<lambda>_. put_slot node
          (Some \<lparr>en_value = EvResponse (with_rows resp r), en_count = uses\<rparr>))))"

end
