(* ===== verification/NestedMerge.thy ===== *)
theory NestedMerge
  imports HashIndex VarStore
begin

text \<open>
  Evaluated functions (\<open>toasty/src/engine/eval.rs\<close>) and the nested merge, which assembles parent
  and child rows loaded by separate queries (\<open>toasty/src/engine/exec/nested_merge.rs\<close>).

  The inputs of a merge answer with literals, so one unit of fuel is enough for every
  evaluation.
\<close>

subsection \<open>Functions\<close>

record func =
  fn_args :: "ty list"
  fn_ret :: ty
  fn_expr :: expr

definition func_is_const :: "func \<Rightarrow> bool" where
  "func_is_const f \<longleftrightarrow> fn_args f = []"

definition func_is_identity :: "func \<Rightarrow> bool" where
  "func_is_identity f \<longleftrightarrow> (case fn_expr f of EArg i n \<Rightarrow> i = 0 | _ \<Rightarrow> False)"

definition func_eval :: "uuid_ops \<Rightarrow> resolve \<Rightarrow> func \<Rightarrow> input \<Rightarrow> val result" where
  "func_eval U R f P = eval_ref U (typed_input R (fn_args f) P) 1 [] (fn_expr f)"

definition func_eval_bool :: "uuid_ops \<Rightarrow> resolve \<Rightarrow> func \<Rightarrow> input \<Rightarrow> bool result" where
  "func_eval_bool U R f P = eval_bool U (typed_input R (fn_args f) P) 1 (fn_expr f)"

definition func_eval_const :: "uuid_ops \<Rightarrow> resolve \<Rightarrow> func \<Rightarrow> val result" where
  "func_eval_const U R f =
     (if func_is_const f then unwrap (func_eval U R f const_input)
      else Err (Panic ''assertion failed: self.is_const()''))"

subsection \<open>The shape of a merge\<close>

record merge_index =
  mi_source :: nat
  mi_projections :: "projection list"

datatype qualification =
    QAll
  | QHashLookup nat func
  | QSortLookup nat func
  | QScan func

datatype level = Level (lv_source: nat) (lv_projection: func) (lv_nested: "child list")
and child =
  Child (ch_level: level) (ch_qualification: qualification) (ch_single: bool) (ch_limit: "nat option")

datatype merge_input = InCount "64 word" | InRows "val list"

record indices =
  ix_hash :: "index_entry list list"
  ix_sort :: "index_entry list list"

subsection \<open>Inputs of the evaluated functions\<close>

text \<open>
  \<open>RowStack\<close>: the row of every level from the current one up to the root, the current row
  first.  The position of a row is the number of rows above it.
\<close>

fun stack_row :: "val list \<Rightarrow> nat \<Rightarrow> val result" where
  "stack_row [] i = todo"
| "stack_row (row # parents) i = (if length parents = i then Ok row else stack_row parents i)"

definition row_stack :: "val list \<Rightarrow> input" where
  "row_stack stack =
     \<lparr>in_arg = (\<lambda>i n path. rbind (stack_row stack i) (\<lambda>row. rmap Some (project_value row path))),
      in_ref = (\<lambda>_ _. Ok None), in_model = no_models\<rparr>"

definition row_and_nested :: "val \<Rightarrow> val list \<Rightarrow> input" where
  "row_and_nested row nested =
     \<lparr>in_arg = (\<lambda>i n path.
        rbind (if i = 0 then Ok row else slice_at nested (i - 1)) (\<lambda>base. rmap Some (project_value base path))),
      in_ref = (\<lambda>_ _. Ok None), in_model = no_models\<rparr>"

definition key_as_slice :: "val \<Rightarrow> val list" where
  "key_as_slice v = (case v of VRecord vs \<Rightarrow> vs | _ \<Rightarrow> [v])"

subsection \<open>Merging one row\<close>

text \<open>The candidate rows of a child and the test a candidate has to pass.\<close>

definition candidates ::
  "uuid_ops \<Rightarrow> resolve \<Rightarrow> indices \<Rightarrow> val list \<Rightarrow> qualification \<Rightarrow> val list \<Rightarrow>
   ((val \<Rightarrow> bool result) \<times> val list) result" where
  "candidates U R ix stack q rows =
     (case q of
        QAll \<Rightarrow> Ok (\<lambda>_. Ok True, rows)
      | QHashLookup index lookup_key \<Rightarrow>
          rbind (func_eval U R lookup_key (row_stack stack)) (\<lambda>key.
          rmap (\<lambda>table. (\<lambda>_. Ok True,
              case hash_find table (key_as_slice key) of None \<Rightarrow> [] | Some row \<Rightarrow> [row]))
            (slice_at (ix_hash ix) index))
      | QSortLookup index lookup_key \<Rightarrow>
          rbind (func_eval U R lookup_key (row_stack stack)) (\<lambda>key.
          rmap (\<lambda>entries. (\<lambda>_. Ok True,
              find_range entries (Included (key_as_slice key)) (Included (key_as_slice key))))
            (slice_at (ix_sort ix) index))
      | QScan f \<Rightarrow> Ok (\<lambda>row. func_eval_bool U R f (row_stack (row # stack)), rows))"

text \<open>The loop over the candidates; it stops at the first match beyond the limit.\<close>

definition limit_reached :: "nat option \<Rightarrow> 'a list \<Rightarrow> bool" where
  "limit_reached cap acc \<longleftrightarrow> (case cap of None \<Rightarrow> False | Some n \<Rightarrow> length acc \<ge> n)"

fun merge_matches ::
  "(val \<Rightarrow> bool result) \<Rightarrow> (val \<Rightarrow> val result) \<Rightarrow> nat option \<Rightarrow> val list \<Rightarrow> val list \<Rightarrow> val list result" where
  "merge_matches keep merge cap acc [] = Ok acc"
| "merge_matches keep merge cap acc (row # rows) =
     rbind (keep row) (\<lambda>b.
       if \<not> b then merge_matches keep merge cap acc rows
       else if limit_reached cap acc then Ok acc
       else rbind (merge row) (\<lambda>v. merge_matches keep merge cap (acc @ [v]) rows))"

lemma merge_matches_cong [fundef_cong]:
  "\<lbrakk>keep = keep'; cap = cap'; acc = acc'; rows = rows'; \<And>row. row \<in> set rows' \<Longrightarrow> merge row = merge' row\<rbrakk> \<Longrightarrow>
   merge_matches keep merge cap acc rows = merge_matches keep' merge' cap' acc' rows'"
proof -
  have "(\<And>row. row \<in> set rows' \<Longrightarrow> merge row = merge' row) \<Longrightarrow>
      merge_matches keep' merge cap' acc' rows' = merge_matches keep' merge' cap' acc' rows'"
    by (induction keep' merge' cap' acc' rows' rule: merge_matches.induct) (auto intro!: rbind_cong)
  then show "\<lbrakk>keep = keep'; cap = cap'; acc = acc'; rows = rows'; \<And>row. row \<in> set rows' \<Longrightarrow> merge row = merge' row\<rbrakk> \<Longrightarrow>
   merge_matches keep merge cap acc rows = merge_matches keep' merge' cap' acc' rows'" by simp
qed

definition input_rows :: "merge_input list \<Rightarrow> nat \<Rightarrow> val list result" where
  "input_rows inputs source =
     rbind (slice_at inputs source) (\<lambda>inp. case inp of InRows rows \<Rightarrow> Ok rows | InCount _ \<Rightarrow> todo)"

definition child_value :: "bool \<Rightarrow> val list \<Rightarrow> val result" where
  "child_value single merged =
     (if single then
        (if length merged \<le> 1 then Ok (case merged of [] \<Rightarrow> VNull | v # _ \<Rightarrow> v)
         else Err (Panic ''TODO: error handling''))
      else Ok (VList merged))"

lemma size_child [termination_simp]: "c \<in> set cs \<Longrightarrow> size (ch_level c) < Suc (size_list size cs)"
  using size_list_estimation' [of c cs "size c" size] by (cases c) auto

fun merge_nested_row ::
  "uuid_ops \<Rightarrow> resolve \<Rightarrow> merge_input list \<Rightarrow> indices \<Rightarrow> val \<Rightarrow> val list \<Rightarrow> level \<Rightarrow> val result" where
  "merge_nested_row U R inputs ix row parents (Level source projection nested) =
     rbind (traverse (\<lambda>c.
        rbind (input_rows inputs (lv_source (ch_level c))) (\<lambda>rows.
        rbind (candidates U R ix (row # parents) (ch_qualification c) rows) (\<lambda>(keep, cands).
        rbind (merge_matches keep
            (\<lambda>nested_row. merge_nested_row U R inputs ix nested_row (row # parents) (ch_level c))
            (ch_limit c) [] cands) (child_value (ch_single c))))) nested) (\<lambda>values.
     func_eval U R projection (row_and_nested row values))"

declare merge_nested_row.simps [simp del]

subsection \<open>The operation\<close>

definition input_of_rows :: "resolve \<Rightarrow> rows \<Rightarrow> merge_input result" where
  "input_of_rows R r =
     (case r of
        RCount c \<Rightarrow> Ok (InCount c)
      | RValue v \<Rightarrow> Ok (InRows (case v of VList items \<Rightarrow> items | _ \<Rightarrow> [v]))
      | RStream vs \<Rightarrow> rmap InRows (stream_collect R vs))"

definition index_source :: "merge_input list \<Rightarrow> nat \<Rightarrow> val list result" where
  "index_source inputs source =
     rbind (slice_at inputs source) (\<lambda>inp.
       case inp of InRows rows \<Rightarrow> Ok rows | InCount _ \<Rightarrow> Err (Panic ''lookup source must be a Value input''))"

definition build_index ::
  "(val list \<Rightarrow> projection list \<Rightarrow> index_entry list result) \<Rightarrow> merge_input list \<Rightarrow> merge_index \<Rightarrow>
   index_entry list result" where
  "build_index new inputs mi =
     rbind (index_source inputs (mi_source mi)) (\<lambda>rows. new rows (mi_projections mi))"

definition build_indices ::
  "merge_input list \<Rightarrow> merge_index list \<Rightarrow> merge_index list \<Rightarrow> indices result" where
  "build_indices inputs hashed sorts =
     rbind (traverse (build_index hash_index_new inputs) hashed) (\<lambda>h.
     rmap (\<lambda>s. \<lparr>ix_hash = h, ix_sort = s\<rparr>) (traverse (build_index sorted_index_new inputs) sorts))"

definition root_rows :: "merge_input \<Rightarrow> val list" where
  "root_rows inp = (case inp of InCount c \<Rightarrow> replicate (unat c) VNull | InRows rows \<Rightarrow> rows)"

definition merge_rows ::
  "uuid_ops \<Rightarrow> resolve \<Rightarrow> level \<Rightarrow> merge_index list \<Rightarrow> merge_index list \<Rightarrow> merge_input list \<Rightarrow> val list result" where
  "merge_rows U R lv0 hashed sorts inputs =
     rbind (build_indices inputs hashed sorts) (\<lambda>ix.
     rbind (slice_at inputs (lv_source lv0)) (\<lambda>inp.
     traverse (\<lambda>row. merge_nested_row U R inputs ix row [] lv0) (root_rows inp)))"

end
