(* ===== verification/DbTypes.thy ===== *)
theory DbTypes
  imports Exprs
begin

text \<open>
  Storage types (\<open>toasty-core/src/schema/db/ty.rs\<close>, \<open>ty_enum.rs\<close>) and the statement type a stored
  value has.
\<close>

subsection \<open>Storage types\<close>

record type_enum =
  te_name :: "string option"
  te_variants :: "string list"

datatype db_ty =
    DbBoolean
  | DbInteger "8 word"
  | DbUnsignedInteger "8 word"
  | DbFloat "8 word"
  | DbText
  | DbVarChar "64 word"
  | DbUuid
  | DbNumeric "(32 word \<times> 32 word) option"
  | DbBlob
  | DbBinary "8 word"
  | DbTimestamp "8 word"
  | DbDate
  | DbTime "8 word"
  | DbDateTime "8 word"
  | DbCidr
  | DbInet
  | DbMacAddr
  | DbMacAddr8
  | DbEnum type_enum
  | DbList db_ty
  | DbDocument bool \<comment> \<open>binary\<close>
  | DbJson
  | DbJsonb
  | DbCustom string

text \<open>A list of documents is stored as one document.\<close>

definition db_list :: "db_ty \<Rightarrow> db_ty" where
  "db_list elem = (case elem of DbDocument binary \<Rightarrow> DbDocument binary | _ \<Rightarrow> DbList elem)"

definition named_enum :: "db_ty \<Rightarrow> type_enum option" where
  "named_enum t =
     (case t of
        DbEnum te \<Rightarrow> Some te
      | DbList elem \<Rightarrow> (case elem of DbEnum te \<Rightarrow> Some te | _ \<Rightarrow> None)
      | _ \<Rightarrow> None)"

subsection \<open>Bridge types\<close>

text \<open>\<open>Type::bridge_type\<close>: the statement type a stored value of the column has.\<close>

fun bridge_type :: "db_ty \<Rightarrow> ty \<Rightarrow> ty" where
  "bridge_type s t =
     (case s of
        DbList storage \<Rightarrow> (case t of TList app \<Rightarrow> TList (bridge_type storage app) | _ \<Rightarrow> t)
      | DbBlob \<Rightarrow> if t = TUuid then TBytes else t
      | DbBinary _ \<Rightarrow> if t = TUuid then TBytes else t
      | DbText \<Rightarrow> TString
      | DbVarChar _ \<Rightarrow> TString
      | DbEnum _ \<Rightarrow> TString
      | DbInteger w \<Rightarrow>
          (if t = TI64 then
             (if w = 1 then TI8 else if w = 2 then TI16 else if w = 3 \<or> w = 4 then TI32 else t)
           else if t = TBool \<and> w = 1 then TI8
           else t)
      | DbUnsignedInteger w \<Rightarrow>
          (if t = TI64 then
             (if w = 1 then TU8 else if w = 2 then TU16 else if w = 3 \<or> w = 4 then TU32
              else if w \<in> {5, 6, 7, 8} then TU64 else t)
           else t)
      | DbDocument _ \<Rightarrow>
          (case t of
             TModel _ \<Rightarrow> TObject
           | TList elem \<Rightarrow> (case elem of TModel _ \<Rightarrow> TList TObject | _ \<Rightarrow> t)
           | _ \<Rightarrow> t)
      | _ \<Rightarrow> t)"

declare bridge_type.simps [simp del]

end
