(* ===== verification/Capability.thy ===== *)
theory Capability
  imports DbTypes
begin

text \<open>
  What a database can do (\<open>toasty-core/src/driver/capability.rs\<close>, \<open>driver/dialect.rs\<close>): the record
  of a driver's capabilities, its consistency check and the capabilities of the drivers that
  ship with Toasty.
\<close>

datatype dialect = Sqlite | Postgresql | Mysql | MariaDb

datatype sql_placeholder = QuestionMark | NumberedQuestionMark | DollarNumber

record storage_types =
  sy_default_string_type :: db_ty
  sy_varchar :: "64 word option"
  sy_default_uuid_type :: db_ty
  sy_default_bytes_type :: db_ty
  sy_default_decimal_type :: db_ty
  sy_default_bigdecimal_type :: db_ty
  sy_default_timestamp_type :: db_ty
  sy_default_zoned_type :: db_ty
  sy_default_date_type :: db_ty
  sy_default_time_type :: db_ty
  sy_default_datetime_type :: db_ty
  sy_default_cidr_type :: db_ty
  sy_default_inet_type :: db_ty
  sy_default_macaddr_type :: db_ty
  sy_default_macaddr8_type :: db_ty
  sy_max_unsigned_integer :: "64 word option"

record schema_mutations =
  sm_alter_column_type :: bool
  sm_alter_column_properties_atomic :: bool

record capability =
  cb_driver_name :: string
  cb_sql :: "dialect option"
  cb_sql_placeholder :: "sql_placeholder option"
  cb_storage_types :: storage_types
  cb_schema_mutations :: schema_mutations
  cb_cte_with_update :: bool
  cb_select_for_update :: bool
  cb_returning_from_insert :: bool
  cb_returning_from_update :: bool
  cb_upsert_primary_key :: bool
  cb_upsert_unique :: bool
  cb_upsert_branch_assignments :: bool
  cb_upsert_targeted_ignore :: bool
  cb_primary_key_ne_predicate :: bool
  cb_auto_increment :: bool
  cb_max_auto_increment_integer_width :: "8 word option"
  cb_max_identifier_length :: "64 word option"
  cb_native_varchar :: bool
  cb_native_json :: bool
  cb_native_jsonb :: bool
  cb_native_timestamp :: bool
  cb_native_date :: bool
  cb_native_time :: bool
  cb_native_datetime :: bool
  cb_native_cidr :: bool
  cb_native_inet :: bool
  cb_native_macaddr :: bool
  cb_native_macaddr8 :: bool
  cb_native_enum :: bool
  cb_named_enum_types :: bool
  cb_native_decimal :: bool
  cb_bigdecimal_implemented :: bool
  cb_decimal_arbitrary_precision :: bool
  cb_index_or_predicate :: bool
  cb_native_starts_with :: bool
  cb_glob_starts_with :: bool
  cb_binary_like_starts_with :: bool
  cb_native_like :: bool
  cb_native_ilike :: bool
  cb_scan :: bool
  cb_scan_supports_sort :: bool
  cb_test_connection_pool :: bool
  cb_transaction_lock_mode :: bool
  cb_interactive_transactions :: bool
  cb_backward_pagination :: bool
  cb_sql_nulls_first_on_asc :: bool
  cb_bool_key_type :: bool
  cb_bind_list_param :: bool
  cb_predicate_match_any :: bool
  cb_insert_values_unnest :: bool
  cb_native_array :: bool
  cb_vec_scalar :: bool
  cb_unique_list_index :: bool
  cb_document_collections :: bool
  cb_native_array_set_predicates :: bool
  cb_vec_remove :: bool
  cb_vec_pop :: bool
  cb_vec_remove_at :: bool

abbreviation cb_alter_column_type :: "capability \<Rightarrow> bool" where
  "cb_alter_column_type C \<equiv> sm_alter_column_type (cb_schema_mutations C)"

abbreviation cb_alter_column_properties_atomic :: "capability \<Rightarrow> bool" where
  "cb_alter_column_properties_atomic C \<equiv> sm_alter_column_properties_atomic (cb_schema_mutations C)"

subsection \<open>Operations\<close>

definition speaks_sql :: "capability \<Rightarrow> bool" where
  "speaks_sql C \<longleftrightarrow> cb_sql C \<noteq> None"

definition validate :: "capability \<Rightarrow> unit result" where
  "validate C =
     (let invalid = (\<lambda>s. Err (InvalidDriverConfiguration s)) in
      if cb_native_varchar C \<and> sy_varchar (cb_storage_types C) = None then
        invalid ''native_varchar is true but storage_types.varchar is None''
      else if \<not> cb_native_varchar C \<and> sy_varchar (cb_storage_types C) \<noteq> None then
        invalid ''native_varchar is false but storage_types.varchar is Some''
      else if cb_native_ilike C \<and> \<not> cb_native_like C then
        invalid ''native_ilike is true but native_like is false''
      else if cb_glob_starts_with C \<and> \<not> cb_native_starts_with C then
        invalid ''glob_starts_with is true but native_starts_with is false''
      else if cb_binary_like_starts_with C \<and> \<not> cb_native_starts_with C then
        invalid ''binary_like_starts_with is true but native_starts_with is false''
      else if cb_glob_starts_with C \<and> cb_binary_like_starts_with C then
        invalid ''glob_starts_with and binary_like_starts_with cannot both be true''
      else if speaks_sql C \<and> cb_sql_placeholder C = None then
        invalid ''sql is Some but sql_placeholder is None''
      else if \<not> speaks_sql C \<and> cb_sql_placeholder C \<noteq> None then
        invalid ''sql is None but sql_placeholder is Some''
      else if cb_unique_list_index C \<and> \<not> cb_native_array C then
        invalid ''unique_list_index is true but native_array is false''
      else Ok ())"

definition default_string_max_length :: "capability \<Rightarrow> 64 word option" where
  "default_string_max_length C =
     (case sy_default_string_type (cb_storage_types C) of DbVarChar len \<Rightarrow> Some len | _ \<Rightarrow> None)"

text \<open>In the default feature set only identifiers have a type of their own.\<close>

definition native_type_for :: "capability \<Rightarrow> ty \<Rightarrow> ty" where
  "native_type_for C t = (if t = TUuid then bridge_type (sy_default_uuid_type (cb_storage_types C)) t else t)"

subsection \<open>The drivers\<close>

definition sqlite_storage :: storage_types where
  "sqlite_storage =
     \<lparr>sy_default_string_type = DbText, sy_varchar = Some 1000000000,
      sy_default_uuid_type = DbBlob, sy_default_bytes_type = DbBlob,
      sy_default_decimal_type = DbText, sy_default_bigdecimal_type = DbText,
      sy_default_timestamp_type = DbText, sy_default_zoned_type = DbText,
      sy_default_date_type = DbText, sy_default_time_type = DbText,
      sy_default_datetime_type = DbText, sy_default_cidr_type = DbText,
      sy_default_inet_type = DbText, sy_default_macaddr_type = DbText,
      sy_default_macaddr8_type = DbText, sy_max_unsigned_integer = Some 9223372036854775807\<rparr>"

definition postgresql_storage :: storage_types where
  "postgresql_storage =
     \<lparr>sy_default_string_type = DbText, sy_varchar = Some 10485760,
      sy_default_uuid_type = DbUuid, sy_default_bytes_type = DbBlob,
      sy_default_decimal_type = DbNumeric None, sy_default_bigdecimal_type = DbText,
      sy_default_timestamp_type = DbTimestamp 6, sy_default_zoned_type = DbText,
      sy_default_date_type = DbDate, sy_default_time_type = DbTime 6,
      sy_default_datetime_type = DbDateTime 6, sy_default_cidr_type = DbCidr,
      sy_default_inet_type = DbInet, sy_default_macaddr_type = DbMacAddr,
      sy_default_macaddr8_type = DbMacAddr8,
      sy_max_unsigned_integer = Some 9223372036854775807\<rparr>"

definition mysql_storage :: storage_types where
  "mysql_storage =
     \<lparr>sy_default_string_type = DbVarChar 191, sy_varchar = Some 65535,
      sy_default_uuid_type = DbVarChar 36, sy_default_bytes_type = DbBlob,
      sy_default_decimal_type = DbText, sy_default_bigdecimal_type = DbText,
      sy_default_timestamp_type = DbDateTime 6, sy_default_zoned_type = DbText,
      sy_default_date_type = DbDate, sy_default_time_type = DbTime 6,
      sy_default_datetime_type = DbDateTime 6, sy_default_cidr_type = DbVarChar 43,
      sy_default_inet_type = DbVarChar 43, sy_default_macaddr_type = DbVarChar 17,
      sy_default_macaddr8_type = DbVarChar 23, sy_max_unsigned_integer = None\<rparr>"

definition dynamodb_storage :: storage_types where
  "dynamodb_storage =
     \<lparr>sy_default_string_type = DbText, sy_varchar = None, sy_default_uuid_type = DbText,
      sy_default_bytes_type = DbBlob, sy_default_decimal_type = DbText,
      sy_default_bigdecimal_type = DbText, sy_default_timestamp_type = DbText,
      sy_default_zoned_type = DbText, sy_default_date_type = DbText,
      sy_default_time_type = DbText, sy_default_datetime_type = DbText,
      sy_default_cidr_type = DbText, sy_default_inet_type = DbText,
      sy_default_macaddr_type = DbText, sy_default_macaddr8_type = DbText,
      sy_max_unsigned_integer = None\<rparr>"

definition sqlite_mutations :: schema_mutations where
  "sqlite_mutations =
     \<lparr>sm_alter_column_type = False, sm_alter_column_properties_atomic = False\<rparr>"

definition postgresql_mutations :: schema_mutations where
  "postgresql_mutations =
     \<lparr>sm_alter_column_type = True, sm_alter_column_properties_atomic = False\<rparr>"

definition mysql_mutations :: schema_mutations where
  "mysql_mutations =
     \<lparr>sm_alter_column_type = True, sm_alter_column_properties_atomic = True\<rparr>"

definition dynamodb_mutations :: schema_mutations where
  "dynamodb_mutations =
     \<lparr>sm_alter_column_type = False, sm_alter_column_properties_atomic = False\<rparr>"

definition sqlite_capability :: capability where
  "sqlite_capability =
     \<lparr>cb_driver_name = ''SQLite'', cb_sql = Some Sqlite,
      cb_sql_placeholder = Some NumberedQuestionMark, cb_storage_types = sqlite_storage,
      cb_schema_mutations = sqlite_mutations, cb_cte_with_update = False,
      cb_select_for_update = False, cb_returning_from_insert = True,
      cb_returning_from_update = True, cb_upsert_primary_key = True, cb_upsert_unique = True,
      cb_upsert_branch_assignments = True, cb_upsert_targeted_ignore = True,
      cb_primary_key_ne_predicate = True, cb_auto_increment = True,
      cb_max_auto_increment_integer_width = Some 4, cb_max_identifier_length = None,
      cb_native_varchar = True, cb_native_json = False, cb_native_jsonb = False,
      cb_native_timestamp = False, cb_native_date = False, cb_native_time = False,
      cb_native_datetime = False, cb_native_cidr = False, cb_native_inet = False,
      cb_native_macaddr = False, cb_native_macaddr8 = False, cb_native_enum = False,
      cb_named_enum_types = False, cb_native_decimal = False,
      cb_bigdecimal_implemented = False, cb_decimal_arbitrary_precision = False,
      cb_index_or_predicate = True, cb_native_starts_with = True, cb_glob_starts_with = True,
      cb_binary_like_starts_with = False, cb_native_like = True, cb_native_ilike = False,
      cb_scan = True, cb_scan_supports_sort = True, cb_test_connection_pool = False,
      cb_transaction_lock_mode = True, cb_interactive_transactions = True,
      cb_backward_pagination = True, cb_sql_nulls_first_on_asc = True, cb_bool_key_type = True,
      cb_bind_list_param = True, cb_predicate_match_any = False,
      cb_insert_values_unnest = False, cb_native_array = False, cb_vec_scalar = True,
      cb_unique_list_index = False, cb_document_collections = True,
      cb_native_array_set_predicates = True, cb_vec_remove = False, cb_vec_pop = False,
      cb_vec_remove_at = False\<rparr>"

definition postgresql_capability :: capability where
  "postgresql_capability =
     sqlite_capability\<lparr>cb_driver_name := ''PostgreSQL'', cb_cte_with_update := True, cb_sql := Some Postgresql,
      cb_sql_placeholder := Some DollarNumber, cb_storage_types := postgresql_storage,
      cb_schema_mutations := postgresql_mutations, cb_select_for_update := True,
      cb_auto_increment := True, cb_max_auto_increment_integer_width := None,
      cb_bigdecimal_implemented := False, cb_max_identifier_length := Some 63,
      cb_native_starts_with := True, cb_glob_starts_with := False,
      cb_binary_like_starts_with := False, cb_native_ilike := True, cb_native_enum := True,
      cb_named_enum_types := True, cb_native_json := True, cb_native_jsonb := True,
      cb_native_timestamp := True, cb_native_date := True, cb_native_time := True,
      cb_native_datetime := True, cb_native_cidr := True, cb_native_inet := True,
      cb_native_macaddr := True, cb_native_macaddr8 := True, cb_native_decimal := True,
      cb_decimal_arbitrary_precision := True, cb_test_connection_pool := True,
      cb_transaction_lock_mode := False, cb_sql_nulls_first_on_asc := False,
      cb_bind_list_param := True, cb_predicate_match_any := True,
      cb_insert_values_unnest := True, cb_native_array := True, cb_vec_scalar := True,
      cb_unique_list_index := True, cb_document_collections := True, cb_vec_remove := True,
      cb_vec_pop := True, cb_vec_remove_at := True\<rparr>"

definition mysql_capability :: capability where
  "mysql_capability =
     sqlite_capability\<lparr>cb_driver_name := ''MySQL'', cb_cte_with_update := False, cb_sql := Some Mysql,
      cb_sql_placeholder := Some QuestionMark, cb_storage_types := mysql_storage,
      cb_schema_mutations := mysql_mutations, cb_select_for_update := True,
      cb_returning_from_insert := False, cb_returning_from_update := False,
      cb_upsert_primary_key := False, cb_upsert_unique := False,
      cb_upsert_branch_assignments := False, cb_upsert_targeted_ignore := False,
      cb_auto_increment := True, cb_max_auto_increment_integer_width := None,
      cb_bigdecimal_implemented := True, cb_max_identifier_length := Some 64,
      cb_native_enum := True, cb_named_enum_types := False, cb_native_json := True,
      cb_native_timestamp := True, cb_native_date := True, cb_native_time := True,
      cb_native_datetime := True, cb_native_decimal := True,
      cb_decimal_arbitrary_precision := False, cb_test_connection_pool := True,
      cb_transaction_lock_mode := False, cb_bind_list_param := True, cb_vec_scalar := True,
      cb_document_collections := True, cb_glob_starts_with := False,
      cb_binary_like_starts_with := True\<rparr>"

definition mariadb_capability :: capability where
  "mariadb_capability =
     mysql_capability\<lparr>cb_driver_name := ''MariaDB'', cb_sql := Some MariaDb,
      cb_storage_types := mysql_storage\<lparr>sy_default_uuid_type := DbUuid\<rparr>,
      cb_returning_from_insert := True\<rparr>"

definition turso_capability :: capability where
  "turso_capability =
     sqlite_capability\<lparr>cb_driver_name := ''Turso'', cb_test_connection_pool := True\<rparr>"

definition dynamodb_capability :: capability where
  "dynamodb_capability =
     \<lparr>cb_driver_name = ''DynamoDB'', cb_sql = None, cb_sql_placeholder = None,
      cb_storage_types = dynamodb_storage, cb_schema_mutations = dynamodb_mutations,
      cb_cte_with_update = False, cb_select_for_update = False,
      cb_returning_from_insert = False, cb_returning_from_update = False,
      cb_upsert_primary_key = True, cb_upsert_unique = False,
      cb_upsert_branch_assignments = False, cb_upsert_targeted_ignore = True,
      cb_primary_key_ne_predicate = False, cb_auto_increment = False,
      cb_max_auto_increment_integer_width = None, cb_max_identifier_length = None,
      cb_native_varchar = False, cb_native_json = False, cb_native_jsonb = False,
      cb_native_timestamp = False, cb_native_date = False, cb_native_time = False,
      cb_native_datetime = False, cb_native_cidr = False, cb_native_inet = False,
      cb_native_macaddr = False, cb_native_macaddr8 = False, cb_native_enum = False,
      cb_named_enum_types = False, cb_native_decimal = False,
      cb_bigdecimal_implemented = False, cb_decimal_arbitrary_precision = False,
      cb_index_or_predicate = False, cb_native_starts_with = True, cb_glob_starts_with = False,
      cb_binary_like_starts_with = False, cb_native_like = False, cb_native_ilike = False,
      cb_scan = True, cb_scan_supports_sort = False, cb_test_connection_pool = False,
      cb_transaction_lock_mode = False, cb_interactive_transactions = False,
      cb_backward_pagination = False, cb_sql_nulls_first_on_asc = False,
      cb_bool_key_type = False, cb_bind_list_param = False, cb_predicate_match_any = False,
      cb_insert_values_unnest = False, cb_native_array = False, cb_vec_scalar = True,
      cb_unique_list_index = False, cb_document_collections = True,
      cb_native_array_set_predicates = False, cb_vec_remove = False, cb_vec_pop = False,
      cb_vec_remove_at = False\<rparr>"

definition shipped_capabilities :: "capability list" where
  "shipped_capabilities =
     [sqlite_capability, postgresql_capability, mysql_capability, mariadb_capability, turso_capability,
      dynamodb_capability]"

subsection \<open>The shipped capabilities are consistent\<close>

lemma validate_sqlite: "validate sqlite_capability = Ok ()"
  by (simp add: sqlite_capability_def sqlite_storage_def validate_def speaks_sql_def)

lemma validate_postgresql: "validate postgresql_capability = Ok ()"
  by (simp add: postgresql_capability_def sqlite_capability_def postgresql_storage_def validate_def speaks_sql_def)

lemma validate_mysql: "validate mysql_capability = Ok ()"
  by (simp add: mysql_capability_def sqlite_capability_def mysql_storage_def validate_def speaks_sql_def)

lemma validate_mariadb: "validate mariadb_capability = Ok ()"
  by (simp add: mariadb_capability_def mysql_capability_def sqlite_capability_def mysql_storage_def validate_def speaks_sql_def)

lemma validate_turso: "validate turso_capability = Ok ()"
  by (simp add: turso_capability_def sqlite_capability_def sqlite_storage_def validate_def speaks_sql_def)

lemma validate_dynamodb: "validate dynamodb_capability = Ok ()"
  by (simp add: dynamodb_capability_def dynamodb_storage_def validate_def speaks_sql_def)

lemmas validate_shipped = validate_sqlite validate_postgresql validate_mysql validate_mariadb
  validate_turso validate_dynamodb

end
