(* ===== verification/DbSchema.thy ===== *)
theory DbSchema
  imports Capability
begin

text \<open>
  The database schema (\<open>toasty-core/src/schema/db/*.rs\<close>): the storage a column is given, columns,
  indices and tables, and the lookups by id.

  Ids are positions, as in the source: a table id is an index into the tables of the schema, a
  column id an index into the columns of its table.
\<close>

type_synonym table_id = nat
type_synonym column_id = "table_id \<times> nat"
type_synonym index_id = "table_id \<times> nat"

subsection \<open>Storage of application types\<close>

text \<open>\<open>Type::from_app\<close>: a hint wins; otherwise the width of the application type decides, or
  the driver's default.\<close>

fun db_from_app :: "storage_types \<Rightarrow> ty \<Rightarrow> db_ty option \<Rightarrow> db_ty result" where
  "db_from_app S t hint =
     (case hint of
        Some s \<Rightarrow> Ok s
      | None \<Rightarrow>
          (case t of
             TBool \<Rightarrow> Ok DbBoolean
           | TI8 \<Rightarrow> Ok (DbInteger 1)
           | TI16 \<Rightarrow> Ok (DbInteger 2)
           | TI32 \<Rightarrow> Ok (DbInteger 4)
           | TI64 \<Rightarrow> Ok (DbInteger 8)
           | TU8 \<Rightarrow> Ok (DbUnsignedInteger 1)
           | TU16 \<Rightarrow> Ok (DbUnsignedInteger 2)
           | TU32 \<Rightarrow> Ok (DbUnsignedInteger 4)
           | TU64 \<Rightarrow> Ok (DbUnsignedInteger 8)
           | TF32 \<Rightarrow> Ok (DbFloat 4)
           | TF64 \<Rightarrow> Ok (DbFloat 8)
           | TString \<Rightarrow> Ok (sy_default_string_type S)
           | TUuid \<Rightarrow> Ok (sy_default_uuid_type S)
           | TBytes \<Rightarrow> Ok (sy_default_bytes_type S)
           | TModel m \<Rightarrow> Ok (DbDocument True)
           | TList elem \<Rightarrow> rmap db_list (db_from_app S elem None)
           | _ \<Rightarrow> Err (UnsupportedFeature ''type is not supported by this database'')))"

declare db_from_app.simps [simp del]

definition db_from_app_column :: "capability \<Rightarrow> ty \<Rightarrow> db_ty option \<Rightarrow> bool \<Rightarrow> db_ty result" where
  "db_from_app_column C t hint auto_increment =
     rmap (\<lambda>s.
       (case (auto_increment, cb_max_auto_increment_integer_width C) of
          (True, Some mx) \<Rightarrow>
            (case s of
               DbInteger w \<Rightarrow> if w > mx then DbInteger mx else s
             | DbUnsignedInteger w \<Rightarrow> if w > mx then DbUnsignedInteger mx else s
             | _ \<Rightarrow> s)
        | _ \<Rightarrow> s))
       (db_from_app (cb_storage_types C) t hint)"

definition db_verify :: "capability \<Rightarrow> db_ty \<Rightarrow> unit result" where
  "db_verify C t =
     (let unsupported = Err (UnsupportedFeature ''column type is not supported'') in
      case t of
        DbJson \<Rightarrow> if cb_native_json C then Ok () else unsupported
      | DbJsonb \<Rightarrow> if cb_native_jsonb C then Ok () else unsupported
      | DbVarChar n \<Rightarrow>
          (case sy_varchar (cb_storage_types C) of
             Some mx \<Rightarrow> if n > mx then Err (UnsupportedFeature ''VARCHAR exceeds database maximum'') else Ok ()
           | None \<Rightarrow> unsupported)
      | DbCidr \<Rightarrow> if cb_native_cidr C then Ok () else unsupported
      | DbInet \<Rightarrow> if cb_native_inet C then Ok () else unsupported
      | DbMacAddr \<Rightarrow> if cb_native_macaddr C then Ok () else unsupported
      | DbMacAddr8 \<Rightarrow> if cb_native_macaddr8 C then Ok () else unsupported
      | _ \<Rightarrow> Ok ())"

subsection \<open>Tables\<close>

record column =
  co_id :: column_id
  co_name :: string
  co_ty :: ty
  co_storage_ty :: db_ty
  co_nullable :: bool
  co_primary_key :: bool
  co_auto_increment :: bool
  co_versionable :: bool

datatype index_op = IxEq | IxSort direction

datatype index_scope = ScPartition | ScLocal

record index_column =
  ic_column :: column_id
  ic_op :: index_op
  ic_scope :: index_scope

record db_index =
  ix_id :: index_id
  ix_name :: string
  ix_on :: table_id
  ix_columns :: "index_column list"
  ix_unique :: bool
  ix_primary_key :: bool

record primary_key =
  pk_columns :: "column_id list"
  pk_index :: index_id

record db_table =
  tb_id :: table_id
  tb_name :: string
  tb_columns :: "column list"
  tb_primary_key :: primary_key
  tb_indices :: "db_index list"

type_synonym db_schema = "db_table list"

definition schema_table :: "db_schema \<Rightarrow> table_id \<Rightarrow> db_table result" where
  "schema_table S t = (if t < length S then Ok (S ! t) else Err (Panic ''invalid table ID''))"

definition schema_column :: "db_schema \<Rightarrow> column_id \<Rightarrow> column result" where
  "schema_column S c =
     rbind (schema_table S (fst c)) (\<lambda>t.
       if snd c < length (tb_columns t) then Ok (tb_columns t ! snd c)
       else Err (Panic ''invalid column ID''))"

definition schema_index :: "db_schema \<Rightarrow> index_id \<Rightarrow> db_index result" where
  "schema_index S i =
     rbind (schema_table S (fst i)) (\<lambda>t.
       if snd i < length (tb_indices t) then Ok (tb_indices t ! snd i)
       else Err (Panic ''invalid index ID''))"

definition schema_update :: "db_schema \<Rightarrow> table_id \<Rightarrow> (db_table \<Rightarrow> db_table) \<Rightarrow> db_schema result" where
  "schema_update S t f =
     (if t < length S then Ok (S[t := f (S ! t)]) else Err (Panic ''invalid table ID''))"

subsection \<open>Well-formed schemas\<close>

text \<open>
  What the schema builder establishes: ids are positions, the columns of an index and of a
  primary key belong to the table, and names are unique in their scope.
\<close>

definition wf_table :: "nat \<Rightarrow> db_table \<Rightarrow> bool" where
  "wf_table t tb \<longleftrightarrow>
     tb_id tb = t \<and>
     map co_id (tb_columns tb) = map (Pair t) [0..<length (tb_columns tb)] \<and>
     map ix_id (tb_indices tb) = map (Pair t) [0..<length (tb_indices tb)] \<and>
     distinct (map co_name (tb_columns tb)) \<and>
     distinct (map ix_name (tb_indices tb)) \<and>
     list_all (\<lambda>ix. ix_on ix = t \<and>
       list_all (\<lambda>c. fst (ic_column c) = t \<and> snd (ic_column c) < length (tb_columns tb)) (ix_columns ix))
       (tb_indices tb) \<and>
     list_all (\<lambda>c. fst c = t \<and> snd c < length (tb_columns tb)) (pk_columns (tb_primary_key tb))"

definition wf_schema :: "db_schema \<Rightarrow> bool" where
  "wf_schema S \<longleftrightarrow>
     (\<forall>t < length S. wf_table t (S ! t)) \<and>
     distinct (map tb_name S) \<and>
     distinct (concat (map (\<lambda>tb. map ix_name (tb_indices tb)) S))"

lemma schema_table_wf:
  assumes "wf_schema S" "tb \<in> set S"
  shows "schema_table S (tb_id tb) = Ok tb" "wf_table (tb_id tb) tb"
  using assms by (auto simp: wf_schema_def wf_table_def schema_table_def in_set_conv_nth)

lemma nth_of_ids:
  assumes "map f xs = map (Pair t) [0..<length xs]" "x \<in> set xs"
  shows "fst (f x) = t" "snd (f x) < length xs" "xs ! snd (f x) = x"
proof -
  obtain i where i: "i < length xs" "x = xs ! i" using assms(2) by (auto simp: in_set_conv_nth)
  then have "f x = (t, i)" using assms(1) by (metis (no_types) add_0 diff_zero length_upt nth_map nth_upt)
  with i show "fst (f x) = t" "snd (f x) < length xs" "xs ! snd (f x) = x" by auto
qed

lemma wf_table_columns:
  assumes "wf_table t tb" "c \<in> set (tb_columns tb)"
  shows "fst (co_id c) = t" "snd (co_id c) < length (tb_columns tb)" "tb_columns tb ! snd (co_id c) = c"
  using assms nth_of_ids [of co_id "tb_columns tb" t c] by (auto simp: wf_table_def)

lemma wf_table_indices:
  assumes "wf_table t tb" "x \<in> set (tb_indices tb)"
  shows "fst (ix_id x) = t" "snd (ix_id x) < length (tb_indices tb)" "tb_indices tb ! snd (ix_id x) = x"
  using assms nth_of_ids [of ix_id "tb_indices tb" t x] by (auto simp: wf_table_def)

lemma schema_column_wf:
  assumes "wf_schema S" "tb \<in> set S" "c \<in> set (tb_columns tb)"
  shows "schema_column S (co_id c) = Ok c"
  using wf_table_columns [OF schema_table_wf(2) [OF assms(1,2)] assms(3)] schema_table_wf(1) [OF assms(1,2)]
  by (simp add: schema_column_def)

lemma schema_index_wf:
  assumes "wf_schema S" "tb \<in> set S" "x \<in> set (tb_indices tb)"
  shows "schema_index S (ix_id x) = Ok x"
  using wf_table_indices [OF schema_table_wf(2) [OF assms(1,2)] assms(3)] schema_table_wf(1) [OF assms(1,2)]
  by (simp add: schema_index_def)

end
