(* ===== verification/Mir.thy ===== *)
theory Mir
  imports NestedMerge DbSchema
begin

text \<open>
  The operation graph (\<open>toasty/src/engine/mir.rs\<close>, \<open>mir/*.rs\<close>): operations, nodes and the arena
  that holds them.  Statements, assignments and the driver's own pagination are passed through
  as tokens; an \<open>IndexSet\<close> is a list without duplicates, in insertion order.
\<close>

subsection \<open>Operations\<close>

datatype conditional_output = CoNone | CoCount | CoReturning

record pagination_config =
  pc_page_size :: "64 word"
  pc_has_previous_page :: bool
  pc_extract_cursor :: "func option"

record op_eval =
  ev_row_input :: "node_id option"
  ev_inputs :: "node_id list"
  ev_body :: func

record op_exec_statement =
  es_inputs :: "node_id list"
  es_stmt :: stmt
  es_ty :: ty
  es_conditional :: conditional_output
  es_pagination :: "pagination_config option"

record op_filter =
  fi_input :: node_id
  fi_args :: "node_id list"
  fi_predicate :: func
  fi_ty :: ty

record op_find_pk =
  fp_inputs :: "node_id list"
  fp_table :: table_id
  fp_index :: index_id
  fp_filter :: expr
  fp_ty :: ty

record op_get_by_key =
  gk_input :: node_id
  gk_table :: table_id
  gk_columns :: "expr_ref list"
  gk_ty :: ty

record op_delete_by_key =
  dk_input :: node_id
  dk_table :: table_id
  dk_filter :: "expr option"
  dk_condition :: "expr option"
  dk_ty :: ty

record op_update_by_key =
  uk_input :: node_id
  uk_table :: table_id
  uk_assignments :: opaque
  uk_filter :: "expr option"
  uk_condition :: "expr option"
  uk_columns :: "expr_ref list"
  uk_ty :: ty

record op_query_pk =
  qp_inputs :: "node_id list"
  qp_table :: table_id
  qp_index :: "index_id option"
  qp_columns :: "expr_ref list"
  qp_pk_filter :: expr
  qp_row_filter :: "expr option"
  qp_ty :: ty
  qp_limit :: "opaque option"
  qp_order :: "direction option"

record op_scan =
  sc_inputs :: "node_id list"
  sc_table :: table_id
  sc_columns :: "expr_ref list"
  sc_row_filter :: "expr option"
  sc_limit :: "opaque option"
  sc_ty :: ty

record op_nested_merge =
  nm_inputs :: "node_id list"
  nm_root :: level
  nm_hash_indexes :: "merge_index list"
  nm_sort_indexes :: "merge_index list"
  nm_ty :: ty

record op_rmw =
  rw_inputs :: "node_id list"
  rw_read :: query
  rw_write :: stmt
  rw_ty :: ty

record op_upsert =
  up_inputs :: "node_id list"
  up_stmt :: opaque
  up_ty :: ty

datatype mir_op =
    MAlias node_id ty
  | MConst val ty
  | MDeleteByKey op_delete_by_key
  | MEval op_eval
  | MExecStatement op_exec_statement
  | MFilter op_filter
  | MFindPkByIndex op_find_pk
  | MGetByKey op_get_by_key
  | MNestedMerge op_nested_merge
  | MReadModifyWrite op_rmw
  | MRepeat node_id val ty
  | MQueryPk op_query_pk
  | MScan op_scan
  | MUpdateByKey op_update_by_key
  | MUpsert op_upsert

fun op_ty :: "mir_op \<Rightarrow> ty" where
  "op_ty (MAlias _ t) = t"
| "op_ty (MConst _ t) = t"
| "op_ty (MDeleteByKey m) = dk_ty m"
| "op_ty (MEval m) = fn_ret (ev_body m)"
| "op_ty (MExecStatement m) = es_ty m"
| "op_ty (MFilter m) = fi_ty m"
| "op_ty (MFindPkByIndex m) = fp_ty m"
| "op_ty (MGetByKey m) = gk_ty m"
| "op_ty (MNestedMerge m) = nm_ty m"
| "op_ty (MReadModifyWrite m) = rw_ty m"
| "op_ty (MRepeat _ _ t) = t"
| "op_ty (MQueryPk m) = qp_ty m"
| "op_ty (MScan m) = sc_ty m"
| "op_ty (MUpdateByKey m) = uk_ty m"
| "op_ty (MUpsert m) = up_ty m"

text \<open>\<open>input_reads\<close>: the nodes an operation reads, and whether only while iterating another's rows.\<close>

datatype input_read = Always | PerRowOf node_id

fun input_reads :: "mir_op \<Rightarrow> (node_id \<times> input_read) list" where
  "input_reads (MAlias i _) = [(i, Always)]"
| "input_reads (MConst _ _) = []"
| "input_reads (MDeleteByKey m) = [(dk_input m, Always)]"
| "input_reads (MEval m) =
     (case ev_row_input m of
        Some row \<Rightarrow> (row, Always) # map (\<lambda>i. (i, PerRowOf row)) (ev_inputs m)
      | None \<Rightarrow> map (\<lambda>i. (i, Always)) (ev_inputs m))"
| "input_reads (MExecStatement m) = map (\<lambda>i. (i, Always)) (es_inputs m)"
| "input_reads (MFilter m) = (fi_input m, Always) # map (\<lambda>i. (i, Always)) (fi_args m)"
| "input_reads (MFindPkByIndex m) = map (\<lambda>i. (i, Always)) (fp_inputs m)"
| "input_reads (MGetByKey m) = [(gk_input m, Always)]"
| "input_reads (MNestedMerge m) = map (\<lambda>i. (i, Always)) (nm_inputs m)"
| "input_reads (MReadModifyWrite m) = map (\<lambda>i. (i, Always)) (rw_inputs m)"
| "input_reads (MRepeat i _ _) = [(i, Always)]"
| "input_reads (MQueryPk m) = map (\<lambda>i. (i, Always)) (qp_inputs m)"
| "input_reads (MScan m) = map (\<lambda>i. (i, Always)) (sc_inputs m)"
| "input_reads (MUpdateByKey m) = [(uk_input m, Always)]"
| "input_reads (MUpsert m) = map (\<lambda>i. (i, Always)) (up_inputs m)"

definition index_set_insert :: "'a list \<Rightarrow> 'a \<Rightarrow> 'a list" where
  "index_set_insert xs x = (if x \<in> set xs then xs else xs @ [x])"

definition index_set :: "'a list \<Rightarrow> 'a list" where
  "index_set xs = foldl index_set_insert [] xs"

definition op_inputs :: "mir_op \<Rightarrow> node_id list" where
  "op_inputs op = index_set (map fst (input_reads op))"

definition input_loads :: "mir_op \<Rightarrow> node_id list" where
  "input_loads op = op_inputs op"

fun is_db_op :: "mir_op \<Rightarrow> bool" where
  "is_db_op (MAlias _ _) = False"
| "is_db_op (MConst _ _) = False"
| "is_db_op (MEval _) = False"
| "is_db_op (MFilter _) = False"
| "is_db_op (MNestedMerge _) = False"
| "is_db_op (MRepeat _ _ _) = False"
| "is_db_op _ = True"

text \<open>\<open>mutating\<close> is the classification of statements of \<open>effect.rs\<close>.\<close>

fun is_effectful :: "(stmt \<Rightarrow> bool) \<Rightarrow> mir_op \<Rightarrow> bool" where
  "is_effectful mutating (MDeleteByKey _) = True"
| "is_effectful mutating (MReadModifyWrite _) = True"
| "is_effectful mutating (MUpdateByKey _) = True"
| "is_effectful mutating (MUpsert _) = True"
| "is_effectful mutating (MExecStatement m) = mutating (es_stmt m)"
| "is_effectful mutating _ = False"

subsection \<open>Nodes and the arena\<close>

record node =
  nd_op :: mir_op
  nd_deps :: "node_id list"
  nd_guard :: "node_id option"
  nd_uses :: nat

definition node_of :: "mir_op \<Rightarrow> node" where
  "node_of op = \<lparr>nd_op = op, nd_deps = op_inputs op, nd_guard = None, nd_uses = 0\<rparr>"

datatype mir_slot = Reserved | Filled node

type_synonym store = "mir_slot list"

definition store_insert :: "store \<Rightarrow> node \<Rightarrow> node_id \<times> store" where
  "store_insert st n = (length st, st @ [Filled n])"

definition store_insert_with_deps :: "store \<Rightarrow> node \<Rightarrow> node_id list \<Rightarrow> node_id \<times> store" where
  "store_insert_with_deps st n deps =
     store_insert st (n\<lparr>nd_deps := foldl index_set_insert (nd_deps n) deps\<rparr>)"

definition store_reserve :: "store \<Rightarrow> node_id \<times> store" where
  "store_reserve st = (length st, st @ [Reserved])"

definition store_fill :: "store \<Rightarrow> node_id \<Rightarrow> node \<Rightarrow> store result" where
  "store_fill st i n =
     rbind (slice_at st i) (\<lambda>slot.
       case slot of
         Reserved \<Rightarrow> Ok (st[i := Filled n])
       | Filled _ \<Rightarrow> Err (Panic ''fill of non-reserved slot''))"

definition all_filled :: "store \<Rightarrow> bool" where
  "all_filled st = list_all (\<lambda>slot. slot \<noteq> Reserved) st"

definition store_at :: "store \<Rightarrow> node_id \<Rightarrow> node result" where
  "store_at st i =
     rbind (slice_at st i) (\<lambda>slot.
       case slot of Filled n \<Rightarrow> Ok n | Reserved \<Rightarrow> Err (Panic ''reserved MIR slot read before fill''))"

definition store_update :: "store \<Rightarrow> node_id \<Rightarrow> (node \<Rightarrow> node) \<Rightarrow> store result" where
  "store_update st i f = rmap (\<lambda>n. st[i := Filled (f n)]) (store_at st i)"

text \<open>\<open>Eval::map_over\<close> wraps the body in a map over its first argument.\<close>

definition climb_map :: "expr \<Rightarrow> nat \<Rightarrow> expr option" where
  "climb_map e depth =
     (case e of
        EArg i n \<Rightarrow> if n = depth \<and> i \<ge> 1 then Some (EArg i (n + 1)) else None
      | _ \<Rightarrow> None)"

definition eval_map_over :: "store \<Rightarrow> node_id \<Rightarrow> node_id list \<Rightarrow> func \<Rightarrow> op_eval result" where
  "eval_map_over st row inputs body =
     rbind (store_at st row) (\<lambda>r.
     rmap (\<lambda>ns. \<lparr>ev_row_input = Some row, ev_inputs = inputs,
         ev_body = \<lparr>fn_args = op_ty (nd_op r) # map (\<lambda>n. op_ty (nd_op n)) ns, fn_ret = TList (fn_ret body),
           fn_expr = EMap (EArg 0 0) (walk_scoped climb_map 0 (fn_expr body))\<rparr>\<rparr>)
       (traverse (store_at st) inputs))"

definition eval_compute :: "node_id list \<Rightarrow> func \<Rightarrow> op_eval" where
  "eval_compute inputs body = \<lparr>ev_row_input = None, ev_inputs = inputs, ev_body = body\<rparr>"

subsection \<open>Facts on index sets\<close>

lemma foldl_index_set:
  "set (foldl index_set_insert acc xs) = set acc \<union> set xs"
  "distinct acc \<Longrightarrow> distinct (foldl index_set_insert acc xs)"
  by (induction xs arbitrary: acc) (auto simp: index_set_insert_def)

lemma index_set [simp]: "set (index_set xs) = set xs" "distinct (index_set xs)"
  by (simp_all add: index_set_def foldl_index_set)

lemma foldl_index_set_distinct: "distinct (acc @ xs) \<Longrightarrow> foldl index_set_insert acc xs = acc @ xs"
  by (induction xs arbitrary: acc) (auto simp: index_set_insert_def)

lemma index_set_distinct: "distinct xs \<Longrightarrow> index_set xs = xs"
  by (simp add: index_set_def foldl_index_set_distinct)

lemma set_op_inputs: "set (op_inputs op) = fst ` set (input_reads op)"
  by (simp add: op_inputs_def)

lemma distinct_input_loads [simp]: "distinct (input_loads op)"
  by (simp add: input_loads_def op_inputs_def)

lemma store_at_Ok: "store_at st i = Ok n \<longleftrightarrow> i < length st \<and> st ! i = Filled n"
  by (auto simp: store_at_def slice_at_def split: mir_slot.splits)

lemma store_update_Ok:
  "store_update st i f = Ok st' \<longleftrightarrow> (\<exists>n. i < length st \<and> st ! i = Filled n \<and> st' = st[i := Filled (f n)])"
  by (auto simp: store_update_def rmap_eq_Ok store_at_Ok)

end
