(* ===== verification/LogicalPlan.thy ===== *)
theory LogicalPlan
  imports Mir
begin

text \<open>
  The complete plan of a query: execution order, use counts and guards
  (\<open>toasty/src/engine/mir/logical_plan.rs\<close>, \<open>mir/guards.rs\<close>).

  The recursion of the depth-first visit carries fuel: a call marks a node that was not
  visited before, so one more than the number of nodes is enough.
\<close>

fun fold_ok :: "('a \<Rightarrow> 's \<Rightarrow> 's result) \<Rightarrow> 'a list \<Rightarrow> 's \<Rightarrow> 's result" where
  "fold_ok f [] s = Ok s"
| "fold_ok f (x # xs) s = rbind (f x s) (fold_ok f xs)"

subsection \<open>Execution order\<close>

fun visit_operation ::
  "nat \<Rightarrow> store \<Rightarrow> node_id \<Rightarrow> bool list \<times> node_id list \<Rightarrow> (bool list \<times> node_id list) result" where
  "visit_operation 0 st n s = Err OutOfFuel"
| "visit_operation (Suc k) st n (visited, order) =
     rbind (slice_at visited n) (\<lambda>seen.
       if seen then Ok (visited, order)
       else
         rbind (store_at st n) (\<lambda>nd.
         rmap (\<lambda>(v, os). (v, os @ [n]))
           (fold_ok (visit_operation k st) (nd_deps nd) (visited[n := True], order))))"

definition execution_order :: "node_id \<Rightarrow> store \<Rightarrow> node_id list result" where
  "execution_order n st =
     rmap snd (visit_operation (Suc (length st)) st n (replicate (length st) False, []))"

subsection \<open>Use counts\<close>

definition add_use :: "node_id \<Rightarrow> store \<Rightarrow> store result" where
  "add_use i st = store_update st i (\<lambda>n. n\<lparr>nd_uses := nd_uses n + 1\<rparr>)"

definition count_loads :: "node_id \<Rightarrow> store \<Rightarrow> store result" where
  "count_loads n st = rbind (store_at st n) (\<lambda>nd. fold_ok add_use (input_loads (nd_op nd)) st)"

subsection \<open>Guards\<close>

datatype consumption = CNone | OnlyUnder node_id | Observed

definition contribute :: "consumption \<Rightarrow> node_id option \<Rightarrow> consumption" where
  "contribute c contribution =
     (case (c, contribution) of
        (CNone, Some x) \<Rightarrow> OnlyUnder x
      | (OnlyUnder prev, Some x) \<Rightarrow> if prev = x then OnlyUnder prev else Observed
      | _ \<Rightarrow> Observed)"

definition contribution :: "node_id option \<Rightarrow> input_read \<Rightarrow> node_id option" where
  "contribution own read = (case read of PerRowOf row \<Rightarrow> Some row | Always \<Rightarrow> own)"

definition push_read ::
  "node_id option \<Rightarrow> node_id \<times> input_read \<Rightarrow> consumption list \<Rightarrow> consumption list result" where
  "push_read own ir cs =
     rmap (\<lambda>c. cs[fst ir := contribute c (contribution own (snd ir))]) (slice_at cs (fst ir))"

definition positions :: "nat \<Rightarrow> node_id list \<Rightarrow> nat list" where
  "positions n order = foldl (\<lambda>ps (i, x). ps[x := i]) (replicate n 0) (enumerate 0 order)"

definition guard_node ::
  "(stmt \<Rightarrow> bool) \<Rightarrow> node_id \<Rightarrow> nat list \<Rightarrow> node_id \<Rightarrow> store \<times> consumption list \<Rightarrow>
   (store \<times> consumption list) result" where
  "guard_node mutating completion pos i = (\<lambda>(st, cs).
     rbind (store_at st i) (\<lambda>nd.
     rbind (slice_at cs i) (\<lambda>c.
       let eligible = \<not> is_effectful mutating (nd_op nd) \<and> i \<noteq> completion;
           guard = (case c of
              OnlyUnder x \<Rightarrow> if eligible \<and> pos ! x < pos ! i then Some x else nd_guard nd
            | _ \<Rightarrow> nd_guard nd)
       in rmap (Pair (st[i := Filled (nd\<lparr>nd_guard := guard\<rparr>)]))
            (fold_ok (push_read guard) (input_reads (nd_op nd)) cs))))"

definition annotate_guards ::
  "(stmt \<Rightarrow> bool) \<Rightarrow> node_id list \<Rightarrow> node_id \<Rightarrow> store \<Rightarrow> store result" where
  "annotate_guards mutating order completion st =
     rmap fst
       (fold_ok (guard_node mutating completion (positions (length st) order)) (rev order)
          (st, replicate (length st) CNone))"

subsection \<open>The plan\<close>

record logical_plan =
  lp_store :: store
  lp_order :: "node_id list"
  lp_completion :: node_id

definition logical_plan_new :: "(stmt \<Rightarrow> bool) \<Rightarrow> store \<Rightarrow> node_id \<Rightarrow> logical_plan result" where
  "logical_plan_new mutating st completion =
     rbind (execution_order completion st) (\<lambda>order.
     rbind (add_use completion st) (\<lambda>st1.
     rbind (fold_ok count_loads order st1) (\<lambda>st2.
     rmap (\<lambda>st3. \<lparr>lp_store = st3, lp_order = order, lp_completion = completion\<rparr>)
       (annotate_guards mutating order completion st2))))"

definition plan_at :: "logical_plan \<Rightarrow> node_id \<Rightarrow> node result" where
  "plan_at plan = store_at (lp_store plan)"

end
