(* ===== verification/PlanSteps.thy ===== *)
theory PlanSteps
  imports LogicalPlan
begin

text \<open>
  From the plan to the program the executor runs (\<open>toasty/src/engine/plan/execution.rs\<close>,
  \<open>exec/plan.rs\<close>, \<open>exec/branch.rs\<close>): runs of nodes with the same guard become one conditional
  block, with the bookkeeping for the path that skips it.
\<close>

record if_block =
  if_then :: "node_id list"
  if_skipped_inputs :: "node_id list"
  if_skipped_outputs :: "(node_id \<times> nat) list"

datatype plan_step = StepRun node_id | StepIf if_block

definition loads_at :: "logical_plan \<Rightarrow> node_id \<Rightarrow> node_id list result" where
  "loads_at plan n = rmap (\<lambda>nd. input_loads (nd_op nd)) (plan_at plan n)"

definition block_loads :: "logical_plan \<Rightarrow> node_id list \<Rightarrow> node_id list result" where
  "block_loads plan block = rmap concat (traverse (loads_at plan) block)"

definition collect_skipped_inputs :: "logical_plan \<Rightarrow> node_id list \<Rightarrow> node_id list result" where
  "collect_skipped_inputs plan block =
     rmap (filter (\<lambda>load. load \<notin> set block)) (block_loads plan block)"

text \<open>\<open>usize\<close> subtraction, wrapping as it does without debug assertions.\<close>

definition usize_sub :: "nat \<Rightarrow> nat \<Rightarrow> nat" where
  "usize_sub a b = nat ((int a - int b) mod 2 ^ 64)"

definition external_use_count :: "logical_plan \<Rightarrow> node_id list \<Rightarrow> node_id \<Rightarrow> nat result" where
  "external_use_count plan block n =
     rbind (block_loads plan block) (\<lambda>loads.
     rmap (\<lambda>nd. usize_sub (nd_uses nd) (count_list loads n)) (plan_at plan n))"

definition collect_skipped_outputs :: "logical_plan \<Rightarrow> node_id list \<Rightarrow> (node_id \<times> nat) list result" where
  "collect_skipped_outputs plan block =
     rmap (filter (\<lambda>(n, uses). uses > 0))
       (traverse (\<lambda>n. rmap (Pair n) (external_use_count plan block n)) block)"

definition emit_if_block :: "logical_plan \<Rightarrow> node_id list \<Rightarrow> plan_step result" where
  "emit_if_block plan block =
     rbind (collect_skipped_inputs plan block) (\<lambda>ins.
     rmap (\<lambda>outs. StepIf \<lparr>if_then = block, if_skipped_inputs = ins, if_skipped_outputs = outs\<rparr>)
       (collect_skipped_outputs plan block))"

type_synonym planner = "plan_step list \<times> node_id list" \<comment> \<open>steps so far, open block\<close>

definition flush_if_block :: "logical_plan \<Rightarrow> planner \<Rightarrow> planner result" where
  "flush_if_block plan = (\<lambda>(steps, block).
     if block = [] then Ok (steps, [])
     else rmap (\<lambda>s. (steps @ [s], [])) (emit_if_block plan block))"

definition plan_node :: "logical_plan \<Rightarrow> node_id \<Rightarrow> planner \<Rightarrow> planner result" where
  "plan_node plan n = (\<lambda>(steps, block).
     rbind (plan_at plan n) (\<lambda>nd.
     rbind (case block of
              [] \<Rightarrow> Ok (steps, block)
            | first # _ \<Rightarrow>
                rbind (plan_at plan first) (\<lambda>nd1.
                  if nd_guard nd \<noteq> nd_guard nd1 then flush_if_block plan (steps, block)
                  else Ok (steps, block))) (\<lambda>(steps', block').
     Ok (if nd_guard nd \<noteq> None then (steps', block' @ [n]) else (steps' @ [StepRun n], block')))))"

definition plan_steps :: "logical_plan \<Rightarrow> plan_step list result" where
  "plan_steps plan =
     rbind (fold_ok (plan_node plan) (lp_order plan) ([], [])) (\<lambda>s. rmap fst (flush_if_block plan s))"

subsection \<open>Transactions\<close>

definition db_op_count :: "logical_plan \<Rightarrow> plan_step \<Rightarrow> nat result" where
  "db_op_count plan s =
     (case s of
        StepRun n \<Rightarrow> rmap (\<lambda>nd. if is_db_op (nd_op nd) then 1 else 0) (plan_at plan n)
      | StepIf b \<Rightarrow>
          rmap (\<lambda>nds. length (filter (\<lambda>nd. is_db_op (nd_op nd)) nds)) (traverse (plan_at plan) (if_then b)))"

definition step_writes :: "(stmt \<Rightarrow> bool) \<Rightarrow> logical_plan \<Rightarrow> plan_step \<Rightarrow> bool result" where
  "step_writes mutating plan s =
     (case s of
        StepRun n \<Rightarrow> rmap (\<lambda>nd. is_effectful mutating (nd_op nd)) (plan_at plan n)
      | StepIf b \<Rightarrow> any_ok (\<lambda>n. rmap (\<lambda>nd. is_effectful mutating (nd_op nd)) (plan_at plan n)) (if_then b))"

definition needs_transaction ::
  "(stmt \<Rightarrow> bool) \<Rightarrow> bool \<Rightarrow> bool \<Rightarrow> logical_plan \<Rightarrow> plan_step list \<Rightarrow> bool result" where
  "needs_transaction mutating use_transactions interactive plan steps =
     rbind (rmap sum_list (traverse (db_op_count plan) steps)) (\<lambda>db_ops.
       if \<not> use_transactions \<or> db_ops \<le> 1 then Ok False
       else
         rbind (any_ok (step_writes mutating plan) steps) (\<lambda>writes.
           if writes \<and> \<not> interactive
           then Err (UnsupportedFeature
             ''the plan needs a transaction, but the driver does not support interactive transactions'')
           else Ok (writes \<or> interactive)))"

record exec_plan =
  ep_plan :: logical_plan
  ep_slots :: slots
  ep_steps :: "plan_step list"
  ep_returning :: node_id
  ep_needs_transaction :: bool

definition plan_execution :: "(stmt \<Rightarrow> bool) \<Rightarrow> bool \<Rightarrow> bool \<Rightarrow> logical_plan \<Rightarrow> exec_plan result" where
  "plan_execution mutating sql interactive plan =
     rbind (plan_steps plan) (\<lambda>steps.
     rmap (\<lambda>needs. \<lparr>ep_plan = plan, ep_slots = vars_new (length (lp_store plan)), ep_steps = steps,
         ep_returning = lp_completion plan, ep_needs_transaction = needs\<rparr>)
       (needs_transaction mutating sql interactive plan steps))"

end
