(* ===== verification/Exec.thy ===== *)
theory Exec
  imports PlanSteps Substitute
begin

text \<open>
  The executor (\<open>toasty/src/engine/exec.rs\<close>, \<open>exec/*.rs\<close>): one function per operation, the
  conditional blocks and the plan with its transaction.

  The engine around it is a record of functions: the driver, and the passes on whole
  statements that this development does not model (binding and simplifying a statement,
  legalizing it and extracting its parameters, splitting a returning update for MySQL).
\<close>

subsection \<open>Operations sent to a driver\<close>

datatype isolation_level = ReadUncommitted | ReadCommitted | RepeatableRead | Serializable

datatype transaction_mode = ModeDefault | ModeDeferred | ModeImmediate | ModeExclusive

datatype transaction =
    TxStart "isolation_level option" bool transaction_mode \<comment> \<open>isolation, read only, mode\<close>
  | TxCommit | TxRollback | TxSavepoint string | TxRelease string | TxRollbackTo string

definition tx_start :: transaction where
  "tx_start = TxStart None False ModeDefault"

datatype driver_op =
    DTransaction transaction
  | DGetByKey table_id "column_id list" "val list"
  | DDeleteByKey table_id "val list" "expr option" "expr option"
  | DUpdateByKey table_id "val list" opaque "expr option" "expr option" "column_id list option"
  | DFindPkByIndex table_id index_id expr
  | DQueryPk table_id "index_id option" "column_id list" expr "expr option" "opaque option" "direction option"
  | DScan table_id "nat list" "expr option" "opaque option"
  | DInsert stmt "val list" "ty list option"
  | DQuerySql stmt "val list" "ty list option"
  | DUpsert opaque "val list" "ty list option"
  | DRawSql opaque

record 'd engine =
  en_driver :: "driver_op \<Rightarrow> 'd \<Rightarrow> response result \<times> 'd"
  en_uuid :: uuid_ops
  en_models :: resolve
  en_bind :: "stmt \<Rightarrow> val list \<Rightarrow> stmt result"
  en_bind_upsert :: "opaque \<Rightarrow> val list \<Rightarrow> opaque result"
  en_prepare :: "stmt \<Rightarrow> stmt \<times> val list"
  en_prepare_upsert :: "opaque \<Rightarrow> opaque \<times> val list"
  en_simplify :: "table_id \<Rightarrow> expr \<Rightarrow> expr result"
  en_split_returning :: "stmt \<Rightarrow> (stmt \<times> stmt) option"
  en_has_returning :: "stmt \<Rightarrow> bool"
  en_mutating :: "stmt \<Rightarrow> bool"
  en_backward_pagination :: bool
  en_sql :: bool
  en_interactive :: bool

record 'd exec_state =
  xs_conn :: 'd
  xs_slots :: slots
  xs_in_tx :: bool

definition on_slots :: "(slots, 'a) step \<Rightarrow> ('d exec_state, 'a) step" where
  "on_slots f xs = (case f (xs_slots xs) of (r, slots) \<Rightarrow> (r, xs\<lparr>xs_slots := slots\<rparr>))"

definition exec_driver :: "'d engine \<Rightarrow> driver_op \<Rightarrow> ('d exec_state, response) step" where
  "exec_driver E op xs =
     (case en_driver E op (xs_conn xs) of (r, conn) \<Rightarrow> (outcome_of r, xs\<lparr>xs_conn := conn\<rparr>))"

definition load :: "'d engine \<Rightarrow> node_id \<Rightarrow> ('d exec_state, response) step" where
  "load E n = on_slots (vars_load (en_models E) n)"

definition load_value :: "'d engine \<Rightarrow> node_id \<Rightarrow> ('d exec_state, val) step" where
  "load_value E n = sbind (load E n) (\<lambda>resp. slift (collect_as_value (en_models E) (re_values resp)))"

definition collect_input :: "'d engine \<Rightarrow> node_id list \<Rightarrow> ('d exec_state, val list) step" where
  "collect_input E = straverse (load_value E)"

definition column_ids :: "table_id \<Rightarrow> expr_ref list \<Rightarrow> column_id list result" where
  "column_ids table = traverse (\<lambda>r. case r of RColumn nesting t c \<Rightarrow> Ok (table, c) | _ \<Rightarrow> todo)"

definition row_field_types :: "ty \<Rightarrow> ty list option result" where
  "row_field_types t =
     (case t of
        TList (TRecord cols) \<Rightarrow> Ok (Some cols)
      | TUnit \<Rightarrow> Ok None
      | _ \<Rightarrow> todo)"

definition into_list :: "val \<Rightarrow> val list result" where
  "into_list v = (case v of VList vs \<Rightarrow> Ok vs | _ \<Rightarrow> Err (Panic ''expected list''))"

subsection \<open>Keys and filters of key-value operations\<close>

fun is_absent_key :: "val \<Rightarrow> bool" where
  "is_absent_key VNull = True"
| "is_absent_key (VRecord vs) = list_ex is_absent_key vs"
| "is_absent_key _ = False"

definition is_input_arg :: "expr \<Rightarrow> bool" where
  "is_input_arg e =
     (case e of
        EArg _ _ \<Rightarrow> True
      | EProject b _ \<Rightarrow> (case b of EArg _ _ \<Rightarrow> True | _ \<Rightarrow> False)
      | _ \<Rightarrow> False)"

function for_each_expr_mut :: "(expr \<Rightarrow> expr result) \<Rightarrow> expr \<Rightarrow> expr result" where
  "for_each_expr_mut f e = rbind (visit_expr (for_each_expr_mut f) e) f"
  by pat_completeness auto

termination
  by (relation "measure (\<lambda>(f, e). size e)") (auto dest: children_size)

declare for_each_expr_mut.simps [simp del]

definition bind_candidates :: "val list \<Rightarrow> expr \<Rightarrow> expr result" where
  "bind_candidates args e =
     (case e of
        EInList needle l \<Rightarrow>
          (if is_input_arg l then
             rmap (\<lambda>l'. EInList needle
                 (case l' of
                    EValue (VList vs) \<Rightarrow> EValue (VList (filter (\<lambda>v. \<not> is_absent_key v) vs))
                  | _ \<Rightarrow> l'))
               (substitute (value_input args) l)
           else Ok e)
      | _ \<Rightarrow> Ok e)"

text \<open>False when the filter can match no row; a filter that is \<open>true\<close> is dropped.\<close>

definition bind_row_filter ::
  "'d engine \<Rightarrow> table_id \<Rightarrow> val list \<Rightarrow> expr option \<Rightarrow> (bool \<times> expr option) result" where
  "bind_row_filter E table args fil =
     (case fil of
        None \<Rightarrow> Ok (True, None)
      | Some e \<Rightarrow>
          rbind (for_each_expr_mut (bind_candidates args) e) (\<lambda>e1.
          rbind (substitute (value_input args) e1) (\<lambda>e2.
          rmap (\<lambda>e3.
              if is_unsatisfiable e3 then (False, Some e3)
              else (True, if is_true e3 then None else Some e3))
            (en_simplify E table e2))))"

definition keep_satisfiable :: "expr list \<Rightarrow> expr list" where
  "keep_satisfiable = filter (\<lambda>e. \<not> is_unsatisfiable e)"

definition split_filter_any_map :: "'d engine \<Rightarrow> table_id \<Rightarrow> expr \<Rightarrow> expr list result" where
  "split_filter_any_map E table e =
     (case e of
        EMap (EValue (VList items)) pred \<Rightarrow>
          rmap keep_satisfiable
            (traverse (\<lambda>item. rbind
                (substitute (value_input (case item of VRecord cols \<Rightarrow> cols | _ \<Rightarrow> [item])) pred)
                (en_simplify E table))
              (value_dedup [] (filter (\<lambda>item. \<not> is_null item) items)))
      | _ \<Rightarrow> Err (Panic ''unreachable''))"

definition split_filter_in_list :: "'d engine \<Rightarrow> table_id \<Rightarrow> expr \<Rightarrow> expr \<Rightarrow> expr list result" where
  "split_filter_in_list E table e l =
     (case l of
        EValue (VList vs) \<Rightarrow>
          rmap keep_satisfiable
            (traverse (\<lambda>v. en_simplify E table (EBinaryOp e OpEq (EValue v)))
              (value_dedup [] (filter (\<lambda>v. \<not> is_absent_key v) vs)))
      | _ \<Rightarrow> Err (Panic ''unreachable''))"

definition split_filter :: "'d engine \<Rightarrow> table_id \<Rightarrow> expr \<Rightarrow> expr list result" where
  "split_filter E table e =
     (case e of
        EAny m \<Rightarrow> split_filter_any_map E table m
      | EInList needle l \<Rightarrow> split_filter_in_list E table needle l
      | _ \<Rightarrow> rmap (\<lambda>e'. keep_satisfiable [e']) (en_simplify E table e))"

subsection \<open>In-memory operations\<close>

definition exec_eval_compute :: "'d engine \<Rightarrow> op_eval \<Rightarrow> ('d exec_state, response) step" where
  "exec_eval_compute E m =
     sbind (collect_input E (ev_inputs m)) (\<lambda>args.
     slift (rmap (\<lambda>v. from_rows (RValue v))
       (func_eval (en_uuid E) (en_models E) (ev_body m) (value_input args))))"

definition exec_eval_map_over :: "'d engine \<Rightarrow> op_eval \<Rightarrow> node_id \<Rightarrow> ('d exec_state, response) step" where
  "exec_eval_map_over E m row =
     sbind (load E row) (\<lambda>resp.
     sbind (slift (collect_as_value (en_models E) (re_values resp))) (\<lambda>rows.
       if rows = VList [] then
         sbind (straverse (\<lambda>i. on_slots (vars_release i)) (ev_inputs m)) (\<lambda>_.
         sret (with_rows resp (RValue (VList []))))
       else
         sbind (collect_input E (ev_inputs m)) (\<lambda>args.
         slift (rmap (\<lambda>v. with_rows resp (RValue v))
           (func_eval (en_uuid E) (en_models E) (ev_body m) (value_input (rows # args)))))))"

definition exec_eval :: "'d engine \<Rightarrow> op_eval \<Rightarrow> ('d exec_state, response) step" where
  "exec_eval E m =
     (case ev_row_input m of
        Some row \<Rightarrow> exec_eval_map_over E m row
      | None \<Rightarrow> exec_eval_compute E m)"

fun filter_rows :: "(val \<Rightarrow> bool result) \<Rightarrow> val result list \<Rightarrow> val list result" where
  "filter_rows keep [] = Ok []"
| "filter_rows keep (item # items) =
     rbind item (\<lambda>row. rbind (keep row) (\<lambda>b.
       if b then rmap (Cons row) (filter_rows keep items) else filter_rows keep items))"

text \<open>The items a stream delivers, one by one.\<close>

definition stream_items :: "resolve \<Rightarrow> value_stream \<Rightarrow> val result list" where
  "stream_items R vs =
     map Ok (buf_items (vs_buffer vs)) @
     (case vs_stream vs of None \<Rightarrow> [] | Some items \<Rightarrow> map (\<lambda>i. rbind i (typed_item R (vs_ty vs))) items)"

definition exec_filter :: "'d engine \<Rightarrow> op_filter \<Rightarrow> ('d exec_state, response) step" where
  "exec_filter E m =
     sbind (collect_input E (fi_args m)) (\<lambda>args.
     sbind (load E (fi_input m)) (\<lambda>resp.
     sbind (slift (into_value_stream (re_values resp))) (\<lambda>vs.
     slift (rmap (\<lambda>rows. with_rows resp (value_rows rows))
       (filter_rows (\<lambda>row. func_eval_bool (en_uuid E) (en_models E) (fi_predicate m) (value_input (row # args)))
         (stream_items (en_models E) vs))))))"

definition repeat_count :: "resolve \<Rightarrow> rows \<Rightarrow> nat result" where
  "repeat_count R r =
     (case r of
        RCount c \<Rightarrow> Ok (unat c)
      | RValue (VList items) \<Rightarrow> Ok (length items)
      | RValue _ \<Rightarrow> todo
      | RStream vs \<Rightarrow> rmap length (stream_collect R vs))"

definition exec_repeat :: "'d engine \<Rightarrow> node_id \<Rightarrow> val \<Rightarrow> ('d exec_state, response) step" where
  "exec_repeat E i v =
     sbind (load E i) (\<lambda>resp.
     slift (rmap (\<lambda>n. with_rows resp (value_rows (replicate n v)))
       (repeat_count (en_models E) (re_values resp))))"

text \<open>The inputs of a merge are loaded in order; the root's response gives the cursors.\<close>

fun load_merge_inputs ::
  "'d engine \<Rightarrow> nat \<Rightarrow> nat \<Rightarrow> node_id list \<Rightarrow> ('d exec_state, merge_input list \<times> val option \<times> val option) step" where
  "load_merge_inputs E top_src i [] = sret ([], None, None)"
| "load_merge_inputs E top_src i (n # ns) =
     sbind (load E n) (\<lambda>resp.
     sbind (slift (input_of_rows (en_models E) (re_values resp))) (\<lambda>inp.
     sbind (load_merge_inputs E top_src (Suc i) ns) (\<lambda>(inps, nxt, prv).
     sret (inp # inps, if i = top_src then (re_next resp, re_prev resp) else (nxt, prv)))))"

definition exec_nested_merge :: "'d engine \<Rightarrow> op_nested_merge \<Rightarrow> ('d exec_state, response) step" where
  "exec_nested_merge E m =
     sbind (load_merge_inputs E (lv_source (nm_root m)) 0 (nm_inputs m)) (\<lambda>(inputs, nxt, prv).
     slift (rmap (\<lambda>rows. \<lparr>re_values = value_rows rows, re_next = nxt, re_prev = prv\<rparr>)
       (merge_rows (en_uuid E) (en_models E) (nm_root m) (nm_hash_indexes m) (nm_sort_indexes m) inputs)))"

end
