(* ===== verification/ExecPlan.thy ===== *)
theory ExecPlan
  imports Exec
begin

text \<open>
  The operations that call the driver, the dispatch over a plan's steps and the execution of
  a plan inside its transaction (\<open>exec.rs\<close>, \<open>exec/get_by_key.rs\<close>, \<open>exec/delete_by_key.rs\<close>,
  \<open>exec/update_by_key.rs\<close>, \<open>exec/find_pk_by_index.rs\<close>, \<open>exec/query_pk.rs\<close>, \<open>exec/scan.rs\<close>,
  \<open>exec/upsert.rs\<close>, \<open>exec/exec_statement.rs\<close>, \<open>exec/rmw.rs\<close>, \<open>exec/branch.rs\<close>).
\<close>

subsection \<open>Key-value operations\<close>

definition exec_get_by_key :: "'d engine \<Rightarrow> op_get_by_key \<Rightarrow> ('d exec_state, response) step" where
  "exec_get_by_key E m =
     sbind (load_value E (gk_input m)) (\<lambda>v.
     sbind (slift (into_list v)) (\<lambda>items.
       let keys = value_dedup [] (filter (\<lambda>k. \<not> is_absent_key k) items) in
       if keys = [] then sret (from_rows (RStream stream_default))
       else
         sbind (slift (column_ids (gk_table m) (gk_columns m))) (\<lambda>cols.
         sbind (exec_driver E (DGetByKey (gk_table m) cols keys)) (\<lambda>resp.
         sret (from_rows (re_values resp))))))"

fun delete_keys :: "'d engine \<Rightarrow> op_delete_by_key \<Rightarrow> 64 word \<Rightarrow> val list \<Rightarrow> ('d exec_state, 64 word) step" where
  "delete_keys E m acc [] = sret acc"
| "delete_keys E m acc (k # ks) =
     sbind (exec_driver E (DDeleteByKey (dk_table m) [k] (dk_filter m) (dk_condition m))) (\<lambda>resp.
       case re_values resp of
         RCount n \<Rightarrow> delete_keys E m (acc + n) ks
       | _ \<Rightarrow> slift (Err (Panic ''expected Count from DeleteByKey'')))"

definition exec_delete_by_key :: "'d engine \<Rightarrow> op_delete_by_key \<Rightarrow> ('d exec_state, response) step" where
  "exec_delete_by_key E m =
     sbind (load_value E (dk_input m)) (\<lambda>v.
     sbind (slift (into_list v)) (\<lambda>keys.
     sbind (delete_keys E m 0 keys) (\<lambda>acc. sret (from_rows (RCount acc)))))"

fun update_keys ::
  "'d engine \<Rightarrow> op_update_by_key \<Rightarrow> column_id list option \<Rightarrow> 64 word \<Rightarrow> val list \<Rightarrow> val list \<Rightarrow>
   ('d exec_state, 64 word \<times> val list) step" where
  "update_keys E m returning acc rows [] = sret (acc, rows)"
| "update_keys E m returning acc rows (k # ks) =
     sbind (exec_driver E (DUpdateByKey (uk_table m) [k] (uk_assignments m) (uk_filter m) (uk_condition m) returning))
       (\<lambda>resp.
       case re_values resp of
         RCount n \<Rightarrow> update_keys E m returning (acc + n) rows ks
       | other \<Rightarrow>
           sbind (slift (rbind (into_value_stream other) (stream_collect (en_models E)))) (\<lambda>more.
           update_keys E m returning acc (rows @ more) ks))"

definition exec_update_by_key :: "'d engine \<Rightarrow> op_update_by_key \<Rightarrow> ('d exec_state, response) step" where
  "exec_update_by_key E m =
     sbind (slift (if uk_ty m = TUnit then Ok None else rmap Some (column_ids (uk_table m) (uk_columns m)))) (\<lambda>returning.
     sbind (load_value E (uk_input m)) (\<lambda>v.
     sbind (slift (into_list v)) (\<lambda>keys.
     sbind (update_keys E m returning 0 [] keys) (\<lambda>(acc, rows).
     sret (from_rows (if returning \<noteq> None then value_rows rows else RCount acc))))))"

text \<open>\<open>collect_input\<close> behind the test for inputs; binding is skipped without inputs.\<close>

definition exec_find_pk_by_index :: "'d engine \<Rightarrow> op_find_pk \<Rightarrow> ('d exec_state, response) step" where
  "exec_find_pk_by_index E m =
     sbind (if fp_inputs m = [] then sret (fp_filter m)
            else sbind (collect_input E (fp_inputs m)) (\<lambda>args.
              slift (substitute (value_input args) (fp_filter m)))) (\<lambda>fil.
     sbind (slift (split_filter E (fp_table m) fil)) (\<lambda>filters.
     sbind (straverse (\<lambda>f.
         sbind (exec_driver E (DFindPkByIndex (fp_table m) (fp_index m) f)) (\<lambda>resp.
         slift (rbind (into_value_stream (re_values resp)) (stream_collect (en_models E))))) filters) (\<lambda>rows.
     sret (from_rows (value_rows (concat rows))))))"

fun query_filters ::
  "'d engine \<Rightarrow> op_query_pk \<Rightarrow> column_id list \<Rightarrow> expr option \<Rightarrow> bool \<Rightarrow> expr list \<Rightarrow>
   ('d exec_state, val list \<times> val option) step" where
  "query_filters E m cols row_filter paginated [] = sret ([], None)"
| "query_filters E m cols row_filter paginated (f # fs) =
     sbind (exec_driver E (DQueryPk (qp_table m) (qp_index m) cols f row_filter (qp_limit m) (qp_order m))) (\<lambda>resp.
     sbind (slift (rbind (into_value_stream (re_values resp)) (stream_collect (en_models E)))) (\<lambda>rows.
     sbind (query_filters E m cols row_filter paginated fs) (\<lambda>(more, cursor).
     sret (rows @ more,
       if cursor \<noteq> None then cursor else if paginated then re_next resp else None))))"

definition exec_query_pk :: "'d engine \<Rightarrow> op_query_pk \<Rightarrow> ('d exec_state, response) step" where
  "exec_query_pk E m =
     sbind (if qp_inputs m = [] then sret (qp_pk_filter m, True, qp_row_filter m)
            else sbind (collect_input E (qp_inputs m)) (\<lambda>args.
              slift (rbind (substitute (value_input args) (qp_pk_filter m)) (\<lambda>pk.
                rmap (Pair pk) (bind_row_filter E (qp_table m) args (qp_row_filter m)))))) (\<lambda>(pk, some, row_filter).
       if \<not> some then sret (from_rows (RStream stream_default))
       else
         sbind (slift (split_filter E (qp_table m) pk)) (\<lambda>filters.
           if qp_limit m \<noteq> None \<and> length filters > 1
           then slift (Err (Panic ''limit/pagination with multiple partition filters is not supported''))
           else if filters = [] then sret (from_rows (value_rows []))
           else
             sbind (slift (column_ids (qp_table m) (qp_columns m))) (\<lambda>cols.
             sbind (query_filters E m cols row_filter (length filters \<le> 1) filters) (\<lambda>(rows, cursor).
             sret \<lparr>re_values = value_rows rows, re_next = cursor, re_prev = None\<rparr>))))"

definition exec_scan :: "'d engine \<Rightarrow> op_scan \<Rightarrow> ('d exec_state, response) step" where
  "exec_scan E m =
     sbind (if sc_inputs m = [] then sret (True, sc_row_filter m)
            else sbind (collect_input E (sc_inputs m)) (\<lambda>args.
              slift (bind_row_filter E (sc_table m) args (sc_row_filter m)))) (\<lambda>(some, row_filter).
       if \<not> some then sret (from_rows (RStream stream_default))
       else
         sbind (slift (column_ids (sc_table m) (sc_columns m))) (\<lambda>cols.
         sbind (exec_driver E (DScan (sc_table m) (map snd cols) row_filter (sc_limit m))) (\<lambda>resp.
         sbind (slift (rbind (into_value_stream (re_values resp)) (stream_collect (en_models E)))) (\<lambda>rows.
         sret \<lparr>re_values = value_rows rows, re_next = re_next resp, re_prev = None\<rparr>))))"

subsection \<open>Statements\<close>

definition invalid_result :: "string \<Rightarrow> 'a result" where
  "invalid_result msg = Err (InvalidResult msg)"

definition exec_upsert :: "'d engine \<Rightarrow> op_upsert \<Rightarrow> ('d exec_state, response) step" where
  "exec_upsert E m =
     sbind (if up_inputs m = [] then sret (up_stmt m)
            else sbind (collect_input E (up_inputs m)) (\<lambda>args. slift (en_bind_upsert E (up_stmt m) args))) (\<lambda>s.
     sbind (slift (row_field_types (up_ty m))) (\<lambda>ret.
       case en_prepare_upsert E s of (s', params) \<Rightarrow> exec_driver E (DUpsert s' params ret)))"

definition collect_conditional_probe :: "resolve \<Rightarrow> rows \<Rightarrow> val list result" where
  "collect_conditional_probe R r =
     (case r of
        RStream vs \<Rightarrow>
          rbind (stream_collect R vs) (\<lambda>rows.
            if rows = [] then invalid_result ''conditional write probe returned no rows'' else Ok rows)
      | _ \<Rightarrow> invalid_result ''conditional write expected Stream'')"

definition conditional_probe_counts :: "val \<Rightarrow> (64 word \<times> 64 word) result" where
  "conditional_probe_counts row =
     (case row of
        VRecord (VI64 matched # VI64 conditioned # _) \<Rightarrow> Ok (matched, conditioned)
      | VRecord _ \<Rightarrow> invalid_result ''conditional write probe columns are not I64''
      | _ \<Rightarrow> invalid_result ''conditional write expected Record'')"

definition strip_probe :: "val \<Rightarrow> val result" where
  "strip_probe row =
     (case row of
        VRecord vs \<Rightarrow> Ok (VRecord (drop 2 vs))
      | _ \<Rightarrow> invalid_result ''conditional write expected Record'')"

definition check_conditional :: "resolve \<Rightarrow> conditional_output \<Rightarrow> rows \<Rightarrow> rows result" where
  "check_conditional R conditional r =
     rbind (collect_conditional_probe R r) (\<lambda>rows.
     rbind (conditional_probe_counts (hd rows)) (\<lambda>(matched, conditioned).
       if matched = 0 then Err (RecordNotFound ''conditional write matched no rows'')
       else if matched \<noteq> conditioned then Err (ConditionFailed ''write condition did not match'')
       else if conditional = CoCount then Ok (RCount matched)
       else rmap value_rows (traverse strip_probe rows)))"

definition extract_cursor_at :: "'d engine \<Rightarrow> func \<Rightarrow> val list \<Rightarrow> nat \<Rightarrow> val result" where
  "extract_cursor_at E f rows i =
     rbind (slice_at rows i) (\<lambda>row. func_eval (en_uuid E) (en_models E) f (value_input [row]))"

definition apply_sql_pagination :: "'d engine \<Rightarrow> pagination_config \<Rightarrow> response \<Rightarrow> response result" where
  "apply_sql_pagination E p resp =
     (case (pc_extract_cursor p, re_values resp) of
        (Some f, RValue (VList rows)) \<Rightarrow>
          (let page_size = unat (pc_page_size p) in
           rbind (if length rows = page_size
                  then rmap Some (extract_cursor_at E f rows (usize_sub page_size 1)) else Ok None) (\<lambda>nxt.
           rmap (\<lambda>prv. resp\<lparr>re_next := nxt, re_prev := prv\<rparr>)
             (if pc_has_previous_page p \<and> rows \<noteq> [] \<and> en_backward_pagination E
              then rmap Some (extract_cursor_at E f rows 0) else Ok None)))
      | _ \<Rightarrow> Ok resp)"

definition paginate :: "'d engine \<Rightarrow> pagination_config option \<Rightarrow> response \<Rightarrow> response result" where
  "paginate E p resp =
     (case p of
        None \<Rightarrow> Ok resp
      | Some cfg \<Rightarrow>
          if \<not> is_unpaginated resp then Err (Panic ''assertion failed: res.is_unpaginated()'')
          else
            (case rows_buffer (en_models E) (re_values resp) of
               (r, rows) \<Rightarrow> rbind r (\<lambda>_. apply_sql_pagination E cfg (with_rows resp rows))))"

text \<open>A query over no rows is answered without the driver.\<close>

definition is_empty_query :: "stmt \<Rightarrow> bool" where
  "is_empty_query s =
     (case s of
        StQuery (Query _ body _ _ _ _) \<Rightarrow> (case body of SValues rows \<Rightarrow> rows = [] | _ \<Rightarrow> False)
      | _ \<Rightarrow> False)"

definition is_insert :: "stmt \<Rightarrow> bool" where
  "is_insert s = (case s of StInsert _ \<Rightarrow> True | _ \<Rightarrow> False)"

definition statement_ret ::
  "conditional_output \<Rightarrow> bool \<Rightarrow> ty list option \<Rightarrow> ty list option result" where
  "statement_ret conditional stripped output_ty =
     (case conditional of
        CoCount \<Rightarrow> Ok (Some [TI64, TI64])
      | CoReturning \<Rightarrow>
          (case output_ty of
             Some tys \<Rightarrow> Ok (Some ([TI64, TI64] @ tys))
           | None \<Rightarrow> Err (Panic ''conditional write with RETURNING has output columns''))
      | CoNone \<Rightarrow> Ok (if stripped then None else output_ty))"

definition run_query ::
  "'d engine \<Rightarrow> stmt \<Rightarrow> ty list option \<Rightarrow> ('d exec_state, response) step" where
  "run_query E s ret = (case en_prepare E s of (s', params) \<Rightarrow> exec_driver E (DQuerySql s' params ret))"

definition split_returning :: "'d engine \<Rightarrow> stmt \<Rightarrow> stmt \<times> stmt option" where
  "split_returning E s = (case en_split_returning E s of Some (s', sel) \<Rightarrow> (s', Some sel) | None \<Rightarrow> (s, None))"

definition exec_bound_statement ::
  "'d engine \<Rightarrow> op_exec_statement \<Rightarrow> ty list option \<Rightarrow> stmt \<Rightarrow> ('d exec_state, response) step" where
  "exec_bound_statement E m output_ty s0 =
     (case split_returning E s0 of (s, sel) \<Rightarrow>
        if is_empty_query s then
          slift (if es_conditional m \<noteq> CoNone then Err (Panic ''assertion failed'')
                 else Ok (from_rows (if output_ty \<noteq> None then RStream stream_default else RCount 0)))
        else
          (case en_prepare E s of (s', params) \<Rightarrow>
             sbind (slift (statement_ret (es_conditional m) (sel \<noteq> None) output_ty)) (\<lambda>ret.
             sbind (exec_driver E (if is_insert s' then DInsert s' params ret else DQuerySql s' params ret)) (\<lambda>resp.
             sbind (case es_conditional m of
                      CoNone \<Rightarrow> (case sel of None \<Rightarrow> sret resp | Some q \<Rightarrow> run_query E q output_ty)
                    | c \<Rightarrow> slift (rmap (with_rows resp) (check_conditional (en_models E) c (re_values resp)))) (\<lambda>resp'.
             slift (paginate E (es_pagination m) resp'))))))"

definition exec_statement :: "'d engine \<Rightarrow> op_exec_statement \<Rightarrow> ('d exec_state, response) step" where
  "exec_statement E m =
     sbind (slift (row_field_types (es_ty m))) (\<lambda>output_ty.
     sbind (if es_inputs m = [] then sret (es_stmt m)
            else sbind (collect_input E (es_inputs m)) (\<lambda>args. slift (en_bind E (es_stmt m) args)))
       (exec_bound_statement E m output_ty))"

subsection \<open>Read-modify-write\<close>

text \<open>The transaction operations of a unit of work: savepoints inside an open transaction.\<close>

definition tx_ops :: "bool \<Rightarrow> string \<Rightarrow> transaction \<times> transaction \<times> transaction" where
  "tx_ops in_tx name =
     (if in_tx then (TxSavepoint name, TxRelease name, TxRollbackTo name)
      else (tx_start, TxCommit, TxRollback))"

fun count_satisfied :: "64 word \<Rightarrow> val list \<Rightarrow> 64 word result" where
  "count_satisfied n [] = Ok n"
| "count_satisfied n (row # rows) =
     (case row of
        VRecord vs \<Rightarrow>
          (case vs of
             VBool True # _ \<Rightarrow> count_satisfied (n + 1) rows
           | VBool False # _ \<Rightarrow> count_satisfied n rows
           | VNull # _ \<Rightarrow> count_satisfied n rows
           | _ \<Rightarrow> invalid_result ''conditional write probe expected Bool'')
      | _ \<Rightarrow> invalid_result ''conditional write probe expected Record'')"

definition check_probe :: "val list \<Rightarrow> 64 word result" where
  "check_probe rows =
     rbind (count_satisfied 0 rows) (\<lambda>satisfied.
       let matched = of_nat (length rows) in
       if matched = 0 then Err (RecordNotFound ''conditional write matched no rows'')
       else if matched \<noteq> satisfied then Err (ConditionFailed ''write condition did not match'')
       else Ok matched)"

definition buffer_rows :: "'d engine \<Rightarrow> rows \<Rightarrow> ('d exec_state, rows) step" where
  "buffer_rows E r = slift (case rows_buffer (en_models E) r of (res, r') \<Rightarrow> rmap (\<lambda>_. r') res)"

definition rmw_exec :: "'d engine \<Rightarrow> op_rmw \<Rightarrow> ('d exec_state, rows) step" where
  "rmw_exec E m =
     sbind (slift (row_field_types (rw_ty m))) (\<lambda>output_ty.
     sbind (run_query E (StQuery (rw_read m)) (Some [TBool])) (\<lambda>probe.
     sbind (slift (case re_values probe of
                     RStream vs \<Rightarrow> rbind (stream_collect (en_models E) vs) check_probe
                   | _ \<Rightarrow> invalid_result ''expected Stream, got Count'')) (\<lambda>matched.
       (case split_returning E (rw_write m) of (w, sel) \<Rightarrow>
          sbind (run_query E w (if en_has_returning E w then output_ty else None)) (\<lambda>resp.
            case sel of
              Some q \<Rightarrow> sbind (run_query E q output_ty) (\<lambda>resp'. buffer_rows E (re_values resp'))
            | None \<Rightarrow>
                if en_has_returning E w then buffer_rows E (re_values resp)
                else
                  slift (case re_values resp of
                           RCount actual \<Rightarrow>
                             if actual \<noteq> matched then Err (ConditionFailed ''the write applied to other rows than the probe matched'')
                             else Ok (RCount actual)
                         | _ \<Rightarrow> invalid_result ''expected Count, got Stream''))))))"

definition is_panic :: "error \<Rightarrow> bool" where
  "is_panic e = (case e of Panic _ \<Rightarrow> True | _ \<Rightarrow> False)"

text \<open>
  A block whose error is answered with a rollback, whose own error is ignored; a panic
  unwinds past it.
\<close>

definition or_rollback :: "'d engine \<Rightarrow> transaction \<Rightarrow> ('d exec_state, 'a) step \<Rightarrow> ('d exec_state, 'a) step" where
  "or_rollback E rollback body xs =
     (case body xs of
        (Fail e, xs') \<Rightarrow>
          if is_panic e then (Fail e, xs') else (Fail e, snd (exec_driver E (DTransaction rollback) xs'))
      | r \<Rightarrow> r)"

definition exec_read_modify_write :: "'d engine \<Rightarrow> op_rmw \<Rightarrow> ('d exec_state, response) step" where
  "exec_read_modify_write E m xs =
     (if rw_inputs m \<noteq> [] then (Fail (Panic ''TODO''), xs)
      else
        (case tx_ops (xs_in_tx xs) ''read_modify_write'' of (begin_op, commit, rollback) \<Rightarrow>
           sbind (exec_driver E (DTransaction begin_op)) (\<lambda>_.
           sbind (or_rollback E rollback (rmw_exec E m)) (\<lambda>rows.
           sbind (exec_driver E (DTransaction commit)) (\<lambda>_. sret (from_rows rows)))) xs))"

subsection \<open>Steps\<close>

fun exec_op :: "'d engine \<Rightarrow> mir_op \<Rightarrow> ('d exec_state, response) step" where
  "exec_op E (MAlias i _) = load E i"
| "exec_op E (MConst v _) = sret (from_rows (RValue v))"
| "exec_op E (MDeleteByKey m) = exec_delete_by_key E m"
| "exec_op E (MEval m) = exec_eval E m"
| "exec_op E (MExecStatement m) = exec_statement E m"
| "exec_op E (MFilter m) = exec_filter E m"
| "exec_op E (MFindPkByIndex m) = exec_find_pk_by_index E m"
| "exec_op E (MGetByKey m) = exec_get_by_key E m"
| "exec_op E (MNestedMerge m) = exec_nested_merge E m"
| "exec_op E (MReadModifyWrite m) = exec_read_modify_write E m"
| "exec_op E (MRepeat i v _) = exec_repeat E i v"
| "exec_op E (MQueryPk m) = exec_query_pk E m"
| "exec_op E (MScan m) = exec_scan E m"
| "exec_op E (MUpdateByKey m) = exec_update_by_key E m"
| "exec_op E (MUpsert m) = exec_upsert E m"

definition exec_node :: "'d engine \<Rightarrow> logical_plan \<Rightarrow> node_id \<Rightarrow> ('d exec_state, unit) step" where
  "exec_node E plan n =
     sbind (slift (plan_at plan n)) (\<lambda>nd.
     sbind (exec_op E (nd_op nd)) (\<lambda>resp.
     on_slots (vars_store (en_models E) n (op_ty (nd_op nd)) (nd_uses nd) resp)))"

definition if_guard :: "logical_plan \<Rightarrow> if_block \<Rightarrow> node_id result" where
  "if_guard plan b =
     rbind (slice_at (if_then b) 0) (\<lambda>first.
     rbind (plan_at plan first) (\<lambda>nd.
       ok_or (nd_guard nd) (Panic ''`If` block nodes carry the block's guard'')))"

definition action_if :: "'d engine \<Rightarrow> logical_plan \<Rightarrow> if_block \<Rightarrow> ('d exec_state, unit) step" where
  "action_if E plan b =
     sbind (slift (if_guard plan b)) (\<lambda>cond.
     sbind (on_slots (vars_peek_non_empty (en_models E) cond)) (\<lambda>pass.
       if pass then sbind (straverse (exec_node E plan) (if_then b)) (\<lambda>_. sret ())
       else
         sbind (straverse (\<lambda>i. on_slots (vars_release i)) (if_skipped_inputs b)) (\<lambda>_.
         sbind (straverse (\<lambda>(n, uses). on_slots (vars_store_skipped n uses)) (if_skipped_outputs b)) (\<lambda>_.
         sret ()))))"

definition exec_step :: "'d engine \<Rightarrow> logical_plan \<Rightarrow> plan_step \<Rightarrow> ('d exec_state, unit) step" where
  "exec_step E plan s =
     (case s of StepRun n \<Rightarrow> exec_node E plan n | StepIf b \<Rightarrow> action_if E plan b)"

definition final_response :: "response \<Rightarrow> response" where
  "final_response resp =
     with_rows resp (RStream
       (case re_values resp of
          RCount _ \<Rightarrow> stream_default
        | RValue v \<Rightarrow> stream_from_vec (case v of VList items \<Rightarrow> items | _ \<Rightarrow> [v])
        | RStream vs \<Rightarrow> vs))"

definition enter_tx :: "('d exec_state, unit) step" where
  "enter_tx xs = (Done (), xs\<lparr>xs_in_tx := True\<rparr>)"

definition run_plan :: "'d engine \<Rightarrow> exec_plan \<Rightarrow> ('d exec_state, response) step" where
  "run_plan E p xs =
     (case tx_ops (xs_in_tx xs) ''statement'' of (begin_op, commit, rollback) \<Rightarrow>
        let needs = ep_needs_transaction p;
            steps = sbind (straverse (exec_step E (ep_plan p)) (ep_steps p)) (\<lambda>_. sret ())
        in
        sbind (if needs then sbind (exec_driver E (DTransaction begin_op)) (\<lambda>_. enter_tx) else sret ()) (\<lambda>_.
        sbind (if needs then or_rollback E rollback steps else steps) (\<lambda>_.
        sbind (if needs then sbind (exec_driver E (DTransaction commit)) (\<lambda>_. sret ()) else sret ()) (\<lambda>_.
        sbind (load E (ep_returning p)) (\<lambda>resp.
        sret (final_response resp))))) xs)"

definition exec_plan :: "'d engine \<Rightarrow> exec_plan \<Rightarrow> bool \<Rightarrow> 'd \<Rightarrow> response outcome \<times> 'd exec_state" where
  "exec_plan E p in_tx conn =
     run_plan E p \<lparr>xs_conn = conn, xs_slots = ep_slots p, xs_in_tx = in_tx\<rparr>"

end
