(* ===== verification/PlanOrder.thy ===== *)
theory PlanOrder
  imports LogicalPlan
begin

text \<open>
  The execution order of a plan: the depth-first visit of an acyclic graph ends within its
  fuel and lists the nodes below the completion node, every node after its dependencies.
\<close>

lemma fold_ok_append: "fold_ok f (xs @ ys) s = rbind (fold_ok f xs s) (fold_ok f ys)"
  by (induction xs arbitrary: s) (auto simp: rbind_assoc intro: rbind_cong)

lemma fold_ok_cong [fundef_cong]:
  "\<lbrakk>xs = ys; s = t; \<And>x u. x \<in> set ys \<Longrightarrow> f x u = g x u\<rbrakk> \<Longrightarrow> fold_ok f xs s = fold_ok g ys t"
proof -
  have "(\<And>x u. x \<in> set ys \<Longrightarrow> f x u = g x u) \<Longrightarrow> fold_ok f ys t = fold_ok g ys t"
    by (induction ys arbitrary: t) (auto intro!: rbind_cong)
  then show "\<lbrakk>xs = ys; s = t; \<And>x u. x \<in> set ys \<Longrightarrow> f x u = g x u\<rbrakk> \<Longrightarrow> fold_ok f xs s = fold_ok g ys t"
    by simp
qed

text \<open>A property of the state that every step keeps.\<close>

lemma fold_ok_invariant:
  assumes "P s" and "\<And>x s s'. x \<in> set xs \<Longrightarrow> P s \<Longrightarrow> f x s = Ok s' \<Longrightarrow> P s'" and "fold_ok f xs s = Ok s'"
  shows "P s'"
  using assms by (induction xs arbitrary: s) (auto simp: rbind_eq_Ok)

lemma fold_ok_total:
  assumes "P s" and "\<And>x s. x \<in> set xs \<Longrightarrow> P s \<Longrightarrow> \<exists>s'. f x s = Ok s' \<and> P s'"
  shows "\<exists>s'. fold_ok f xs s = Ok s' \<and> P s'"
  using assms
proof (induction xs arbitrary: s)
  case (Cons x xs)
  then obtain t where "f x s = Ok t" "P t" by (metis list.set_intros(1))
  with Cons show ?case by auto
qed simp

subsection \<open>Graphs\<close>

definition deps_of :: "store \<Rightarrow> node_id \<Rightarrow> node_id list" where
  "deps_of st n = (case store_at st n of Inr nd \<Rightarrow> nd_deps nd | Inl _ \<Rightarrow> [])"

definition well_formed :: "store \<Rightarrow> bool" where
  "well_formed st \<longleftrightarrow> all_filled st \<and> (\<forall>n < length st. \<forall>d \<in> set (deps_of st n). d < length st)"

definition ranked :: "store \<Rightarrow> (node_id \<Rightarrow> nat) \<Rightarrow> bool" where
  "ranked st rank \<longleftrightarrow> (\<forall>n < length st. \<forall>d \<in> set (deps_of st n). rank d < rank n)"

definition acyclic_deps :: "store \<Rightarrow> bool" where
  "acyclic_deps st \<longleftrightarrow> (\<exists>rank. ranked st rank)"

definition edge :: "store \<Rightarrow> node_id \<Rightarrow> node_id \<Rightarrow> bool" where
  "edge st n d \<longleftrightarrow> d \<in> set (deps_of st n)"

abbreviation below :: "store \<Rightarrow> node_id \<Rightarrow> node_id \<Rightarrow> bool" where
  "below st \<equiv> (edge st)\<^sup>*\<^sup>*"

lemma well_formed_at: "well_formed st \<Longrightarrow> n < length st \<Longrightarrow> \<exists>nd. store_at st n = Ok nd \<and> deps_of st n = nd_deps nd"
  by (cases "st ! n") (auto simp: well_formed_def all_filled_def list_all_length store_at_def slice_at_def deps_of_def)

text \<open>Every node of the list comes after its dependencies.\<close>

fun deps_first :: "store \<Rightarrow> node_id set \<Rightarrow> node_id list \<Rightarrow> bool" where
  "deps_first st seen [] = True"
| "deps_first st seen (n # ns) = (set (deps_of st n) \<subseteq> seen \<and> deps_first st (insert n seen) ns)"

lemma deps_first_append:
  "deps_first st seen (xs @ ys) \<longleftrightarrow> deps_first st seen xs \<and> deps_first st (seen \<union> set xs) ys"
  by (induction xs arbitrary: seen) auto

lemma deps_first_at:
  "deps_first st seen ns \<Longrightarrow> i < length ns \<Longrightarrow> set (deps_of st (ns ! i)) \<subseteq> seen \<union> set (take i ns)"
proof (induction ns arbitrary: seen i)
  case (Cons n ns)
  then show ?case by (cases i) fastforce+
qed simp

lemma deps_first_below: "deps_first st {} order \<Longrightarrow> n \<in> set order \<Longrightarrow> below st n m \<Longrightarrow> m \<in> set order"
proof (rotate_tac 2, induction rule: rtranclp_induct)
  case (step m d)
  then obtain i where i: "i < length order" "order ! i = m" by (auto simp: in_set_conv_nth)
  with deps_first_at [OF step.prems(1) i(1)] step.hyps show ?case
    by (auto simp: edge_def dest: in_set_takeD)
qed simp

subsection \<open>The visit\<close>

text \<open>\<open>S\<close> is the set of the nodes whose visit has started and not ended.\<close>

definition visit_inv :: "store \<Rightarrow> node_id set \<Rightarrow> bool list \<times> node_id list \<Rightarrow> bool" where
  "visit_inv st S s \<longleftrightarrow>
     length (fst s) = length st \<and> distinct (snd s) \<and> set (snd s) \<inter> S = {} \<and>
     set (snd s) \<union> S \<subseteq> {..<length st} \<and>
     (\<forall>i < length st. fst s ! i \<longleftrightarrow> i \<in> set (snd s) \<union> S) \<and> deps_first st {} (snd s)"

definition unvisited :: "bool list \<times> node_id list \<Rightarrow> nat" where
  "unvisited s = length (filter Not (fst s))"

lemma unvisited_mark:
  "n < length v \<Longrightarrow> \<not> v ! n \<Longrightarrow> Suc (unvisited (v[n := True], os')) = unvisited (v, os)"
proof -
  assume n: "n < length v" "\<not> v ! n"
  then have "v = take n v @ False # drop (Suc n) v" using id_take_nth_drop [of n v] by simp
  from arg_cong [OF this, of "\<lambda>v. length (filter Not v)"] show ?thesis
    using n by (simp add: unvisited_def upd_conv_take_nth_drop)
qed

lemma visit_operation_Ok:
  assumes wf: "well_formed st" and rk: "ranked st rank"
  shows "\<lbrakk>visit_inv st S s; n < length st; \<forall>x \<in> S. rank n < rank x; unvisited s < k\<rbrakk> \<Longrightarrow>
    \<exists>s' new. visit_operation k st n s = Ok s' \<and> visit_inv st S s' \<and> snd s' = snd s @ new \<and>
      n \<in> set (snd s') \<and> unvisited s' \<le> unvisited s \<and> (\<forall>m \<in> set new. below st n m) \<and>
      (n \<notin> set (snd s) \<longrightarrow> last (snd s') = n)"
proof (induction k arbitrary: n S s)
  case (Suc k)
  obtain v os where s: "s = (v, os)" by (cases s)
  have len: "length v = length st" using Suc.prems(1) by (simp add: visit_inv_def s)
  have nS: "n \<notin> S" using Suc.prems(3) by auto
  have vn: "v ! n \<longleftrightarrow> n \<in> set os" using Suc.prems(1,2) nS by (auto simp: visit_inv_def s)
  show ?case
  proof (cases "v ! n")
    case True
    with Suc.prems len vn show ?thesis
      by (intro exI [of _ s] exI [of _ "[]"]) (simp add: s slice_at_def)
  next
    case False
    obtain nd where nd: "store_at st n = Ok nd" "deps_of st n = nd_deps nd"
      using well_formed_at [OF wf Suc.prems(2)] by blast
    let ?s1 = "(v[n := True], os)"
    have inv1: "visit_inv st (insert n S) ?s1"
      using Suc.prems(1,2) False vn nS by (auto simp: visit_inv_def s nth_list_update)
    have un1: "Suc (unvisited ?s1) = unvisited s"
      using unvisited_mark [of n v os os] Suc.prems(2) len False by (simp add: s)
    define Q where "Q ds t \<longleftrightarrow> visit_inv st (insert n S) t \<and> (\<exists>new. snd t = os @ new \<and> (\<forall>m \<in> set new. below st n m)) \<and>
        unvisited t \<le> unvisited ?s1 \<and> set ds \<subseteq> set (snd t)" for ds t
    have "\<exists>t. fold_ok (visit_operation k st) ds ?s1 = Ok t \<and> Q ds t" if "set ds \<subseteq> set (nd_deps nd)" for ds
      using that
    proof (induction ds rule: rev_induct)
      case Nil
      show ?case using inv1 by (auto simp: Q_def)
    next
      case (snoc d ds)
      then obtain t new where t: "fold_ok (visit_operation k st) ds ?s1 = Ok t" "visit_inv st (insert n S) t"
          "snd t = os @ new" "\<forall>m \<in> set new. below st n m" "unvisited t \<le> unvisited ?s1" "set ds \<subseteq> set (snd t)"
        by (auto simp: Q_def)
      have e: "edge st n d" using snoc.prems nd(2) by (simp add: edge_def)
      have d: "d < length st" "rank d < rank n"
        using wf rk Suc.prems(2) e unfolding well_formed_def ranked_def edge_def by auto
      have "\<forall>x \<in> insert n S. rank d < rank x" using d(2) Suc.prems(3) by fastforce
      moreover have "unvisited t < k" using t(5) un1 Suc.prems(4) by linarith
      ultimately obtain u new' where u: "visit_operation k st d t = Ok u" "visit_inv st (insert n S) u" "snd u = snd t @ new'"
          "d \<in> set (snd u)" "unvisited u \<le> unvisited t" "\<forall>m \<in> set new'. below st d m"
        using Suc.IH [OF t(2) d(1)] by blast
      have "\<forall>m \<in> set new'. below st n m" using u(6) e by (auto intro: converse_rtranclp_into_rtranclp)
      with t u show ?case by (auto simp: fold_ok_append Q_def)
    qed
    from this [of "nd_deps nd"] obtain t new where t: "fold_ok (visit_operation k st) (nd_deps nd) ?s1 = Ok t"
        "visit_inv st (insert n S) t" "snd t = os @ new" "\<forall>m \<in> set new. below st n m" "unvisited t \<le> unvisited ?s1"
        "set (nd_deps nd) \<subseteq> set (snd t)"
      by (auto simp: Q_def)
    let ?u = "(fst t, snd t @ [n])"
    have "visit_operation (Suc k) st n s = Ok ?u"
      using False len Suc.prems(2) nd t(1) by (cases t) (simp add: s slice_at_def)
    moreover have "visit_inv st S ?u"
      using t(2,6) nS nd(2) Suc.prems(2) by (auto simp: visit_inv_def deps_first_append)
    moreover have "unvisited ?u \<le> unvisited s" using t(5) un1 by (simp add: unvisited_def)
    ultimately show ?thesis using t(3,4) vn False
      by (intro exI [of _ ?u] exI [of _ "new @ [n]"]) (auto simp: s)
  qed
qed simp

lemma execution_order_Ok:
  assumes "well_formed st" "acyclic_deps st" "n < length st"
  shows "\<exists>order. execution_order n st = Ok order \<and> distinct order \<and> deps_first st {} order \<and>
    set order = {m. below st n m} \<and> last order = n \<and> order \<noteq> [] \<and> set order \<subseteq> {..<length st}"
proof -
  obtain rank where rk: "ranked st rank" using assms(2) by (auto simp: acyclic_deps_def)
  let ?s = "(replicate (length st) False, [] :: node_id list)"
  have inv: "visit_inv st {} ?s" by (auto simp: visit_inv_def)
  have "unvisited ?s < Suc (length st)" by (simp add: unvisited_def)
  from visit_operation_Ok [OF assms(1) rk inv assms(3) _ this]
  obtain s' where s': "visit_operation (Suc (length st)) st n ?s = Ok s'" "visit_inv st {} s'"
      "n \<in> set (snd s')" "\<forall>m \<in> set (snd s'). below st n m" "last (snd s') = n"
    by auto
  have "below st n m \<Longrightarrow> m \<in> set (snd s')" for m
    using deps_first_below [of st "snd s'" n m] s' by (auto simp: visit_inv_def)
  moreover have "snd s' \<noteq> []" using s'(3) by auto
  ultimately show ?thesis using s' by (auto simp: execution_order_def visit_inv_def)
qed

end
