(* ===== verification/PlanGuards.thy ===== *)
theory PlanGuards
  imports PlanOrder
begin

text \<open>
  What a logical plan promises its executor: exact use counts, and guards under which nothing
  reads a skipped output.
\<close>

subsection \<open>Fields of the nodes of an arena\<close>

definition field_at :: "store \<Rightarrow> (node \<Rightarrow> 'a) \<Rightarrow> node_id \<Rightarrow> 'a option" where
  "field_at st f n = (case store_at st n of Inr nd \<Rightarrow> Some (f nd) | Inl _ \<Rightarrow> None)"

definition loads_of :: "store \<Rightarrow> node_id \<Rightarrow> node_id list" where
  "loads_of st n = (case field_at st nd_op n of Some op \<Rightarrow> input_loads op | None \<Rightarrow> [])"

definition reads_of :: "store \<Rightarrow> node_id \<Rightarrow> (node_id \<times> input_read) list" where
  "reads_of st n = (case field_at st nd_op n of Some op \<Rightarrow> input_reads op | None \<Rightarrow> [])"

definition uses_of :: "store \<Rightarrow> node_id \<Rightarrow> nat" where
  "uses_of st n = (case field_at st nd_uses n of Some u \<Rightarrow> u | None \<Rightarrow> 0)"

definition guard_of :: "store \<Rightarrow> node_id \<Rightarrow> node_id option" where
  "guard_of st n = Option.bind (field_at st nd_guard n) (\<lambda>g. g)"

lemma set_loads_of: "set (loads_of st n) = fst ` set (reads_of st n)"
  by (cases "field_at st nd_op n") (simp_all add: loads_of_def reads_of_def input_loads_def set_op_inputs)

lemma distinct_loads_of [simp]: "distinct (loads_of st n)"
  by (simp add: loads_of_def split: option.split)

lemma field_at_update:
  "\<lbrakk>i < length st; st ! i = Filled nd\<rbrakk> \<Longrightarrow>
   field_at (st[i := Filled nd']) f n = (if n = i then Some (f nd') else field_at st f n)"
  by (auto simp: field_at_def store_at_def slice_at_def nth_list_update)

lemma field_at_filled: "i < length st \<Longrightarrow> st ! i = Filled nd \<Longrightarrow> field_at st f i = Some (f nd)"
  by (simp add: field_at_def store_at_def slice_at_def)

text \<open>Passes over the plan change counts and guards only.\<close>

definition same_graph :: "store \<Rightarrow> store \<Rightarrow> bool" where
  "same_graph st st' \<longleftrightarrow>
     length st' = length st \<and> field_at st' nd_op = field_at st nd_op \<and> field_at st' nd_deps = field_at st nd_deps"

lemma same_graph_refl [simp]: "same_graph st st"
  by (simp add: same_graph_def)

lemma same_graph_trans: "same_graph a b \<Longrightarrow> same_graph b c \<Longrightarrow> same_graph a c"
  by (simp add: same_graph_def)

lemma same_graph_eqs:
  "same_graph st st' \<Longrightarrow> length st' = length st \<and> loads_of st' = loads_of st \<and> reads_of st' = reads_of st \<and>
   deps_of st' = deps_of st"
  by (auto simp: same_graph_def loads_of_def reads_of_def deps_of_def field_at_def fun_eq_iff split: sum.splits)

lemma same_graph_update:
  "\<lbrakk>i < length st; st ! i = Filled nd; nd_op nd' = nd_op nd; nd_deps nd' = nd_deps nd\<rbrakk> \<Longrightarrow>
   same_graph st (st[i := Filled nd'])"
  by (auto simp: same_graph_def field_at_update field_at_filled)

subsection \<open>Use counts\<close>

lemma add_use_Ok:
  "add_use i st = Ok st' \<Longrightarrow>
   same_graph st st' \<and> guard_of st' = guard_of st \<and>
   (\<forall>m. uses_of st' m = uses_of st m + (if m = i then 1 else 0))"
  by (auto simp: add_use_def store_update_Ok same_graph_update guard_of_def uses_of_def field_at_update
      field_at_filled)

lemma fold_add_use:
  "fold_ok add_use is st = Ok st' \<Longrightarrow>
   same_graph st st' \<and> guard_of st' = guard_of st \<and>
   (\<forall>m. uses_of st' m = uses_of st m + count_list is m)"
proof (induction "is" arbitrary: st)
  case (Cons i "is")
  then obtain s1 where s1: "add_use i st = Ok s1" "fold_ok add_use is s1 = Ok st'" by (auto simp: rbind_eq_Ok)
  from add_use_Ok [OF s1(1)] Cons.IH [OF s1(2)] show ?case
    by (auto intro: same_graph_trans)
qed simp

lemma count_list_distinct: "distinct xs \<Longrightarrow> count_list xs x = (if x \<in> set xs then 1 else 0)"
  by (induction xs) auto

lemma count_loads_Ok:
  "count_loads n st = Ok st' \<Longrightarrow>
   same_graph st st' \<and> guard_of st' = guard_of st \<and>
   (\<forall>m. uses_of st' m = uses_of st m + (if m \<in> set (loads_of st n) then 1 else 0))"
  by (auto simp: count_loads_def rbind_eq_Ok loads_of_def field_at_def count_list_distinct dest!: fold_add_use)

lemma fold_count_loads:
  "fold_ok count_loads order st = Ok st' \<Longrightarrow>
   same_graph st st' \<and> guard_of st' = guard_of st \<and>
   (\<forall>m. uses_of st' m = uses_of st m + length (filter (\<lambda>n. m \<in> set (loads_of st n)) order))"
proof (induction order arbitrary: st)
  case (Cons n order)
  then obtain s1 where s1: "count_loads n st = Ok s1" "fold_ok count_loads order s1 = Ok st'"
    by (auto simp: rbind_eq_Ok)
  from count_loads_Ok [OF s1(1)] Cons.IH [OF s1(2)] show ?case
    by (auto intro: same_graph_trans dest: same_graph_eqs)
qed simp

subsection \<open>Guards\<close>

lemma contribute_simps [simp]:
  "contribute Observed c = Observed"
  "contribute CNone None = Observed"
  "contribute CNone (Some x) = OnlyUnder x"
  "contribute (OnlyUnder prev) None = Observed"
  "contribute (OnlyUnder prev) (Some x) = (if prev = x then OnlyUnder prev else Observed)"
  by (simp_all add: contribute_def)

lemma contribute_observed [simp]: "foldl contribute Observed cs = Observed"
  by (induction cs) simp_all

lemma contribute_under:
  "foldl contribute (OnlyUnder x) cs = OnlyUnder y \<longleftrightarrow> x = y \<and> (\<forall>c \<in> set cs. c = Some y)"
proof (induction cs)
  case (Cons c cs)
  then show ?case by (cases c) auto
qed simp

lemma only_under_iff:
  "foldl contribute CNone cs = OnlyUnder x \<longleftrightarrow> cs \<noteq> [] \<and> (\<forall>c \<in> set cs. c = Some x)"
proof (cases cs)
  case (Cons c ds)
  then show ?thesis by (cases c) (auto simp: contribute_under)
qed simp

text \<open>How the nodes of a list read the output of one node.\<close>

definition read_contributions :: "(node_id \<Rightarrow> node_id option) \<Rightarrow> store \<Rightarrow> node_id list \<Rightarrow> node_id \<Rightarrow> node_id option list" where
  "read_contributions G st P m =
     concat (map (\<lambda>c. map (\<lambda>ir. contribution (G c) (snd ir)) (filter (\<lambda>ir. fst ir = m) (reads_of st c))) P)"

lemma read_contributions_append [simp]:
  "read_contributions G st (P @ Q) m = read_contributions G st P m @ read_contributions G st Q m"
  by (simp add: read_contributions_def)

lemma read_contributions_none:
  "(\<And>c. c \<in> set P \<Longrightarrow> m \<notin> set (loads_of st c)) \<Longrightarrow> read_contributions G st P m = []"
  by (force simp: read_contributions_def set_loads_of filter_empty_conv)

lemma read_contributions_cong:
  "(\<And>c. c \<in> set P \<Longrightarrow> G c = G' c) \<Longrightarrow> read_contributions G st P m = read_contributions G' st P m"
  by (simp add: read_contributions_def cong: map_cong)

lemma in_read_contributions:
  "y \<in> set (read_contributions G st P m) \<longleftrightarrow>
   (\<exists>c \<in> set P. \<exists>read. (m, read) \<in> set (reads_of st c) \<and> y = contribution (G c) read)"
proof -
  have "y \<in> set (map (\<lambda>ir. contribution (G c) (snd ir)) (filter (\<lambda>ir. fst ir = m) (reads_of st c))) \<longleftrightarrow>
      (\<exists>read. (m, read) \<in> set (reads_of st c) \<and> y = contribution (G c) read)" for c
    by (auto simp: image_iff)
  then show ?thesis by (simp add: read_contributions_def)
qed

lemma push_read_Ok:
  "push_read own ir cs = Ok cs' \<longleftrightarrow>
   fst ir < length cs \<and> cs' = cs[fst ir := contribute (cs ! fst ir) (contribution own (snd ir))]"
  by (auto simp: push_read_def rmap_eq_Ok slice_at_def)

lemma push_reads_Ok:
  "fold_ok (push_read own) reads cs = Ok cs' \<Longrightarrow>
   length cs' = length cs \<and>
   (\<forall>m < length cs. cs' ! m =
      foldl contribute (cs ! m) (map (\<lambda>ir. contribution own (snd ir)) (filter (\<lambda>ir. fst ir = m) reads)))"
proof (induction reads arbitrary: cs)
  case (Cons ir reads)
  then obtain c1 where "push_read own ir cs = Ok c1" "fold_ok (push_read own) reads c1 = Ok cs'"
    by (auto simp: rbind_eq_Ok)
  with Cons.IH [of c1] show ?case
    by (auto simp: push_read_Ok nth_list_update)
qed simp

lemma push_reads_total:
  "(\<And>ir. ir \<in> set reads \<Longrightarrow> fst ir < length cs) \<Longrightarrow> \<exists>cs'. fold_ok (push_read own) reads cs = Ok cs'"
  using fold_ok_total [of "\<lambda>c. length c = length cs" cs reads "push_read own"]
  by (auto simp: push_read_Ok)

text \<open>The positions of the nodes in the execution order.\<close>

lemma positions_at:
  "distinct order \<Longrightarrow> set order \<subseteq> {..<n} \<Longrightarrow> i < length order \<Longrightarrow> positions n order ! (order ! i) = i"
proof -
  have *: "distinct xs \<Longrightarrow> set xs \<subseteq> {..<length ps} \<Longrightarrow>
      length (foldl (\<lambda>ps (i, x). ps[x := i]) ps (enumerate k xs)) = length ps \<and>
      (\<forall>i < length xs. foldl (\<lambda>ps (i, x). ps[x := i]) ps (enumerate k xs) ! (xs ! i) = k + i) \<and>
      (\<forall>m. m \<notin> set xs \<longrightarrow> foldl (\<lambda>ps (i, x). ps[x := i]) ps (enumerate k xs) ! m = ps ! m)"
    for xs :: "node_id list" and ps k
  proof (induction xs arbitrary: ps k)
    case (Cons x xs)
    then show ?case
      using Cons.IH [of "ps[x := k]" "Suc k"] by (auto simp: nth_Cons nth_list_update split: nat.split)
  qed simp
  assume "distinct order" "set order \<subseteq> {..<n}" "i < length order"
  then show ?thesis using * [of order "replicate n 0" 0] by (simp add: positions_def)
qed

text \<open>A row input is read whenever its node runs.\<close>

lemma per_row_input: "(m, PerRowOf r) \<in> set (input_reads op) \<Longrightarrow> (r, Always) \<in> set (input_reads op)"
  by (cases op) (auto split: option.splits)

lemma per_row_load: "(m, PerRowOf r) \<in> set (reads_of st n) \<Longrightarrow> r \<in> set (loads_of st n)"
  by (force simp: reads_of_def set_loads_of dest: per_row_input split: option.splits)

text \<open>
  The state of the pass when the nodes of \<open>P\<close> have been visited: the consumption of every node
  is what the visited nodes contributed, and every guard set so far is justified by the
  whole consumption of its node.
\<close>

definition guard_sound ::
  "(stmt \<Rightarrow> bool) \<Rightarrow> node_id \<Rightarrow> node_id list \<Rightarrow> nat list \<Rightarrow> node_id list \<Rightarrow> store \<Rightarrow> node_id \<Rightarrow> node_id \<Rightarrow> bool" where
  "guard_sound mutating completion order pos P st c x \<longleftrightarrow>
     x \<in> set order \<and> pos ! x < pos ! c \<and> c \<noteq> completion \<and>
     field_at st (\<lambda>nd. is_effectful mutating (nd_op nd)) c = Some False \<and>
     read_contributions (guard_of st) st P c \<noteq> [] \<and>
     (\<forall>y \<in> set (read_contributions (guard_of st) st P c). y = Some x)"

definition guards_inv ::
  "(stmt \<Rightarrow> bool) \<Rightarrow> node_id \<Rightarrow> node_id list \<Rightarrow> nat list \<Rightarrow> store \<Rightarrow> node_id list \<Rightarrow> store \<times> consumption list \<Rightarrow> bool"
  where
  "guards_inv mutating completion order pos st0 P s \<longleftrightarrow>
     same_graph st0 (fst s) \<and> uses_of (fst s) = uses_of st0 \<and> length (snd s) = length st0 \<and>
     (\<forall>m < length st0. snd s ! m = foldl contribute CNone (read_contributions (guard_of (fst s)) st0 P m)) \<and>
     (\<forall>c. c \<notin> set P \<longrightarrow> guard_of (fst s) c = None) \<and>
     (\<forall>c \<in> set P. \<forall>x. guard_of (fst s) c = Some x \<longrightarrow> guard_sound mutating completion order pos P (fst s) c x)"

lemma read_contributions_graph:
  "same_graph st st' \<Longrightarrow> read_contributions G st' P m = read_contributions G st P m"
  by (simp add: read_contributions_def same_graph_eqs)

lemma guard_node_step:
  assumes inv: "guards_inv mutating completion order pos st0 P (st, cs)"
    and i: "i < length st0" "i \<notin> set P" "i \<in> set order"
    and unread: "\<And>c. c \<in> insert i (set P) \<Longrightarrow> c \<notin> set (loads_of st0 i)"
    and inputs: "\<And>c. c \<in> set P \<Longrightarrow> set (loads_of st0 c) \<subseteq> set order"
    and step: "guard_node mutating completion pos i (st, cs) = Ok s'"
  shows "guards_inv mutating completion order pos st0 (P @ [i]) s'"
proof -
  from inv have same: "same_graph st0 st" and cs: "length cs = length st0"
      "\<And>m. m < length st0 \<Longrightarrow> cs ! m = foldl contribute CNone (read_contributions (guard_of st) st0 P m)"
    and unset: "\<And>c. c \<notin> set P \<Longrightarrow> guard_of st c = None"
    and sound: "\<And>c x. c \<in> set P \<Longrightarrow> guard_of st c = Some x \<Longrightarrow> guard_sound mutating completion order pos P st c x"
    by (auto simp: guards_inv_def)
  note eqs = same_graph_eqs [OF same]
  obtain nd where nd: "i < length st" "st ! i = Filled nd"
    using step by (auto simp: guard_node_def rbind_eq_Ok store_at_Ok)
  let ?c = "cs ! i"
  define g where "g = (case ?c of
      OnlyUnder x \<Rightarrow> if (\<not> is_effectful mutating (nd_op nd) \<and> i \<noteq> completion) \<and> pos ! x < pos ! i then Some x else nd_guard nd
    | _ \<Rightarrow> nd_guard nd)"
  let ?st' = "st[i := Filled (nd\<lparr>nd_guard := g\<rparr>)]"
  obtain cs' where cs': "fold_ok (push_read g) (input_reads (nd_op nd)) cs = Ok cs'" "s' = (?st', cs')"
    using step nd i(1) cs(1) unfolding g_def
    by (auto simp: guard_node_def rbind_eq_Ok rmap_eq_Ok store_at_Ok slice_at_def Let_def)
  have none: "nd_guard nd = None" using unset [OF i(2)] nd by (simp add: guard_of_def field_at_filled)
  have same': "same_graph st0 ?st'" using same same_graph_update [OF nd] by (auto intro: same_graph_trans)
  have guard': "guard_of ?st' n = (if n = i then g else guard_of st n)" for n
    using nd by (simp add: guard_of_def field_at_update)
  have uses': "uses_of ?st' = uses_of st0"
  proof -
    have "uses_of ?st' = uses_of st"
      by (rule ext) (simp add: uses_of_def field_at_update [OF nd] field_at_filled [OF nd])
    with inv show ?thesis by (simp add: guards_inv_def)
  qed
  have rc: "read_contributions (guard_of ?st') st0 P m = read_contributions (guard_of st) st0 P m" for m
    using i(2) guard' by (intro read_contributions_cong) auto
  have reads: "reads_of st0 i = input_reads (nd_op nd)"
  proof -
    have "reads_of st i = input_reads (nd_op nd)" by (simp add: reads_of_def field_at_filled [OF nd])
    with eqs show ?thesis by simp
  qed
  have rc_i: "read_contributions (guard_of ?st') st0 [i] m =
      map (\<lambda>ir. contribution g (snd ir)) (filter (\<lambda>ir. fst ir = m) (reads_of st0 i))" for m
    using guard' by (simp add: read_contributions_def)
  have rc_c: "read_contributions (guard_of ?st') st0 (P @ [i]) c = read_contributions (guard_of st) st0 P c"
    if "c \<in> insert i (set P)" for c
  proof -
    have "read_contributions (guard_of ?st') st0 [i] c = []"
      using unread [OF that] by (intro read_contributions_none) simp
    then show ?thesis by (simp add: rc)
  qed
  have g_sound: "guard_sound mutating completion order pos (P @ [i]) ?st' i x" if "g = Some x" for x
  proof -
    have c: "?c = OnlyUnder x" "\<not> is_effectful mutating (nd_op nd)" "i \<noteq> completion" "pos ! x < pos ! i"
      using that none by (auto simp: g_def split: consumption.splits if_splits)
    then have all: "read_contributions (guard_of st) st0 P i \<noteq> []"
        "\<forall>y \<in> set (read_contributions (guard_of st) st0 P i). y = Some x"
      using cs(2) [OF i(1)] by (simp_all add: only_under_iff)
    then obtain c read where "c \<in> set P" "(i, read) \<in> set (reads_of st0 c)" "contribution (guard_of st c) read = Some x"
      by (metis in_read_contributions list.set_intros(1) neq_Nil_conv)
    then have "x \<in> set order"
      using inputs [of c] per_row_load [of i _ st0 c] sound [of c]
      by (cases read) (auto simp: contribution_def guard_sound_def)
    with c all nd show ?thesis
      by (simp add: guard_sound_def read_contributions_graph [OF same'] rc_c field_at_update
          del: read_contributions_append)
  qed
  have P_sound: "guard_sound mutating completion order pos (P @ [i]) ?st' c x"
    if "c \<in> set P" "guard_of st c = Some x" for c x
    using sound [OF that] that(1) i(2) nd
    by (auto simp: guard_sound_def read_contributions_graph [OF same'] read_contributions_graph [OF same] rc_c
        field_at_update simp del: read_contributions_append)
  have cons: "cs' ! m = foldl contribute CNone (read_contributions (guard_of ?st') st0 (P @ [i]) m)"
    if "m < length st0" for m
    using push_reads_Ok [OF cs'(1)] that cs by (simp add: rc rc_i reads)
  show ?thesis
    unfolding guards_inv_def cs'(2) fst_conv snd_conv
    using same' uses' cons push_reads_Ok [OF cs'(1)] cs(1) unset guard' g_sound P_sound
    by (auto split: if_splits)
qed

subsection \<open>Valid plans\<close>

text \<open>
  The promise of a plan to its executor: nodes come after what they load, use counts are the
  numbers of loads, and every read of a guarded node is unobservable when its guard fails.
\<close>

definition before :: "'a list \<Rightarrow> 'a \<Rightarrow> 'a \<Rightarrow> bool" where
  "before xs x y \<longleftrightarrow> (\<exists>i j. i < j \<and> j < length xs \<and> xs ! i = x \<and> xs ! j = y)"

definition guard_valid :: "logical_plan \<Rightarrow> node_id \<Rightarrow> node_id \<Rightarrow> bool" where
  "guard_valid plan n x \<longleftrightarrow>
     before (lp_order plan) x n \<and> n \<noteq> lp_completion plan \<and>
     (\<exists>c \<in> set (lp_order plan). n \<in> set (loads_of (lp_store plan) c)) \<and>
     (\<forall>c \<in> set (lp_order plan). \<forall>read. (n, read) \<in> set (reads_of (lp_store plan) c) \<longrightarrow>
        contribution (guard_of (lp_store plan) c) read = Some x)"

definition valid_plan :: "logical_plan \<Rightarrow> bool" where
  "valid_plan plan \<longleftrightarrow>
     (let st = lp_store plan; order = lp_order plan in
      distinct order \<and> lp_completion plan \<in> set order \<and>
      (\<forall>n \<in> set order. \<exists>nd. plan_at plan n = Ok nd) \<and>
      (\<forall>i < length order. set (loads_of st (order ! i)) \<subseteq> set (take i order)) \<and>
      (\<forall>m. uses_of st m = length (filter (\<lambda>n. m \<in> set (loads_of st n)) order) +
         (if m = lp_completion plan then 1 else 0)) \<and>
      (\<forall>n \<in> set order. \<forall>x. guard_of st n = Some x \<longrightarrow> guard_valid plan n x))"

text \<open>The arena as planning leaves it: dependencies include the inputs, nothing is counted yet.\<close>

definition planned :: "store \<Rightarrow> bool" where
  "planned st \<longleftrightarrow>
     well_formed st \<and> acyclic_deps st \<and>
     (\<forall>n < length st. set (loads_of st n) \<subseteq> set (deps_of st n)) \<and>
     (\<forall>n. uses_of st n = 0) \<and> (\<forall>n. guard_of st n = None)"

lemma annotate_guards_Ok:
  assumes order: "distinct order" "set order \<subseteq> {..<length st}"
    and first: "\<And>i. i < length order \<Longrightarrow> set (loads_of st (order ! i)) \<subseteq> set (take i order)"
    and unset: "\<And>n. guard_of st n = None"
    and run: "annotate_guards mutating order completion st = Ok st'"
  shows "same_graph st st' \<and> uses_of st' = uses_of st \<and>
    (\<forall>c x. guard_of st' c = Some x \<longrightarrow>
       c \<in> set order \<and> guard_sound mutating completion order (positions (length st) order) order st' c x)"
proof -
  let ?pos = "positions (length st) order"
  let ?step = "guard_node mutating completion ?pos"
  have prefix: "guards_inv mutating completion order ?pos st (take k (rev order)) s'"
    if "fold_ok ?step (take k (rev order)) (st, replicate (length st) CNone) = Ok s'" "k \<le> length order" for k s'
    using that
  proof (induction k arbitrary: s')
    case 0
    then show ?case using unset by (auto simp: guards_inv_def read_contributions_def)
  next
    case (Suc k)
    let ?i = "length order - Suc k"
    have take: "take (Suc k) (rev order) = take k (rev order) @ [order ! ?i]"
      using Suc.prems(2) by (simp add: take_Suc_conv_app_nth rev_nth)
    then obtain s where s: "fold_ok ?step (take k (rev order)) (st, replicate (length st) CNone) = Ok s"
        "?step (order ! ?i) s = Ok s'"
      using Suc.prems(1) by (auto simp: fold_ok_append rbind_eq_Ok)
    have later: "set (take k (rev order)) = set (drop (Suc ?i) order)"
      using Suc.prems(2) by (simp add: take_rev Suc_diff_Suc)
    have parts: "set (take ?i order) \<inter> set (drop ?i order) = {}"
      using order(1) by (metis append_take_drop_id distinct_append)
    have "drop ?i order = order ! ?i # drop (Suc ?i) order"
      using Suc.prems(2) by (simp add: Cons_nth_drop_Suc)
    then have i_in: "order ! ?i \<in> set (drop ?i order)" and drop_sub: "set (drop (Suc ?i) order) \<subseteq> set (drop ?i order)"
      by auto
    have dist: "distinct (order ! ?i # drop (Suc ?i) order)"
      using order(1) Suc.prems(2) by (simp add: Cons_nth_drop_Suc)
    have inputs: "set (loads_of st c) \<subseteq> set order" if "c \<in> set order" for c
      using that first by (metis in_set_conv_nth order_trans set_take_subset)
    show ?case
      unfolding take
    proof (rule guard_node_step [where st = "fst s" and cs = "snd s"])
      show "guards_inv mutating completion order ?pos st (take k (rev order)) (fst s, snd s)"
        using Suc.IH [OF s(1)] Suc.prems(2) by simp
      show "order ! ?i < length st" using order(2) Suc.prems(2) by (simp add: subset_iff)
      show "order ! ?i \<notin> set (take k (rev order))" using dist later by simp
      show "order ! ?i \<in> set order" using Suc.prems(2) by simp
      show "c \<notin> set (loads_of st (order ! ?i))" if "c \<in> insert (order ! ?i) (set (take k (rev order)))" for c
      proof -
        have "c \<in> set (drop ?i order)" using that i_in drop_sub later by auto
        with parts have "c \<notin> set (take ?i order)" by auto
        moreover have "?i < length order" using Suc.prems(2) by simp
        ultimately show ?thesis using first [of ?i] by auto
      qed
      show "set (loads_of st c) \<subseteq> set order" if "c \<in> set (take k (rev order))" for c
        using inputs that by (metis in_set_takeD set_rev)
      show "?step (order ! ?i) (fst s, snd s) = Ok s'" using s(2) by simp
    qed
  qed
  obtain s' where s': "fold_ok ?step (rev order) (st, replicate (length st) CNone) = Ok s'" "st' = fst s'"
    using run by (auto simp: annotate_guards_def rmap_eq_Ok)
  then have inv: "guards_inv mutating completion order ?pos st (rev order) s'"
    using prefix [of "length order" s'] by simp
  have "set (read_contributions G x (rev order) m) = set (read_contributions G x order m)" for G x m
    by (auto simp: in_read_contributions)
  then have "(read_contributions G x (rev order) m = []) = (read_contributions G x order m = [])"
    "set (read_contributions G x (rev order) m) = set (read_contributions G x order m)" for G x m
    by (metis set_empty)+
  then have "guard_sound mutating completion order ?pos order st' c x"
    if "guard_sound mutating completion order ?pos (rev order) st' c x" for c x
    using that by (simp add: guard_sound_def)
  with inv s'(2) show ?thesis
    unfolding guards_inv_def by (metis option.distinct(1) set_rev)
qed

end
