(* ===== verification/PlanValid.thy ===== *)
theory PlanValid
  imports PlanGuards
begin

text \<open>
  Planning succeeds on every complete acyclic graph, and the plan it returns is valid.
\<close>

lemma filled_same_graph:
  assumes "well_formed st" "same_graph st st'" "n < length st"
  shows "\<exists>nd. store_at st' n = Ok nd \<and> n < length st' \<and> st' ! n = Filled nd \<and> input_loads (nd_op nd) = loads_of st n \<and>
    input_reads (nd_op nd) = reads_of st n"
proof -
  obtain nd where "store_at st n = Ok nd" using well_formed_at [OF assms(1,3)] by blast
  then have "field_at st' nd_op n = Some (nd_op nd)" using assms(2) by (auto simp: same_graph_def field_at_def)
  then obtain nd' where nd': "store_at st' n = Ok nd'" by (auto simp: field_at_def split: sum.splits)
  moreover from nd' have "input_loads (nd_op nd') = loads_of st' n" "input_reads (nd_op nd') = reads_of st' n"
    by (simp_all add: loads_of_def reads_of_def field_at_def)
  ultimately show ?thesis using same_graph_eqs [OF assms(2)] by (auto simp: store_at_Ok)
qed

lemma planned_loads: "planned st \<Longrightarrow> n < length st \<Longrightarrow> m \<in> set (loads_of st n) \<Longrightarrow> m < length st"
  unfolding planned_def well_formed_def by (meson subsetD)

lemma add_use_total:
  assumes "well_formed st" "same_graph st s" "i < length st"
  shows "\<exists>s'. add_use i s = Ok s' \<and> same_graph st s'"
proof -
  obtain nd where "i < length s" "s ! i = Filled nd"
    using filled_same_graph [OF assms] by blast
  then have "add_use i s = Ok (s[i := Filled (nd\<lparr>nd_uses := nd_uses nd + 1\<rparr>)])" by (simp add: add_use_def store_update_Ok)
  then show ?thesis using add_use_Ok assms(2) same_graph_trans by blast
qed

lemma count_loads_total:
  assumes "planned st" "same_graph st s" "n < length st"
  shows "\<exists>s'. count_loads n s = Ok s' \<and> same_graph st s'"
proof -
  have wf: "well_formed st" using assms(1) by (simp add: planned_def)
  obtain nd where nd: "store_at s n = Ok nd" "input_loads (nd_op nd) = loads_of st n"
    using filled_same_graph [OF wf assms(2,3)] by blast
  then show ?thesis
    using fold_ok_total [of "same_graph st" s "loads_of st n" add_use] add_use_total [OF wf] planned_loads [OF assms(1,3)]
      assms(2)
    by (simp add: count_loads_def)
qed

lemma guard_node_total:
  assumes "planned st" "same_graph st s" "length cs = length st" "n < length st"
  shows "\<exists>t. guard_node mutating completion pos n (s, cs) = Ok t \<and> same_graph st (fst t) \<and> length (snd t) = length st"
proof -
  have wf: "well_formed st" using assms(1) by (simp add: planned_def)
  obtain nd where nd: "store_at s n = Ok nd" "n < length s" "s ! n = Filled nd" "input_reads (nd_op nd) = reads_of st n"
    using filled_same_graph [OF wf assms(2,4)] by blast
  have "fst ir < length cs" if "ir \<in> set (input_reads (nd_op nd))" for ir
    using that nd(4) planned_loads [OF assms(1,4), of "fst ir"] assms(3) by (simp add: set_loads_of)
  from push_reads_total [OF this]
  have push: "\<exists>cs'. fold_ok (push_read g) (input_reads (nd_op nd)) cs = Ok cs' \<and> length cs' = length st" for g
    using push_reads_Ok assms(3) by metis
  have graph: "same_graph st (s[n := Filled (nd\<lparr>nd_guard := g\<rparr>)])" for g
    using same_graph_update [OF nd(2,3)] assms(2) by (auto intro: same_graph_trans)
  from push nd(1) assms(3,4) graph show ?thesis
    by (auto simp: guard_node_def slice_at_def Let_def rmap_eq_Ok)
qed

lemma annotate_guards_total:
  assumes "planned st" "same_graph st s" "set order \<subseteq> {..<length st}"
  shows "\<exists>s'. annotate_guards mutating order completion s = Ok s'"
proof -
  have "\<exists>t. fold_ok (guard_node mutating completion (positions (length s) order)) (rev order)
      (s, replicate (length s) CNone) = Ok t \<and> same_graph st (fst t) \<and> length (snd t) = length st"
    using assms guard_node_total [OF assms(1)] same_graph_eqs [OF assms(2)]
    by (intro fold_ok_total) auto
  then show ?thesis by (auto simp: annotate_guards_def)
qed

theorem logical_plan_valid:
  assumes st: "planned st" and completion: "completion < length st"
  shows "\<exists>plan. logical_plan_new mutating st completion = Ok plan \<and> valid_plan plan \<and>
    same_graph st (lp_store plan) \<and> lp_completion plan = completion \<and> last (lp_order plan) = completion \<and>
    set (lp_order plan) = {m. below st completion m} \<and> deps_first st {} (lp_order plan)"
proof -
  have wf: "well_formed st" "acyclic_deps st" using st by (simp_all add: planned_def)
  obtain order where order: "execution_order completion st = Ok order" "distinct order" "deps_first st {} order"
      "set order = {m. below st completion m}" "last order = completion" "order \<noteq> []" "set order \<subseteq> {..<length st}"
    using execution_order_Ok [OF wf completion] by blast
  have loads: "set (loads_of st n) \<subseteq> set (deps_of st n)" if "n < length st" for n
    using st that by (simp add: planned_def)
  have first: "set (loads_of st (order ! i)) \<subseteq> set (take i order)" if "i < length order" for i
    using deps_first_at [OF order(3) that] loads [of "order ! i"] order(7) that by (auto simp: subset_iff)
  obtain st1 where st1: "add_use completion st = Ok st1" "same_graph st st1"
    using add_use_total [OF wf(1) same_graph_refl completion] by blast
  have "\<exists>t. fold_ok count_loads order st1 = Ok t \<and> same_graph st t"
    using st1(2) order(7) count_loads_total [OF st] by (intro fold_ok_total) auto
  then obtain st2 where st2: "fold_ok count_loads order st1 = Ok st2" "same_graph st st2" by blast
  obtain st3 where st3: "annotate_guards mutating order completion st2 = Ok st3"
    using annotate_guards_total [OF st st2(2) order(7)] by blast
  let ?plan = "\<lparr>lp_store = st3, lp_order = order, lp_completion = completion\<rparr>"
  have new: "logical_plan_new mutating st completion = Ok ?plan"
    using order(1) st1(1) st2(1) st3 by (simp add: logical_plan_new_def)
  note eq1 = same_graph_eqs [OF st1(2)] and eq2 = same_graph_eqs [OF st2(2)]
  have unset: "guard_of st2 n = None" for n
    using add_use_Ok [OF st1(1)] fold_count_loads [OF st2(1)] st by (simp add: planned_def)
  have guards: "same_graph st2 st3 \<and> uses_of st3 = uses_of st2 \<and>
      (\<forall>c x. guard_of st3 c = Some x \<longrightarrow>
         c \<in> set order \<and> guard_sound mutating completion order (positions (length st2) order) order st3 c x)"
    by (rule annotate_guards_Ok [OF order(2) _ _ unset st3]) (use order(7) first eq2 in auto)
  then have graph: "same_graph st st3" using st2(2) same_graph_trans by blast
  note eq3 = same_graph_eqs [OF this]
  have uses: "uses_of st3 m = length (filter (\<lambda>n. m \<in> set (loads_of st n)) order) + (if m = completion then 1 else 0)" for m
    using guards add_use_Ok [OF st1(1)] fold_count_loads [OF st2(1)] st eq1 by (simp add: planned_def)
  have valid: "guard_valid ?plan n x" if "guard_of st3 n = Some x" for n x
  proof -
    let ?pos = "positions (length st2) order"
    have s: "n \<in> set order" "guard_sound mutating completion order ?pos order st3 n x"
      using guards that by auto
    then obtain j where j: "j < length order" "order ! j = n" by (auto simp: in_set_conv_nth)
    obtain i where i: "i < length order" "order ! i = x"
      using s(2) by (auto simp: guard_sound_def in_set_conv_nth)
    have pos: "?pos ! (order ! k) = k" if "k < length order" for k
      using positions_at [OF order(2) _ that] order(7) eq2 by simp
    have "i < j" using s(2) pos [OF i(1)] pos [OF j(1)] i j by (simp add: guard_sound_def)
    then have "before order x n" using i j unfolding before_def by blast
    moreover have "set (read_contributions (guard_of st3) st3 order n) \<noteq> {}"
      using s(2) by (simp add: guard_sound_def)
    then obtain y where "y \<in> set (read_contributions (guard_of st3) st3 order n)"
      using ex_in_conv by metis
    then have "\<exists>c \<in> set order. n \<in> set (loads_of st3 c)"
      by (force simp: in_read_contributions set_loads_of)
    moreover have "contribution (guard_of st3 c) read = Some x"
      if "c \<in> set order" "(n, read) \<in> set (reads_of st3 c)" for c read
    proof -
      have "contribution (guard_of st3 c) read \<in> set (read_contributions (guard_of st3) st3 order n)"
        using that unfolding in_read_contributions by blast
      with s(2) show ?thesis by (simp add: guard_sound_def)
    qed
    ultimately show ?thesis using s(2) by (simp add: guard_valid_def guard_sound_def)
  qed
  have at: "\<exists>nd. store_at st3 n = Ok nd" if "n \<in> set order" for n
    using filled_same_graph [OF wf(1) graph, of n] order(7) that by auto
  have "completion \<in> set order" using order(5,6) by (metis last_in_set)
  then have "valid_plan ?plan"
    using order(2) at first uses valid eq3 by (simp add: valid_plan_def plan_at_def)
  with new graph order(3-5) show ?thesis by auto
qed

end
