(* ===== verification/PlanShape.thy ===== *)
theory PlanShape
  imports PlanValid PlanSteps
begin

text \<open>
  The program of a valid plan: its steps run the nodes in the order of the plan, unguarded
  nodes alone and every conditional block under the one guard of its nodes, with the
  bookkeeping of the skipping path computed from the plan.
\<close>

fun step_nodes :: "plan_step \<Rightarrow> node_id list" where
  "step_nodes (StepRun n) = [n]"
| "step_nodes (StepIf b) = if_then b"

definition all_loads :: "logical_plan \<Rightarrow> node_id list \<Rightarrow> node_id list" where
  "all_loads plan ns = concat (map (loads_of (lp_store plan)) ns)"

definition escaping :: "logical_plan \<Rightarrow> node_id list \<Rightarrow> node_id \<Rightarrow> nat" where
  "escaping plan block n = usize_sub (uses_of (lp_store plan) n) (count_list (all_loads plan block) n)"

definition if_block_of :: "logical_plan \<Rightarrow> node_id list \<Rightarrow> if_block" where
  "if_block_of plan block =
     \<lparr>if_then = block, if_skipped_inputs = filter (\<lambda>l. l \<notin> set block) (all_loads plan block),
      if_skipped_outputs = filter (\<lambda>(n, uses). uses > 0) (map (\<lambda>n. (n, escaping plan block n)) block)\<rparr>"

fun step_ok :: "logical_plan \<Rightarrow> plan_step \<Rightarrow> bool" where
  "step_ok plan (StepRun n) = (guard_of (lp_store plan) n = None)"
| "step_ok plan (StepIf b) =
     (if_then b \<noteq> [] \<and> (\<exists>x. \<forall>n \<in> set (if_then b). guard_of (lp_store plan) n = Some x) \<and>
      b = if_block_of plan (if_then b))"

lemma plan_at_fields:
  "plan_at plan n = Ok nd \<Longrightarrow>
   nd_guard nd = guard_of (lp_store plan) n \<and> nd_uses nd = uses_of (lp_store plan) n \<and>
   input_loads (nd_op nd) = loads_of (lp_store plan) n \<and> input_reads (nd_op nd) = reads_of (lp_store plan) n"
  by (simp add: plan_at_def guard_of_def uses_of_def loads_of_def reads_of_def field_at_def)

lemma loads_at_Ok: "plan_at plan n = Ok nd \<Longrightarrow> loads_at plan n = Ok (loads_of (lp_store plan) n)"
  by (simp add: loads_at_def plan_at_fields)

lemma emit_if_block_Ok:
  assumes "\<And>n. n \<in> set block \<Longrightarrow> \<exists>nd. plan_at plan n = Ok nd"
  shows "emit_if_block plan block = Ok (StepIf (if_block_of plan block))"
proof -
  have "traverse (loads_at plan) block = Ok (map (loads_of (lp_store plan)) block)"
    using assms loads_at_Ok by (intro traverse_Ok_map) blast
  then have loads: "block_loads plan block = Ok (all_loads plan block)"
    by (simp add: block_loads_def all_loads_def)
  have "traverse (\<lambda>n. rmap (Pair n) (external_use_count plan block n)) block = Ok (map (\<lambda>n. (n, escaping plan block n)) block)"
  proof (rule traverse_Ok_map)
    fix n assume "n \<in> set block"
    then obtain nd where "plan_at plan n = Ok nd" using assms by blast
    with loads show "rmap (Pair n) (external_use_count plan block n) = Ok (n, escaping plan block n)"
      by (simp add: external_use_count_def escaping_def plan_at_fields)
  qed
  with loads show ?thesis
    by (simp add: emit_if_block_def collect_skipped_inputs_def collect_skipped_outputs_def if_block_of_def)
qed

lemma if_then_block [simp]: "if_then (if_block_of plan block) = block"
  by (simp add: if_block_of_def)

text \<open>What the planner has emitted, and the block it is collecting.\<close>

definition planner_inv :: "logical_plan \<Rightarrow> node_id list \<Rightarrow> planner \<Rightarrow> bool" where
  "planner_inv plan ns s \<longleftrightarrow>
     concat (map step_nodes (fst s)) @ snd s = ns \<and> (\<forall>t \<in> set (fst s). step_ok plan t) \<and>
     (\<exists>x. \<forall>n \<in> set (snd s). guard_of (lp_store plan) n = Some x)"

lemma flush_if_block_Ok:
  assumes "planner_inv plan ns s" "\<And>n. n \<in> set ns \<Longrightarrow> \<exists>nd. plan_at plan n = Ok nd"
  shows "\<exists>steps. flush_if_block plan s = Ok (steps, []) \<and> planner_inv plan ns (steps, [])"
proof -
  obtain steps block where s: "s = (steps, block)" by (cases s)
  show ?thesis
  proof (cases "block = []")
    case True
    with assms s show ?thesis by (simp add: flush_if_block_def)
  next
    case False
    have "emit_if_block plan block = Ok (StepIf (if_block_of plan block))"
      using assms by (intro emit_if_block_Ok) (auto simp: planner_inv_def s)
    with False assms(1) s show ?thesis
      by (auto simp: flush_if_block_def planner_inv_def)
  qed
qed

lemma plan_node_Ok:
  assumes inv: "planner_inv plan ns s" and at: "\<And>m. m \<in> set (n # ns) \<Longrightarrow> \<exists>nd. plan_at plan m = Ok nd"
  shows "\<exists>s'. plan_node plan n s = Ok s' \<and> planner_inv plan (ns @ [n]) s'"
proof -
  obtain steps block where s: "s = (steps, block)" by (cases s)
  obtain nd where nd: "plan_at plan n = Ok nd" using at by auto
  let ?g = "guard_of (lp_store plan)"
  have add: "planner_inv plan (ns @ [n]) (if nd_guard nd \<noteq> None then (st, bl @ [n]) else (st @ [StepRun n], bl))"
    if "planner_inv plan ns (st, bl)" "bl \<noteq> [] \<Longrightarrow> ?g n = ?g (hd bl)" for st bl
    using that plan_at_fields [OF nd] by (cases bl) (auto simp: planner_inv_def)
  obtain st where st: "flush_if_block plan s = Ok (st, [])" "planner_inv plan ns (st, [])"
    using flush_if_block_Ok [OF inv] at by auto
  show ?thesis
  proof (cases block)
    case Nil
    with inv nd s add [of steps "[]"] show ?thesis by (simp add: plan_node_def)
  next
    case (Cons m ms)
    with inv s have "m \<in> set (n # ns)" by (auto simp: planner_inv_def)
    then obtain nd1 where nd1: "plan_at plan m = Ok nd1" using at by blast
    show ?thesis
    proof (cases "?g n = ?g m")
      case True
      with Cons inv nd nd1 s add [of steps "m # ms"] show ?thesis
        by (simp add: plan_node_def plan_at_fields)
    next
      case False
      with Cons nd nd1 s st add [of st "[]"] show ?thesis
        by (simp add: plan_node_def plan_at_fields)
    qed
  qed
qed

lemma plan_steps_Ok:
  assumes "\<And>n. n \<in> set (lp_order plan) \<Longrightarrow> \<exists>nd. plan_at plan n = Ok nd"
  shows "\<exists>steps. plan_steps plan = Ok steps \<and> concat (map step_nodes steps) = lp_order plan \<and>
    (\<forall>t \<in> set steps. step_ok plan t)"
proof -
  have "\<exists>s. fold_ok (plan_node plan) ns ([], []) = Ok s \<and> planner_inv plan ns s" if "set ns \<subseteq> set (lp_order plan)" for ns
    using that
  proof (induction ns rule: rev_induct)
    case (snoc n ns)
    then obtain s where s: "fold_ok (plan_node plan) ns ([], []) = Ok s" "planner_inv plan ns s" by auto
    then obtain s' where "plan_node plan n s = Ok s'" "planner_inv plan (ns @ [n]) s'"
      using plan_node_Ok [OF s(2), of n] assms snoc.prems
      by (metis in_mono list.set_intros set_ConsD set_append Un_iff prod.collapse)
    with s show ?case by (simp add: fold_ok_append)
  qed (simp add: planner_inv_def)
  then obtain s where s: "fold_ok (plan_node plan) (lp_order plan) ([], []) = Ok s" "planner_inv plan (lp_order plan) s"
    by blast
  obtain steps where "flush_if_block plan s = Ok (steps, [])" "planner_inv plan (lp_order plan) (steps, [])"
    using flush_if_block_Ok [OF s(2)] assms by blast
  with s show ?thesis by (auto simp: plan_steps_def planner_inv_def)
qed

end
