(* ===== verification/StepRules.thy ===== *)
theory StepRules
  imports ExecPlan
begin

text \<open>
  Triples for the steps of the executor, and what the store of node outputs promises them.

  A triple says that a step started in a state satisfying its precondition does not end in a
  panic of the store, and that its postcondition holds of the value it returns.  The store is
  seen through \<open>view\<close>: for every node the class of the output it holds and the loads it
  still has to serve.  Its contract is the locale \<open>counted_store\<close>; the operations of
  \<open>VarStore\<close> implement it.
\<close>

subsection \<open>Triples\<close>

definition safe :: "('s \<Rightarrow> bool) \<Rightarrow> ('s, 'a) step \<Rightarrow> ('a \<Rightarrow> 's \<Rightarrow> bool) \<Rightarrow> bool" where
  "safe P m Q \<longleftrightarrow>
     (\<forall>s. P s \<longrightarrow> (case fst (m s) of Done a \<Rightarrow> Q a (snd (m s)) | Fail _ \<Rightarrow> True | VarPanic _ \<Rightarrow> False))"

lemma safe_conseq:
  "safe P m Q \<Longrightarrow> (\<And>s. P' s \<Longrightarrow> P s) \<Longrightarrow> (\<And>a s. Q a s \<Longrightarrow> Q' a s) \<Longrightarrow> safe P' m Q'"
  unfolding safe_def by (auto split: outcome.splits)

lemma safe_pre: "(\<And>s. P s \<Longrightarrow> safe ((=) s) m Q) \<Longrightarrow> safe P m Q"
  unfolding safe_def by blast

lemma safe_False [simp]: "safe (\<lambda>_. False) m Q"
  by (simp add: safe_def)

lemma safe_assume: "(p \<Longrightarrow> safe P m Q) \<Longrightarrow> safe (\<lambda>s. P s \<and> p) m Q"
  unfolding safe_def by blast

lemma safe_sret: "(\<And>s. P s \<Longrightarrow> Q a s) \<Longrightarrow> safe P (sret a) Q"
  by (simp add: safe_def sret_def)

lemma safe_slift: "(\<And>s a. P s \<Longrightarrow> r = Ok a \<Longrightarrow> Q a s) \<Longrightarrow> safe P (slift r) Q"
  by (cases r) (simp_all add: safe_def slift_def outcome_of_def)

lemma safe_sbind: "safe P m R \<Longrightarrow> (\<And>a. safe (R a) (f a) Q) \<Longrightarrow> safe P (sbind m f) Q"
  unfolding safe_def sbind_def by (fastforce split: outcome.splits prod.splits)

lemma safe_if: "(b \<Longrightarrow> safe P m Q) \<Longrightarrow> (\<not> b \<Longrightarrow> safe P m' Q) \<Longrightarrow> safe P (if b then m else m') Q"
  by simp

lemma safe_straverse:
  assumes "\<And>xs y ys. zs = xs @ y # ys \<Longrightarrow> safe (I xs) (f y) (\<lambda>_. I (xs @ [y]))"
  shows "safe (I []) (straverse f zs) (\<lambda>_. I zs)"
proof -
  have "safe (I xs) (straverse f ys) (\<lambda>_. I zs)" if "zs = xs @ ys" for xs ys
    using that
  proof (induction ys arbitrary: xs)
    case (Cons y ys)
    show ?case
      unfolding straverse.simps
      by (rule safe_sbind [OF assms [OF Cons.prems] safe_sbind [OF Cons.IH safe_sret]]) (simp_all add: Cons.prems)
  qed (simp add: safe_sret)
  from this [of "[]" zs] show ?thesis by simp
qed

subsection \<open>Steps that leave the store alone\<close>

definition keeps :: "('d exec_state, 'a) step \<Rightarrow> bool" where
  "keeps m \<longleftrightarrow> (\<forall>s. xs_slots (snd (m s)) = xs_slots s \<and> (\<forall>p. fst (m s) \<noteq> VarPanic p))"

lemma safe_keeps: "keeps m \<Longrightarrow> safe (\<lambda>s. A (xs_slots s)) m (\<lambda>_ s. A (xs_slots s))"
  by (simp add: keeps_def safe_def split: outcome.splits)

named_theorems keeps_intros \<open>steps built without the store\<close>

lemma keeps_basic [keeps_intros]:
  "keeps (sret a)" "keeps (slift r)" "keeps (exec_driver E op)" "keeps (buffer_rows E rs)"
  by (auto simp: keeps_def sret_def slift_def outcome_of_def exec_driver_def buffer_rows_def split: sum.splits prod.splits)

lemma keeps_sbind [keeps_intros]: "keeps m \<Longrightarrow> (\<And>a. keeps (f a)) \<Longrightarrow> keeps (sbind m f)"
  unfolding keeps_def sbind_def by (auto split: outcome.splits prod.splits) (metis fst_conv snd_conv)+

lemma keeps_state: "(\<And>t. keeps (f t)) \<Longrightarrow> keeps (\<lambda>s. f s s)"
  by (simp add: keeps_def)

lemma keeps_straverse [keeps_intros]: "(\<And>x. x \<in> set xs \<Longrightarrow> keeps (f x)) \<Longrightarrow> keeps (straverse f xs)"
  by (induction xs) (auto intro!: keeps_intros)

lemma keeps_if [keeps_intros]: "keeps m \<Longrightarrow> keeps m' \<Longrightarrow> keeps (if b then m else m')"
  by simp

lemma keeps_Let [keeps_intros]: "(\<And>x. keeps (f x)) \<Longrightarrow> keeps (Let x f)"
  by (simp add: Let_def)

lemma keeps_case_prod [keeps_intros]: "(\<And>a b. keeps (f a b)) \<Longrightarrow> keeps (case p of (a, b) \<Rightarrow> f a b)"
  by (cases p) simp

lemma keeps_case_option [keeps_intros]:
  "keeps m \<Longrightarrow> (\<And>a. keeps (f a)) \<Longrightarrow> keeps (case x of None \<Rightarrow> m | Some a \<Rightarrow> f a)"
  by (cases x) simp_all

lemma keeps_case_rows [keeps_intros]:
  "(\<And>c. keeps (f c)) \<Longrightarrow> (\<And>v. keeps (g v)) \<Longrightarrow> (\<And>vs. keeps (h vs)) \<Longrightarrow> keeps (case r of RCount c \<Rightarrow> f c | RValue v \<Rightarrow> g v | RStream vs \<Rightarrow> h vs)"
  by (cases r) simp_all

lemma keeps_case_conditional [keeps_intros]:
  "keeps f \<Longrightarrow> keeps g \<Longrightarrow> keeps h \<Longrightarrow> keeps (case c of CoNone \<Rightarrow> f | CoCount \<Rightarrow> g | CoReturning \<Rightarrow> h)"
  by (cases c) simp_all

lemma keeps_or_rollback [keeps_intros]: "keeps m \<Longrightarrow> keeps (or_rollback E rb m)"
  using keeps_basic(3) [of E "DTransaction rb"]
  by (auto simp: keeps_def or_rollback_def split: prod.splits outcome.splits) (metis fst_conv snd_conv)+

subsection \<open>The counted store\<close>

text \<open>What the store holds of an output: a skip, or rows, which may be none and may be the null value.\<close>

datatype content = CSkipped | CRows bool bool

type_synonym view = "node_id \<Rightarrow> (content \<times> nat) option"

definition reduce :: "nat \<Rightarrow> (content \<times> nat) option \<Rightarrow> (content \<times> nat) option" where
  "reduce j x = (case x of None \<Rightarrow> None | Some (k, c) \<Rightarrow> if c \<le> j then None else Some (k, c - j))"

definition spend :: "node_id list \<Rightarrow> view \<Rightarrow> view" where
  "spend ns G = (\<lambda>m. reduce (count_list ns m) (G m))"

definition positive :: "view \<Rightarrow> bool" where
  "positive G \<longleftrightarrow> (\<forall>m k. G m \<noteq> Some (k, 0))"

definition affords :: "node_id list \<Rightarrow> view \<Rightarrow> bool" where
  "affords ns G \<longleftrightarrow> (\<forall>m \<in> set ns. \<exists>k c. G m = Some (k, c) \<and> count_list ns m \<le> c)"

definition live :: "view \<Rightarrow> node_id \<Rightarrow> bool" where
  "live G m \<longleftrightarrow> (\<forall>c. G m \<noteq> Some (CSkipped, c))"

lemma spend_Nil [simp]: "positive G \<Longrightarrow> spend [] G = G"
  by (rule ext) (auto simp: spend_def reduce_def positive_def split: option.splits prod.splits)

lemma spend_append: "spend (xs @ ys) G = spend ys (spend xs G)"
  by (rule ext) (auto simp: spend_def reduce_def split: option.splits)

lemma spend_Cons: "spend (n # ns) G = spend ns (spend [n] G)"
  using spend_append [of "[n]" ns G] by simp

lemma spend_mset: "mset xs = mset ys \<Longrightarrow> spend xs G = spend ys G"
  by (simp add: spend_def count_mset [symmetric])

lemma positive_spend [simp]: "positive (spend ns G)"
  by (auto simp: positive_def spend_def reduce_def split: option.splits if_splits)

lemma spend_Some:
  "spend ns G m = Some (k, c) \<longleftrightarrow> (\<exists>c'. G m = Some (k, c') \<and> count_list ns m < c' \<and> c = c' - count_list ns m)"
  by (auto simp: spend_def reduce_def split: option.splits if_splits)

lemma spend_other: "positive G \<Longrightarrow> n \<notin> set ns \<Longrightarrow> spend ns G n = G n"
  by (auto simp: spend_def reduce_def positive_def split: option.splits prod.splits)

lemma live_spend: "live G m \<Longrightarrow> live (spend ns G) m"
  by (auto simp: live_def spend_Some)

lemma affords_tail: "affords (n # ns) G \<Longrightarrow> affords ns (spend [n] G)"
  unfolding affords_def
proof
  fix m assume all: "\<forall>m \<in> set (n # ns). \<exists>k c. G m = Some (k, c) \<and> count_list (n # ns) m \<le> c" and m: "m \<in> set ns"
  then obtain k c where "G m = Some (k, c)" "count_list (n # ns) m \<le> c" by auto
  moreover have "count_list ns m > 0" using m by (metis count_list_0_iff gr0I)
  ultimately show "\<exists>k c. spend [n] G m = Some (k, c) \<and> count_list ns m \<le> c"
    by (auto simp: spend_Some split: if_splits)
qed

locale counted_store =
  fixes holds :: "view \<Rightarrow> 's \<Rightarrow> bool"
    and loads :: "node_id \<Rightarrow> ('s, 'r) step"
    and releases :: "node_id \<Rightarrow> ('s, unit) step"
    and class_of :: "'r \<Rightarrow> content"
  assumes load_law:
      "\<lbrakk>G n = Some (k, c); k \<noteq> CSkipped; positive G\<rbrakk> \<Longrightarrow>
       safe (holds G) (loads n) (\<lambda>resp s. holds (spend [n] G) s \<and> class_of resp = k)"
    and release_law:
      "\<lbrakk>G n = Some (k, c); positive G\<rbrakk> \<Longrightarrow> safe (holds G) (releases n) (\<lambda>_. holds (spend [n] G))"
begin

lemma affords_hd: "affords (n # ns) G \<Longrightarrow> \<exists>k c. G n = Some (k, c)"
  by (auto simp: affords_def)

lemma release_all:
  "positive G \<Longrightarrow> affords ns G \<Longrightarrow> safe (holds G) (straverse releases ns) (\<lambda>_. holds (spend ns G))"
proof (induction ns arbitrary: G)
  case (Cons n ns)
  obtain k c where n: "G n = Some (k, c)" using affords_hd [OF Cons.prems(2)] by blast
  show ?case
    unfolding straverse.simps spend_Cons [of n ns]
    by (rule safe_sbind [OF release_law [OF n Cons.prems(1)] safe_sbind [OF Cons.IH safe_sret]])
      (use affords_tail [OF Cons.prems(2)] in simp_all)
qed (simp add: safe_sret)

lemma load_all:
  assumes frame: "\<And>H resp. safe (holds H) (g resp) (\<lambda>_. holds H)"
  shows "\<lbrakk>positive G; affords ns G; \<forall>n \<in> set ns. live G n\<rbrakk> \<Longrightarrow>
    safe (holds G) (straverse (\<lambda>n. sbind (loads n) g) ns) (\<lambda>_. holds (spend ns G))"
proof (induction ns arbitrary: G)
  case (Cons n ns)
  obtain k c where n: "G n = Some (k, c)" using affords_hd [OF Cons.prems(2)] by blast
  with Cons.prems(3) have k: "k \<noteq> CSkipped" by (auto simp: live_def)
  have head: "safe (holds G) (sbind (loads n) g) (\<lambda>_. holds (spend [n] G))"
    by (rule safe_sbind [OF load_law [OF n k Cons.prems(1)]]) (rule safe_conseq [OF frame], auto)
  show ?case
    unfolding straverse.simps spend_Cons [of n ns]
    by (rule safe_sbind [OF head safe_sbind [OF Cons.IH safe_sret]])
      (use affords_tail [OF Cons.prems(2)] Cons.prems(3) live_spend in simp_all)
qed (simp add: safe_sret)

end

subsection \<open>The slots implement it\<close>

definition rows_empty :: "resolve \<Rightarrow> rows \<Rightarrow> bool" where
  "rows_empty R r =
     (case r of
        RCount c \<Rightarrow> c = 0
      | RValue v \<Rightarrow> v = VNull \<or> v = VList []
      | RStream vs \<Rightarrow> stream_collect R vs = Ok [])"

definition rows_class :: "resolve \<Rightarrow> rows \<Rightarrow> content" where
  "rows_class R r = CRows (rows_empty R r) (r = RValue VNull)"

definition content_of :: "resolve \<Rightarrow> entry_value \<Rightarrow> content" where
  "content_of R v = (case v of EvSkipped \<Rightarrow> CSkipped | EvResponse resp \<Rightarrow> rows_class R (re_values resp))"

definition slots_view :: "resolve \<Rightarrow> slots \<Rightarrow> view" where
  "slots_view R slots n =
     (if n < length slots then map_option (\<lambda>e. (content_of R (en_value e), en_count e)) (slots ! n) else None)"

definition holds :: "'d engine \<Rightarrow> nat \<Rightarrow> view \<Rightarrow> 'd exec_state \<Rightarrow> bool" where
  "holds E N G xs \<longleftrightarrow> length (xs_slots xs) = N \<and> slots_view (en_models E) (xs_slots xs) = G"

lemma slots_view_put:
  "n < length slots \<Longrightarrow> slots_view R (slots[n := e]) =
   (slots_view R slots)(n := map_option (\<lambda>e. (content_of R (en_value e), en_count e)) e)"
  by (rule ext) (simp add: slots_view_def nth_list_update)

lemma slots_view_Some:
  "slots_view R slots n = Some (k, c) \<longleftrightarrow>
   (\<exists>e. n < length slots \<and> slots ! n = Some e \<and> content_of R (en_value e) = k \<and> en_count e = c)"
  by (auto simp: slots_view_def)

lemma content_of_simps [simp]:
  "content_of R EvSkipped = CSkipped"
  "content_of R (EvResponse resp) = rows_class R (re_values resp)"
  by (simp_all add: content_of_def)

lemma rows_class_not_skipped [simp]: "rows_class R r \<noteq> CSkipped"
  by (simp add: rows_class_def)

lemma spend_one: "positive G \<Longrightarrow> spend [n] G = G(n := reduce 1 (G n))"
  by (rule ext) (auto simp: spend_def reduce_def positive_def split: option.splits prod.splits)

lemma rows_dup_class: "rows_dup R r = (Ok d, r') \<Longrightarrow> rows_class R d = rows_class R r \<and> rows_class R r' = rows_class R r"
  by (auto simp: rows_dup_def rows_class_def rows_empty_def split: rows.splits prod.splits sum.splits
      dest!: stream_dup_collect)

lemma rows_buffer_class:
  "rows_buffer R r = (Ok u, r') \<Longrightarrow> rows_class R r' = rows_class R r \<and> rows_non_empty r' = Ok (\<not> rows_empty R r)"
  by (auto simp: rows_buffer_def rows_class_def rows_empty_def rows_non_empty_def word_gt_0
      split: rows.splits prod.splits sum.splits val.splits)

lemma with_rows_values [simp]: "re_values (with_rows resp r) = r"
  by (simp add: with_rows_def)

lemma vars_load_law:
  assumes G: "slots_view R slots n = Some (k, c)" "k \<noteq> CSkipped" "c > 0" and run: "vars_load R n slots = (r, slots')"
  shows "(\<exists>resp. r = Done resp \<and> length slots' = length slots \<and> rows_class R (re_values resp) = k \<and>
      slots_view R slots' = (slots_view R slots)(n := reduce 1 (slots_view R slots n))) \<or> (\<exists>e. r = Fail e)"
proof -
  obtain e where e: "n < length slots" "slots ! n = Some e" "content_of R (en_value e) = k" "en_count e = c"
    using G(1) by (auto simp: slots_view_Some)
  with G(2) obtain resp where resp: "en_value e = EvResponse resp" by (cases "en_value e") auto
  show ?thesis
  proof (cases "c = 1")
    case True
    with run e resp G(1) show ?thesis
      by (auto simp: vars_load_def at_slot_def sbind_def put_slot_def sret_def slots_view_put reduce_def)
  next
    case False
    obtain dup kept where d: "rows_dup R (re_values resp) = (dup, kept)" by force
    with run e resp G False show ?thesis
      by (cases dup) (auto simp: vars_load_def at_slot_def sbind_def put_slot_def slift_def outcome_of_def
          slots_view_put reduce_def dest: rows_dup_class)
  qed
qed

lemma vars_release_law:
  assumes G: "slots_view R slots n = Some (k, c)" "c > 0"
  shows "\<exists>slots'. vars_release n slots = (Done (), slots') \<and> length slots' = length slots \<and>
      slots_view R slots' = (slots_view R slots)(n := reduce 1 (slots_view R slots n))"
proof -
  obtain e where "n < length slots" "slots ! n = Some e" "content_of R (en_value e) = k" "en_count e = c"
    using G(1) by (auto simp: slots_view_Some)
  with G show ?thesis
    by (auto simp: vars_release_def at_slot_def put_slot_def slots_view_put reduce_def)
qed

lemma vars_peek_law:
  assumes G: "slots_view R slots n = Some (k, c)" and run: "vars_peek_non_empty R n slots = (r, slots')"
  shows "(\<exists>b. r = Done b \<and> length slots' = length slots \<and> slots_view R slots' = slots_view R slots \<and>
      b = (case k of CSkipped \<Rightarrow> False | CRows nothing _ \<Rightarrow> \<not> nothing)) \<or> (\<exists>e. r = Fail e)"
proof -
  obtain e where e: "n < length slots" "slots ! n = Some e" "content_of R (en_value e) = k" "en_count e = c"
    using G by (auto simp: slots_view_Some)
  show ?thesis
  proof (cases "en_value e")
    case EvSkipped
    with run e show ?thesis by (auto simp: vars_peek_non_empty_def at_slot_def sret_def)
  next
    case (EvResponse resp)
    obtain rb kept where b: "rows_buffer R (re_values resp) = (rb, kept)" by force
    have same: "(slots_view R slots)(n := Some (k, c)) = slots_view R slots" using G by auto
    from run e EvResponse b same show ?thesis
      by (cases rb) (auto simp: vars_peek_non_empty_def at_slot_def sbind_def put_slot_def slift_def outcome_of_def
          slots_view_put rows_class_def dest: rows_buffer_class)
  qed
qed

lemma on_slots_run: "f (xs_slots xs) = (r, slots) \<Longrightarrow> on_slots f xs = (r, xs\<lparr>xs_slots := slots\<rparr>)"
  by (simp add: on_slots_def)

interpretation slots: counted_store "holds E N" "load E" "\<lambda>n. on_slots (vars_release n)"
    "\<lambda>resp. rows_class (en_models E) (re_values resp)" for E N
proof
  fix G n k c
  assume G: "G n = Some (k, c)" "positive G"
  then have c: "c > 0" by (cases c) (auto simp: positive_def)
  show "safe (holds E N G) (on_slots (vars_release n)) (\<lambda>_. holds E N (spend [n] G))"
    unfolding safe_def
  proof (intro allI impI)
    fix s assume s: "holds E N G s"
    then have "slots_view (en_models E) (xs_slots s) n = Some (k, c)" using G(1) by (simp add: holds_def)
    from vars_release_law [OF this c] obtain sl where sl: "vars_release n (xs_slots s) = (Done (), sl)"
        "length sl = length (xs_slots s)"
        "slots_view (en_models E) sl =
           (slots_view (en_models E) (xs_slots s))(n := reduce 1 (slots_view (en_models E) (xs_slots s) n))"
      by blast
    with s G(2) show "case fst (on_slots (vars_release n) s) of
        Done _ \<Rightarrow> holds E N (spend [n] G) (snd (on_slots (vars_release n) s)) | Fail _ \<Rightarrow> True | VarPanic _ \<Rightarrow> False"
      by (auto simp: on_slots_run [of "vars_release n", OF sl(1)] holds_def spend_one)
  qed
  assume k: "k \<noteq> CSkipped"
  show "safe (holds E N G) (load E n)
      (\<lambda>resp s. holds E N (spend [n] G) s \<and> rows_class (en_models E) (re_values resp) = k)"
    unfolding safe_def load_def
  proof (intro allI impI)
    fix s assume s: "holds E N G s"
    obtain r sl where r: "vars_load (en_models E) n (xs_slots s) = (r, sl)" by force
    from vars_load_law [OF _ k c r] s G show "case fst (on_slots (vars_load (en_models E) n) s) of
        Done a \<Rightarrow> holds E N (spend [n] G) (snd (on_slots (vars_load (en_models E) n) s)) \<and>
          rows_class (en_models E) (re_values a) = k | Fail _ \<Rightarrow> True | VarPanic _ \<Rightarrow> False"
      by (auto simp: on_slots_run [of "vars_load (en_models E) n", OF r] holds_def spend_one)
  qed
qed

lemma safe_peek:
  assumes G: "G n = Some (k, c)"
  shows "safe (holds E N G) (on_slots (vars_peek_non_empty (en_models E) n))
    (\<lambda>b s. holds E N G s \<and> b = (case k of CSkipped \<Rightarrow> False | CRows nothing _ \<Rightarrow> \<not> nothing))"
  unfolding safe_def
proof (intro allI impI)
  fix s assume s: "holds E N G s"
  obtain r sl where r: "vars_peek_non_empty (en_models E) n (xs_slots s) = (r, sl)" by force
  from vars_peek_law [OF _ r, of k c] s G show "case fst (on_slots (vars_peek_non_empty (en_models E) n) s) of
      Done b \<Rightarrow> holds E N G (snd (on_slots (vars_peek_non_empty (en_models E) n) s)) \<and>
        b = (case k of CSkipped \<Rightarrow> False | CRows nothing _ \<Rightarrow> \<not> nothing) | Fail _ \<Rightarrow> True | VarPanic _ \<Rightarrow> False"
    by (auto simp: on_slots_run [of "vars_peek_non_empty (en_models E) n", OF r] holds_def)
qed

lemma holds_slots: "holds E N G = (\<lambda>s. (\<lambda>sl. length sl = N \<and> slots_view (en_models E) sl = G) (xs_slots s))"
  by (rule ext) (simp add: holds_def)

lemma safe_holds_keeps: "keeps m \<Longrightarrow> safe (holds E N G) m (\<lambda>_. holds E N G)"
  unfolding holds_slots by (rule safe_keeps)

end
