(* ===== verification/OpRules.thy ===== *)
theory OpRules
  imports StepRules
begin

text \<open>
  Every operation of a plan consumes each of its inputs exactly once, on whatever path it
  takes to success, and does not read an output that was skipped.
\<close>

definition separate :: "mir_op \<Rightarrow> bool" where
  "separate op \<longleftrightarrow> distinct (map fst (input_reads op))"

lemma input_loads_separate: "separate op \<Longrightarrow> input_loads op = map fst (input_reads op)"
  by (simp add: input_loads_def op_inputs_def separate_def index_set_distinct)

text \<open>An input is stored, and if it was skipped its row input has no rows.\<close>

definition ready_read :: "view \<Rightarrow> node_id \<times> input_read \<Rightarrow> bool" where
  "ready_read G mr \<longleftrightarrow>
     (\<exists>k c. G (fst mr) = Some (k, c)) \<and>
     (\<not> live G (fst mr) \<longrightarrow> (\<exists>x c. snd mr = PerRowOf x \<and> G x = Some (CRows True False, c)))"

definition ready :: "mir_op \<Rightarrow> view \<Rightarrow> bool" where
  "ready op G \<longleftrightarrow> (\<forall>mr \<in> set (input_reads op). ready_read G mr)"

lemma ready_Always: "ready_read G (m, Always) \<Longrightarrow> (\<exists>k c. G m = Some (k, c)) \<and> live G m"
  by (auto simp: ready_read_def)

lemma affords_distinct:
  "positive G \<Longrightarrow> distinct ns \<Longrightarrow> \<forall>m \<in> set ns. \<exists>k c. G m = Some (k, c) \<Longrightarrow> affords ns G"
proof -
  assume G: "positive G" "distinct ns" "\<forall>m \<in> set ns. \<exists>k c. G m = Some (k, c)"
  show ?thesis
    unfolding affords_def
  proof
    fix m assume m: "m \<in> set ns"
    then obtain k c where "G m = Some (k, c)" using G(3) by blast
    moreover from this G(1) have "c > 0" by (cases c) (auto simp: positive_def)
    moreover have "count_list ns m = 1" using m G(2) by (induction ns) auto
    ultimately show "\<exists>k c. G m = Some (k, c) \<and> count_list ns m \<le> c" by auto
  qed
qed

lemma safe_then_keeps:
  "safe P m (\<lambda>_. holds E N H) \<Longrightarrow> (\<And>a. keeps (f a)) \<Longrightarrow> safe P (sbind m f) (\<lambda>_. holds E N H)"
  by (rule safe_sbind) (auto intro: safe_holds_keeps)

lemma safe_after_keeps:
  "keeps m \<Longrightarrow> (\<And>a. safe (holds E N G) (f a) Q) \<Longrightarrow> safe (holds E N G) (sbind m f) Q"
  by (rule safe_sbind [OF safe_holds_keeps])

lemma safe_load:
  assumes "positive G" "ready_read G (n, Always)"
  shows "safe (holds E N G) (load E n) (\<lambda>_. holds E N (spend [n] G))"
proof -
  obtain k c where "G n = Some (k, c)" "k \<noteq> CSkipped"
    using ready_Always [OF assms(2)] by (auto simp: live_def)
  from slots.load_law [OF this assms(1)] show ?thesis by (rule safe_conseq) (auto)
qed

lemma safe_load_value:
  "positive G \<Longrightarrow> ready_read G (n, Always) \<Longrightarrow>
   safe (holds E N G) (load_value E n) (\<lambda>_. holds E N (spend [n] G))"
  unfolding load_value_def by (rule safe_then_keeps [OF safe_load]) (auto intro: keeps_intros)

lemma safe_collect:
  assumes "positive G" "distinct ns" "\<forall>n \<in> set ns. ready_read G (n, Always)"
  shows "safe (holds E N G) (collect_input E ns) (\<lambda>_. holds E N (spend ns G))"
proof -
  have "affords ns G" "\<forall>n \<in> set ns. live G n"
    using affords_distinct [OF assms(1,2)] assms(3) ready_Always by blast+
  then show ?thesis
    unfolding collect_input_def load_value_def [abs_def]
    by (intro slots.load_all safe_holds_keeps assms(1) keeps_intros)
qed

lemma safe_release:
  assumes "positive G" "affords ns G"
  shows "safe (holds E N G) (straverse (\<lambda>i. on_slots (vars_release i)) ns) (\<lambda>_. holds E N (spend ns G))"
  by (rule slots.release_all [OF assms])

lemma safe_optional_inputs:
  assumes "positive G" "distinct ns" "\<forall>n \<in> set ns. ready_read G (n, Always)" "\<And>args. keeps (f args)"
  shows "safe (holds E N G) (if ns = [] then sret a else sbind (collect_input E ns) f) (\<lambda>_. holds E N (spend ns G))"
  using assms by (auto intro: safe_sret safe_then_keeps safe_collect)

lemma ready_read_spend:
  "positive G \<Longrightarrow> ready_read G (n, Always) \<Longrightarrow> n \<notin> set ns \<Longrightarrow> ready_read (spend ns G) (n, Always)"
  by (simp add: ready_read_def live_def spend_other)

subsection \<open>The operations\<close>

lemma keeps_delete_keys [keeps_intros]: "keeps (delete_keys E m acc ks)"
  by (induction ks arbitrary: acc) (auto intro!: keeps_intros split: rows.split)

lemma keeps_update_keys [keeps_intros]: "keeps (update_keys E m returning acc rows ks)"
  by (induction ks arbitrary: acc rows) (auto intro!: keeps_intros split: rows.split)

lemma keeps_query_filters [keeps_intros]: "keeps (query_filters E m cols rf pg fs)"
  by (induction fs) (auto intro!: keeps_intros)

lemma keeps_exec_bound [keeps_intros]: "keeps (exec_bound_statement E m ty s)"
  unfolding exec_bound_statement_def run_query_def by (intro keeps_intros)

lemma keeps_rmw [keeps_intros]: "keeps (rmw_exec E m)"
  unfolding rmw_exec_def run_query_def by (intro keeps_intros)

lemma safe_exec_eval:
  assumes G: "positive G" "separate (MEval m)" "ready (MEval m) G"
  shows "safe (holds E N G) (exec_eval E m) (\<lambda>_. holds E N (spend (map fst (input_reads (MEval m))) G))"
proof (cases "ev_row_input m")
  case None
  then show ?thesis
    using G by (auto simp: exec_eval_def exec_eval_compute_def separate_def ready_def comp_def
        intro!: safe_then_keeps safe_collect keeps_intros)
next
  case (Some x)
  let ?ns = "ev_inputs m"
  have row: "ready_read G (x, Always)" and ns: "x \<notin> set ?ns" "distinct ?ns"
    and ins: "\<forall>n \<in> set ?ns. ready_read G (n, PerRowOf x)"
    using G Some by (auto simp: separate_def ready_def comp_def)
  obtain e z c where x: "G x = Some (CRows e z, c)"
    using ready_Always [OF row] by (metis content.exhaust live_def)
  have present: "affords ?ns (spend [x] G)"
  proof -
    have "\<exists>k c. spend [x] G n = Some (k, c)" if "n \<in> set ?ns" for n
    proof -
      have "\<exists>k c. G n = Some (k, c)" using ins that by (auto simp: ready_read_def)
      moreover have "n \<noteq> x" using ns(1) that by auto
      ultimately show ?thesis using G(1) by (simp add: spend_one)
    qed
    then show ?thesis by (intro affords_distinct ns) auto
  qed
  have seq: "spend (x # ?ns) G = spend ?ns (spend [x] G)" by (rule spend_Cons)
  have "safe (holds E N G) (exec_eval_map_over E m x) (\<lambda>_. holds E N (spend (x # ?ns) G))"
    unfolding exec_eval_map_over_def
  proof (rule safe_sbind [OF slots.load_law [OF x _ G(1)]], simp, goal_cases)
    case (1 resp)
    show ?case
    proof (rule safe_sbind [where R = "\<lambda>v s. holds E N (spend [x] G) s \<and> (v \<noteq> VList [] \<longrightarrow> \<not> (e \<and> \<not> z))"], goal_cases)
      case 1
      show ?case
        by (rule safe_slift) (auto simp: rows_class_def rows_empty_def collect_as_value_def rmap_eq_Ok split: rows.splits)
    next
      case (2 v)
      show ?case
      proof (rule safe_if, goal_cases)
        case 1
        show ?case unfolding seq
          by (rule safe_conseq [OF safe_then_keeps [OF safe_release [OF positive_spend present]]])
            (auto intro: keeps_intros)
      next
        case 2
        show ?case
        proof (rule safe_assume)
          assume "v \<noteq> VList [] \<longrightarrow> \<not> (e \<and> \<not> z)"
          with 2 have "\<not> (e \<and> \<not> z)" by simp
          then have "\<forall>n \<in> set ?ns. ready_read G (n, Always)" using ins x by (auto simp: ready_read_def)
          then have "\<forall>n \<in> set ?ns. ready_read (spend [x] G) (n, Always)"
            using ready_read_spend [OF G(1)] ns(1) by (metis empty_iff list.set(1) set_ConsD)
          from safe_collect [OF positive_spend ns(2) this] show "safe (holds E N (spend [x] G))
              (sbind (collect_input E ?ns) (\<lambda>args. slift (rmap (\<lambda>w. with_rows resp (RValue w))
                (func_eval (en_uuid E) (en_models E) (ev_body m) (value_input (v # args))))))
              (\<lambda>_. holds E N (spend (x # ?ns) G))"
            unfolding seq by (rule safe_then_keeps) (intro keeps_intros)
        qed
      qed
    qed
  qed
  with Some show ?thesis by (simp add: exec_eval_def comp_def)
qed

lemma safe_load_merge_inputs:
  "\<lbrakk>positive G; distinct ns; \<forall>n \<in> set ns. ready_read G (n, Always)\<rbrakk> \<Longrightarrow>
   safe (holds E N G) (load_merge_inputs E src i ns) (\<lambda>_. holds E N (spend ns G))"
proof (induction ns arbitrary: G i)
  case (Cons n ns)
  have "\<forall>m \<in> set ns. ready_read (spend [n] G) (m, Always)"
    using Cons.prems(2,3) ready_read_spend [OF Cons.prems(1)] by (metis distinct.simps(2) empty_iff list.set(1) list.set_intros(2) set_ConsD)
  then have "safe (holds E N (spend [n] G)) (load_merge_inputs E src j ns) (\<lambda>_. holds E N (spend (n # ns) G))" for j
    using Cons.IH [OF positive_spend] Cons.prems(2) by (simp add: spend_Cons [of n ns])
  then show ?case
    unfolding load_merge_inputs.simps
    using Cons.prems by (intro safe_sbind [OF safe_load] safe_sbind [OF safe_holds_keeps] safe_then_keeps keeps_intros) auto
qed (simp add: safe_sret)

lemma safe_exec_filter:
  assumes G: "positive G" "separate (MFilter m)" "ready (MFilter m) G"
  shows "safe (holds E N G) (exec_filter E m) (\<lambda>_. holds E N (spend (fi_input m # fi_args m) G))"
proof -
  have ins: "distinct (fi_args m)" "\<forall>n \<in> set (fi_args m). ready_read G (n, Always)"
      "ready_read G (fi_input m, Always)" "fi_input m \<notin> set (fi_args m)"
    using G by (auto simp: separate_def ready_def comp_def)
  have "spend (fi_input m # fi_args m) G = spend [fi_input m] (spend (fi_args m) G)"
    unfolding spend_append [symmetric] by (rule spend_mset) simp
  then show ?thesis
    unfolding exec_filter_def
    using safe_collect [OF G(1) ins(1,2)] safe_load [OF positive_spend ready_read_spend [OF G(1) ins(3,4)]]
    by (auto intro!: safe_sbind [OF safe_collect [OF G(1) ins(1,2)]] safe_then_keeps keeps_intros)
qed

theorem exec_op_safe:
  assumes G: "positive G" "separate op" "ready op G"
  shows "safe (holds E N G) (exec_op E op) (\<lambda>_. holds E N (spend (input_loads op) G))"
proof -
  note eq = input_loads_separate [OF G(2)]
  note simps = input_loads_separate separate_def ready_def comp_def
  show ?thesis
  proof (cases op)
    case (MFilter m)
    with eq show ?thesis using safe_exec_filter G by (simp add: comp_def)
  next
    case (MEval m)
    then show ?thesis using safe_exec_eval G unfolding eq by simp
  next
    case (MNestedMerge m)
    with G show ?thesis
      by (auto simp: simps exec_nested_merge_def intro!: safe_then_keeps safe_load_merge_inputs keeps_intros)
  next
    case (MReadModifyWrite m)
    show ?thesis
    proof (cases "rw_inputs m")
      case Nil
      have "keeps (\<lambda>xs. (case tx_ops (xs_in_tx xs) ''read_modify_write'' of (begin_op, commit, rollback) \<Rightarrow>
           sbind (exec_driver E (DTransaction begin_op)) (\<lambda>_.
           sbind (or_rollback E rollback (rmw_exec E m)) (\<lambda>rows.
           sbind (exec_driver E (DTransaction commit)) (\<lambda>_. sret (from_rows rows))))) xs)"
        by (rule keeps_state) (intro keeps_intros)
      then have "keeps (exec_read_modify_write E m)"
        using Nil by (simp add: exec_read_modify_write_def [abs_def] split_def)
      with Nil MReadModifyWrite G(1) eq show ?thesis by (simp add: safe_holds_keeps)
    next
      case (Cons n ns)
      with MReadModifyWrite show ?thesis by (simp add: exec_read_modify_write_def safe_def)
    qed
  next
    case (MExecStatement m)
    with G show ?thesis
      unfolding MExecStatement exec_op.simps exec_statement_def
      by (intro safe_after_keeps [where m = "slift r" for r] safe_then_keeps keeps_intros)
        (auto simp only: simps input_reads.simps list.map_comp fst_conv list.map_ident set_map ball_simps
          intro!: safe_optional_inputs keeps_intros)
  next
    case (MUpdateByKey m)
    with G show ?thesis
      unfolding MUpdateByKey exec_op.simps exec_update_by_key_def
      by (intro safe_after_keeps [where m = "slift r" for r] safe_then_keeps keeps_intros)
        (auto simp: simps intro: safe_load_value)
  qed (use G in \<open>auto simp: simps exec_delete_by_key_def exec_find_pk_by_index_def
      exec_get_by_key_def exec_repeat_def exec_query_pk_def exec_scan_def exec_upsert_def
      intro!: safe_sret safe_load safe_then_keeps safe_load_value safe_collect keeps_intros\<close>)
qed

end
