(* ===== verification/RunInv.thy ===== *)
theory RunInv
  imports OpRules PlanShape
begin

text \<open>
  The store between two steps of a run: every output that is still needed is stored with the
  number of loads left, nothing else is, and an output was skipped only because the rows of
  its guard are none.
\<close>

definition remaining :: "logical_plan \<Rightarrow> node_id list \<Rightarrow> node_id \<Rightarrow> nat" where
  "remaining plan R m =
     count_list (all_loads plan R) m + (if m = lp_completion plan then 1 else 0)"

definition none_at :: "view \<Rightarrow> node_id \<Rightarrow> bool" where
  "none_at G x \<longleftrightarrow> (\<exists>k c. G x = Some (k, c) \<and> (case k of CSkipped \<Rightarrow> True | CRows e _ \<Rightarrow> e))"

text \<open>\<open>X\<close> lists the nodes whose output is never the null value.\<close>

definition run_inv :: "logical_plan \<Rightarrow> node_id list \<Rightarrow> node_id list \<Rightarrow> node_id list \<Rightarrow> view \<Rightarrow> bool" where
  "run_inv plan X P R G \<longleftrightarrow>
     (\<forall>m. if m \<in> set P \<and> remaining plan R m > 0 then \<exists>k. G m = Some (k, remaining plan R m) else G m = None) \<and>
     (\<forall>m c. G m = Some (CSkipped, c) \<longrightarrow> (\<exists>x. guard_of (lp_store plan) m = Some x \<and> none_at G x)) \<and>
     (\<forall>m \<in> set X. \<forall>e c. G m \<noteq> Some (CRows e True, c))"

subsection \<open>Valid plans, by position\<close>

lemma all_loads_append [simp]: "all_loads plan (xs @ ys) = all_loads plan xs @ all_loads plan ys"
  by (simp add: all_loads_def)

lemma all_loads_Cons [simp]: "all_loads plan (x # xs) = loads_of (lp_store plan) x @ all_loads plan xs"
  by (simp add: all_loads_def)

lemma all_loads_Nil [simp]: "all_loads plan [] = []"
  by (simp add: all_loads_def)

lemma count_all_loads:
  "count_list (all_loads plan R) m = length (filter (\<lambda>n. m \<in> set (loads_of (lp_store plan) n)) R)"
  by (induction R) (auto simp: count_list_distinct)

lemma remaining_append: "remaining plan (B @ R) m = count_list (all_loads plan B) m + remaining plan R m"
  by (simp add: remaining_def)

lemma remaining_le: "remaining plan R m \<le> Suc (length R)"
  using length_filter_le [of "\<lambda>n. m \<in> set (loads_of (lp_store plan) n)" R]
  by (simp add: remaining_def count_all_loads del: length_filter_le) (metis le_SucI)

lemma valid_planD:
  assumes "valid_plan plan"
  shows "distinct (lp_order plan)" "lp_completion plan \<in> set (lp_order plan)"
    "n \<in> set (lp_order plan) \<Longrightarrow> \<exists>nd. plan_at plan n = Ok nd"
    "i < length (lp_order plan) \<Longrightarrow>
       set (loads_of (lp_store plan) (lp_order plan ! i)) \<subseteq> set (take i (lp_order plan))"
    "uses_of (lp_store plan) m = remaining plan (lp_order plan) m"
    "n \<in> set (lp_order plan) \<Longrightarrow> guard_of (lp_store plan) n = Some x \<Longrightarrow> guard_valid plan n x"
  using assms by (simp_all add: valid_plan_def Let_def remaining_def count_all_loads)

lemma order_distinct:
  "valid_plan plan \<Longrightarrow> lp_order plan = P @ Q \<Longrightarrow> distinct P \<and> distinct Q \<and> set P \<inter> set Q = {}"
  using valid_planD(1) [of plan] by simp

lemma node_in_range: "valid_plan plan \<Longrightarrow> n \<in> set (lp_order plan) \<Longrightarrow> n < length (lp_store plan)"
  using valid_planD(3) [of plan n] by (auto simp: plan_at_def store_at_Ok)

lemma loads_earlier:
  assumes "valid_plan plan" "lp_order plan = P @ n # R"
  shows "set (loads_of (lp_store plan) n) \<subseteq> set P"
  using valid_planD(4) [OF assms(1), of "length P"] assms(2) by simp

lemma unread_before:
  assumes valid: "valid_plan plan" and order: "lp_order plan = P @ Q" "m \<notin> set P"
  shows "count_list (all_loads plan P) m = 0"
proof -
  have "m \<notin> set (loads_of (lp_store plan) c)" if c: "c \<in> set P" for c
  proof -
    obtain P1 P2 where "P = P1 @ c # P2" using c by (auto simp: in_set_conv_decomp)
    with loads_earlier [OF valid, of P1 c "P2 @ Q"] order show ?thesis by auto
  qed
  then show ?thesis by (auto simp: count_all_loads filter_empty_conv)
qed

lemma uses_remaining:
  "valid_plan plan \<Longrightarrow> lp_order plan = P @ Q \<Longrightarrow> m \<notin> set P \<Longrightarrow> uses_of (lp_store plan) m = remaining plan Q m"
  by (simp add: valid_planD(5) remaining_append unread_before)

lemma guard_earlier:
  assumes valid: "valid_plan plan" and n: "lp_order plan = P @ n # R" "guard_of (lp_store plan) n = Some x"
  shows "x \<in> set P"
proof -
  obtain i j where ij: "i < j" "j < length (lp_order plan)" "lp_order plan ! i = x" "lp_order plan ! j = n"
    using valid_planD(6) [OF valid _ n(2)] n(1) by (auto simp: guard_valid_def before_def)
  have "lp_order plan ! length P = n" "length P < length (lp_order plan)" using n(1) by simp_all
  then have "j = length P" using ij valid_planD(1) [OF valid] nth_eq_iff_index_eq by metis
  with ij(1,3) n(1) show ?thesis by (auto simp: nth_append split: if_splits)
qed

lemma completion_unguarded: "valid_plan plan \<Longrightarrow> guard_of (lp_store plan) (lp_completion plan) = None"
  using valid_planD(2,6) [of plan] by (fastforce simp: guard_valid_def)

text \<open>As long as a guarded node is needed, so is its guard.\<close>

lemma guard_needed:
  "\<lbrakk>valid_plan plan; lp_order plan = P @ R; m \<in> set (lp_order plan); guard_of (lp_store plan) m = Some x; c \<in> set R;
    m \<in> set (loads_of (lp_store plan) c)\<rbrakk> \<Longrightarrow> remaining plan R x > 0"
proof (induction "length R" arbitrary: P R m c rule: less_induct)
  case less
  obtain R1 R2 where R: "R = R1 @ c # R2" using less.prems(5) by (auto simp: in_set_conv_decomp)
  obtain read where read: "(m, read) \<in> set (reads_of (lp_store plan) c)"
    using less.prems(6) by (auto simp: set_loads_of)
  have "contribution (guard_of (lp_store plan) c) read = Some x"
    using valid_planD(6) [OF less.prems(1,3,4)] read less.prems(2,5) by (auto simp: guard_valid_def)
  then consider (row) "read = PerRowOf x" | (own) "guard_of (lp_store plan) c = Some x"
    by (cases read) (auto simp: contribution_def)
  then show ?case
  proof cases
    case row
    then have "x \<in> set (loads_of (lp_store plan) c)" using read by (simp add: per_row_load)
    then have "count_list (all_loads plan R) x \<noteq> 0"
      unfolding count_list_0_iff R by simp
    then show ?thesis by (simp add: remaining_def)
  next
    case own
    have c: "c \<in> set (lp_order plan)" using less.prems(2,5) by simp
    obtain c2 where c2: "c2 \<in> set (lp_order plan)" "c \<in> set (loads_of (lp_store plan) c2)"
      using valid_planD(6) [OF less.prems(1) c own] by (auto simp: guard_valid_def)
    have order: "lp_order plan = (P @ R1 @ [c]) @ R2" using less.prems(2) R by simp
    have "c2 \<in> set R2"
    proof (rule ccontr)
      assume "c2 \<notin> set R2"
      with c2(1) order have "c2 \<in> set ((P @ R1) @ [c])" by auto
      then obtain Q1 Q2 where "(P @ R1) @ [c] = Q1 @ c2 # Q2" by (meson in_set_conv_decomp)
      then have "set (loads_of (lp_store plan) c2) \<subseteq> set (P @ R1)"
        using loads_earlier [OF less.prems(1), of Q1 c2 "Q2 @ R2"] order
        by (cases Q2 rule: rev_cases) (auto simp: subset_iff)
      with c2(2) order_distinct [OF less.prems(1), of "P @ R1" "c # R2"] order show False by auto
    qed
    then have "remaining plan R2 x > 0"
      using less.hyps [of R2 "P @ R1 @ [c]" c c2] less.prems(1) R order c own c2(2) by simp
    then show ?thesis by (simp add: R remaining_append remaining_def)
  qed
qed

subsection \<open>One more block of nodes\<close>

text \<open>
  After the nodes of a block, however they were run: their loads are consumed and the outputs
  still needed are stored.
\<close>

lemma run_inv_block:
  assumes valid: "valid_plan plan" and order: "lp_order plan = P @ B @ R"
    and inv: "run_inv plan X P (B @ R) G"
    and old: "\<And>m. m \<notin> set B \<Longrightarrow> G' m = reduce (count_list (all_loads plan B) m) (G m)"
    and new: "\<And>m. m \<in> set B \<Longrightarrow> if remaining plan R m = 0 then G' m = None else
        \<exists>k. G' m = Some (k, remaining plan R m) \<and>
          (k = CSkipped \<longrightarrow> (\<exists>x. guard_of (lp_store plan) m = Some x \<and> none_at G x)) \<and>
          (m \<in> set X \<longrightarrow> (\<forall>e. k \<noteq> CRows e True))"
  shows "run_inv plan X (P @ B) R G'"
proof -
  have disj: "set P \<inter> set B = {}" using order_distinct [OF valid order] by auto
  have G: "if m \<in> set P \<and> remaining plan (B @ R) m > 0 then \<exists>k. G m = Some (k, remaining plan (B @ R) m)
      else G m = None" for m
    using inv by (simp add: run_inv_def)
  have counts: "if m \<in> set (P @ B) \<and> remaining plan R m > 0 then \<exists>k. G' m = Some (k, remaining plan R m)
      else G' m = None" for m
  proof (cases "m \<in> set B")
    case True
    with new [OF True] show ?thesis by (auto split: if_splits)
  next
    case False
    from G [of m] False show ?thesis
      by (auto simp: old [OF False] reduce_def remaining_append split: if_splits)
  qed
  have none: "none_at G' x" if x: "none_at G x" "remaining plan R x > 0" for x
  proof -
    have "x \<in> set P" using G [of x] x(1) by (auto simp: none_at_def split: if_splits)
    then have "x \<notin> set B" using disj by auto
    with G [of x] x show ?thesis
      by (auto simp: none_at_def old reduce_def remaining_append split: if_splits)
  qed
  have skipped: "\<exists>x. guard_of (lp_store plan) m = Some x \<and> none_at G' x" if m: "G' m = Some (CSkipped, c)" for m c
  proof -
    have in_order: "m \<in> set (P @ B)" and need: "remaining plan R m > 0"
      using counts [of m] m by (cases "m \<in> set (P @ B) \<and> remaining plan R m > 0"; simp)+
    have "\<exists>x. guard_of (lp_store plan) m = Some x \<and> none_at G x"
    proof (cases "m \<in> set B")
      case True
      with new [OF True] m need show ?thesis by auto
    next
      case False
      then obtain c' where "G m = Some (CSkipped, c')"
        using m old [OF False] by (auto simp: reduce_def split: option.splits if_splits)
      with inv show ?thesis by (simp add: run_inv_def)
    qed
    then obtain x where x: "guard_of (lp_store plan) m = Some x" "none_at G x" by blast
    have "m \<noteq> lp_completion plan" using completion_unguarded [OF valid] x(1) by auto
    then have "count_list (all_loads plan R) m \<noteq> 0" using need by (simp add: remaining_def)
    then obtain c where "c \<in> set R" "m \<in> set (loads_of (lp_store plan) c)"
      unfolding count_list_0_iff by (auto simp: all_loads_def)
    then have "remaining plan R x > 0"
      using guard_needed [OF valid, of "P @ B" R m x c] order in_order x(1) by auto
    with none x show ?thesis by blast
  qed
  have null: "G' m \<noteq> Some (CRows e True, c)" if "m \<in> set X" for m e c
  proof (cases "m \<in> set B")
    case True
    with new [OF True] that show ?thesis by (auto split: if_splits)
  next
    case False
    have "\<forall>c. G m \<noteq> Some (CRows e True, c)" using inv that by (simp add: run_inv_def)
    then show ?thesis by (auto simp: old [OF False] reduce_def split: option.splits)
  qed
  show ?thesis
    unfolding run_inv_def using counts skipped null by blast
qed

lemma run_inv_positive: "run_inv plan X P R G \<Longrightarrow> positive G"
  unfolding run_inv_def positive_def by (metis less_irrefl option.distinct(1) option.inject prod.inject)

end
