(* ===== verification/NodeRules.thy ===== *)
theory NodeRules
  imports RunInv
begin

text \<open>
  One node of a run: its operation, the store of its output, and the operations whose output
  is never the null value.
\<close>

subsection \<open>Outputs that are not null\<close>

definition returns :: "('s, 'a) step \<Rightarrow> ('a \<Rightarrow> bool) \<Rightarrow> bool" where
  "returns m Q \<longleftrightarrow> (\<forall>s a. fst (m s) = Done a \<longrightarrow> Q a)"

named_theorems returns_intros \<open>what the result of a step satisfies\<close>

lemma returns_sbind: "returns m P \<Longrightarrow> (\<And>a. P a \<Longrightarrow> returns (f a) Q) \<Longrightarrow> returns (sbind m f) Q"
  unfolding returns_def sbind_def by (simp split: outcome.splits prod.splits) (metis fst_conv)

lemma returns_tail [returns_intros]: "(\<And>a. returns (f a) Q) \<Longrightarrow> returns (sbind m f) Q"
  by (rule returns_sbind [where P = "\<lambda>_. True"]) (simp_all add: returns_def)

lemma returns_sret [returns_intros]: "Q a \<Longrightarrow> returns (sret a) Q"
  by (simp add: returns_def sret_def)

lemma returns_slift: "(\<And>a. r = Ok a \<Longrightarrow> Q a) \<Longrightarrow> returns (slift r) Q"
  by (cases r) (simp_all add: returns_def slift_def outcome_of_def)

lemma returns_if [returns_intros]: "returns m Q \<Longrightarrow> returns m' Q \<Longrightarrow> returns (if b then m else m') Q"
  by simp

lemma returns_Let [returns_intros]: "(\<And>x. returns (f x) Q) \<Longrightarrow> returns (Let x f) Q"
  by (simp add: Let_def)

lemma returns_case_prod [returns_intros]:
  "(\<And>a b. returns (f a b) Q) \<Longrightarrow> returns (case p of (a, b) \<Rightarrow> f a b) Q"
  by (cases p) simp

definition not_null :: "response \<Rightarrow> bool" where
  "not_null resp \<longleftrightarrow> re_values resp \<noteq> RValue VNull"

text \<open>The driver's contract: rows, a count or a list, never the null value in their place.\<close>

definition driver_rows :: "'d engine \<Rightarrow> bool" where
  "driver_rows E \<longleftrightarrow> (\<forall>op c resp. fst (en_driver E op c) = Ok resp \<longrightarrow> not_null resp)"

fun never_null :: "mir_op \<Rightarrow> bool" where
  "never_null (MAlias _ _) = False"
| "never_null (MConst v _) = (v \<noteq> VNull)"
| "never_null (MEval m) = (case fn_expr (ev_body m) of EMap _ _ \<Rightarrow> True | _ \<Rightarrow> False)"
| "never_null _ = True"

lemma returns_driver: "driver_rows E \<Longrightarrow> returns (exec_driver E op) not_null"
  by (auto simp: driver_rows_def returns_def exec_driver_def outcome_of_def split: prod.splits sum.splits) (metis fst_conv)

lemma returns_slift_rmap [returns_intros]: "(\<And>a. Q (f a)) \<Longrightarrow> returns (slift (rmap f r)) Q"
  by (rule returns_slift) (auto simp: rmap_eq_Ok)

lemma not_null_simps [simp]:
  "not_null (from_rows (RStream vs))" "not_null (from_rows (RCount c))" "not_null (from_rows (value_rows rs))"
  "not_null (from_rows (RValue v)) \<longleftrightarrow> v \<noteq> VNull" "not_null (with_rows resp (value_rows rs))"
  "not_null (with_rows resp (RValue v)) \<longleftrightarrow> v \<noteq> VNull"
  "not_null \<lparr>re_values = value_rows rs, re_next = a, re_prev = b\<rparr>"
  by (simp_all add: not_null_def from_rows_def value_rows_def with_rows_def)

lemma not_null_from_rows: "not_null (from_rows r) \<longleftrightarrow> r \<noteq> RValue VNull"
  by (simp add: not_null_def from_rows_def)

lemma returns_exec_eval:
  assumes "never_null (MEval m)"
  shows "returns (exec_eval E m) not_null"
proof -
  obtain b body where body: "fn_expr (ev_body m) = EMap b body"
    using assms by (auto split: expr.splits)
  have "func_eval U R (ev_body m) P = Ok v \<Longrightarrow> v \<noteq> VNull" for U R P v
    by (auto simp: func_eval_def body rbind_eq_Ok rmap_eq_Ok)
  then show ?thesis
    unfolding exec_eval_def exec_eval_map_over_def exec_eval_compute_def
    by (auto simp: rmap_eq_Ok split: option.split intro!: returns_intros returns_slift)
qed

lemma paginate_not_null: "paginate E p resp = Ok resp' \<Longrightarrow> not_null resp \<Longrightarrow> not_null resp'"
  by (auto simp: paginate_def not_null_def apply_sql_pagination_def rbind_eq_Ok rmap_eq_Ok rows_buffer_def with_rows_def
      Let_def split: option.splits if_splits prod.splits rows.splits val.splits sum.splits)

lemma returns_exec_statement:
  assumes "driver_rows E"
  shows "returns (exec_statement E m) not_null"
proof -
  note driver = returns_sbind [OF returns_driver [OF assms]]
  have cond: "returns (slift (rmap (with_rows resp) (check_conditional R c rs))) not_null" for resp R c rs
    by (rule returns_slift)
      (auto simp: rmap_eq_Ok check_conditional_def rbind_eq_Ok not_null_def with_rows_def value_rows_def
        split: if_splits prod.splits)
  have page: "returns (slift (paginate E p resp)) not_null" if "not_null resp" for p resp
    using that by (auto intro: returns_slift paginate_not_null)
  have tail: "returns (sbind (case es_conditional m of
        CoNone \<Rightarrow> (case sel of None \<Rightarrow> sret resp | Some q \<Rightarrow> run_query E q ty)
      | c \<Rightarrow> slift (rmap (with_rows resp) (check_conditional (en_models E) c (re_values resp)))) (\<lambda>resp'.
      slift (paginate E (es_pagination m) resp'))) not_null" if "not_null resp" for sel resp ty
    using that returns_driver [OF assms]
    by (auto intro!: returns_sbind [where P = not_null] page cond returns_sret
        simp: run_query_def split: conditional_output.split option.split prod.split)
  have bound: "returns (exec_bound_statement E m ty s) not_null" for ty s
    unfolding exec_bound_statement_def
    by (intro returns_intros driver tail) (auto intro!: returns_slift split: if_splits)
  show ?thesis unfolding exec_statement_def by (intro returns_intros bound)
qed

lemma returns_rmw:
  assumes "driver_rows E"
  shows "returns (rmw_exec E m) (\<lambda>rows. rows \<noteq> RValue VNull)"
proof -
  have query: "returns (run_query E q ty) not_null" for q ty
    using returns_driver [OF assms] by (simp add: run_query_def split: prod.split)
  have buffer: "returns (buffer_rows E (re_values resp)) (\<lambda>rows. rows \<noteq> RValue VNull)" if "not_null resp" for resp
    using that unfolding buffer_rows_def
    by (intro returns_slift) (auto simp: not_null_def rows_buffer_def rmap_eq_Ok split: rows.splits sum.splits prod.splits)
  have tail: "returns (case sel of
        Some q \<Rightarrow> sbind (run_query E q ty) (\<lambda>resp'. buffer_rows E (re_values resp'))
      | None \<Rightarrow>
          if en_has_returning E w then buffer_rows E (re_values resp)
          else slift (case re_values resp of
                 RCount actual \<Rightarrow>
                   if actual \<noteq> matched then Err (ConditionFailed ''the write applied to other rows than the probe matched'')
                   else Ok (RCount actual)
               | _ \<Rightarrow> invalid_result ''expected Count, got Stream'')) (\<lambda>rows. rows \<noteq> RValue VNull)"
    if "not_null resp" for sel w resp matched ty
  proof (cases sel)
    case (Some q)
    then show ?thesis by (auto intro!: returns_sbind [OF query] buffer)
  next
    case None
    then show ?thesis using buffer [OF that]
      by (auto intro!: returns_slift simp: invalid_result_def split: rows.splits if_splits)
  qed
  show ?thesis
    unfolding rmw_exec_def by (intro returns_intros returns_sbind [OF query] tail)
qed

lemma returns_exec_op:
  assumes "driver_rows E" "never_null op"
  shows "returns (exec_op E op) not_null"
proof (cases op)
  case (MEval m)
  with assms(2) show ?thesis by (simp add: returns_exec_eval)
next
  case (MExecStatement m)
  with assms(1) show ?thesis by (simp add: returns_exec_statement)
next
  case (MReadModifyWrite m)
  have rollback: "returns (or_rollback E rb (rmw_exec E m)) (\<lambda>rows. rows \<noteq> RValue VNull)" for rb
    using returns_rmw [OF assms(1), of m]
    by (auto simp: returns_def or_rollback_def split: prod.splits outcome.splits if_splits) (metis fst_conv)
  have "returns (sbind (exec_driver E (DTransaction b)) (\<lambda>_. sbind (or_rollback E rb (rmw_exec E m)) (\<lambda>rows.
      sbind (exec_driver E (DTransaction c)) (\<lambda>_. sret (from_rows rows))))) not_null" for b c rb
    by (intro returns_tail returns_sbind [OF rollback] returns_sret) (simp add: not_null_from_rows)
  with MReadModifyWrite show ?thesis
    by (auto simp: exec_read_modify_write_def returns_def split: prod.splits)
next
  case (MUpsert m)
  with returns_driver [OF assms(1)] show ?thesis
    by (auto simp: exec_upsert_def intro!: returns_tail split: prod.splits)
next
  case (MGetByKey m)
  then show ?thesis
    unfolding MGetByKey exec_op.simps exec_get_by_key_def
    by (intro returns_tail returns_Let returns_if returns_sret returns_sbind [OF returns_driver [OF assms(1)]])
      (auto simp: not_null_def from_rows_def)
qed (use assms in \<open>auto simp: exec_delete_by_key_def exec_filter_def exec_find_pk_by_index_def exec_nested_merge_def
    exec_repeat_def exec_query_pk_def exec_scan_def exec_update_by_key_def rmap_eq_Ok
    intro!: returns_intros returns_slift split: prod.split if_splits\<close>)

subsection \<open>Storing an output\<close>

lemma vars_store_law:
  assumes "n < length slots" "uses > 0" "vars_store R n t uses resp slots = (r, slots')"
  shows "(\<exists>e z. r = Done () \<and> length slots' = length slots \<and>
      slots_view R slots' = (slots_view R slots)(n := Some (CRows e z, uses)) \<and> (z \<longrightarrow> \<not> not_null resp)) \<or>
    (\<exists>e. r = Fail e)"
proof (cases "checked_rows R t (re_values resp)")
  case (Inl e)
  with assms show ?thesis by (auto simp: vars_store_def sbind_def slift_def outcome_of_def)
next
  case (Inr rs)
  have null: "rs = RValue VNull \<Longrightarrow> \<not> not_null resp"
    using Inr by (auto simp: checked_rows_def not_null_def rmap_eq_Ok todo_def split: rows.splits if_splits ty.splits)
  from assms Inr have "r = Done ()" "slots' = slots[n := Some \<lparr>en_value = EvResponse (with_rows resp rs), en_count = uses\<rparr>]"
    by (simp_all add: vars_store_def sbind_def slift_def outcome_of_def at_slot_def put_slot_def)
  with assms(1) null show ?thesis
    by (intro disjI1 exI [of _ "rows_empty R rs"] exI [of _ "rs = RValue VNull"])
      (simp add: slots_view_put rows_class_def)
qed

lemma safe_store:
  assumes n: "n < N" "uses > 0"
  shows "safe (holds E N G) (on_slots (vars_store (en_models E) n t uses resp))
    (\<lambda>_ s. \<exists>e z. holds E N (G(n := Some (CRows e z, uses))) s \<and> (z \<longrightarrow> \<not> not_null resp))"
  unfolding safe_def
proof (intro allI impI)
  fix s assume s: "holds E N G s"
  let ?m = "vars_store (en_models E) n t uses resp"
  obtain r sl where r: "?m (xs_slots s) = (r, sl)" by force
  have "n < length (xs_slots s)" using s n(1) by (simp add: holds_def)
  from vars_store_law [OF this n(2) r] s show "case fst (on_slots ?m s) of
      Done _ \<Rightarrow> \<exists>e z. holds E N (G(n := Some (CRows e z, uses))) (snd (on_slots ?m s)) \<and> (z \<longrightarrow> \<not> not_null resp)
    | Fail _ \<Rightarrow> True | VarPanic _ \<Rightarrow> False"
    unfolding on_slots_run [of ?m, OF r] holds_def by fastforce
qed

lemma safe_store_skipped:
  assumes "n < N" "uses > 0"
  shows "safe (holds E N G) (on_slots (vars_store_skipped n uses)) (\<lambda>_. holds E N (G(n := Some (CSkipped, uses))))"
  using assms
  by (auto simp: safe_def holds_def on_slots_def vars_store_skipped_def at_slot_def put_slot_def slots_view_put)

end
