(* ===== verification/RunSafe.thy ===== *)
theory RunSafe
  imports NodeRules
begin

text \<open>
  A valid plan runs without a panic of the store, and a run that succeeds leaves the store
  empty: every output was consumed exactly as often as the plan counted.
\<close>

subsection \<open>What a run needs of its plan\<close>

definition op_in :: "node_id list \<Rightarrow> mir_op \<Rightarrow> bool" where
  "op_in X op = (case op of MAlias i _ \<Rightarrow> i \<in> set X | _ \<Rightarrow> never_null op)"

text \<open>\<open>X\<close> lists the row inputs, closed under aliases; none of them can be the null value.\<close>

definition row_sources :: "node_id list \<Rightarrow> logical_plan \<Rightarrow> bool" where
  "row_sources X plan \<longleftrightarrow>
     (\<forall>n \<in> set (lp_order plan). \<forall>(m, read) \<in> set (reads_of (lp_store plan) n).
        case read of PerRowOf x \<Rightarrow> x \<in> set X | Always \<Rightarrow> True) \<and>
     (\<forall>x \<in> set X. case plan_at plan x of Inr nd \<Rightarrow> op_in X (nd_op nd) | Inl _ \<Rightarrow> True)"

definition separate_plan :: "logical_plan \<Rightarrow> bool" where
  "separate_plan plan \<longleftrightarrow>
     (\<forall>n \<in> set (lp_order plan). case plan_at plan n of Inr nd \<Rightarrow> separate (nd_op nd) | Inl _ \<Rightarrow> True)"

definition runnable :: "'d engine \<Rightarrow> node_id list \<Rightarrow> logical_plan \<Rightarrow> bool" where
  "runnable E X plan \<longleftrightarrow>
     driver_rows E \<and> valid_plan plan \<and> separate_plan plan \<and> row_sources X plan \<and> Suc (length (lp_order plan)) < 2 ^ 64"

abbreviation held :: "'d engine \<Rightarrow> logical_plan \<Rightarrow> view \<Rightarrow> 'd exec_state \<Rightarrow> bool" where
  "held E plan \<equiv> holds E (length (lp_store plan))"

text \<open>The nodes of \<open>P\<close> have run, those of \<open>R\<close> are left; \<open>\<phi>\<close> is what else is known of the store.\<close>

definition between ::
  "'d engine \<Rightarrow> node_id list \<Rightarrow> logical_plan \<Rightarrow> node_id list \<Rightarrow> node_id list \<Rightarrow> (view \<Rightarrow> bool) \<Rightarrow> 'd exec_state \<Rightarrow> bool"
  where
  "between E X plan P R \<phi> xs \<longleftrightarrow> (\<exists>G. held E plan G xs \<and> run_inv plan X P R G \<and> \<phi> G)"

lemma safe_between:
  "(\<And>G. run_inv plan X P R G \<Longrightarrow> \<phi> G \<Longrightarrow> safe (held E plan G) m Q) \<Longrightarrow> safe (between E X plan P R \<phi>) m Q"
  unfolding safe_def between_def by blast

subsection \<open>Running a node\<close>

lemma run_inv_at:
  assumes "run_inv plan X P R G" "m \<in> set P" "remaining plan R m > 0"
  shows "\<exists>k. G m = Some (k, remaining plan R m)"
  using assms by (simp add: run_inv_def)

lemma run_inv_fresh: "run_inv plan X P R G \<Longrightarrow> m \<notin> set P \<Longrightarrow> G m = None"
  by (simp add: run_inv_def)

lemma node_ready:
  assumes run: "runnable E X plan" and order: "lp_order plan = P @ n # R" and inv: "run_inv plan X P (n # R) G"
    and guard: "\<And>x. guard_of (lp_store plan) n = Some x \<Longrightarrow> \<not> none_at G x" and nd: "plan_at plan n = Ok nd"
  shows "ready (nd_op nd) G"
  unfolding ready_def
proof
  note valid = run [unfolded runnable_def, THEN conjunct2, THEN conjunct1]
  note reads = plan_at_fields [OF nd]
  have stored: "\<exists>k c. G m = Some (k, c)" if "m \<in> set (loads_of (lp_store plan) n)" for m
  proof -
    have "m \<in> set P" using loads_earlier [OF valid order] that by auto
    moreover have "remaining plan (n # R) m > 0"
      using that by (simp add: remaining_def count_list_distinct)
    ultimately show ?thesis using run_inv_at [OF inv] by blast
  qed
  have skipped: "\<exists>x. read = PerRowOf x \<and> none_at G x"
    if "G m = Some (CSkipped, c)" "(m, read) \<in> set (reads_of (lp_store plan) n)" for m c read
  proof -
    obtain x where x: "guard_of (lp_store plan) m = Some x" "none_at G x"
      using inv \<open>G m = Some (CSkipped, c)\<close> by (auto simp: run_inv_def)
    have "m \<in> set (loads_of (lp_store plan) n)" using that(2) by (force simp: set_loads_of)
    then have "m \<in> set (lp_order plan)" using loads_earlier [OF valid order] order by auto
    from valid_planD(6) [OF valid this x(1)] have "contribution (guard_of (lp_store plan) n) read = Some x"
      using that(2) order by (auto simp: guard_valid_def)
    then show ?thesis using x(2) guard by (cases read) (auto simp: contribution_def)
  qed
  fix mr assume "mr \<in> set (input_reads (nd_op nd))"
  then obtain m read where mr: "mr = (m, read)" "(m, read) \<in> set (reads_of (lp_store plan) n)"
    by (metis prod.exhaust reads)
  then have m: "m \<in> set (loads_of (lp_store plan) n)" by (force simp: set_loads_of)
  have "\<exists>x c. read = PerRowOf x \<and> G x = Some (CRows True False, c)" if dead: "\<not> live G m"
  proof -
    obtain c where "G m = Some (CSkipped, c)" using dead by (auto simp: live_def)
    with skipped mr(2) obtain x where x: "read = PerRowOf x" "none_at G x" by blast
    then obtain k c where k: "G x = Some (k, c)" by (auto simp: none_at_def)
    have "(m, PerRowOf x) \<in> set (input_reads (nd_op nd))" using mr(2) x(1) reads by simp
    from per_row_input [OF this] have "(x, Always) \<in> set (reads_of (lp_store plan) n)" using reads by simp
    with skipped k have "k \<noteq> CSkipped" by blast
    moreover have "x \<in> set X"
      using run order mr(2) x(1) by (fastforce simp: runnable_def row_sources_def)
    then have "\<forall>e c. G x \<noteq> Some (CRows e True, c)" using inv by (simp add: run_inv_def)
    ultimately have "k = CRows True False" using k x(2) by (cases k) (auto simp: none_at_def)
    with k x(1) show ?thesis by blast
  qed
  with stored [OF m] show "ready_read G mr" by (auto simp: ready_read_def mr(1))
qed

lemma none_at_reduce:
  "none_at G' x \<Longrightarrow> G' x = reduce j (G x) \<Longrightarrow> none_at G x"
  by (auto simp: none_at_def reduce_def split: option.splits if_splits)

lemma exec_node_safe:
  assumes run: "runnable E X plan" and order: "lp_order plan = P @ n # R"
    and x: "\<And>x. guard_of (lp_store plan) n = Some x \<Longrightarrow> x = y"
  shows "safe (between E X plan P (n # R) (\<lambda>G. guard_of (lp_store plan) n \<noteq> None \<longrightarrow> \<not> none_at G y)) (exec_node E plan n)
    (\<lambda>_. between E X plan (P @ [n]) R (\<lambda>G. guard_of (lp_store plan) n \<noteq> None \<longrightarrow> \<not> none_at G y))"
proof (rule safe_between)
  fix G assume inv: "run_inv plan X P (n # R) G" and none: "guard_of (lp_store plan) n \<noteq> None \<longrightarrow> \<not> none_at G y"
  have valid: "valid_plan plan" and driver: "driver_rows E" using run by (simp_all add: runnable_def)
  obtain nd where nd: "plan_at plan n = Ok nd" using valid_planD(3) [OF valid, of n] order by auto
  note fields = plan_at_fields [OF nd]
  let ?ls = "loads_of (lp_store plan) n"
  let ?H = "spend ?ls G"
  let ?null = "\<lambda>resp :: response. n \<in> set X \<longrightarrow> not_null resp"
  have pos: "positive G" using run_inv_positive [OF inv] .
  have sep: "separate (nd_op nd)" using run order nd by (auto simp: runnable_def separate_plan_def)
  have rdy: "ready (nd_op nd) G"
    using node_ready [OF run order inv _ nd] none x by auto
  have op: "safe (held E plan G) (exec_op E (nd_op nd)) (\<lambda>resp s. held E plan ?H s \<and> ?null resp)"
  proof (cases "\<exists>i t. nd_op nd = MAlias i t \<and> n \<in> set X")
    case True
    then obtain i t where via: "nd_op nd = MAlias i t" "n \<in> set X" by blast
    have "ready_read G (i, Always)" using rdy via(1) by (simp add: ready_def)
    from ready_Always [OF this] obtain k c where k: "G i = Some (k, c)" "k \<noteq> CSkipped" by (auto simp: live_def)
    have "i \<in> set X" using run via nd by (fastforce simp: runnable_def row_sources_def op_in_def)
    with inv k have "\<forall>e. k \<noteq> CRows e True" by (auto simp: run_inv_def)
    moreover have "input_loads (MAlias i t) = [i]"
      by (simp add: input_loads_def op_inputs_def index_set_def index_set_insert_def)
    then have "?ls = [i]" using fields via(1) by simp
    ultimately show ?thesis
      unfolding via(1) exec_op.simps
      by (intro safe_conseq [OF slots.load_law [OF k pos]]) (auto simp: rows_class_def not_null_def)
  next
    case False
    have "returns (exec_op E (nd_op nd)) ?null"
    proof (cases "n \<in> set X")
      case True
      then have "op_in X (nd_op nd)" using run nd by (fastforce simp: runnable_def row_sources_def)
      with False True have "never_null (nd_op nd)" by (cases "nd_op nd") (auto simp: op_in_def)
      from returns_exec_op [OF driver this] True show ?thesis by simp
    qed (simp add: returns_def)
    then show ?thesis
      using exec_op_safe [OF pos sep rdy, of E "length (lp_store plan)"] fields
      unfolding safe_def returns_def by (auto split: outcome.splits)
  qed
  have notin: "n \<notin> set ?ls" "n \<notin> set P" using loads_earlier [OF valid order] order_distinct [OF valid order] by auto
  have uses: "nd_uses nd = remaining plan R n"
    using uses_remaining [OF valid order notin(2)] fields notin(1) by (simp add: remaining_def)
  have range: "n < length (lp_store plan)" using node_in_range [OF valid] order by simp
  have Hn: "?H n = None"
    using inv notin pos by (simp add: spend_other run_inv_def)
  have next_inv: "run_inv plan X (P @ [n]) R G'"
    if "\<And>m. m \<noteq> n \<Longrightarrow> G' m = ?H m"
       "if remaining plan R n = 0 then G' n = None
        else \<exists>k. G' n = Some (k, remaining plan R n) \<and> k \<noteq> CSkipped \<and> (n \<in> set X \<longrightarrow> (\<forall>e. k \<noteq> CRows e True))" for G'
    by (rule run_inv_block [OF valid, where B = "[n]" and G = G])
      (use order inv that in \<open>auto simp: spend_def split: if_splits\<close>)
  have next_none: "guard_of (lp_store plan) n \<noteq> None \<longrightarrow> \<not> none_at G' y"
    if "\<And>m. m \<noteq> n \<Longrightarrow> G' m = ?H m" for G'
  proof (intro impI notI)
    assume g: "guard_of (lp_store plan) n \<noteq> None" "none_at G' y"
    then have "y \<in> set P" using guard_earlier [OF valid order] x by auto
    then have "y \<noteq> n" using notin(2) by auto
    then show False using none_at_reduce [OF g(2)] that none g(1) by (auto simp: spend_def)
  qed
  have store: "safe (\<lambda>s. held E plan ?H s \<and> ?null resp)
      (on_slots (vars_store (en_models E) n (op_ty (nd_op nd)) (nd_uses nd) resp))
      (\<lambda>_. between E X plan (P @ [n]) R (\<lambda>G. guard_of (lp_store plan) n \<noteq> None \<longrightarrow> \<not> none_at G y))" for resp
  proof (rule safe_assume)
    assume null: "?null resp"
    show "safe (held E plan ?H) (on_slots (vars_store (en_models E) n (op_ty (nd_op nd)) (nd_uses nd) resp))
        (\<lambda>_. between E X plan (P @ [n]) R (\<lambda>G. guard_of (lp_store plan) n \<noteq> None \<longrightarrow> \<not> none_at G y))"
    proof (cases "nd_uses nd = 0")
      case True
      then have "run_inv plan X (P @ [n]) R ?H" using next_inv [of ?H] Hn uses by simp
      with True next_none [of ?H] show ?thesis
        by (auto simp: safe_def on_slots_def vars_store_def sret_def between_def)
    next
      case False
      have "between E X plan (P @ [n]) R (\<lambda>G. guard_of (lp_store plan) n \<noteq> None \<longrightarrow> \<not> none_at G y) s"
        if s: "held E plan (?H(n := Some (CRows e z, nd_uses nd))) s" "z \<longrightarrow> \<not> not_null resp" for e z s
      proof -
        let ?G' = "?H(n := Some (CRows e z, nd_uses nd))"
        have "run_inv plan X (P @ [n]) R ?G'" using False s(2) null uses by (intro next_inv) auto
        with s(1) next_none [of ?G'] show ?thesis unfolding between_def by (intro exI [of _ ?G']) simp
      qed
      with False range show ?thesis by (intro safe_conseq [OF safe_store]) auto
    qed
  qed
  show "safe (held E plan G) (exec_node E plan n)
      (\<lambda>_. between E X plan (P @ [n]) R (\<lambda>G. guard_of (lp_store plan) n \<noteq> None \<longrightarrow> \<not> none_at G y))"
    unfolding exec_node_def
  proof (rule safe_sbind [where R = "\<lambda>nd' s. held E plan G s \<and> nd' = nd"], goal_cases)
    case 1
    show ?case using nd by (intro safe_slift) simp
  next
    case (2 nd')
    show ?case
    proof (rule safe_assume)
      assume "nd' = nd"
      then show "safe (held E plan G)
          (sbind (exec_op E (nd_op nd')) (\<lambda>resp. on_slots (vars_store (en_models E) n (op_ty (nd_op nd')) (nd_uses nd') resp)))
          (\<lambda>_. between E X plan (P @ [n]) R (\<lambda>G. guard_of (lp_store plan) n \<noteq> None \<longrightarrow> \<not> none_at G y))"
        using safe_sbind [OF op store] by simp
    qed
  qed
qed

subsection \<open>A conditional block\<close>

text \<open>A block whose guard has rows runs its nodes.\<close>

lemma block_runs_safe:
  assumes run: "runnable E X plan" and order: "lp_order plan = P @ B @ R"
    and guard: "\<And>n. n \<in> set B \<Longrightarrow> guard_of (lp_store plan) n = Some y"
  shows "safe (between E X plan P (B @ R) (\<lambda>G. \<not> none_at G y)) (straverse (exec_node E plan) B)
    (\<lambda>_. between E X plan (P @ B) R (\<lambda>G. \<not> none_at G y))"
proof -
  let ?I = "\<lambda>xs. between E X plan (P @ xs) (drop (length xs) B @ R) (\<lambda>G. \<not> none_at G y)"
  have "safe (?I []) (straverse (exec_node E plan) B) (\<lambda>_. ?I B)"
  proof (rule safe_straverse)
    fix xs n ys assume B: "B = xs @ n # ys"
    have g: "guard_of (lp_store plan) n = Some y" using guard B by simp
    have "lp_order plan = (P @ xs) @ n # ys @ R" using order B by simp
    from exec_node_safe [OF run this, of y] g B
    show "safe (?I xs) (exec_node E plan n) (\<lambda>_. ?I (xs @ [n]))" by simp
  qed
  then show ?thesis by simp
qed

text \<open>A block whose guard has no rows releases what it would have loaded and marks what it would have stored.\<close>

lemma count_filter_notin: "m \<notin> set B \<Longrightarrow> count_list (filter (\<lambda>l. l \<notin> set B) xs) m = count_list xs m"
  by (induction xs) auto

definition mark_skipped :: "(node_id \<times> nat) list \<Rightarrow> view \<Rightarrow> view" where
  "mark_skipped outs G = foldl (\<lambda>G (n, uses). G(n := Some (CSkipped, uses))) G outs"

lemma mark_skipped_at:
  "distinct (map fst outs) \<Longrightarrow>
   mark_skipped outs G m = (case map_of outs m of Some uses \<Rightarrow> Some (CSkipped, uses) | None \<Rightarrow> G m)"
proof (induction outs arbitrary: G)
  case (Cons q outs)
  have "mark_skipped (q # outs) G = mark_skipped outs (G(fst q := Some (CSkipped, snd q)))"
    by (simp add: mark_skipped_def split_def)
  with Cons show ?case by (auto simp: map_of_eq_None_iff image_iff split: option.split)
qed (simp add: mark_skipped_def)

lemma safe_mark_skipped:
  assumes "\<And>n uses. (n, uses) \<in> set outs \<Longrightarrow> n < N \<and> uses > 0"
  shows "safe (holds E N G) (straverse (\<lambda>(n, uses). on_slots (vars_store_skipped n uses)) outs)
    (\<lambda>_. holds E N (mark_skipped outs G))"
proof -
  let ?I = "\<lambda>xs. holds E N (mark_skipped xs G)"
  have "safe (?I []) (straverse (\<lambda>(n, uses). on_slots (vars_store_skipped n uses)) outs) (\<lambda>_. ?I outs)"
  proof (rule safe_straverse)
    fix xs o' ys assume "outs = xs @ o' # ys"
    moreover obtain n uses where "o' = (n, uses)" by (cases o')
    ultimately show "safe (?I xs) (case o' of (n, uses) \<Rightarrow> on_slots (vars_store_skipped n uses)) (\<lambda>_. ?I (xs @ [o']))"
      using assms [of n uses] safe_store_skipped [of n N uses E] by (simp add: mark_skipped_def)
  qed
  then show ?thesis by (simp add: mark_skipped_def)
qed

lemma map_of_map_pair: "map_of (map (\<lambda>n. (n, f n)) B) m = (if m \<in> set B then Some (f m) else None)"
  by (induction B) auto

lemma escaping_remaining:
  assumes "runnable E X plan" "lp_order plan = P @ B @ R" "n \<in> set B"
  shows "escaping plan B n = remaining plan R n"
proof -
  have valid: "valid_plan plan" and size: "Suc (length (lp_order plan)) < 2 ^ 64"
    using assms(1) by (simp_all add: runnable_def)
  have "n \<notin> set P" using order_distinct [OF valid assms(2)] assms(3) by auto
  from uses_remaining [OF valid assms(2) this]
  have "uses_of (lp_store plan) n = count_list (all_loads plan B) n + remaining plan R n"
    by (simp add: remaining_append)
  moreover have "remaining plan R n < 2 ^ 64" using remaining_le [of plan R n] size assms(2) by simp
  ultimately show ?thesis by (simp add: escaping_def usize_sub_def)
qed

lemma block_skips_safe:
  assumes run: "runnable E X plan" and order: "lp_order plan = P @ B @ R"
    and guard: "\<And>n. n \<in> set B \<Longrightarrow> guard_of (lp_store plan) n = Some y"
    and inv: "run_inv plan X P (B @ R) G" and none: "none_at G y"
  shows "safe (held E plan G)
    (sbind (straverse (\<lambda>i. on_slots (vars_release i)) (if_skipped_inputs (if_block_of plan B))) (\<lambda>_.
     sbind (straverse (\<lambda>(n, uses). on_slots (vars_store_skipped n uses)) (if_skipped_outputs (if_block_of plan B))) (\<lambda>_.
     sret ())))
    (\<lambda>_. between E X plan (P @ B) R (\<lambda>_. True))"
proof -
  have valid: "valid_plan plan" using run by (simp add: runnable_def)
  let ?ins = "filter (\<lambda>l. l \<notin> set B) (all_loads plan B)"
  let ?outs = "filter (\<lambda>(n, uses). uses > 0) (map (\<lambda>n. (n, escaping plan B n)) B)"
  let ?G' = "mark_skipped ?outs (spend ?ins G)"
  have dist: "distinct B" "set B \<inter> set P = {}" using order_distinct [OF valid order] by auto
  have outs: "map_of ?outs m = (if m \<in> set B \<and> remaining plan R m > 0 then Some (remaining plan R m) else None)" for m
  proof -
    have "?outs = map (\<lambda>n. (n, escaping plan B n)) (filter (\<lambda>n. escaping plan B n > 0) B)"
      by (simp add: filter_map comp_def)
    then show ?thesis using escaping_remaining [OF run order, of m] by (auto simp: map_of_map_pair)
  qed
  have dist_outs: "distinct (map fst ?outs)"
    using dist(1) by (simp add: filter_map comp_def)
  have pos: "positive G" using run_inv_positive [OF inv] .
  have ins_in: "m \<in> set P" if m: "m \<in> set ?ins" for m
  proof -
    obtain n where n: "n \<in> set B" "m \<in> set (loads_of (lp_store plan) n)" using m by (auto simp: all_loads_def)
    then obtain B1 B2 where B: "B = B1 @ n # B2" by (meson in_set_conv_decomp)
    have "lp_order plan = (P @ B1) @ n # (B2 @ R)" using order B by simp
    from loads_earlier [OF valid this] n(2) m B show ?thesis by auto
  qed
  have "affords ?ins G"
    unfolding affords_def
  proof
    fix m assume m: "m \<in> set ?ins"
    have "count_list (all_loads plan B) m \<noteq> 0" using m unfolding count_list_0_iff by auto
    then have "remaining plan (B @ R) m > 0" by (simp add: remaining_append)
    from run_inv_at [OF inv ins_in [OF m] this] m show "\<exists>k c. G m = Some (k, c) \<and> count_list ?ins m \<le> c"
      by (auto simp: count_filter_notin remaining_append)
  qed
  then have release: "safe (held E plan G) (straverse (\<lambda>i. on_slots (vars_release i)) ?ins) (\<lambda>_. held E plan (spend ?ins G))"
    using pos by (rule safe_release [rotated])
  have mark: "safe (held E plan (spend ?ins G)) (straverse (\<lambda>(n, uses). on_slots (vars_store_skipped n uses)) ?outs)
      (\<lambda>_. held E plan ?G')"
    using node_in_range [OF valid] order by (intro safe_mark_skipped) auto
  have "run_inv plan X (P @ B) R ?G'"
  proof (rule run_inv_block [OF valid order inv])
    fix m assume "m \<notin> set B"
    then show "?G' m = reduce (count_list (all_loads plan B) m) (G m)"
      by (simp add: mark_skipped_at [OF dist_outs] outs spend_def count_filter_notin)
  next
    fix m assume m: "m \<in> set B"
    have "G m = None" using m dist(2) by (intro run_inv_fresh [OF inv]) auto
    with m guard [OF m] none show "if remaining plan R m = 0 then ?G' m = None else
        \<exists>k. ?G' m = Some (k, remaining plan R m) \<and>
          (k = CSkipped \<longrightarrow> (\<exists>x. guard_of (lp_store plan) m = Some x \<and> none_at G x)) \<and>
          (m \<in> set X \<longrightarrow> (\<forall>e. k \<noteq> CRows e True))"
      by (simp add: mark_skipped_at [OF dist_outs] outs spend_def reduce_def)
  qed
  then have "held E plan ?G' s \<Longrightarrow> between E X plan (P @ B) R (\<lambda>_. True) s" for s
    by (auto simp: between_def)
  then show ?thesis
    unfolding if_block_of_def if_block.simps
    by (intro safe_sbind [OF release] safe_sbind [OF mark] safe_sret)
qed

lemma action_if_safe:
  assumes run: "runnable E X plan" and order: "lp_order plan = P @ B @ R" and B: "B \<noteq> []"
    and guard: "\<And>n. n \<in> set B \<Longrightarrow> guard_of (lp_store plan) n = Some y"
  shows "safe (between E X plan P (B @ R) (\<lambda>_. True)) (action_if E plan (if_block_of plan B))
    (\<lambda>_. between E X plan (P @ B) R (\<lambda>_. True))"
proof (rule safe_between)
  fix G assume inv: "run_inv plan X P (B @ R) G"
  have valid: "valid_plan plan" using run by (simp add: runnable_def)
  obtain n B' where n: "B = n # B'" using B by (cases B) auto
  have gn: "guard_of (lp_store plan) n = Some y" and in_order: "n \<in> set (lp_order plan)" using guard n order by auto
  have y: "y \<in> set P" using guard_earlier [OF valid _ gn] order n by auto
  obtain c where c: "c \<in> set (lp_order plan)" "n \<in> set (loads_of (lp_store plan) c)"
    using valid_planD(6) [OF valid in_order gn] by (auto simp: guard_valid_def)
  have "c \<in> set (B @ R)"
  proof (rule ccontr)
    assume "c \<notin> set (B @ R)"
    then have "c \<in> set P" using c(1) order by auto
    then have "count_list (all_loads plan P) n \<noteq> 0" using c(2) unfolding count_list_0_iff by (auto simp: all_loads_def)
    then show False using unread_before [OF valid order] order_distinct [OF valid order] n by auto
  qed
  then have "remaining plan (B @ R) y > 0" using guard_needed [OF valid order in_order gn _ c(2)] by simp
  from run_inv_at [OF inv y this] obtain k where k: "G y = Some (k, remaining plan (B @ R) y)" by blast
  obtain nd where nd: "plan_at plan n = Ok nd" using valid_planD(3) [OF valid in_order] by blast
  have cond: "if_guard plan (if_block_of plan B) = Ok y"
    using n nd plan_at_fields [OF nd] gn by (simp add: if_guard_def slice_at_def)
  have peek: "safe (held E plan G) (on_slots (vars_peek_non_empty (en_models E) y))
      (\<lambda>b s. held E plan G s \<and> b = (\<not> none_at G y))"
    by (rule safe_conseq [OF safe_peek [of G y, OF k]]) (auto simp: none_at_def k split: content.splits)
  let ?then = "sbind (straverse (exec_node E plan) B) (\<lambda>_. sret ())"
  let ?skip = "sbind (straverse (\<lambda>i. on_slots (vars_release i)) (if_skipped_inputs (if_block_of plan B))) (\<lambda>_.
     sbind (straverse (\<lambda>(n, uses). on_slots (vars_store_skipped n uses)) (if_skipped_outputs (if_block_of plan B))) (\<lambda>_.
     sret ()))"
  let ?Q = "\<lambda>_. between E X plan (P @ B) R (\<lambda>_. True)"
  have pass: "safe (held E plan G) ?then ?Q" if "\<not> none_at G y"
  proof (rule safe_sbind)
    show "safe (held E plan G) (straverse (exec_node E plan) B) (\<lambda>_. between E X plan (P @ B) R (\<lambda>G. \<not> none_at G y))"
      by (rule safe_conseq [OF block_runs_safe [OF run order guard]]) (use that inv in \<open>auto simp: between_def\<close>)
  qed (auto intro!: safe_sret simp: between_def)
  have branch: "safe (\<lambda>s. held E plan G s \<and> b = (\<not> none_at G y)) (if b then ?then else ?skip) ?Q" for b
    by (rule safe_assume) (use pass block_skips_safe [OF run order guard inv] in simp)
  show "safe (held E plan G) (action_if E plan (if_block_of plan B)) ?Q"
    unfolding action_if_def cond if_then_block
  proof (rule safe_sbind [where R = "\<lambda>x s. held E plan G s \<and> x = y"], goal_cases)
    case (2 x)
    show ?case by (rule safe_assume) (use safe_sbind [OF peek branch] in simp)
  qed (rule safe_slift, simp)
qed

end
