(* ===== verification/RunPlan.thy ===== *)
theory RunPlan
  imports RunSafe
begin

text \<open>The steps of a plan, its transaction, and the run as a whole.\<close>

lemma exec_step_safe:
  assumes run: "runnable E X plan" and order: "lp_order plan = P @ step_nodes t @ R" and t: "step_ok plan t"
  shows "safe (between E X plan P (step_nodes t @ R) (\<lambda>_. True)) (exec_step E plan t)
    (\<lambda>_. between E X plan (P @ step_nodes t) R (\<lambda>_. True))"
proof (cases t)
  case (StepRun n)
  with t have "guard_of (lp_store plan) n = None" by simp
  with exec_node_safe [OF run, of P n R undefined] order StepRun show ?thesis by (simp add: exec_step_def)
next
  case (StepIf b)
  with t obtain y where "if_then b \<noteq> []" "\<forall>n \<in> set (if_then b). guard_of (lp_store plan) n = Some y"
      "b = if_block_of plan (if_then b)"
    by auto
  with action_if_safe [OF run, of P "if_then b" R y] order StepIf show ?thesis by (simp add: exec_step_def)
qed

lemma exec_steps_safe:
  assumes run: "runnable E X plan" and steps: "concat (map step_nodes steps) = lp_order plan" "\<forall>t \<in> set steps. step_ok plan t"
  shows "safe (between E X plan [] (lp_order plan) (\<lambda>_. True)) (straverse (exec_step E plan) steps)
    (\<lambda>_. between E X plan (lp_order plan) [] (\<lambda>_. True))"
proof -
  let ?I = "\<lambda>ts. between E X plan (concat (map step_nodes ts)) (concat (map step_nodes (drop (length ts) steps))) (\<lambda>_. True)"
  have "safe (?I []) (straverse (exec_step E plan) steps) (\<lambda>_. ?I steps)"
  proof (rule safe_straverse)
    fix ts t us assume split: "steps = ts @ t # us"
    have "lp_order plan = concat (map step_nodes ts) @ step_nodes t @ concat (map step_nodes us)"
      using steps(1) split by simp
    from exec_step_safe [OF run this] steps(2) split
    show "safe (?I ts) (exec_step E plan t) (\<lambda>_. ?I (ts @ [t]))" by simp
  qed
  then show ?thesis by (simp add: steps(1))
qed

lemma safe_or_rollback: "safe P body Q \<Longrightarrow> safe P (or_rollback E rb body) Q"
  by (auto simp: safe_def or_rollback_def split: outcome.splits prod.splits)

lemma between_slots:
  "between E X plan P R \<phi> = (\<lambda>s. (\<lambda>sl. \<exists>G. length sl = length (lp_store plan) \<and> slots_view (en_models E) sl = G \<and>
     run_inv plan X P R G \<and> \<phi> G) (xs_slots s))"
  by (rule ext) (simp add: between_def holds_def)

lemma safe_between_keeps: "keeps m \<Longrightarrow> safe (between E X plan P R \<phi>) m (\<lambda>_. between E X plan P R \<phi>)"
  unfolding between_slots by (rule safe_keeps)

lemma keeps_enter_tx [keeps_intros]: "keeps enter_tx"
  by (simp add: keeps_def enter_tx_def)

lemma between_start:
  "between E X plan [] (lp_order plan) (\<lambda>_. True)
     \<lparr>xs_conn = conn, xs_slots = vars_new (length (lp_store plan)), xs_in_tx = in_tx\<rparr>"
proof -
  have "slots_view R (vars_new n) = (\<lambda>_. None)" for R n
    by (rule ext) (simp add: slots_view_def vars_new_def)
  then show ?thesis by (simp add: between_def holds_def run_inv_def vars_new_def)
qed

lemma safe_final_load:
  assumes run: "runnable E X plan"
  shows "safe (between E X plan (lp_order plan) [] (\<lambda>_. True)) (load E (lp_completion plan)) (\<lambda>_ s. vars_empty (xs_slots s))"
proof (rule safe_between)
  fix G assume inv: "run_inv plan X (lp_order plan) [] G"
  let ?c = "lp_completion plan"
  have valid: "valid_plan plan" using run by (simp add: runnable_def)
  have left: "remaining plan [] m = (if m = ?c then 1 else 0)" for m by (simp add: remaining_def)
  then obtain k where k: "G ?c = Some (k, 1)"
    using run_inv_at [OF inv valid_planD(2) [OF valid]] by auto
  have "k \<noteq> CSkipped"
    using inv k completion_unguarded [OF valid] by (fastforce simp: run_inv_def)
  note load = slots.load_law [OF k this run_inv_positive [OF inv]]
  have "spend [?c] G m = None" for m
  proof (cases "m = ?c")
    case True
    with k show ?thesis by (simp add: spend_def reduce_def)
  next
    case False
    have "if m \<in> set (lp_order plan) \<and> 0 < remaining plan [] m then \<exists>k. G m = Some (k, remaining plan [] m)
        else G m = None"
      using inv by (simp add: run_inv_def)
    with False left show ?thesis by (simp add: spend_def reduce_def)
  qed
  then have "held E plan (spend [?c] G) s \<Longrightarrow> vars_empty (xs_slots s)" for s
    by (auto simp: holds_def vars_empty_def list_all_length slots_view_def fun_eq_iff split: if_splits)
  then show "safe (held E plan G) (load E ?c) (\<lambda>_ s. vars_empty (xs_slots s))"
    by (intro safe_conseq [OF load]) auto
qed

lemma run_plan_safe:
  assumes run: "runnable E X plan" and p: "plan_execution mutating sql interactive plan = Ok p"
  shows "safe (between E X plan [] (lp_order plan) (\<lambda>_. True)) (run_plan E p) (\<lambda>_ s. vars_empty (xs_slots s))"
proof -
  have valid: "valid_plan plan" using run by (simp add: runnable_def)
  obtain steps where steps: "plan_steps plan = Ok steps" "concat (map step_nodes steps) = lp_order plan"
      "\<forall>t \<in> set steps. step_ok plan t"
    using plan_steps_Ok [OF valid_planD(3) [OF valid]] by blast
  with p have ep: "ep_plan p = plan" "ep_steps p = steps" "ep_returning p = lp_completion plan"
    by (auto simp: plan_execution_def rmap_eq_Ok)
  let ?start = "between E X plan [] (lp_order plan) (\<lambda>_. True)"
  let ?finish = "between E X plan (lp_order plan) [] (\<lambda>_. True)"
  let ?steps = "sbind (straverse (exec_step E plan) steps) (\<lambda>_. sret ())"
  have body: "safe ?start ?steps (\<lambda>_. ?finish)"
    by (rule safe_sbind [OF exec_steps_safe [OF run steps(2,3)]]) (simp add: safe_sret)
  have steps_safe: "safe ?start (if b then or_rollback E rb ?steps else ?steps) (\<lambda>_. ?finish)" for b rb
    using body safe_or_rollback [OF body] by simp
  have wrap: "safe ?start
      (sbind (if b then sbind (exec_driver E (DTransaction s)) (\<lambda>_. enter_tx) else sret ()) (\<lambda>_.
        sbind (if b then or_rollback E rb ?steps else ?steps) (\<lambda>_.
        sbind (if b then sbind (exec_driver E (DTransaction c)) (\<lambda>_. sret ()) else sret ()) (\<lambda>_.
        sbind (load E (lp_completion plan)) (\<lambda>resp. sret (final_response resp)))))) (\<lambda>_ s. vars_empty (xs_slots s))"
    for b s c rb
    by (intro safe_sbind [OF safe_between_keeps] safe_sbind [OF steps_safe] safe_sbind [OF safe_final_load [OF run]]
        safe_sret keeps_intros)
  show ?thesis
    unfolding safe_def
  proof (intro allI impI)
    fix s assume s: "?start s"
    obtain b c rb where tx: "tx_ops (xs_in_tx s) ''statement'' = (b, c, rb)" by (cases "tx_ops (xs_in_tx s) ''statement''")
    note eq = run_plan_def [of E p s, unfolded tx prod.case Let_def ep]
    show "case fst (run_plan E p s) of Done _ \<Rightarrow> vars_empty (xs_slots (snd (run_plan E p s)))
        | Fail _ \<Rightarrow> True | VarPanic _ \<Rightarrow> False"
      unfolding eq by (rule wrap [of "ep_needs_transaction p" b rb c, unfolded safe_def, rule_format, OF s])
  qed
qed

lemma exec_plan_safe:
  assumes run: "runnable E X plan" and p: "plan_execution mutating sql interactive plan = Ok p"
    and result: "exec_plan E p in_tx conn = (r, xs)"
  shows "case r of Done _ \<Rightarrow> vars_empty (xs_slots xs) | Fail _ \<Rightarrow> True | VarPanic _ \<Rightarrow> False"
proof -
  have "ep_slots p = vars_new (length (lp_store plan))"
    using p by (auto simp: plan_execution_def rmap_eq_Ok rbind_eq_Ok)
  with result have "run_plan E p \<lparr>xs_conn = conn, xs_slots = vars_new (length (lp_store plan)), xs_in_tx = in_tx\<rparr> = (r, xs)"
    by (simp add: exec_plan_def)
  with run_plan_safe [OF run p] between_start [of E X plan conn in_tx] show ?thesis
    unfolding safe_def by (metis fst_conv snd_conv)
qed

end
