(* ===== verification/PlanArena.thy ===== *)
theory PlanArena
  imports RunPlan
begin

text \<open>Arenas the planner builds, and the plans of such arenas.\<close>

subsection \<open>Arenas\<close>

text \<open>What the planner's arena must satisfy beyond \<open>planned\<close>: inputs of an operation are
  different nodes, and row inputs are not the null value.\<close>

definition separate_arena :: "store \<Rightarrow> bool" where
  "separate_arena st = list_all (\<lambda>s. case s of Filled nd \<Rightarrow> separate (nd_op nd) | Reserved \<Rightarrow> True) st"

definition reads_rows_of :: "node_id list \<Rightarrow> mir_op \<Rightarrow> bool" where
  "reads_rows_of X op = list_all (\<lambda>(m, read). case read of PerRowOf x \<Rightarrow> x \<in> set X | Always \<Rightarrow> True) (input_reads op)"

definition row_arena :: "node_id list \<Rightarrow> store \<Rightarrow> bool" where
  "row_arena X st \<longleftrightarrow>
     list_all (\<lambda>s. case s of Filled nd \<Rightarrow> reads_rows_of X (nd_op nd) | Reserved \<Rightarrow> True) st \<and>
     list_all (\<lambda>x. case store_at st x of Inr nd \<Rightarrow> op_in X (nd_op nd) | Inl _ \<Rightarrow> True) X"

lemma same_graph_op:
  "same_graph st st' \<Longrightarrow> store_at st' n = Ok nd' \<Longrightarrow> \<exists>nd. store_at st n = Ok nd \<and> nd_op nd = nd_op nd'"
  by (auto simp: same_graph_def field_at_def fun_eq_iff split: sum.splits dest!: spec [of _ n])
    (metis old.sum.exhaust option.distinct(1) option.inject sum.case)+

lemma runnable_plan:
  assumes plan: "logical_plan_new mutating st completion = Ok plan" and st: "planned st" "completion < length st"
    and ops: "separate_arena st" "row_arena X st" and E: "driver_rows E" and size: "Suc (length st) < 2 ^ 64"
  shows "runnable E X plan"
proof -
  obtain plan' where "logical_plan_new mutating st completion = Ok plan'" "valid_plan plan'"
      "same_graph st (lp_store plan')"
    using logical_plan_valid [OF st] by blast
  with plan have valid: "valid_plan plan" and graph: "same_graph st (lp_store plan)" by simp_all
  have "set (lp_order plan) \<subseteq> {..<length st}"
    using node_in_range [OF valid] same_graph_eqs [OF graph] by auto
  then have "length (lp_order plan) \<le> length st"
    using valid_planD(1) [OF valid] card_mono [of "{..<length st}" "set (lp_order plan)"] distinct_card [of "lp_order plan"]
    by simp
  with size have "Suc (length (lp_order plan)) < 2 ^ 64" by simp
  moreover have op: "\<exists>nd. n < length st \<and> st ! n = Filled nd \<and> nd_op nd = nd_op nd'" if "plan_at plan n = Ok nd'" for n nd'
    using same_graph_op [OF graph] that by (fastforce simp: plan_at_def store_at_Ok)
  have "separate_plan plan"
    using op ops(1) by (fastforce simp: separate_plan_def separate_arena_def list_all_length split: sum.split)
  moreover have "row_sources X plan"
  proof -
    have "case read of PerRowOf x \<Rightarrow> x \<in> set X | Always \<Rightarrow> True"
      if n: "n \<in> set (lp_order plan)" "(m, read) \<in> set (reads_of (lp_store plan) n)" for n m read
    proof -
      obtain nd' where nd': "plan_at plan n = Ok nd'" using valid_planD(3) [OF valid n(1)] by blast
      obtain nd where nd: "n < length st" "st ! n = Filled nd" "nd_op nd = nd_op nd'" using op [OF nd'] by blast
      have "reads_rows_of X (nd_op nd')"
        using ops(2) nd by (fastforce simp: row_arena_def list_all_length)
      with n(2) plan_at_fields [OF nd'] show ?thesis by (auto simp: reads_rows_of_def list_all_iff)
    qed
    moreover have "case plan_at plan x of Inr nd \<Rightarrow> op_in X (nd_op nd) | Inl _ \<Rightarrow> True" if x: "x \<in> set X" for x
    proof (cases "plan_at plan x")
      case (Inr nd')
      obtain nd where "store_at st x = Ok nd" "nd_op nd = nd_op nd'" using op [OF Inr] by (auto simp: store_at_Ok)
      with ops(2) x Inr show ?thesis by (fastforce simp: row_arena_def list_all_iff)
    qed simp
    ultimately show ?thesis by (auto simp: row_sources_def)
  qed
  ultimately show ?thesis using E valid by (simp add: runnable_def)
qed

text \<open>The planner's insertions keep the arena plannable, as long as it refers to nodes it has.\<close>

lemma deps_of_append:
  "n < length st \<Longrightarrow> deps_of (st @ [s]) n = deps_of st n" "deps_of (st @ [Filled nd]) (length st) = nd_deps nd"
  by (simp_all add: deps_of_def store_at_def slice_at_def nth_append)

lemma field_at_append:
  "n < length st \<Longrightarrow> field_at (st @ [s]) f n = field_at st f n" "field_at (st @ [Filled nd]) f (length st) = Some (f nd)"
  "n > length st \<Longrightarrow> field_at (st @ [s]) f n = None" "n \<ge> length st \<Longrightarrow> field_at st f n = None"
  by (simp_all add: field_at_def store_at_def slice_at_def nth_append)

lemma planned_snoc:
  assumes st: "planned st" and nd: "set (input_loads (nd_op nd)) \<subseteq> set (nd_deps nd)" "\<forall>d \<in> set (nd_deps nd). d < length st"
    "nd_uses nd = 0" "nd_guard nd = None"
  shows "planned (st @ [Filled nd])"
proof -
  let ?st = "st @ [Filled nd]"
  obtain rank where rank: "ranked st rank" using st by (auto simp: planned_def acyclic_deps_def)
  obtain b where b: "\<forall>n < length st. rank n < b"
    using finite_nat_set_iff_bounded [of "rank ` {..<length st}"] by auto
  have "ranked ?st (\<lambda>n. if n < length st then rank n else b)"
    unfolding ranked_def
  proof (intro allI impI ballI)
    fix n d assume n: "n < length ?st" "d \<in> set (deps_of ?st n)"
    show "(if d < length st then rank d else b) < (if n < length st then rank n else b)"
    proof (cases "n < length st")
      case True
      then have "d \<in> set (deps_of st n)" using n(2) by (simp add: deps_of_append)
      then have "rank d < rank n" "d < length st"
        using rank st True by (auto simp: ranked_def planned_def well_formed_def)
      with True show ?thesis by simp
    next
      case False
      then have "n = length st" using n(1) by simp
      then have "d < length st" using n(2) nd(2) by (simp add: deps_of_append)
      with False b show ?thesis by simp
    qed
  qed
  moreover have "well_formed ?st"
    using st nd(2) by (auto simp: planned_def well_formed_def all_filled_def less_Suc_eq deps_of_append intro: less_SucI)
  moreover have "\<forall>n < length ?st. set (loads_of ?st n) \<subseteq> set (deps_of ?st n)"
    using st nd(1) by (auto simp: planned_def less_Suc_eq loads_of_def deps_of_append field_at_append)
  moreover have "uses_of ?st n = 0 \<and> guard_of ?st n = None" for n
    using st nd(3,4) field_at_append(4) [of st n]
    by (cases n "length st" rule: linorder_cases) (auto simp: planned_def uses_of_def guard_of_def field_at_append)
  ultimately show ?thesis unfolding planned_def acyclic_deps_def by blast
qed

lemma store_insert_planned:
  assumes st: "planned st" and refs: "\<forall>d \<in> set (op_inputs op) \<union> set deps. d < length st"
  shows "planned (snd (store_insert_with_deps st (node_of op) deps)) \<and> fst (store_insert_with_deps st (node_of op) deps) = length st"
  using planned_snoc [OF st] refs
  by (simp add: store_insert_with_deps_def store_insert_def node_of_def foldl_index_set input_loads_def)

lemma planned_empty: "planned []"
  by (simp add: planned_def well_formed_def all_filled_def acyclic_deps_def ranked_def uses_of_def guard_of_def
      field_at_def store_at_def slice_at_def)

end
