(* ===== verification/TxRules.thy ===== *)
theory TxRules
  imports RunPlan
begin

text \<open>
  What a run sends to its driver: the operations of a plan that needs a transaction are
  bracketed by its beginning and its end, and what runs in between never begins or ends one.
  \<open>sent\<close> reads the operations a driver state has received.
\<close>

definition logs :: "'d engine \<Rightarrow> ('d \<Rightarrow> driver_op list) \<Rightarrow> bool" where
  "logs E sent \<longleftrightarrow> (\<forall>op c. sent (snd (en_driver E op c)) = sent c @ [op])"

fun inner_op :: "driver_op \<Rightarrow> bool" where
  "inner_op (DTransaction (TxStart _ _ _)) = False"
| "inner_op (DTransaction TxCommit) = False"
| "inner_op (DTransaction TxRollback) = False"
| "inner_op _ = True"

text \<open>A step that, inside a transaction, stays inside it.\<close>

definition inside :: "('d \<Rightarrow> driver_op list) \<Rightarrow> ('d exec_state, 'a) step \<Rightarrow> bool" where
  "inside sent m \<longleftrightarrow>
     (\<forall>s. xs_in_tx s \<longrightarrow> xs_in_tx (snd (m s)) \<and>
        (\<exists>ops. sent (xs_conn (snd (m s))) = sent (xs_conn s) @ ops \<and> list_all inner_op ops))"

named_theorems inside_intros \<open>steps that stay inside the transaction\<close>

lemma inside_pure [inside_intros]: "inside sent (sret a)" "inside sent (slift r)" "inside sent (on_slots f)"
  by (auto simp: inside_def sret_def slift_def on_slots_def split: prod.split)

lemma inside_driver [inside_intros]: "logs E sent \<Longrightarrow> inner_op op \<Longrightarrow> inside sent (exec_driver E op)"
  unfolding inside_def
proof (intro allI impI)
  fix s :: "'a exec_state" assume E: "logs E sent" "inner_op op" and s: "xs_in_tx s"
  obtain r c where c: "en_driver E op (xs_conn s) = (r, c)" by force
  with E have "sent c = sent (xs_conn s) @ [op]" unfolding logs_def by (metis snd_conv)
  with c s E(2) show "xs_in_tx (snd (exec_driver E op s)) \<and>
      (\<exists>ops. sent (xs_conn (snd (exec_driver E op s))) = sent (xs_conn s) @ ops \<and> list_all inner_op ops)"
    by (simp add: exec_driver_def)
qed

lemma inside_sbind [inside_intros]: "inside sent m \<Longrightarrow> (\<And>a. inside sent (f a)) \<Longrightarrow> inside sent (sbind m f)"
  unfolding inside_def
proof (intro allI impI)
  fix s :: "'a exec_state" assume m: "\<forall>s. xs_in_tx s \<longrightarrow> xs_in_tx (snd (m s)) \<and>
      (\<exists>ops. sent (xs_conn (snd (m s))) = sent (xs_conn s) @ ops \<and> list_all inner_op ops)"
    and f: "\<And>a. \<forall>s. xs_in_tx s \<longrightarrow> xs_in_tx (snd (f a s)) \<and>
      (\<exists>ops. sent (xs_conn (snd (f a s))) = sent (xs_conn s) @ ops \<and> list_all inner_op ops)"
    and s: "xs_in_tx s"
  obtain r t where r: "m s = (r, t)" by force
  with m s obtain ops where t: "xs_in_tx t" "sent (xs_conn t) = sent (xs_conn s) @ ops" "list_all inner_op ops"
    by (metis snd_conv)
  show "xs_in_tx (snd (sbind m f s)) \<and>
      (\<exists>ops. sent (xs_conn (snd (sbind m f s))) = sent (xs_conn s) @ ops \<and> list_all inner_op ops)"
  proof (cases r)
    case (Done a)
    from f [of a, rule_format, OF t(1)] obtain ops' where "xs_in_tx (snd (f a t))"
        "sent (xs_conn (snd (f a t))) = sent (xs_conn t) @ ops'" "list_all inner_op ops'"
      by blast
    with t r Done show ?thesis by (auto simp: sbind_def)
  qed (use t r in \<open>auto simp: sbind_def\<close>)
qed

lemma inside_if [inside_intros]: "inside sent m \<Longrightarrow> inside sent m' \<Longrightarrow> inside sent (if b then m else m')"
  by simp

lemma inside_Let [inside_intros]: "(\<And>x. inside sent (f x)) \<Longrightarrow> inside sent (Let x f)"
  by (simp add: Let_def)

lemma inside_case_prod [inside_intros]: "(\<And>a b. inside sent (f a b)) \<Longrightarrow> inside sent (case p of (a, b) \<Rightarrow> f a b)"
  by (cases p) simp

lemma inside_case_option [inside_intros]:
  "inside sent m \<Longrightarrow> (\<And>a. inside sent (f a)) \<Longrightarrow> inside sent (case x of None \<Rightarrow> m | Some a \<Rightarrow> f a)"
  by (cases x) simp_all

lemma inside_case_conditional [inside_intros]:
  "inside sent f \<Longrightarrow> inside sent g \<Longrightarrow> inside sent h \<Longrightarrow>
   inside sent (case c of CoNone \<Rightarrow> f | CoCount \<Rightarrow> g | CoReturning \<Rightarrow> h)"
  by (cases c) simp_all

lemma inside_straverse [inside_intros]: "(\<And>x. inside sent (f x)) \<Longrightarrow> inside sent (straverse f xs)"
  by (induction xs) (auto intro!: inside_intros)

lemma inside_load [inside_intros]:
  "inside sent (load E n)" "inside sent (load_value E n)" "inside sent (collect_input E ns)" "inside sent (buffer_rows E rs)"
  unfolding load_def load_value_def [abs_def] collect_input_def buffer_rows_def by (intro inside_intros)+

lemma inside_or_rollback [inside_intros]:
  assumes "logs E sent" "inner_op (DTransaction rb)" "inside sent m"
  shows "inside sent (or_rollback E rb m)"
  unfolding inside_def
proof (intro allI impI)
  fix s :: "'a exec_state" assume s: "xs_in_tx s"
  obtain r t where r: "m s = (r, t)" by force
  with assms(3) s obtain ops where t: "xs_in_tx t" "sent (xs_conn t) = sent (xs_conn s) @ ops" "list_all inner_op ops"
    unfolding inside_def by (metis snd_conv)
  have "inside sent (exec_driver E (DTransaction rb))" using assms(1,2) by (rule inside_driver)
  then obtain ops' where "xs_in_tx (snd (exec_driver E (DTransaction rb) t))"
      "sent (xs_conn (snd (exec_driver E (DTransaction rb) t))) = sent (xs_conn t) @ ops'" "list_all inner_op ops'"
    using t(1) unfolding inside_def by blast
  with t r show "xs_in_tx (snd (or_rollback E rb m s)) \<and>
      (\<exists>ops. sent (xs_conn (snd (or_rollback E rb m s))) = sent (xs_conn s) @ ops \<and> list_all inner_op ops)"
    by (cases r) (auto simp: or_rollback_def)
qed

lemma inside_state: "(\<And>t. xs_in_tx t \<Longrightarrow> inside sent (f t)) \<Longrightarrow> inside sent (\<lambda>s. f s s)"
  by (auto simp: inside_def)

subsection \<open>The operations\<close>

lemma inside_load_merge [inside_intros]: "inside sent (load_merge_inputs E src i ns)"
  by (induction ns arbitrary: i) (auto intro!: inside_intros)

lemma inside_delete_keys [inside_intros]: "logs E sent \<Longrightarrow> inside sent (delete_keys E m acc ks)"
  by (induction ks arbitrary: acc) (auto intro!: inside_intros split: rows.split)

lemma inside_update_keys [inside_intros]: "logs E sent \<Longrightarrow> inside sent (update_keys E m returning acc rows ks)"
  by (induction ks arbitrary: acc rows) (auto intro!: inside_intros split: rows.split)

lemma inside_query_filters [inside_intros]: "logs E sent \<Longrightarrow> inside sent (query_filters E m cols rf pg fs)"
  by (induction fs) (auto intro!: inside_intros)

lemma inside_run_query [inside_intros]: "logs E sent \<Longrightarrow> inside sent (run_query E s ret)"
  unfolding run_query_def by (intro inside_intros) simp_all

lemma inside_exec_bound [inside_intros]: "logs E sent \<Longrightarrow> inside sent (exec_bound_statement E m t s)"
  unfolding exec_bound_statement_def by (intro inside_intros) simp_all

lemma inside_rmw [inside_intros]: "logs E sent \<Longrightarrow> inside sent (rmw_exec E m)"
  unfolding rmw_exec_def by (intro inside_intros)

lemma inside_read_modify_write [inside_intros]:
  assumes "logs E sent"
  shows "inside sent (exec_read_modify_write E m)"
proof -
  have "inside sent (\<lambda>xs. (if rw_inputs m \<noteq> [] then slift (Err (Panic ''TODO''))
      else case tx_ops (xs_in_tx xs) ''read_modify_write'' of (begin_op, commit, rollback) \<Rightarrow>
        sbind (exec_driver E (DTransaction begin_op)) (\<lambda>_.
        sbind (or_rollback E rollback (rmw_exec E m)) (\<lambda>rows.
        sbind (exec_driver E (DTransaction commit)) (\<lambda>_. sret (from_rows rows))))) xs)"
    by (rule inside_state) (auto simp: tx_ops_def assms intro!: inside_intros)
  then show ?thesis
    by (auto simp: exec_read_modify_write_def [abs_def] slift_def outcome_of_def split_def if_distribR cong: if_cong)
qed

lemma inside_exec_op [inside_intros]: "logs E sent \<Longrightarrow> inside sent (exec_op E op)"
  by (cases op)
    (auto simp: exec_delete_by_key_def exec_eval_def exec_eval_compute_def exec_eval_map_over_def exec_statement_def
      exec_filter_def exec_find_pk_by_index_def exec_get_by_key_def exec_nested_merge_def exec_repeat_def
      exec_query_pk_def exec_scan_def exec_update_by_key_def exec_upsert_def
      intro!: inside_intros split: option.split)

lemma inside_exec_node [inside_intros]: "logs E sent \<Longrightarrow> inside sent (exec_node E plan n)"
  unfolding exec_node_def by (intro inside_intros)

lemma inside_exec_step [inside_intros]: "logs E sent \<Longrightarrow> inside sent (exec_step E plan t)"
  by (cases t) (auto simp: exec_step_def action_if_def intro!: inside_intros)

subsection \<open>The bracket\<close>

lemma sent_driver: "logs E sent \<Longrightarrow> exec_driver E op s = (r, t) \<Longrightarrow> sent (xs_conn t) = sent (xs_conn s) @ [op]"
  by (auto simp: logs_def exec_driver_def split: prod.splits) (metis snd_conv)

lemma sent_load: "load E n s = (r, t) \<Longrightarrow> xs_conn t = xs_conn s"
  by (auto simp: load_def on_slots_def split: prod.splits)

text \<open>
  Either the beginning failed, or the operations sent are its bracket: ended by the commit,
  by the rollback of an error, or cut off by a panic.
\<close>

definition bracketed :: "transaction \<times> transaction \<times> transaction \<Rightarrow> response outcome \<Rightarrow> driver_op list \<Rightarrow> bool" where
  "bracketed tx r ops \<longleftrightarrow>
     (case tx of (start, commit, rollback) \<Rightarrow>
        (case r of
           Done _ \<Rightarrow> \<exists>body. ops = DTransaction start # body @ [DTransaction commit] \<and> list_all inner_op body
         | Fail e \<Rightarrow>
             ops = [DTransaction start] \<or>
             (\<exists>body. list_all inner_op body \<and>
                (ops = DTransaction start # body @ [DTransaction commit] \<or>
                 (if is_panic e then ops = DTransaction start # body
                  else ops = DTransaction start # body @ [DTransaction rollback])))
         | VarPanic _ \<Rightarrow> \<exists>body. list_all inner_op body \<and>
             (ops = DTransaction start # body \<or> ops = DTransaction start # body @ [DTransaction commit])))"

lemma run_plan_bracketed:
  assumes E: "logs E sent" and needs: "ep_needs_transaction p"
  shows "\<exists>ops. sent (xs_conn (snd (run_plan E p s))) = sent (xs_conn s) @ ops \<and>
    bracketed (tx_ops (xs_in_tx s) ''statement'') (fst (run_plan E p s)) ops"
proof -
  obtain b c rb where tx: "tx_ops (xs_in_tx s) ''statement'' = (b, c, rb)" by (cases "tx_ops (xs_in_tx s) ''statement''")
  let ?steps = "sbind (straverse (exec_step E (ep_plan p)) (ep_steps p)) (\<lambda>_. sret ())"
  let ?finish = "sbind (sbind (exec_driver E (DTransaction c)) (\<lambda>_. sret ())) (\<lambda>_.
    sbind (load E (ep_returning p)) (\<lambda>resp. sret (final_response resp)))"
  have run: "run_plan E p s = sbind (sbind (exec_driver E (DTransaction b)) (\<lambda>_. enter_tx)) (\<lambda>_.
      sbind (or_rollback E rb ?steps) (\<lambda>_. ?finish)) s"
    by (simp add: run_plan_def tx needs)
  have inside: "inside sent ?steps" using E by (intro inside_intros)
  obtain r1 s1 where s1: "exec_driver E (DTransaction b) s = (r1, s1)" by force
  note sent1 = sent_driver [OF E s1]
  show ?thesis
  proof (cases r1)
    case (Done resp1)
    let ?s2 = "s1\<lparr>xs_in_tx := True\<rparr>"
    obtain r3 s3 where s3: "?steps ?s2 = (r3, s3)" by force
    obtain body where body: "sent (xs_conn s3) = sent (xs_conn s1) @ body" "list_all inner_op body"
      using inside [unfolded inside_def, rule_format, of ?s2] s3 by auto
    show ?thesis
    proof (cases r3)
      case (Done u)
      obtain r4 s4 where s4: "exec_driver E (DTransaction c) s3 = (r4, s4)" by force
      note sent4 = sent_driver [OF E s4]
      obtain r5 s5 where s5: "load E (ep_returning p) s4 = (r5, s5)" by force
      note sent5 = sent_load [OF s5]
      show ?thesis
        unfolding run
        using s1 s3 s4 s5 sent1 sent4 sent5 body \<open>r1 = Done resp1\<close> Done
        by (cases r4; cases r5) (auto simp: sbind_def or_rollback_def enter_tx_def sret_def tx bracketed_def)
    next
      case (Fail e)
      obtain r4 s4 where s4: "exec_driver E (DTransaction rb) s3 = (r4, s4)" by force
      note sent4 = sent_driver [OF E s4]
      show ?thesis
        unfolding run
        using s1 s3 s4 sent1 sent4 body \<open>r1 = Done resp1\<close> Fail
        by (auto simp: sbind_def or_rollback_def enter_tx_def sret_def tx bracketed_def)
    next
      case (VarPanic q)
      show ?thesis
        unfolding run
        using s1 s3 sent1 body \<open>r1 = Done resp1\<close> VarPanic
        by (auto simp: sbind_def or_rollback_def enter_tx_def sret_def tx bracketed_def)
    qed
  next
    case (Fail e)
    then show ?thesis
      unfolding run using s1 sent1 by (auto simp: sbind_def tx bracketed_def)
  next
    case (VarPanic q)
    then show ?thesis using s1 by (auto simp: exec_driver_def outcome_of_def split: prod.splits sum.splits)
  qed
qed

end
