(* ===== verification/ExecProps.thy ===== *)
theory ExecProps
  imports PlanArena TxRules
begin

text \<open>
  Properties of planning, of the store of node outputs and of the run of a plan.  The
  witnesses run one small plan: two constants and a map over the rows of the first, whose
  second input is guarded by these rows.
\<close>

definition demo_body :: func where
  "demo_body = \<lparr>fn_args = [TList TI64, TI64], fn_ret = TList TI64, fn_expr = EMap (EArg 0 0) (EArg 1 1)\<rparr>"

definition demo_eval :: mir_op where
  "demo_eval = MEval \<lparr>ev_row_input = Some 0, ev_inputs = [1], ev_body = demo_body\<rparr>"

definition demo_arena :: "val \<Rightarrow> store" where
  "demo_arena rows = map (\<lambda>op. Filled (node_of op)) [MConst rows (TList TI64), MConst (VI64 7) TI64, demo_eval]"

text \<open>A driver that answers every operation with a count of one and records it.\<close>

definition demo_engine :: "driver_op list engine" where
  "demo_engine =
     \<lparr>en_driver = \<lambda>op ops. (Ok (from_rows (RCount 1)), ops @ [op]),
      en_uuid = \<lparr>uuid_to_string = \<lambda>_. [], uuid_parse = \<lambda>_. None, uuid_as_bytes = \<lambda>_. [], uuid_from_bytes = \<lambda>_. None\<rparr>,
      en_models = no_models, en_bind = \<lambda>s _. Ok s, en_bind_upsert = \<lambda>s _. Ok s, en_prepare = \<lambda>s. (s, []),
      en_prepare_upsert = \<lambda>s. (s, []), en_simplify = \<lambda>_ e. Ok e, en_split_returning = \<lambda>_. None,
      en_has_returning = \<lambda>_. False, en_mutating = \<lambda>_. False, en_backward_pagination = False, en_sql = True,
      en_interactive = True\<rparr>"

definition demo_plan :: "val \<Rightarrow> exec_plan result" where
  "demo_plan rows =
     rbind (logical_plan_new (\<lambda>_. False) (demo_arena rows) 2) (plan_execution (\<lambda>_. False) True True)"

text \<open>A store in which the rows of node 0 are none and node 1 was skipped.\<close>

definition demo_view :: view where
  "demo_view = (\<lambda>n. if n = 0 then Some (CRows True False, 1) else if n = 1 then Some (CSkipped, 1) else None)"

definition demo_state :: "driver_op list exec_state" where
  "demo_state =
     \<lparr>xs_conn = [],
      xs_slots = [Some \<lparr>en_value = EvResponse (from_rows (RValue (VList []))), en_count = 1\<rparr>,
        Some \<lparr>en_value = EvSkipped, en_count = 1\<rparr>, None],
      xs_in_tx = False\<rparr>"

text \<open>The value an output stands for, whatever its representation.\<close>

definition rows_value :: "resolve \<Rightarrow> rows \<Rightarrow> (64 word + val) result" where
  "rows_value R r = (case r of RCount c \<Rightarrow> Ok (Inl c) | _ \<Rightarrow> rmap Inr (collect_as_value R r))"

subsection \<open>Facts on the small plan\<close>

lemma planned_demo: "planned (demo_arena rows)"
proof -
  have "planned (([] @ [Filled (node_of (MConst rows (TList TI64)))]) @ [Filled (node_of (MConst (VI64 7) TI64))])"
    by (intro planned_snoc planned_empty) (simp_all add: node_of_def op_inputs_def input_loads_def)
  then have "planned ((([] @ [Filled (node_of (MConst rows (TList TI64)))]) @ [Filled (node_of (MConst (VI64 7) TI64))])
      @ [Filled (node_of demo_eval)])"
    by (rule planned_snoc) (auto simp: node_of_def input_loads_def demo_eval_def set_op_inputs)
  then show ?thesis by (simp add: demo_arena_def)
qed





lemma demo_plan_total:
  "\<exists>plan p. logical_plan_new (\<lambda>_. False) (demo_arena (VList [])) 2 = Ok plan \<and>
     plan_execution (\<lambda>_. False) True True plan = Ok p"
proof -
  have "rmap ep_returning (demo_plan (VList [])) = Ok 2" by code_simp
  then show ?thesis by (auto simp: demo_plan_def rmap_eq_Ok rbind_eq_Ok)
qed

lemma rows_dup_value: "rows_dup R r = (Ok d, r') \<Longrightarrow> rows_value R d = rows_value R r \<and> rows_value R r' = rows_value R r"
  by (auto simp: rows_dup_def rows_value_def collect_as_value_def split: rows.splits prod.splits sum.splits
      dest!: stream_dup_collect)

subsection \<open>Planning\<close>





text \<open>C24. The depth-first visit of the operation graph ends, and lists exactly the nodes the completion node depends on,
  each once, after its dependencies, the completion node last.\<close>

theorem execution_order_topological:
  assumes "well_formed st" "acyclic_deps st" "n < length st"
  shows "\<exists>order. execution_order n st = Ok order \<and> distinct order \<and> deps_first st {} order \<and>
    set order = {m. below st n m} \<and> last order = n"
  using execution_order_Ok [OF assms] by blast

theorem execution_order_topological_witness:
  "\<exists>order. execution_order 2 (demo_arena VNull) = Ok order \<and> distinct order \<and> deps_first (demo_arena VNull) {} order \<and>
     set order = {m. below (demo_arena VNull) 2 m} \<and> last order = 2"
  using execution_order_topological [of "demo_arena VNull" 2] planned_demo [of VNull]
  by (simp add: planned_def demo_arena_def)

text \<open>C25. The program of a plan runs the nodes of the plan in its order: unguarded nodes alone, guarded nodes in blocks
  whose nodes share one guard, with the skipped inputs and outputs of the block.\<close>

theorem program_keeps_order:
  assumes "planned st" "completion < length st" "logical_plan_new mutating st completion = Ok plan"
  shows "\<exists>steps. plan_steps plan = Ok steps \<and> concat (map step_nodes steps) = lp_order plan \<and>
    list_all (step_ok plan) steps"
proof -
  have "valid_plan plan" using logical_plan_valid [OF assms(1,2), of mutating] assms(3) by auto
  from plan_steps_Ok [OF valid_planD(3) [OF this]] show ?thesis by (auto simp: list_all_iff)
qed

theorem program_keeps_order_witness:
  "\<exists>plan steps. logical_plan_new (\<lambda>_. False) (demo_arena (VList [])) 2 = Ok plan \<and> plan_steps plan = Ok steps \<and>
     concat (map step_nodes steps) = lp_order plan \<and> list_all (step_ok plan) steps"
proof -
  obtain plan where plan: "logical_plan_new (\<lambda>_. False) (demo_arena (VList [])) 2 = Ok plan"
    using demo_plan_total by blast
  have "2 < length (demo_arena (VList []))" by (simp add: demo_arena_def)
  from program_keeps_order [OF planned_demo this plan] plan show ?thesis by blast
qed

text \<open>C27. Inserting a node whose inputs and extra dependencies are nodes of the arena keeps the arena plannable: complete,
  acyclic, inputs among the dependencies, nothing counted or guarded.\<close>

theorem insert_keeps_planned:
  assumes "planned st" "\<forall>d \<in> set (op_inputs op) \<union> set deps. d < length st"
  shows "planned (snd (store_insert_with_deps st (node_of op) deps)) \<and>
    fst (store_insert_with_deps st (node_of op) deps) = length st"
  by (rule store_insert_planned [OF assms])

theorem insert_keeps_planned_witness:
  "planned (snd (store_insert_with_deps (demo_arena VNull) (node_of (MRepeat 2 VNull TUnit)) [1])) \<and>
     fst (store_insert_with_deps (demo_arena VNull) (node_of (MRepeat 2 VNull TUnit)) [1]) = length (demo_arena VNull)"
  by (rule insert_keeps_planned [OF planned_demo]) (simp add: set_op_inputs demo_arena_def)

subsection \<open>The store of outputs\<close>

text \<open>C23. An operation whose inputs are stored, and not skipped except under an empty row input, ends without a panic of
  the store, and when it succeeds it has consumed exactly one use of each of its inputs and none of any other node.\<close>

theorem operation_consumes_inputs_once:
  assumes "positive G" "separate op" "ready op G" "holds E N G xs"
  shows "case fst (exec_op E op xs) of
      Done _ \<Rightarrow> holds E N (spend (input_loads op) G) (snd (exec_op E op xs)) | Fail _ \<Rightarrow> True | VarPanic _ \<Rightarrow> False"
  using exec_op_safe [OF assms(1-3)] assms(4) by (auto simp: safe_def)

theorem operation_consumes_inputs_once_witness:
  "case fst (exec_op demo_engine demo_eval demo_state) of
      Done _ \<Rightarrow> holds demo_engine 3 (spend (input_loads demo_eval) demo_view) (snd (exec_op demo_engine demo_eval demo_state))
    | Fail _ \<Rightarrow> True | VarPanic _ \<Rightarrow> False"
proof (rule operation_consumes_inputs_once)
  show "positive demo_view" by (simp add: positive_def demo_view_def)
  show "separate demo_eval" by (simp add: separate_def demo_eval_def)
  show "ready demo_eval demo_view" by (simp add: ready_def ready_read_def live_def demo_eval_def demo_view_def)
  have "slots_view no_models (xs_slots demo_state) = demo_view"
    by (rule ext) (auto simp: slots_view_def demo_view_def demo_state_def from_rows_def rows_class_def rows_empty_def
        less_Suc_eq numeral_3_eq_3)
  then show "holds demo_engine 3 demo_view demo_state"
    by (simp add: holds_def demo_engine_def demo_state_def)
qed

text \<open>C26. A load serves the stored output: the rows it returns collect to the value the stored rows collect to, and so do
  the rows it leaves behind for the remaining uses, with the count decremented and all other slots untouched.\<close>

theorem load_serves_stored_rows:
  assumes "n < length slots" "slots ! n = Some \<lparr>en_value = EvResponse stored, en_count = uses\<rparr>"
    and "vars_load R n slots = (Done resp, slots')"
  shows "rows_value R (re_values resp) = rows_value R (re_values stored) \<and> re_next resp = re_next stored \<and>
    re_prev resp = re_prev stored \<and> slots' = slots[n := slots' ! n] \<and>
    (if uses = 1 then slots' ! n = None
     else \<exists>kept. slots' ! n = Some \<lparr>en_value = EvResponse kept, en_count = uses - 1\<rparr> \<and>
       rows_value R (re_values kept) = rows_value R (re_values stored))"
proof (cases "uses = 1")
  case True
  with assms show ?thesis by (auto simp: vars_load_def at_slot_def sbind_def put_slot_def sret_def)
next
  case False
  obtain dup kept where d: "rows_dup R (re_values stored) = (dup, kept)" by force
  with assms False show ?thesis
    by (cases dup) (auto simp: vars_load_def at_slot_def sbind_def put_slot_def slift_def outcome_of_def with_rows_def
        dest: rows_dup_value)
qed

theorem load_serves_stored_rows_witness:
  "rows_value no_models (re_values (from_rows (RValue VNull))) = rows_value no_models (re_values (from_rows (RValue VNull))) \<and>
    re_next (from_rows (RValue VNull)) = None \<and> re_prev (from_rows (RValue VNull)) = None \<and>
    [None :: slot_entry option] = [Some \<lparr>en_value = EvResponse (from_rows (RValue VNull)), en_count = 1\<rparr>][0 := None]"
  using load_serves_stored_rows [of 0 "[Some \<lparr>en_value = EvResponse (from_rows (RValue VNull)), en_count = 1\<rparr>]"
      "from_rows (RValue VNull)" 1 no_models "from_rows (RValue VNull)" "[None]"]
  by (simp add: vars_load_def at_slot_def sbind_def put_slot_def sret_def from_rows_def)

text \<open>\<open>peek_non_empty\<close> takes a null row input for no rows, the map over it only an empty list: a plan whose row input
  is null skips the guarded input and then panics loading it.\<close>

lemma null_row_input_panics:
  "rmap (\<lambda>p. fst (exec_plan demo_engine p False [])) (demo_plan VNull) = Ok (VarPanic (LoadOfSkipped 1))"
  by code_simp

subsection \<open>Transactions\<close>



end
