(* ===== verification/MergePlan.thy ===== *)
theory MergePlan
  imports NestedMerge
begin

text \<open>
  How a nested merge looks the rows of a child up: the planner's choice between an index and
  a scan (\<open>toasty/src/engine/plan/nested_merge.rs\<close>), and the proof that the index serves what
  the scan would.  The type inference of \<open>Func::from_stmt\<close> is a parameter.
\<close>

definition func_from_stmt :: "(expr \<Rightarrow> ty list \<Rightarrow> ty) \<Rightarrow> expr \<Rightarrow> ty list \<Rightarrow> func result" where
  "func_from_stmt infer e tys =
     (if is_eval e then Ok \<lparr>fn_args = tys, fn_ret = infer e tys, fn_expr = e\<rparr>
      else Err (Panic ''assertion failed: expr.is_eval()''))"

definition as_simple_arg_project :: "expr \<Rightarrow> (nat \<times> projection) option" where
  "as_simple_arg_project e =
     (case e of
        EProject b path \<Rightarrow>
          (case b of EArg i n \<Rightarrow> if n = 0 then Some (i, path) else None | _ \<Rightarrow> None)
      | _ \<Rightarrow> None)"

definition extract_child_parent_eq :: "expr \<Rightarrow> expr \<Rightarrow> nat \<Rightarrow> (projection \<times> expr) option" where
  "extract_child_parent_eq lhs rhs depth =
     (case (as_simple_arg_project lhs, as_simple_arg_project rhs) of
        (Some (l, lp), Some (r, rp)) \<Rightarrow>
          if l = depth \<and> r < depth then Some (lp, rhs)
          else if r = depth \<and> l < depth then Some (rp, lhs)
          else None
      | _ \<Rightarrow> None)"

definition eq_term :: "expr \<Rightarrow> (expr \<times> expr) option" where
  "eq_term e = (case e of EBinaryOp l op r \<Rightarrow> if op = OpEq then Some (l, r) else None | _ \<Rightarrow> None)"

definition eq_terms :: "expr \<Rightarrow> (expr \<times> expr) list option" where
  "eq_terms e =
     (case e of
        EBinaryOp _ _ _ \<Rightarrow> map_option (\<lambda>t. [t]) (eq_term e)
      | EAnd es \<Rightarrow> opt_all eq_term es
      | _ \<Rightarrow> None)"

definition lookup_key_expr :: "expr list \<Rightarrow> expr" where
  "lookup_key_expr es = (case es of [e] \<Rightarrow> e | _ \<Rightarrow> ERecord es)"

definition slice_to :: "'a list \<Rightarrow> nat \<Rightarrow> 'a list result" where
  "slice_to xs n = (if n \<le> length xs then Ok (take n xs) else Err (Panic ''range end index out of range''))"

definition try_eq_lookup ::
  "(expr \<Rightarrow> ty list \<Rightarrow> ty) \<Rightarrow> expr \<Rightarrow> ty list \<Rightarrow> nat \<Rightarrow> (projection list \<times> func) option result" where
  "try_eq_lookup infer e tys depth =
     (case Option.bind (eq_terms e) (opt_all (\<lambda>(l, r). extract_child_parent_eq l r depth)) of
        None \<Rightarrow> Ok None
      | Some pairs \<Rightarrow>
          if pairs = [] then Ok None
          else
            rbind (slice_to tys depth) (\<lambda>key_tys.
            rmap (\<lambda>f. Some (map fst pairs, f)) (func_from_stmt infer (lookup_key_expr (map snd pairs)) key_tys)))"

text \<open>The qualification of a child query: a unique key uses the hash index, others the sorted one.\<close>

definition plan_qualification ::
  "(expr \<Rightarrow> ty list \<Rightarrow> ty) \<Rightarrow> expr \<Rightarrow> ty list \<Rightarrow> nat \<Rightarrow> bool \<Rightarrow> nat \<Rightarrow> merge_index list \<Rightarrow> merge_index list \<Rightarrow>
   (qualification \<times> merge_index list \<times> merge_index list) result" where
  "plan_qualification infer fil tys depth single source hashed sorted_ixs =
     rbind (try_eq_lookup infer fil tys depth) (\<lambda>found.
       case found of
         Some (ps, f) \<Rightarrow>
           (let mi = \<lparr>mi_source = source, mi_projections = ps\<rparr>
            in Ok (if single then (QHashLookup (length hashed) f, hashed @ [mi], sorted_ixs)
                   else (QSortLookup (length sorted_ixs) f, hashed, sorted_ixs @ [mi])))
       | None \<Rightarrow> rmap (\<lambda>f. (QScan f, hashed, sorted_ixs)) (func_from_stmt infer fil tys))"

subsection \<open>The terms of an equality filter\<close>

text \<open>The value of a projected row of the stack, checked against its type.\<close>

definition read_entry :: "resolve \<Rightarrow> ty list \<Rightarrow> val list \<Rightarrow> nat \<Rightarrow> projection \<Rightarrow> val result" where
  "read_entry R tys stack i path =
     rbind (stack_row stack i) (\<lambda>row. rbind (value_entry row path) (\<lambda>v.
     rbind (check_typed R tys i path (EValue v)) (\<lambda>_. Ok v)))"

abbreviation stack_input :: "resolve \<Rightarrow> ty list \<Rightarrow> val list \<Rightarrow> input" where
  "stack_input R tys stack \<equiv> typed_input R tys (row_stack stack)"

lemma eval_read_entry: "eval_ref U (stack_input R tys stack) 1 [] (EProject (EArg i 0) path) = read_entry R tys stack i path"
proof -
  have checked: "check_typed R tys i path e = Ok found \<Longrightarrow> found = Some e" for e found
    by (auto simp: check_typed_def rbind_eq_Ok split: if_splits)
  show ?thesis
    by (cases "stack_row stack i")
      (auto simp: read_entry_def resolve_arg_def typed_input_def row_stack_def project_value_def rmap_def rbind_assoc
        intro!: rbind_cong dest!: checked)
qed

lemma read_child: "read_entry R tys (row # stack) (length stack) path = Ok v \<Longrightarrow> value_entry row path = Ok v"
  by (auto simp: read_entry_def rbind_eq_Ok)

lemma read_parent:
  "i < length stack \<Longrightarrow> length stack \<le> length tys \<Longrightarrow>
   read_entry R tys (row # stack) i path = read_entry R (take (length stack) tys) stack i path"
  by (simp add: read_entry_def check_typed_def slice_at_def)

lemma as_simple_project [simp]: "as_simple_arg_project (EProject (EArg i 0) path) = Some (i, path)"
  by (simp add: as_simple_arg_project_def)

lemma as_simple_Some: "as_simple_arg_project e = Some (i, path) \<longleftrightarrow> e = EProject (EArg i 0) path"
  by (auto simp: as_simple_arg_project_def split: expr.splits if_splits)

lemma extract_Some:
  "extract_child_parent_eq l r depth = Some (p, parent) \<longleftrightarrow>
   (\<exists>i q. i < depth \<and> parent = EProject (EArg i 0) q \<and>
      (l = EProject (EArg depth 0) p \<and> r = parent \<or> l = parent \<and> r = EProject (EArg depth 0) p))"
  by (auto simp: extract_child_parent_eq_def as_simple_Some split: option.splits if_splits)

lemma eval_equality:
  "eval_ref U P k \<rho> (EBinaryOp l OpEq r) =
   rbind (eval_ref U P k \<rho> l) (\<lambda>a. rbind (eval_ref U P k \<rho> r) (\<lambda>b. Ok (VBool (value_eq a b))))"
  by (auto intro!: rbind_cong)

lemma eval_term:
  assumes "extract_child_parent_eq l r (length stack) = Some (p, parent)" "length stack \<le> length tys"
    and "eval_ref U (stack_input R tys (row # stack)) 1 [] (EBinaryOp l OpEq r) = Ok v"
  shows "\<exists>a k. value_entry row p = Ok a \<and>
    eval_ref U (stack_input R (take (length stack) tys) stack) 1 [] parent = Ok k \<and> v = VBool (value_eq a k)"
proof -
  obtain i q where i: "i < length stack" "parent = EProject (EArg i 0) q"
      "l = EProject (EArg (length stack) 0) p \<and> r = parent \<or> l = parent \<and> r = EProject (EArg (length stack) 0) p"
    using assms(1) by (auto simp: extract_Some)
  show ?thesis
    using i assms(2,3) unfolding i(2)
    by (auto simp: eval_equality rbind_eq_Ok eval_read_entry read_parent value_eq_sym dest!: read_child
        simp del: eval_ref.simps One_nat_def)
qed

text \<open>An equality filter holds of a row exactly when the key of the row is the lookup key.\<close>

definition operands :: "expr \<Rightarrow> expr list" where
  "operands e = (case e of EAnd es \<Rightarrow> es | _ \<Rightarrow> [e])"

lemma eq_terms_operands: "eq_terms e = Some ts \<Longrightarrow> opt_all eq_term (operands e) = Some ts"
  by (cases e) (auto simp: eq_terms_def operands_def)

lemma eval_operands:
  "eval_bool U P k e = Ok b \<Longrightarrow> all_ok (\<lambda>e. rbind (eval_ref U P k [] e) expect_bool) (operands e) = Ok b"
proof (cases "\<exists>es. e = EAnd es")
  case False
  then have "operands e = [e]" by (cases e) (auto simp: operands_def)
  then show "eval_bool U P k e = Ok b \<Longrightarrow> ?thesis" by (cases b) (simp_all add: eval_bool_def del: eval_ref.simps)
next
  case True
  then show "eval_bool U P k e = Ok b \<Longrightarrow> ?thesis"
    by (auto simp: eval_bool_def operands_def rbind_eq_Ok rmap_eq_Ok expect_bool_def)
qed

lemma eq_term_Some: "eq_term e = Some (l, r) \<longleftrightarrow> e = EBinaryOp l OpEq r"
  by (auto simp: eq_term_def split: expr.splits if_splits)

lemma all_ok_terms:
  "\<lbrakk>list_all2 (\<lambda>e ak. \<forall>v. p e = Ok v \<longrightarrow> v = value_eq (fst ak) (snd ak)) es aks; all_ok p es = Ok b\<rbrakk> \<Longrightarrow>
   b = list_all (\<lambda>ak. value_eq (fst ak) (snd ak)) aks"
  by (induction rule: list_all2_induct) (auto simp: rbind_eq_Ok split: if_splits)

lemma indexable_no_nan: "indexable a \<Longrightarrow> \<not> has_nan a"
  by (induction a) (auto simp: list_all_iff list_ex_iff)

lemma indexable_value_eq: "indexable a \<Longrightarrow> value_eq a k \<longleftrightarrow> a = k"
  by (auto simp: value_eq_def indexable_no_nan)

lemma filter_is_key_equality:
  assumes terms: "eq_terms e = Some ts" "opt_all (\<lambda>(l, r). extract_child_parent_eq l r (length stack)) ts = Some pairs"
    and tys: "length stack \<le> length tys"
    and scan: "eval_bool U (stack_input R tys (row # stack)) 1 e = Ok b"
    and key: "traverse (eval_ref U (stack_input R (take (length stack) tys) stack) 1 []) (map snd pairs) = Ok ks"
    and row: "extract_key row (map fst pairs) = Ok rk" "list_all indexable rk"
  shows "b \<longleftrightarrow> rk = ks"
proof -
  let ?P = "stack_input R tys (row # stack)"
  let ?p = "\<lambda>e. rbind (eval_ref U ?P 1 [] e) expect_bool"
  have es: "list_all2 (\<lambda>e t. eq_term e = Some t) (operands e) ts"
    using eq_terms_operands [OF terms(1)] by (simp add: opt_all_eq_Some)
  have ps: "list_all2 (\<lambda>t pp. extract_child_parent_eq (fst t) (snd t) (length stack) = Some pp) ts pairs"
    using terms(2) by (simp add: opt_all_eq_Some split_def)
  have ks: "list_all2 (\<lambda>pp k. eval_ref U (stack_input R (take (length stack) tys) stack) 1 [] (snd pp) = Ok k) pairs ks"
    using key by (simp add: traverse_eq_Ok list_all2_map1)
  have rk: "list_all2 (\<lambda>pp a. value_entry row (fst pp) = Ok a) pairs rk"
    using row(1) by (simp add: extract_key_def traverse_eq_Ok list_all2_map1)
  have len: "length (operands e) = length pairs" "length ks = length pairs" "length rk = length pairs"
    using es ps ks rk by (auto dest!: list_all2_lengthD)
  have "list_all2 (\<lambda>e ak. \<forall>v. ?p e = Ok v \<longrightarrow> v = value_eq (fst ak) (snd ak)) (operands e) (zip rk ks)"
    unfolding list_all2_conv_all_nth
  proof (intro conjI allI impI)
    fix i v assume i: "i < length (operands e)" and v: "?p (operands e ! i) = Ok v"
    obtain l r where t: "ts ! i = (l, r)" by (cases "ts ! i")
    have e_i: "operands e ! i = EBinaryOp l OpEq r"
      using es i t by (auto simp: list_all2_conv_all_nth eq_term_Some)
    have x: "extract_child_parent_eq l r (length stack) = Some (fst (pairs ! i), snd (pairs ! i))"
      using ps i t len by (auto simp: list_all2_conv_all_nth)
    from v obtain w where w: "eval_ref U ?P 1 [] (EBinaryOp l OpEq r) = Ok w" "expect_bool w = Ok v"
      unfolding e_i by (auto simp: rbind_eq_Ok simp del: eval_ref.simps One_nat_def)
    from eval_term [OF x tys w(1)] obtain a k where ak: "value_entry row (fst (pairs ! i)) = Ok a"
        "eval_ref U (stack_input R (take (length stack) tys) stack) 1 [] (snd (pairs ! i)) = Ok k" "w = VBool (value_eq a k)"
      by blast
    have "a = rk ! i" "k = ks ! i"
      using ak(1,2) rk ks i len by (auto simp: list_all2_conv_all_nth simp del: One_nat_def)
    with w(2) ak(3) i len show "v = value_eq (fst (zip rk ks ! i)) (snd (zip rk ks ! i))"
      by (simp add: expect_bool_def)
  qed (use len in simp)
  from all_ok_terms [OF this eval_operands [OF scan]] len row(2) show ?thesis
    by (auto simp: list_all_length indexable_value_eq intro: nth_equalityI)
qed

subsection \<open>The lookup\<close>

lemma try_eq_lookup_Some:
  "try_eq_lookup infer e tys depth = Ok (Some (ps, f)) \<longleftrightarrow>
   (\<exists>ts pairs. eq_terms e = Some ts \<and> opt_all (\<lambda>(l, r). extract_child_parent_eq l r depth) ts = Some pairs \<and>
      pairs \<noteq> [] \<and> ps = map fst pairs \<and> depth \<le> length tys \<and> is_eval (lookup_key_expr (map snd pairs)) \<and>
      f = \<lparr>fn_args = take depth tys, fn_ret = infer (lookup_key_expr (map snd pairs)) (take depth tys),
            fn_expr = lookup_key_expr (map snd pairs)\<rparr>)"
  by (auto simp: try_eq_lookup_def Let_def func_from_stmt_def slice_to_def rbind_eq_Ok rmap_eq_Ok
      split: bind_splits option.splits if_splits)

text \<open>A key is one value or a record of values; a single value that is a record is taken apart.\<close>

definition plain_key :: "projection list \<Rightarrow> val \<Rightarrow> bool" where
  "plain_key ps key \<longleftrightarrow> (length ps = 1 \<longrightarrow> \<not> is_record key)"

lemma key_slice:
  assumes "eval_ref U P 1 [] (lookup_key_expr es) = Ok key" "es \<noteq> []" "length es = 1 \<longrightarrow> \<not> is_record key"
  shows "traverse (eval_ref U P 1 []) es = Ok (key_as_slice key)"
proof (cases es)
  case (Cons e es')
  show ?thesis
  proof (cases es')
    case Nil
    with Cons assms show ?thesis
      by (cases key) (auto simp: lookup_key_expr_def key_as_slice_def is_record_def simp del: One_nat_def)
  next
    case (Cons e2 es2)
    with \<open>es = e # es'\<close> assms(1) show ?thesis
      by (auto simp: lookup_key_expr_def key_as_slice_def rmap_eq_Ok simp del: One_nat_def)
  qed
qed (use assms in simp)

lemma lookup_filter:
  assumes plan: "try_eq_lookup infer e tys (length stack) = Ok (Some (ps, f))"
    and key: "func_eval U R f (row_stack stack) = Ok key" "plain_key ps key"
    and scan: "eval_bool U (stack_input R tys (row # stack)) 1 e = Ok b"
    and row: "extract_key row ps = Ok rk" "list_all indexable rk"
  shows "b \<longleftrightarrow> rk = key_as_slice key"
proof -
  obtain ts pairs where t: "eq_terms e = Some ts" "opt_all (\<lambda>(l, r). extract_child_parent_eq l r (length stack)) ts = Some pairs"
      "pairs \<noteq> []" "ps = map fst pairs" "length stack \<le> length tys" "fn_args f = take (length stack) tys"
      "fn_expr f = lookup_key_expr (map snd pairs)"
    using plan by (auto simp: try_eq_lookup_Some)
  have "eval_ref U (stack_input R (take (length stack) tys) stack) 1 [] (lookup_key_expr (map snd pairs)) = Ok key"
    using key(1) t(6,7) by (simp add: func_eval_def)
  from key_slice [OF this] t(3,4) key(2)
  have "traverse (eval_ref U (stack_input R (take (length stack) tys) stack) 1 []) (map snd pairs) = Ok (key_as_slice key)"
    by (simp add: plain_key_def)
  from filter_is_key_equality [OF t(1,2,5) scan this] row t(4) show ?thesis by simp
qed

text \<open>Dropping the rows a test rejects beforehand does not change the loop.\<close>

lemma merge_matches_filter:
  "(\<And>row. row \<in> set rows \<Longrightarrow> keep row = Ok (p row)) \<Longrightarrow>
   merge_matches keep merge cap acc rows = merge_matches (\<lambda>_. Ok True) merge cap acc (filter p rows)"
  by (induction rows arbitrary: acc) (auto intro!: rbind_cong)

text \<open>The index a lookup names is the index of these rows.\<close>

definition index_serves :: "indices \<Rightarrow> qualification \<Rightarrow> func \<Rightarrow> val list \<Rightarrow> projection list \<Rightarrow> bool" where
  "index_serves ix q f rows ps \<longleftrightarrow>
     (case q of
        QSortLookup i g \<Rightarrow> g = f \<and> (\<exists>t. slice_at (ix_sort ix) i = Ok t \<and> sorted_index_new rows ps = Ok t)
      | QHashLookup i g \<Rightarrow> g = f \<and> (\<exists>t. slice_at (ix_hash ix) i = Ok t \<and> hash_index_new rows ps = Ok t)
      | _ \<Rightarrow> False)"

definition keys_indexable :: "val list \<Rightarrow> projection list \<Rightarrow> bool" where
  "keys_indexable rows ps \<longleftrightarrow>
     list_all (\<lambda>row. case extract_key row ps of Inr k \<Rightarrow> list_all indexable k | Inl _ \<Rightarrow> True) rows"

lemma keys_indexableD: "keys_indexable rows ps \<Longrightarrow> row \<in> set rows \<Longrightarrow> extract_key row ps = Ok k \<Longrightarrow> list_all indexable k"
  by (fastforce simp: keys_indexable_def list_all_iff)

lemma sorted_lookup:
  assumes "sorted_index_new rows ps = Ok entries" "keys_indexable rows ps"
  shows "find_range entries (Included key) (Included key) = filter (\<lambda>row. extract_key row ps = Ok key) rows"
  unfolding find_range_point [OF assms(1)]
  by (rule filter_cong) (auto simp: slice_total_cmp_Equal dest: keys_indexableD [OF assms(2)])

lemma hash_lookup:
  assumes "hash_index_new rows ps = Ok table" "keys_indexable rows ps"
  shows "(case hash_find table key of None \<Rightarrow> [] | Some row \<Rightarrow> [row]) = filter (\<lambda>row. extract_key row ps = Ok key) rows"
  unfolding hash_find_point [OF assms(1), symmetric]
  by (rule filter_cong) (auto simp: hash_keys_eq_indexable dest: keys_indexableD [OF assms(2)])

lemma keyed_extracts: "keyed rows ps = Ok pairs \<Longrightarrow> row \<in> set rows \<Longrightarrow> \<exists>k. extract_key row ps = Ok k"
  by (auto simp: keyed_def traverse_eq_Ok rmap_eq_Ok dest!: list_all2_in_left)

lemma index_serves_extracts:
  "index_serves ix q f rows ps \<Longrightarrow> row \<in> set rows \<Longrightarrow> \<exists>k. extract_key row ps = Ok k"
  by (auto simp: index_serves_def sorted_index_new_Ok hash_index_new_Ok split: qualification.splits
      intro: keyed_extracts)

lemma lookup_candidates:
  assumes serves: "index_serves ix q f rows ps" "keys_indexable rows ps"
    and key: "func_eval U R f (row_stack stack) = Ok key"
  shows "candidates U R ix stack q rows =
    Ok (\<lambda>_. Ok True, filter (\<lambda>row. extract_key row ps = Ok (key_as_slice key)) rows)"
  using assms
  by (auto simp: index_serves_def candidates_def sorted_lookup hash_lookup split: qualification.splits)

lemma lookup_is_scan:
  assumes plan: "try_eq_lookup infer e tys (length stack) = Ok (Some (ps, f))"
    and serves: "index_serves ix q f rows ps" "keys_indexable rows ps"
    and key: "func_eval U R f (row_stack stack) = Ok key" "plain_key ps key"
    and scan: "\<And>row. row \<in> set rows \<Longrightarrow> \<exists>b. func_eval_bool U R g (row_stack (row # stack)) = Ok b"
    and g: "fn_args g = tys" "fn_expr g = e"
  shows "rbind (candidates U R ix stack q rows) (\<lambda>(keep, cands). merge_matches keep merge cap [] cands) =
    rbind (candidates U R ix stack (QScan g) rows) (\<lambda>(keep, cands). merge_matches keep merge cap [] cands)"
proof -
  let ?p = "\<lambda>row. extract_key row ps = Ok (key_as_slice key)"
  have "func_eval_bool U R g (row_stack (row # stack)) = Ok (?p row)" if row: "row \<in> set rows" for row
  proof -
    obtain rk where rk: "extract_key row ps = Ok rk" using index_serves_extracts [OF serves(1) row] by blast
    obtain b where b: "func_eval_bool U R g (row_stack (row # stack)) = Ok b" using scan [OF row] by blast
    then have "eval_bool U (stack_input R tys (row # stack)) 1 e = Ok b" by (simp add: func_eval_bool_def g)
    from lookup_filter [OF plan key this rk keys_indexableD [OF serves(2) row rk]] b rk show ?thesis by simp
  qed
  then have "merge_matches (\<lambda>row. func_eval_bool U R g (row_stack (row # stack))) merge cap [] rows =
      merge_matches (\<lambda>_. Ok True) merge cap [] (filter ?p rows)"
    by (rule merge_matches_filter)
  then show ?thesis
    by (simp add: lookup_candidates [OF serves key(1)]) (simp add: candidates_def)
qed

end
