(* ===== verification/IndexProps.thy ===== *)
theory IndexProps
  imports MergePlan FoldProps
begin

text \<open>
  Properties of the in-memory indexes, of the lookups a nested merge plans on them, and of
  buffered streams.  The examples look the todos of a user up by the user's id.
\<close>

definition demo_todos :: "val list" where
  "demo_todos = [VRecord [VI64 2, VString ''b''], VRecord [VI64 1, VString ''a''], VRecord [VI64 2, VString ''c'']]"

definition demo_user :: val where
  "demo_user = VRecord [VI64 2]"

text \<open>\<open>todo.user_id = user.id\<close>, the todo at position 1 of the stack and the user at position 0.\<close>

definition demo_filter :: expr where
  "demo_filter = EBinaryOp (EProject (EArg 1 0) [0]) OpEq (EProject (EArg 0 0) [0])"

definition demo_types :: "ty list" where
  "demo_types = [TRecord [TI64], TRecord [TI64, TString]]"

definition demo_key :: func where
  "demo_key = \<lparr>fn_args = [TRecord [TI64]], fn_ret = TI64, fn_expr = EProject (EArg 0 0) [0]\<rparr>"

definition demo_scan :: func where
  "demo_scan = \<lparr>fn_args = demo_types, fn_ret = TBool, fn_expr = demo_filter\<rparr>"

definition demo_indices :: indices where
  "demo_indices = \<lparr>ix_hash = [], ix_sort = [case sorted_index_new demo_todos [[0]] of Inr t \<Rightarrow> t | Inl _ \<Rightarrow> []]\<rparr>"


text \<open>A stream with one buffered row and one row still to come.\<close>

definition demo_stream :: value_stream where
  "demo_stream = \<lparr>vs_buffer = BOne (VI64 1), vs_stream = Some [Ok (VI64 2)], vs_ty = None\<rparr>"

subsection \<open>Indexes\<close>

text \<open>C28. A point lookup in the sorted index, two binary searches over the sorted keys, returns exactly the rows with
  that key, in the order they were given, for keys without floats, objects and sparse records.\<close>

theorem sorted_lookup_finds_key:
  assumes "sorted_index_new rows ps = Ok entries" "keys_indexable rows ps"
  shows "find_range entries (Included key) (Included key) = filter (\<lambda>row. extract_key row ps = Ok key) rows"
  by (rule sorted_lookup [OF assms])

lemma demo_todos_indexable: "keys_indexable demo_todos [[0]]"
  by (simp add: keys_indexable_def demo_todos_def extract_key_def)

theorem sorted_lookup_finds_key_witness:
  "\<exists>entries. sorted_index_new demo_todos [[0]] = Ok entries \<and>
     find_range entries (Included [VI64 2]) (Included [VI64 2]) = filter (\<lambda>row. extract_key row [[0]] = Ok [VI64 2]) demo_todos \<and>
     find_range entries (Included [VI64 2]) (Included [VI64 2]) = [VRecord [VI64 2, VString ''b''], VRecord [VI64 2, VString ''c'']]"
proof -
  obtain entries where e: "sorted_index_new demo_todos [[0]] = Ok entries"
    by (auto simp: sorted_index_new_def demo_todos_def extract_key_def)
  from sorted_lookup_finds_key [OF this demo_todos_indexable, of "[VI64 2]"] e show ?thesis
    by (simp add: demo_todos_def extract_key_def)
qed

text \<open>The hash index is built exactly when every row has a key and no two keys are equal, and then a lookup returns
  the one row with that key.\<close>

lemma hash_lookup_finds_key:
  assumes "hash_index_new rows ps = Ok table" "keys_indexable rows ps"
  shows "filter (\<lambda>row. extract_key row ps = Ok key) rows = (case hash_find table key of None \<Rightarrow> [] | Some row \<Rightarrow> [row])"
  using hash_lookup [OF assms] by simp

lemma hash_lookup_finds_key_witness:
  "\<exists>table. hash_index_new demo_todos [[1]] = Ok table \<and>
     filter (\<lambda>row. extract_key row [[1]] = Ok [VString ''a'']) demo_todos =
       (case hash_find table [VString ''a''] of None \<Rightarrow> [] | Some row \<Rightarrow> [row])"
proof -
  obtain table where t: "hash_index_new demo_todos [[1]] = Ok table"
    by (auto simp: hash_index_new_def demo_todos_def extract_key_def hash_find_def hash_keys_eq_def)
  have "keys_indexable demo_todos [[1]]" by (simp add: keys_indexable_def demo_todos_def extract_key_def)
  from hash_lookup_finds_key [OF t this] t show ?thesis by blast
qed

text \<open>C5. The lookup planned for a nested query, by the hash index or by the sorted one, yields the same child values as
  scanning all rows with the original filter, limit included, when the keys can be indexed, the key of a single column
  is not a record and the scan evaluates.\<close>

theorem merge_lookup_is_scan:
  assumes "try_eq_lookup infer e tys (length stack) = Ok (Some (ps, f))"
    and "index_serves ix q f rows ps" "keys_indexable rows ps"
    and "func_eval U R f (row_stack stack) = Ok key" "plain_key ps key"
    and "list_all (\<lambda>row. \<exists>b. func_eval_bool U R g (row_stack (row # stack)) = Ok b) rows"
    and "fn_args g = tys" "fn_expr g = e"
  shows "rbind (candidates U R ix stack q rows) (\<lambda>(keep, cands). merge_matches keep merge cap [] cands) =
    rbind (candidates U R ix stack (QScan g) rows) (\<lambda>(keep, cands). merge_matches keep merge cap [] cands)"
  using assms(6) by (intro lookup_is_scan [OF assms(1-5) _ assms(7,8)]) (simp add: list_all_iff)

lemma demo_lookup: "try_eq_lookup (\<lambda>_ _. TI64) demo_filter demo_types 1 = Ok (Some ([[0]], demo_key))"
  by code_simp

lemma demo_serves: "index_serves demo_indices (QSortLookup 0 demo_key) demo_key demo_todos [[0]]"
proof -
  obtain entries where "sorted_index_new demo_todos [[0]] = Ok entries"
    by (auto simp: sorted_index_new_def demo_todos_def extract_key_def)
  then show ?thesis by (simp add: index_serves_def demo_indices_def slice_at_def)
qed

theorem merge_lookup_is_scan_witness:
  "rbind (candidates demo_uuid no_models demo_indices [demo_user] (QSortLookup 0 demo_key) demo_todos)
      (\<lambda>(keep, cands). merge_matches keep Ok (Some 1) [] cands) =
    rbind (candidates demo_uuid no_models demo_indices [demo_user] (QScan demo_scan) demo_todos)
      (\<lambda>(keep, cands). merge_matches keep Ok (Some 1) [] cands)"
proof (rule merge_lookup_is_scan)
  show "try_eq_lookup (\<lambda>_ _. TI64) demo_filter demo_types (length [demo_user]) = Ok (Some ([[0]], demo_key))"
    using demo_lookup by simp
  show "func_eval demo_uuid no_models demo_key (row_stack [demo_user]) = Ok (VI64 2)" by code_simp
  have "map (\<lambda>row. func_eval_bool demo_uuid no_models demo_scan (row_stack [row, demo_user])) demo_todos =
      [Ok True, Ok False, Ok True]"
    by code_simp
  then show "list_all (\<lambda>row. \<exists>b. func_eval_bool demo_uuid no_models demo_scan (row_stack (row # [demo_user])) = Ok b) demo_todos"
    by (auto simp: demo_todos_def)
qed (simp_all add: demo_serves demo_todos_indexable plain_key_def is_record_def demo_scan_def)


subsection \<open>Streams\<close>

text \<open>Duplicating a stream buffers it first; the copy and the original both deliver what the stream delivered.\<close>

lemma dup_delivers_the_same:
  assumes "stream_dup R vs = (Ok d, vs')"
  shows "stream_collect R d = stream_collect R vs \<and> stream_collect R vs' = stream_collect R vs"
  by (rule stream_dup_collect [OF assms])

lemma dup_delivers_the_same_witness:
  "\<exists>d vs'. stream_dup no_models demo_stream = (Ok d, vs') \<and> stream_collect no_models d = stream_collect no_models demo_stream \<and>
     stream_collect no_models vs' = stream_collect no_models demo_stream"
proof -
  obtain d vs' where "stream_dup no_models demo_stream = (Ok d, vs')"
    by (auto simp: stream_dup_def stream_buffer_def demo_stream_def typed_item_def)
  with dup_delivers_the_same [OF this] show ?thesis by blast
qed

text \<open>A stream that was buffered holds every row and its source is exhausted, but it is not \<open>is_buffered\<close>, and cloning
  it still fails.\<close>

lemma buffered_stream_is_not_buffered:
  "(case stream_buffer no_models demo_stream of
      (r, vs) \<Rightarrow> (r, buffered_to_vec vs, vs_stream vs, is_buffered vs, stream_try_clone vs)) =
     (Ok (), [VI64 1, VI64 2], Some [], False, None)"
  by (simp add: stream_buffer_def demo_stream_def typed_item_def buffered_to_vec_def is_buffered_def stream_try_clone_def)

end
