(* ===== verification/SchemaDiff.thy ===== *)
theory SchemaDiff
  imports DbSchema "HOL-Library.Multiset"
begin

text \<open>
  The difference of two schemas (\<open>toasty-core/src/schema/diff.rs\<close>, \<open>diff/*.rs\<close>): tables, columns
  and indices are matched by rename hint or by name; what is left over was dropped or added.

  The three levels run the same loop, which is stated once over a record of their differences.
  The source collects the ids still to be added in a hash set and adds them in its iteration
  order, about which the standard library promises nothing: the order is a parameter, of which
  only \<open>any_order\<close> is assumed.
\<close>

subsection \<open>The loop of the three levels\<close>

record rename_hints =
  rh_tables :: "table_id \<Rightarrow> table_id option"
  rh_columns :: "column_id \<Rightarrow> column_id option"
  rh_indices :: "index_id \<Rightarrow> index_id option"

record ('i, 'a, 'c) differ =
  df_id :: "'a \<Rightarrow> 'i"
  df_name :: "'a \<Rightarrow> string"
  df_hint :: "'i \<Rightarrow> 'i option"
  df_lookup :: "'i \<Rightarrow> 'a result"
  df_dropped :: "'a \<Rightarrow> 'c"
  df_changed :: "'a \<Rightarrow> 'a \<Rightarrow> 'c list result"
  df_added :: "'a \<Rightarrow> 'c"
  df_order :: "'i list \<Rightarrow> 'i list"

definition any_order :: "('i list \<Rightarrow> 'i list) \<Rightarrow> bool" where
  "any_order ord \<longleftrightarrow> (\<forall>is. mset (ord is) = mset is)"

text \<open>A map built from a vector keeps the last item of a name.\<close>

definition by_name :: "('i, 'a, 'c) differ \<Rightarrow> 'a list \<Rightarrow> string \<Rightarrow> 'a option" where
  "by_name D next name = find (\<lambda>n. df_name D n = name) (rev next)"

definition counterpart :: "('i, 'a, 'c) differ \<Rightarrow> 'a list \<Rightarrow> 'a \<Rightarrow> 'a option result" where
  "counterpart D next p =
     (case df_hint D (df_id D p) of
        Some i \<Rightarrow> rmap Some (df_lookup D i)
      | None \<Rightarrow> Ok (by_name D next (df_name D p)))"

fun match_items :: "('i, 'a, 'c) differ \<Rightarrow> 'a list \<Rightarrow> 'a list \<Rightarrow> 'i list \<Rightarrow> ('c list \<times> 'i list) result" where
  "match_items D next [] ids = Ok ([], ids)"
| "match_items D next (p # ps) ids =
     rbind (counterpart D next p) (\<lambda>m.
       case m of
         None \<Rightarrow> rmap (apfst (Cons (df_dropped D p))) (match_items D next ps ids)
       | Some n \<Rightarrow>
           rbind (df_changed D p n) (\<lambda>cs.
             rmap (apfst ((@) cs)) (match_items D next ps (filter (\<lambda>i. i \<noteq> df_id D n) ids))))"

definition diff_items :: "('i, 'a, 'c) differ \<Rightarrow> 'a list \<Rightarrow> 'a list \<Rightarrow> 'c list result" where
  "diff_items D prev next =
     rbind (match_items D next prev (remdups (map (df_id D) next))) (\<lambda>(changes, add_ids).
       rmap (\<lambda>as. changes @ map (df_added D) as) (traverse (df_lookup D) (df_order D add_ids)))"

subsection \<open>Columns\<close>

record diff_context =
  cx_previous :: db_schema
  cx_next :: db_schema
  cx_hints :: rename_hints
  cx_table_order :: "table_id list \<Rightarrow> table_id list"
  cx_column_order :: "column_id list \<Rightarrow> column_id list"
  cx_index_order :: "index_id list \<Rightarrow> index_id list"

datatype column_change = ColumnAdd column | ColumnDrop column | ColumnAlter column column

definition column_has_diff :: "column \<Rightarrow> column \<Rightarrow> bool" where
  "column_has_diff p n \<longleftrightarrow>
     co_name p \<noteq> co_name n \<or> co_storage_ty p \<noteq> co_storage_ty n \<or> co_nullable p \<noteq> co_nullable n \<or>
     co_primary_key p \<noteq> co_primary_key n \<or> co_auto_increment p \<noteq> co_auto_increment n \<or>
     co_versionable p \<noteq> co_versionable n"

definition column_differ :: "diff_context \<Rightarrow> (column_id, column, column_change) differ" where
  "column_differ cx =
     \<lparr>df_id = co_id, df_name = co_name, df_hint = rh_columns (cx_hints cx),
      df_lookup = schema_column (cx_next cx), df_dropped = ColumnDrop,
      df_changed = (\<lambda>p n. Ok (if column_has_diff p n then [ColumnAlter p n] else [])),
      df_added = ColumnAdd, df_order = cx_column_order cx\<rparr>"

definition column_diff :: "diff_context \<Rightarrow> column list \<Rightarrow> column list \<Rightarrow> column_change list result" where
  "column_diff cx = diff_items (column_differ cx)"

subsection \<open>Indices\<close>

datatype index_change = IndexCreate db_index | IndexDrop db_index | IndexAlter db_index db_index

definition index_columns_match :: "diff_context \<Rightarrow> index_column \<Rightarrow> index_column \<Rightarrow> bool result" where
  "index_columns_match cx p n =
     (case rh_columns (cx_hints cx) (ic_column p) of
        Some renamed_to \<Rightarrow> Ok (renamed_to = ic_column n)
      | None \<Rightarrow>
          rbind (schema_column (cx_previous cx) (ic_column p)) (\<lambda>pc.
          rmap (\<lambda>nc. co_name pc = co_name nc) (schema_column (cx_next cx) (ic_column n))))"

definition index_column_differs :: "diff_context \<Rightarrow> index_column \<Rightarrow> index_column \<Rightarrow> bool result" where
  "index_column_differs cx p n =
     (if ic_op p \<noteq> ic_op n \<or> ic_scope p \<noteq> ic_scope n then Ok True
      else rmap Not (index_columns_match cx p n))"

definition index_has_diff :: "diff_context \<Rightarrow> db_index \<Rightarrow> db_index \<Rightarrow> bool result" where
  "index_has_diff cx p n =
     (if ix_name p \<noteq> ix_name n \<or> length (ix_columns p) \<noteq> length (ix_columns n) \<or>
         ix_unique p \<noteq> ix_unique n \<or> ix_primary_key p \<noteq> ix_primary_key n
      then Ok True
      else any_ok (case_prod (index_column_differs cx)) (zip (ix_columns p) (ix_columns n)))"

definition index_differ :: "diff_context \<Rightarrow> (index_id, db_index, index_change) differ" where
  "index_differ cx =
     \<lparr>df_id = ix_id, df_name = ix_name, df_hint = rh_indices (cx_hints cx),
      df_lookup = schema_index (cx_next cx), df_dropped = IndexDrop,
      df_changed = (\<lambda>p n. rmap (\<lambda>d. if d then [IndexAlter p n] else []) (index_has_diff cx p n)),
      df_added = IndexCreate, df_order = cx_index_order cx\<rparr>"

definition index_diff :: "diff_context \<Rightarrow> db_index list \<Rightarrow> db_index list \<Rightarrow> index_change list result" where
  "index_diff cx = diff_items (index_differ cx)"

subsection \<open>Tables\<close>

datatype table_change =
    TableCreate db_table
  | TableDrop db_table
  | TableAlter db_table db_table "column_change list" "index_change list"

definition table_changed :: "diff_context \<Rightarrow> db_table \<Rightarrow> db_table \<Rightarrow> table_change list result" where
  "table_changed cx p n =
     rbind (column_diff cx (tb_columns p) (tb_columns n)) (\<lambda>columns.
     rmap (\<lambda>indices.
         if tb_name p \<noteq> tb_name n \<or> columns \<noteq> [] \<or> indices \<noteq> [] then [TableAlter p n columns indices]
         else [])
       (index_diff cx (tb_indices p) (tb_indices n)))"

definition table_differ :: "diff_context \<Rightarrow> (table_id, db_table, table_change) differ" where
  "table_differ cx =
     \<lparr>df_id = tb_id, df_name = tb_name, df_hint = rh_tables (cx_hints cx),
      df_lookup = schema_table (cx_next cx), df_dropped = TableDrop,
      df_changed = table_changed cx, df_added = TableCreate, df_order = cx_table_order cx\<rparr>"

definition table_diff :: "diff_context \<Rightarrow> db_table list \<Rightarrow> db_table list \<Rightarrow> table_change list result" where
  "table_diff cx = diff_items (table_differ cx)"

definition schema_diff :: "diff_context \<Rightarrow> table_change list result" where
  "schema_diff cx = table_diff cx (cx_previous cx) (cx_next cx)"

end
