(* ===== verification/Migration.thy ===== *)
theory Migration
  imports SchemaDiff
begin

text \<open>
  From a schema difference to DDL statements (\<open>toasty-sql/src/migration.rs\<close>, \<open>toasty-sql/src/stmt/*.rs\<close>,
  \<open>toasty-core/src/schema/diff/ty.rs\<close>).  Every statement carries the schema its ids are
  resolved against when it is serialized.
\<close>

subsection \<open>Enum types\<close>

datatype type_change =
    TypeCreate type_enum
  | TypeRename type_enum type_enum
  | TypeAddVariants type_enum "string list"

type_synonym enum_use = "string \<times> string \<times> bool" \<comment> \<open>table, column, is a list\<close>

definition is_db_list :: "db_ty \<Rightarrow> bool" where
  "is_db_list t = (case t of DbList _ \<Rightarrow> True | _ \<Rightarrow> False)"

text \<open>The uses of named enums in the order of the scan; the first use of a name gives its type.\<close>

definition enum_uses :: "db_schema \<Rightarrow> (string \<times> type_enum \<times> enum_use) list" where
  "enum_uses S =
     concat (map (\<lambda>tb. concat (map (\<lambda>c.
       (case named_enum (co_storage_ty c) of
          None \<Rightarrow> []
        | Some te \<Rightarrow>
            (case te_name te of
               None \<Rightarrow> []
             | Some name \<Rightarrow> [(name, te, (tb_name tb, co_name c, is_db_list (co_storage_ty c)))])))
       (tb_columns tb))) S)"

definition named_enums :: "db_schema \<Rightarrow> string \<Rightarrow> (type_enum \<times> enum_use set) option" where
  "named_enums S name =
     (case filter (\<lambda>u. fst u = name) (enum_uses S) of
        [] \<Rightarrow> None
      | u # us \<Rightarrow> Some (fst (snd u), snd ` snd ` set (u # us)))"

definition variants_are_prefix :: "type_enum \<Rightarrow> type_enum \<Rightarrow> bool" where
  "variants_are_prefix p n \<longleftrightarrow>
     length (te_variants p) \<le> length (te_variants n) \<and>
     list_all (\<lambda>(a, b). a = b) (zip (te_variants p) (te_variants n))"

definition add_variants :: "type_enum \<Rightarrow> type_enum \<Rightarrow> type_change list result" where
  "add_variants p n =
     (if \<not> length (te_variants p) \<le> length (te_variants n) then
        Err (Panic ''removing variants is not supported'')
      else if \<not> list_all (\<lambda>(a, b). a = b) (zip (te_variants p) (te_variants n)) then
        Err (Panic ''reordering or renaming variants is not supported'')
      else Ok (if length (te_variants n) > length (te_variants p)
               then [TypeAddVariants n (drop (length (te_variants p)) (te_variants n))] else []))"

definition enum_names :: "db_schema \<Rightarrow> string list" where
  "enum_names S = remdups (map fst (enum_uses S))"

text \<open>The two hash maps are iterated in orders of their own.\<close>

fun type_changes ::
  "db_schema \<Rightarrow> db_schema \<Rightarrow> string list \<Rightarrow> string list \<Rightarrow> string list \<Rightarrow> type_change list result" where
  "type_changes prev next prev_names renamed [] = Ok []"
| "type_changes prev next prev_names renamed (name # names) =
     (case named_enums next name of
        None \<Rightarrow> type_changes prev next prev_names renamed names
      | Some (nty, ncols) \<Rightarrow>
          (case named_enums prev name of
             Some (pty, _) \<Rightarrow>
               rbind (add_variants pty nty) (\<lambda>cs.
                 rmap ((@) cs) (type_changes prev next prev_names renamed names))
           | None \<Rightarrow>
               (case find (\<lambda>pn. named_enums next pn = None \<and> pn \<notin> set renamed \<and>
                       (case named_enums prev pn of
                          Some (pty, pcols) \<Rightarrow> pcols = ncols \<and> variants_are_prefix pty nty
                        | None \<Rightarrow> False)) prev_names of
                  Some pn \<Rightarrow>
                    rbind (add_variants (fst (the (named_enums prev pn))) nty) (\<lambda>cs.
                      rmap (\<lambda>rest. TypeRename (fst (the (named_enums prev pn))) nty # cs @ rest)
                        (type_changes prev next prev_names (pn # renamed) names))
                | None \<Rightarrow>
                    rmap (Cons (TypeCreate nty)) (type_changes prev next prev_names renamed names))))"

definition type_diff ::
  "(string list \<Rightarrow> string list) \<Rightarrow> db_schema \<Rightarrow> db_schema \<Rightarrow> type_change list result" where
  "type_diff ord prev next = type_changes prev next (ord (enum_names prev)) [] (ord (enum_names next))"

subsection \<open>Statements\<close>

record check_constraint =
  ck_name :: "string option"
  ck_expr :: expr

record column_def =
  cd_name :: string
  cd_ty :: db_ty
  cd_not_null :: bool
  cd_auto_increment :: bool
  cd_check :: "check_constraint option"

record column_changes =
  cc_name :: "string option"
  cc_ty :: "db_ty option"
  cc_not_null :: "bool option"
  cc_auto_increment :: "bool option"

datatype ddl =
    CreateType type_enum
  | RenameType string string
  | AddTypeValue string string
  | CreateTable table_id "column_def list" "expr option"
  | CreateIndex index_id table_id "(expr \<times> direction option) list" bool
  | DropTable string
  | DropIndex string
  | RenameTable string string
  | AddColumn table_id column_def
  | DropColumn table_id string
  | AlterColumn column_id column_def column_changes
  | CopyTable string string "(string \<times> string) list" \<comment> \<open>source, target, (target, source) columns\<close>
  | Pragma string "string option"

text \<open>Without native enums an enum column is text with a check on its variants.\<close>

definition column_def_of :: "capability \<Rightarrow> column \<Rightarrow> column_def" where
  "column_def_of C c =
     (case (co_storage_ty c, cb_native_enum C) of
        (DbEnum te, False) \<Rightarrow>
          \<lparr>cd_name = co_name c, cd_ty = DbText, cd_not_null = \<not> co_nullable c,
           cd_auto_increment = co_auto_increment c,
           cd_check = Some \<lparr>ck_name = None,
             ck_expr = EInList (EIdent (co_name c)) (EList (map (\<lambda>v. EValue (VString v)) (te_variants te)))\<rparr>\<rparr>
      | _ \<Rightarrow>
          \<lparr>cd_name = co_name c, cd_ty = co_storage_ty c, cd_not_null = \<not> co_nullable c,
           cd_auto_increment = co_auto_increment c, cd_check = None\<rparr>)"

definition column_ref :: "column_id \<Rightarrow> expr" where
  "column_ref c = EReference (RColumn 0 0 (snd c))"

definition create_table :: "capability \<Rightarrow> db_table \<Rightarrow> ddl" where
  "create_table C tb =
     CreateTable (tb_id tb) (map (column_def_of C) (tb_columns tb))
       (Some (ERecord (map column_ref (pk_columns (tb_primary_key tb)))))"

definition create_index :: "db_index \<Rightarrow> ddl" where
  "create_index ix =
     CreateIndex (ix_id ix) (ix_on ix)
       (map (\<lambda>c. (column_ref (ic_column c), case ic_op c of IxEq \<Rightarrow> None | IxSort dir \<Rightarrow> Some dir))
         (ix_columns ix))
       (ix_unique ix)"

definition changes_from_diff :: "column \<Rightarrow> column \<Rightarrow> column_changes" where
  "changes_from_diff p n =
     \<lparr>cc_name = (if co_name p \<noteq> co_name n then Some (co_name n) else None),
      cc_ty = (if co_storage_ty p \<noteq> co_storage_ty n then Some (co_storage_ty n) else None),
      cc_not_null = (if co_nullable p \<noteq> co_nullable n then Some (\<not> co_nullable n) else None),
      cc_auto_increment =
        (if co_auto_increment p \<noteq> co_auto_increment n then Some (co_auto_increment n) else None)\<rparr>"

definition no_changes :: column_changes where
  "no_changes = \<lparr>cc_name = None, cc_ty = None, cc_not_null = None, cc_auto_increment = None\<rparr>"

text \<open>The rename is last, so that the others still find the column under its old name.\<close>

definition split_changes :: "column_changes \<Rightarrow> column_changes list" where
  "split_changes ch =
     (if cc_ty ch \<noteq> None then [no_changes\<lparr>cc_ty := cc_ty ch\<rparr>] else []) @
     (if cc_not_null ch \<noteq> None then [no_changes\<lparr>cc_not_null := cc_not_null ch\<rparr>] else []) @
     (if cc_auto_increment ch \<noteq> None then [no_changes\<lparr>cc_auto_increment := cc_auto_increment ch\<rparr>] else []) @
     (if cc_name ch \<noteq> None then [no_changes\<lparr>cc_name := cc_name ch\<rparr>] else [])"

definition has_type_change :: "column_changes \<Rightarrow> bool" where
  "has_type_change ch \<longleftrightarrow> cc_ty ch \<noteq> None \<or> cc_not_null ch \<noteq> None \<or> cc_auto_increment ch \<noteq> None"

definition alter_column :: "capability \<Rightarrow> column \<Rightarrow> column_changes \<Rightarrow> ddl" where
  "alter_column C c ch = AlterColumn (co_id c) (column_def_of C c) ch"

subsection \<open>Statements of a difference\<close>

type_synonym migration_step = "ddl \<times> db_schema"

definition is_named_enum_type_only_change ::
  "column \<Rightarrow> column \<Rightarrow> (string \<times> string) list \<Rightarrow> bool" where
  "is_named_enum_type_only_change p n renamed \<longleftrightarrow>
     co_name p = co_name n \<and> co_nullable p = co_nullable n \<and>
     co_primary_key p = co_primary_key n \<and> co_auto_increment p = co_auto_increment n \<and>
     (case (co_storage_ty p, co_storage_ty n) of
        (DbEnum _, DbEnum _) \<Rightarrow> True
      | (DbList _, DbList _) \<Rightarrow> True
      | _ \<Rightarrow> False) \<and>
     (case (named_enum (co_storage_ty p), named_enum (co_storage_ty n)) of
        (Some a, Some b) \<Rightarrow>
          (case (te_name a, te_name b) of
             (Some x, Some y) \<Rightarrow> x = y \<or> (x, y) \<in> set renamed
           | _ \<Rightarrow> False)
      | _ \<Rightarrow> False)"

definition named_type :: "type_enum \<Rightarrow> string result" where
  "named_type te = ok_or (te_name te) (Panic ''named enum type'')"

definition renamed_types :: "type_change list \<Rightarrow> (string \<times> string) list result" where
  "renamed_types tys =
     rmap concat (traverse (\<lambda>ch.
       case ch of
         TypeRename p n \<Rightarrow> rbind (named_type p) (\<lambda>a. rmap (\<lambda>b. [(a, b)]) (named_type n))
       | _ \<Rightarrow> Ok []) tys)"

definition type_statements :: "diff_context \<Rightarrow> type_change \<Rightarrow> migration_step list result" where
  "type_statements cx ch =
     (case ch of
        TypeCreate te \<Rightarrow> Ok [(CreateType te, cx_next cx)]
      | TypeRename p n \<Rightarrow>
          rbind (named_type p) (\<lambda>a. rmap (\<lambda>b. [(RenameType a b, cx_previous cx)]) (named_type n))
      | TypeAddVariants te added \<Rightarrow>
          rmap (\<lambda>a. map (\<lambda>v. (AddTypeValue a v, cx_next cx)) added) (named_type te))"

definition column_statements ::
  "capability \<Rightarrow> (string \<times> string) list \<Rightarrow> db_schema \<Rightarrow> table_id \<Rightarrow> column_change \<Rightarrow> migration_step list" where
  "column_statements C renamed S table ch =
     (case ch of
        ColumnAdd c \<Rightarrow> [(AddColumn table (column_def_of C c), S)]
      | ColumnDrop c \<Rightarrow> [(DropColumn (fst (co_id c)) (co_name c), S)]
      | ColumnAlter p n \<Rightarrow>
          (if cb_named_enum_types C \<and> is_named_enum_type_only_change p n renamed then []
           else map (\<lambda>x. (alter_column C p x, S))
             (if cb_alter_column_properties_atomic C then [changes_from_diff p n]
              else split_changes (changes_from_diff p n))))"

definition column_source :: "column_change list \<Rightarrow> column \<Rightarrow> string" where
  "column_source columns col =
     (case find (\<lambda>ch. case ch of ColumnAlter p n \<Rightarrow> co_id n = co_id col \<and> co_name p \<noteq> co_name n | _ \<Rightarrow> False)
             columns of
        Some (ColumnAlter p n) \<Rightarrow> co_name p
      | _ \<Rightarrow> co_name col)"

definition is_added :: "column_change list \<Rightarrow> column \<Rightarrow> bool" where
  "is_added columns col =
     list_ex (\<lambda>ch. case ch of ColumnAdd c \<Rightarrow> co_id c = co_id col | _ \<Rightarrow> False) columns"

definition table_recreation ::
  "capability \<Rightarrow> db_schema \<Rightarrow> db_table \<Rightarrow> db_table \<Rightarrow> column_change list \<Rightarrow> migration_step list result" where
  "table_recreation C S p n columns =
     rbind (schema_table S (tb_id p)) (\<lambda>cur.
       (let current = tb_name cur; temp = ''_toasty_new_'' @ current in
        rmap (\<lambda>temp_schema.
          [(Pragma ''foreign_keys'' (Some ''OFF''), S),
           (create_table C n, temp_schema),
           (CopyTable current temp
              (map (\<lambda>col. (co_name col, column_source columns col))
                (filter (\<lambda>col. \<not> is_added columns col) (tb_columns n))), S),
           (DropTable current, S),
           (RenameTable temp current, S),
           (Pragma ''foreign_keys'' (Some ''ON''), S)])
        (schema_update S (tb_id n)
          (\<lambda>t. t\<lparr>tb_name := temp, tb_columns := tb_columns n, tb_primary_key := tb_primary_key n\<rparr>))))"

definition needs_recreation ::
  "capability \<Rightarrow> (string \<times> string) list \<Rightarrow> column_change list \<Rightarrow> bool" where
  "needs_recreation C renamed columns \<longleftrightarrow>
     \<not> cb_alter_column_type C \<and>
     list_ex (\<lambda>ch. case ch of
         ColumnAlter p n \<Rightarrow>
           has_type_change (changes_from_diff p n) \<and>
           \<not> (cb_named_enum_types C \<and> is_named_enum_type_only_change p n renamed)
       | _ \<Rightarrow> False) columns"

definition index_drops :: "diff_context \<Rightarrow> index_change list \<Rightarrow> migration_step list" where
  "index_drops cx indices =
     concat (map (\<lambda>ch. case ch of
         IndexDrop x \<Rightarrow> [(DropIndex (ix_name x), cx_previous cx)]
       | IndexAlter x y \<Rightarrow> [(DropIndex (ix_name x), cx_previous cx)]
       | IndexCreate x \<Rightarrow> []) indices)"

definition index_creates :: "diff_context \<Rightarrow> index_change list \<Rightarrow> migration_step list" where
  "index_creates cx indices =
     concat (map (\<lambda>ch. case ch of
         IndexCreate x \<Rightarrow> [(create_index x, cx_next cx)]
       | IndexAlter x y \<Rightarrow> [(create_index y, cx_next cx)]
       | IndexDrop x \<Rightarrow> []) indices)"

definition table_statements ::
  "capability \<Rightarrow> diff_context \<Rightarrow> (string \<times> string) list \<Rightarrow> table_change \<Rightarrow> migration_step list result" where
  "table_statements C cx renamed ch =
     (case ch of
        TableCreate tb \<Rightarrow>
          Ok ((create_table C tb, cx_next cx) #
            map (\<lambda>x. (create_index x, cx_next cx)) (filter (\<lambda>x. \<not> ix_primary_key x) (tb_indices tb)))
      | TableDrop tb \<Rightarrow> Ok [(DropTable (tb_name tb), cx_previous cx)]
      | TableAlter p n columns indices \<Rightarrow>
          rbind (if tb_name p \<noteq> tb_name n
                 then schema_update (cx_previous cx) (tb_id p) (\<lambda>t. t\<lparr>tb_name := tb_name n\<rparr>)
                 else Ok (cx_previous cx)) (\<lambda>S.
          rmap (\<lambda>body.
              (if tb_name p \<noteq> tb_name n then [(RenameTable (tb_name p) (tb_name n), cx_previous cx)] else []) @
              index_drops cx indices @ body @ index_creates cx indices)
            (if needs_recreation C renamed columns then table_recreation C S p n columns
             else Ok (concat (map (column_statements C renamed S (tb_id p)) columns)))))"

definition migration_from_diff ::
  "capability \<Rightarrow> diff_context \<Rightarrow> (string list \<Rightarrow> string list) \<Rightarrow> table_change list \<Rightarrow> migration_step list result" where
  "migration_from_diff C cx ord tables =
     rbind (type_diff ord (cx_previous cx) (cx_next cx)) (\<lambda>tys.
     rbind (renamed_types tys) (\<lambda>renamed.
     rbind (if cb_named_enum_types C then rmap concat (traverse (type_statements cx) tys) else Ok [])
       (\<lambda>type_steps.
     rmap (\<lambda>steps. type_steps @ concat steps) (traverse (table_statements C cx renamed) tables))))"

end
