(* ===== verification/Catalog.thy ===== *)
theory Catalog
  imports Migration
begin

text \<open>
  What a database does with the DDL statements of a migration: the specification migrations are
  checked against.  A catalog maps table names to their columns, primary key and indices; a
  statement is resolved against the schema it carries, as the serializer does
  (\<open>toasty-sql/src/serializer/statement.rs\<close>), and is refused (\<open>None\<close>) when the serializer panics or the
  database reports an error: an unknown or duplicate name, an index on a dropped column.

  Every column holds a token for its data, so that a statement that loses rows' values shows:
  added columns are empty, a copied column has the data of its source.
\<close>

record 'd cat_column =
  kc_ty :: db_ty
  kc_not_null :: bool
  kc_auto_increment :: bool
  kc_check :: "expr option"
  kc_data :: "'d option"

type_synonym cat_index = "(string \<times> direction option) list \<times> bool"

record 'd cat_table =
  kt_columns :: "string \<rightharpoonup> 'd cat_column"
  kt_pk :: "string list"
  kt_indices :: "string \<rightharpoonup> cat_index"

record 'd catalog =
  ct_tables :: "string \<rightharpoonup> 'd cat_table"
  ct_types :: "string \<rightharpoonup> string list"

subsection \<open>Columns\<close>

text \<open>A check refers to its column by name; the catalog keeps what the column is checked against.\<close>

definition check_list :: "column_def \<Rightarrow> expr option" where
  "check_list d =
     (case cd_check d of
        Some ck \<Rightarrow>
          (case ck_expr ck of
             EInList e l \<Rightarrow> (if e = EIdent (cd_name d) then Some l else None)
           | _ \<Rightarrow> None)
      | None \<Rightarrow> None)"

definition new_column :: "column_def \<Rightarrow> 'd option \<Rightarrow> 'd cat_column" where
  "new_column d v =
     \<lparr>kc_ty = cd_ty d, kc_not_null = cd_not_null d, kc_auto_increment = cd_auto_increment d,
      kc_check = check_list d, kc_data = v\<rparr>"

definition changed_column :: "column_changes \<Rightarrow> 'd cat_column \<Rightarrow> 'd cat_column" where
  "changed_column ch k =
     k\<lparr>kc_ty := (case cc_ty ch of Some t \<Rightarrow> t | None \<Rightarrow> kc_ty k),
       kc_not_null := (case cc_not_null ch of Some b \<Rightarrow> b | None \<Rightarrow> kc_not_null k),
       kc_auto_increment := (case cc_auto_increment ch of Some b \<Rightarrow> b | None \<Rightarrow> kc_auto_increment k)\<rparr>"

text \<open>PostgreSQL takes one property per statement and SQLite only a rename; MySQL is given the
  whole definition, in which the unchanged properties are those of the statement.\<close>

definition one_change :: "column_changes \<Rightarrow> bool" where
  "one_change ch \<longleftrightarrow>
     length (filter id [cc_name ch \<noteq> None, cc_ty ch \<noteq> None, cc_not_null ch \<noteq> None, cc_auto_increment ch \<noteq> None]) = 1"

definition altered_column :: "dialect \<Rightarrow> column_def \<Rightarrow> column_changes \<Rightarrow> 'd cat_column \<Rightarrow> 'd cat_column option" where
  "altered_column dl d ch k =
     (case dl of
        Postgresql \<Rightarrow> if one_change ch then Some (changed_column ch k) else None
      | Sqlite \<Rightarrow> if one_change ch \<and> cc_name ch \<noteq> None then Some (changed_column ch k) else None
      | _ \<Rightarrow> Some (changed_column ch (new_column d (kc_data k))))"

subsection \<open>Tables\<close>

definition rename_in :: "string \<Rightarrow> string \<Rightarrow> string \<Rightarrow> string" where
  "rename_in a b x = (if x = a then b else x)"

definition add_column :: "column_def \<Rightarrow> 'd cat_table \<Rightarrow> 'd cat_table option" where
  "add_column d T =
     (if kt_columns T (cd_name d) = None then Some (T\<lparr>kt_columns := (kt_columns T)(cd_name d \<mapsto> new_column d None)\<rparr>)
      else None)"

definition uses_column :: "'d cat_table \<Rightarrow> string \<Rightarrow> bool" where
  "uses_column T c \<longleftrightarrow> c \<in> set (kt_pk T) \<or> (\<exists>ix \<in> ran (kt_indices T). c \<in> fst ` set (fst ix))"

definition drop_column :: "string \<Rightarrow> 'd cat_table \<Rightarrow> 'd cat_table option" where
  "drop_column c T =
     (if kt_columns T c = None \<or> uses_column T c then None
      else Some (T\<lparr>kt_columns := (kt_columns T)(c := None)\<rparr>))"

definition alter_table_column :: "dialect \<Rightarrow> column_def \<Rightarrow> column_changes \<Rightarrow> 'd cat_table \<Rightarrow> 'd cat_table option" where
  "alter_table_column dl d ch T =
     (let a = cd_name d; b = (case cc_name ch of Some b \<Rightarrow> b | None \<Rightarrow> a) in
      Option.bind (kt_columns T a) (\<lambda>k.
      Option.bind (altered_column dl d ch k) (\<lambda>k'.
        if a \<noteq> b \<and> kt_columns T b \<noteq> None then None
        else Some \<lparr>kt_columns = (kt_columns T)(a := None, b \<mapsto> k'),
                   kt_pk = map (rename_in a b) (kt_pk T),
                   kt_indices = (\<lambda>x. map_option (apfst (map (apfst (rename_in a b)))) (kt_indices T x))\<rparr>)))"

definition add_index :: "string \<Rightarrow> cat_index \<Rightarrow> 'd cat_table \<Rightarrow> 'd cat_table option" where
  "add_index name ix T =
     (if fst ` set (fst ix) \<subseteq> dom (kt_columns T) then Some (T\<lparr>kt_indices := (kt_indices T)(name \<mapsto> ix)\<rparr>)
      else None)"

subsection \<open>Statements\<close>

definition as_option :: "'a result \<Rightarrow> 'a option" where
  "as_option r = (case r of Inr a \<Rightarrow> Some a | Inl _ \<Rightarrow> None)"

definition on_table :: "string \<Rightarrow> ('d cat_table \<Rightarrow> 'd cat_table option) \<Rightarrow> 'd catalog \<Rightarrow> 'd catalog option" where
  "on_table name f K =
     Option.bind (ct_tables K name) (\<lambda>T.
       map_option (\<lambda>T'. K\<lparr>ct_tables := (ct_tables K)(name \<mapsto> T')\<rparr>) (f T))"

definition put_table :: "string \<Rightarrow> 'd cat_table \<Rightarrow> 'd catalog \<Rightarrow> 'd catalog option" where
  "put_table name T K =
     (if ct_tables K name = None then Some (K\<lparr>ct_tables := (ct_tables K)(name \<mapsto> T)\<rparr>) else None)"

definition remove_table :: "string \<Rightarrow> 'd catalog \<Rightarrow> 'd catalog option" where
  "remove_table name K =
     (if ct_tables K name = None then None else Some (K\<lparr>ct_tables := (ct_tables K)(name := None)\<rparr>))"

definition ref_name :: "db_table \<Rightarrow> expr \<Rightarrow> string option" where
  "ref_name tb e =
     (case e of
        EReference r \<Rightarrow>
          (case r of
             RColumn _ _ i \<Rightarrow> if i < length (tb_columns tb) then Some (co_name (tb_columns tb ! i)) else None
           | _ \<Rightarrow> None)
      | _ \<Rightarrow> None)"

definition created_table :: "column_def list \<Rightarrow> string list \<Rightarrow> 'd cat_table option" where
  "created_table defs pk =
     (if distinct (map cd_name defs) \<and> set pk \<subseteq> set (map cd_name defs)
      then Some \<lparr>kt_columns = map_of (map (\<lambda>d. (cd_name d, new_column d None)) defs), kt_pk = pk,
                 kt_indices = Map.empty\<rparr>
      else None)"

definition pk_names :: "db_table \<Rightarrow> expr option \<Rightarrow> string list option" where
  "pk_names tb pk =
     (case pk of
        None \<Rightarrow> Some []
      | Some e \<Rightarrow> (case e of ERecord es \<Rightarrow> opt_all (ref_name tb) es | _ \<Rightarrow> None))"

text \<open>An auto-increment column of SQLite has to be the primary key.\<close>

definition auto_increment_ok :: "dialect \<Rightarrow> column_def list \<Rightarrow> expr option \<Rightarrow> bool" where
  "auto_increment_ok dl defs pk \<longleftrightarrow>
     dl = Sqlite \<longrightarrow>
     (case filter cd_auto_increment defs of
        [] \<Rightarrow> True
      | [d] \<Rightarrow>
          (case pk of
             Some (ERecord [EReference (RColumn n _ i)]) \<Rightarrow>
               n = 0 \<and> i < length defs \<and> cd_auto_increment (defs ! i)
           | _ \<Rightarrow> False)
      | _ \<Rightarrow> False)"

definition has_index :: "'d catalog \<Rightarrow> string \<Rightarrow> bool" where
  "has_index K name \<longleftrightarrow> (\<exists>T \<in> ran (ct_tables K). kt_indices T name \<noteq> None)"

definition drop_index :: "string \<Rightarrow> 'd catalog \<Rightarrow> 'd catalog option" where
  "drop_index name K =
     (if has_index K name
      then Some (K\<lparr>ct_tables := (\<lambda>t. map_option (\<lambda>T. T\<lparr>kt_indices := (kt_indices T)(name := None)\<rparr>) (ct_tables K t))\<rparr>)
      else None)"

text \<open>The rows of a table are copied column by column.\<close>

definition copied_columns ::
  "(string \<rightharpoonup> 'd cat_column) \<Rightarrow> (string \<rightharpoonup> 'd cat_column) \<Rightarrow> (string \<times> string) list \<Rightarrow> (string \<rightharpoonup> 'd cat_column)" where
  "copied_columns src tgt cols = (\<lambda>c.
     (case map_of cols c of
        None \<Rightarrow> tgt c
      | Some s \<Rightarrow> map_option (\<lambda>k. k\<lparr>kc_data := (case src s of Some k' \<Rightarrow> kc_data k' | None \<Rightarrow> None)\<rparr>) (tgt c)))"

definition copy_into :: "'d cat_table \<Rightarrow> (string \<times> string) list \<Rightarrow> 'd cat_table \<Rightarrow> 'd cat_table option" where
  "copy_into S cols T =
     (if distinct (map fst cols) \<and> set (map fst cols) \<subseteq> dom (kt_columns T) \<and> set (map snd cols) \<subseteq> dom (kt_columns S)
      then Some (T\<lparr>kt_columns := copied_columns (kt_columns S) (kt_columns T) cols\<rparr>)
      else None)"

definition run_ddl :: "dialect \<Rightarrow> migration_step \<Rightarrow> 'd catalog \<Rightarrow> 'd catalog option" where
  "run_ddl dl m K =
     (let S = snd m in
      case fst m of
        CreateType te \<Rightarrow>
          Option.bind (te_name te) (\<lambda>name.
            if ct_types K name = None then Some (K\<lparr>ct_types := (ct_types K)(name \<mapsto> te_variants te)\<rparr>) else None)
      | RenameType a b \<Rightarrow>
          (if ct_types K a = None \<or> ct_types K b \<noteq> None then None
           else Some (K\<lparr>ct_types := (ct_types K)(a := None, b := ct_types K a)\<rparr>))
      | AddTypeValue a v \<Rightarrow>
          Option.bind (ct_types K a) (\<lambda>vs.
            if v \<in> set vs then None else Some (K\<lparr>ct_types := (ct_types K)(a \<mapsto> vs @ [v])\<rparr>))
      | CreateTable t defs pk \<Rightarrow>
          Option.bind (as_option (schema_table S t)) (\<lambda>tb.
          Option.bind (pk_names tb pk) (\<lambda>names.
          Option.bind (if auto_increment_ok dl defs pk then created_table defs names else None) (\<lambda>T.
            put_table (tb_name tb) T K)))
      | CreateIndex i t cols unique \<Rightarrow>
          Option.bind (as_option (schema_index S i)) (\<lambda>ix.
          Option.bind (as_option (schema_table S t)) (\<lambda>tb.
          Option.bind (opt_all (\<lambda>(e, dir). map_option (\<lambda>c. (c, dir)) (ref_name tb e)) cols) (\<lambda>names.
            if has_index K (ix_name ix) then None
            else on_table (tb_name tb) (add_index (ix_name ix) (names, unique)) K)))
      | DropTable name \<Rightarrow> remove_table name K
      | DropIndex name \<Rightarrow> drop_index name K
      | RenameTable a b \<Rightarrow>
          Option.bind (ct_tables K a) (\<lambda>T. Option.bind (remove_table a K) (put_table b T))
      | AddColumn t d \<Rightarrow>
          Option.bind (as_option (schema_table S t)) (\<lambda>tb. on_table (tb_name tb) (add_column d) K)
      | DropColumn t c \<Rightarrow>
          Option.bind (as_option (schema_table S t)) (\<lambda>tb. on_table (tb_name tb) (drop_column c) K)
      | AlterColumn c d ch \<Rightarrow>
          Option.bind (as_option (schema_table S (fst c))) (\<lambda>tb.
            on_table (tb_name tb) (alter_table_column dl d ch) K)
      | CopyTable src tgt cols \<Rightarrow>
          Option.bind (ct_tables K src) (\<lambda>T. on_table tgt (copy_into T cols) K)
      | Pragma name v \<Rightarrow> (if dl = Sqlite then Some K else None))"

fun run_migration :: "dialect \<Rightarrow> migration_step list \<Rightarrow> 'd catalog \<Rightarrow> 'd catalog option" where
  "run_migration dl [] K = Some K"
| "run_migration dl (m # ms) K = Option.bind (run_ddl dl m K) (run_migration dl ms)"

lemma run_migration_append:
  "run_migration dl (ms @ ns) K = Option.bind (run_migration dl ms K) (run_migration dl ns)"
  by (induction ms arbitrary: K) (auto split: Option.bind_split)

subsection \<open>The catalog of a schema\<close>

definition index_of :: "column list \<Rightarrow> db_index \<Rightarrow> cat_index" where
  "index_of cols x =
     (map (\<lambda>c. (co_name (cols ! snd (ic_column c)), case ic_op c of IxEq \<Rightarrow> None | IxSort dir \<Rightarrow> Some dir))
        (ix_columns x),
      ix_unique x)"

definition secondary :: "db_table \<Rightarrow> db_index list" where
  "secondary tb = filter (\<lambda>x. \<not> ix_primary_key x) (tb_indices tb)"

definition column_entry :: "capability \<Rightarrow> (column_id \<Rightarrow> 'd option) \<Rightarrow> column \<Rightarrow> string \<times> 'd cat_column" where
  "column_entry C v c = (co_name c, new_column (column_def_of C c) (v (co_id c)))"

definition table_entry :: "capability \<Rightarrow> (column_id \<Rightarrow> 'd option) \<Rightarrow> db_table \<Rightarrow> 'd cat_table" where
  "table_entry C v tb =
     \<lparr>kt_columns = map_of (map (column_entry C v) (tb_columns tb)),
      kt_pk = map (\<lambda>c. co_name (tb_columns tb ! snd c)) (pk_columns (tb_primary_key tb)),
      kt_indices = map_of (map (\<lambda>x. (ix_name x, index_of (tb_columns tb) x)) (secondary tb))\<rparr>"

definition catalog_of :: "capability \<Rightarrow> db_schema \<Rightarrow> (column_id \<Rightarrow> 'd option) \<Rightarrow> 'd catalog" where
  "catalog_of C S v =
     \<lparr>ct_tables = map_of (map (\<lambda>tb. (tb_name tb, table_entry C v tb)) S), ct_types = Map.empty\<rparr>"

end
