(* ===== verification/DiffRules.thy ===== *)
theory DiffRules
  imports SchemaDiff
begin

text \<open>
  What the loop of the schema difference computes: every previous item goes to its partner, the
  items of the next schema that are no partner are added.
\<close>

definition partner :: "('i, 'a, 'c) differ \<Rightarrow> 'a list \<Rightarrow> 'a \<Rightarrow> 'a option" where
  "partner D next p =
     (case df_hint D (df_id D p) of
        Some i \<Rightarrow> find (\<lambda>n. df_id D n = i) next
      | None \<Rightarrow> by_name D next (df_name D p))"

definition resolvable :: "('i, 'a, 'c) differ \<Rightarrow> 'a list \<Rightarrow> 'a list \<Rightarrow> bool" where
  "resolvable D prev next \<longleftrightarrow>
     distinct (map (df_id D) next) \<and>
     (\<forall>n \<in> set next. df_lookup D (df_id D n) = Ok n) \<and>
     (\<forall>p \<in> set prev. \<forall>i. df_hint D (df_id D p) = Some i \<longrightarrow> i \<in> df_id D ` set next) \<and>
     any_order (df_order D)"

text \<open>
  Hints as they are collected from the user, who is asked which dropped item became which added
  one: the old name is gone, the new one is new, and no two items became one.
\<close>

definition clean_hints :: "('i, 'a, 'c) differ \<Rightarrow> 'a list \<Rightarrow> 'a list \<Rightarrow> bool" where
  "clean_hints D prev next \<longleftrightarrow>
     (\<forall>p \<in> set prev. \<forall>i. df_hint D (df_id D p) = Some i \<longrightarrow>
        df_name D p \<notin> df_name D ` set next \<and>
        (\<forall>n \<in> set next. df_id D n = i \<longrightarrow> df_name D n \<notin> df_name D ` set prev) \<and>
        (\<forall>q \<in> set prev. df_hint D (df_id D q) = Some i \<longrightarrow> q = p))"

definition matching :: "('i, 'a, 'c) differ \<Rightarrow> 'a list \<Rightarrow> 'a list \<Rightarrow> bool" where
  "matching D prev next \<longleftrightarrow>
     resolvable D prev next \<and> clean_hints D prev next \<and>
     distinct (map (df_name D) prev) \<and> distinct (map (df_name D) next)"

lemma find_Some_D: "find P xs = Some x \<Longrightarrow> P x \<and> x \<in> set xs"
  by (induction xs) (auto split: if_splits)

lemma find_unique:
  assumes "x \<in> set xs" "P x" "\<And>y. y \<in> set xs \<Longrightarrow> P y \<Longrightarrow> y = x"
  shows "find P xs = Some x"
proof -
  obtain y where y: "find P xs = Some y" using assms(1,2) by (cases "find P xs") (auto simp: find_None_iff)
  from find_Some_D [OF this] assms(3) [of y] have "y = x" by simp
  with y show ?thesis by simp
qed

lemma by_name_Some: "by_name D next name = Some n \<Longrightarrow> n \<in> set next \<and> df_name D n = name"
  by (auto simp: by_name_def dest: find_Some_D)

lemma by_name_None: "by_name D next name = None \<longleftrightarrow> name \<notin> df_name D ` set next"
  by (auto simp: by_name_def find_None_iff)

lemma by_name_in:
  assumes "distinct (map (df_name D) next)" "n \<in> set next"
  shows "by_name D next (df_name D n) = Some n"
  unfolding by_name_def by (rule find_unique) (use assms in \<open>auto simp: distinct_map inj_on_def\<close>)

lemma partner_in: "partner D next p = Some n \<Longrightarrow> n \<in> set next"
  by (auto simp: partner_def split: option.splits dest: find_Some_D by_name_Some)

lemma hint_target:
  assumes "resolvable D prev next" "p \<in> set prev" "df_hint D (df_id D p) = Some i"
  obtains n where "n \<in> set next" "df_id D n = i"
proof -
  have "i \<in> df_id D ` set next" using assms unfolding resolvable_def by blast
  with that show ?thesis by blast
qed

lemma counterpart_partner:
  assumes "resolvable D prev next" "p \<in> set prev"
  shows "counterpart D next p = Ok (partner D next p)"
proof (cases "df_hint D (df_id D p)")
  case None
  then show ?thesis by (simp add: counterpart_def partner_def)
next
  case (Some i)
  from hint_target [OF assms this] obtain n where n: "n \<in> set next" "df_id D n = i" .
  with assms have "find (\<lambda>m. df_id D m = i) next = Some n"
    by (intro find_unique) (auto simp: resolvable_def distinct_map inj_on_def)
  moreover have "df_lookup D i = Ok n" using n assms by (auto simp: resolvable_def)
  ultimately show ?thesis by (simp add: counterpart_def partner_def Some)
qed

definition item_changes :: "('i, 'a, 'c) differ \<Rightarrow> 'a list \<Rightarrow> ('a \<Rightarrow> 'a \<Rightarrow> 'c list) \<Rightarrow> 'a \<Rightarrow> 'c list" where
  "item_changes D next ch p =
     (case partner D next p of None \<Rightarrow> [df_dropped D p] | Some n \<Rightarrow> ch p n)"

definition unmatched :: "('i, 'a, 'c) differ \<Rightarrow> 'a list \<Rightarrow> 'a list \<Rightarrow> 'a list" where
  "unmatched D prev next = filter (\<lambda>n. \<forall>p \<in> set prev. partner D next p \<noteq> Some n) next"

lemma match_items_eq:
  assumes "\<And>p. p \<in> set ps \<Longrightarrow> counterpart D next p = Ok (partner D next p)"
    and "\<And>p n. p \<in> set ps \<Longrightarrow> partner D next p = Some n \<Longrightarrow> df_changed D p n = Ok (ch p n)"
  shows "match_items D next ps ids =
    Ok (concat (map (item_changes D next ch) ps),
        filter (\<lambda>i. \<forall>p \<in> set ps. \<forall>n. partner D next p = Some n \<longrightarrow> df_id D n \<noteq> i) ids)"
  using assms
proof (induction ps arbitrary: ids)
  case (Cons p ps)
  then show ?case
    by (cases "partner D next p") (auto simp: item_changes_def intro!: filter_cong)
qed simp

lemma mset_map_inv:
  assumes "mset is = mset (map f xs)" "\<And>x. x \<in> set xs \<Longrightarrow> g (f x) = Ok x"
  shows "\<exists>as. traverse g is = Ok as \<and> mset as = mset xs"
  using assms
proof (induction "is" arbitrary: xs)
  case (Cons i "is")
  then have "i \<in># mset (map f xs)" by (metis list.set_intros(1) set_mset_mset)
  then obtain x where x: "x \<in> set xs" "i = f x" by auto
  then obtain as bs where xs: "xs = as @ x # bs" by (meson split_list)
  with Cons.prems x have "mset is = mset (map f (as @ bs))" by simp
  from Cons.IH [OF this] Cons.prems(2) xs obtain ys where "traverse g is = Ok ys" "mset ys = mset (as @ bs)"
    by auto
  moreover have "g i = Ok x" using Cons.prems(2) x by simp
  ultimately show ?case by (auto simp: xs)
qed simp

lemma filter_map_ids:
  assumes "distinct (map f xs)" "\<And>p n. p \<in> ps \<Longrightarrow> m p = Some n \<Longrightarrow> n \<in> set xs"
  shows "filter (\<lambda>i. \<forall>p \<in> ps. \<forall>n. m p = Some n \<longrightarrow> f n \<noteq> i) (map f xs) = map f (filter (\<lambda>n. \<forall>p \<in> ps. m p \<noteq> Some n) xs)"
proof -
  have "(\<forall>p \<in> ps. \<forall>n. m p = Some n \<longrightarrow> f n \<noteq> f x) \<longleftrightarrow> (\<forall>p \<in> ps. m p \<noteq> Some x)" if "x \<in> set xs" for x
    using assms that unfolding distinct_map by (metis inj_onD)
  then have "filter (\<lambda>x. \<forall>p \<in> ps. \<forall>n. m p = Some n \<longrightarrow> f n \<noteq> f x) xs = filter (\<lambda>x. \<forall>p \<in> ps. m p \<noteq> Some x) xs"
    by (rule filter_cong [OF refl])
  then show ?thesis by (simp add: filter_map comp_def)
qed

lemma diff_items_eq:
  assumes r: "resolvable D prev next"
    and ch: "\<And>p n. p \<in> set prev \<Longrightarrow> partner D next p = Some n \<Longrightarrow> df_changed D p n = Ok (ch p n)"
  shows "\<exists>as. diff_items D prev next = Ok (concat (map (item_changes D next ch) prev) @ map (df_added D) as) \<and>
    mset as = mset (unmatched D prev next)"
proof -
  let ?ids = "filter (\<lambda>i. \<forall>p \<in> set prev. \<forall>n. partner D next p = Some n \<longrightarrow> df_id D n \<noteq> i) (map (df_id D) next)"
  have d: "distinct (map (df_id D) next)" using r by (simp add: resolvable_def)
  have ids: "?ids = map (df_id D) (unmatched D prev next)"
    unfolding unmatched_def using d by (intro filter_map_ids) (auto dest: partner_in)
  have "mset (df_order D ?ids) = mset (map (df_id D) (unmatched D prev next))"
    using r ids by (simp add: resolvable_def any_order_def)
  moreover have look: "df_lookup D (df_id D x) = Ok x" if "x \<in> set (unmatched D prev next)" for x
    using that r by (auto simp: unmatched_def resolvable_def)
  ultimately obtain as where "traverse (df_lookup D) (df_order D ?ids) = Ok as" "mset as = mset (unmatched D prev next)"
    using mset_map_inv [of "df_order D ?ids" "df_id D" "unmatched D prev next" "df_lookup D"] by blast
  moreover have "match_items D next prev (remdups (map (df_id D) next)) = Ok (concat (map (item_changes D next ch) prev), ?ids)"
    unfolding distinct_remdups_id [OF d]
    by (rule match_items_eq) (use counterpart_partner [OF r] ch in auto)
  ultimately show ?thesis by (intro exI [of _ as]) (simp add: diff_items_def)
qed

subsection \<open>Partners of a matching\<close>

lemma partner_hint:
  assumes "resolvable D prev next" "p \<in> set prev" "df_hint D (df_id D p) = Some i"
  obtains n where "partner D next p = Some n" "df_id D n = i" "n \<in> set next"
proof -
  obtain n where n: "n \<in> set next" "df_id D n = i" by (rule hint_target [OF assms])
  with assms have "df_lookup D i = Ok n" by (auto simp: resolvable_def)
  with counterpart_partner [OF assms(1,2)] assms(3) have "partner D next p = Some n"
    by (simp add: counterpart_def)
  with n that show ?thesis by blast
qed

lemma partner_name:
  assumes m: "matching D prev next" and p: "p \<in> set prev" "partner D next p = Some n"
  shows "df_name D n = df_name D p \<or> df_name D n \<notin> df_name D ` set prev"
proof (cases "df_hint D (df_id D p)")
  case None
  with p show ?thesis by (auto simp: partner_def dest: by_name_Some)
next
  case (Some i)
  with m p obtain n' where "partner D next p = Some n'" "df_id D n' = i" "n' \<in> set next"
    using partner_hint unfolding matching_def by metis
  with m p Some show ?thesis by (auto simp: matching_def clean_hints_def)
qed

lemma partner_inj:
  assumes m: "matching D prev next" and p: "p \<in> set prev" "q \<in> set prev"
    and n: "partner D next p = Some n" "partner D next q = Some n"
  shows "p = q"
proof -
  have r: "resolvable D prev next" and c: "clean_hints D prev next"
    and inj: "inj_on (df_name D) (set prev)" using m by (auto simp: matching_def distinct_map)
  have hint: "i = df_id D n" if "x \<in> set prev" "partner D next x = Some n" "df_hint D (df_id D x) = Some i" for x i
    using partner_hint [OF r that(1,3)] that(2) by force
  have in_next: "n \<in> set next" using n partner_in by metis
  have plain: "df_name D n = df_name D x" if "partner D next x = Some n" "df_hint D (df_id D x) = None" for x
    using that by (auto simp: partner_def dest: by_name_Some)
  show ?thesis
  proof (cases "df_hint D (df_id D p)"; cases "df_hint D (df_id D q)")
    assume "df_hint D (df_id D p) = None" "df_hint D (df_id D q) = None"
    then show ?thesis using plain n p inj by (metis inj_on_def)
  next
    fix i assume "df_hint D (df_id D p) = None" and q: "df_hint D (df_id D q) = Some i"
    then have "df_name D n \<in> df_name D ` set prev" using plain n p by auto
    then show ?thesis using c q hint [OF p(2) n(2) q] p in_next by (auto simp: clean_hints_def)
  next
    fix i assume p': "df_hint D (df_id D p) = Some i" and "df_hint D (df_id D q) = None"
    then have "df_name D n \<in> df_name D ` set prev" using plain n p by auto
    then show ?thesis using c p' hint [OF p(1) n(1) p'] p in_next by (auto simp: clean_hints_def)
  next
    fix i j assume "df_hint D (df_id D p) = Some i" "df_hint D (df_id D q) = Some j"
    then show ?thesis using c p hint n by (metis clean_hints_def)
  qed
qed

text \<open>An item that kept its name and was not renamed is its own partner's namesake.\<close>

lemma partner_same_name:
  assumes m: "matching D prev next" and p: "p \<in> set prev" and n: "n \<in> set next" "df_name D n = df_name D p"
  shows "partner D next p = Some n"
proof (cases "df_hint D (df_id D p)")
  case None
  then show ?thesis using m n by (simp add: partner_def matching_def by_name_in flip: n(2))
next
  case (Some i)
  then have "df_name D p \<notin> df_name D ` set next" using m p by (auto simp: matching_def clean_hints_def)
  with n show ?thesis by (metis imageI)
qed

subsection \<open>Lists of entries\<close>

lemma map_of_replace:
  assumes "distinct (map fst (xs @ (a, k) # ys))" "b \<noteq> a \<longrightarrow> b \<notin> fst ` set (xs @ ys)"
  shows "map_of (xs @ (b, k') # ys) = (map_of (xs @ (a, k) # ys))(a := None, b \<mapsto> k')"
proof
  fix c
  have ax: "a \<notin> fst ` set xs" "a \<notin> fst ` set ys" using assms(1) by auto
  then have "map_of xs a = None" "map_of ys a = None" by (auto simp: map_of_eq_None_iff)
  moreover have "b \<notin> fst ` set xs" using assms ax by auto
  then have "map_of xs b = None" by (auto simp: map_of_eq_None_iff)
  ultimately show "map_of (xs @ (b, k') # ys) c = ((map_of (xs @ (a, k) # ys))(a := None, b \<mapsto> k')) c"
    by (auto simp: map_add_def split: option.splits)
qed

lemma map_of_delete:
  assumes "distinct (map fst (xs @ (a, k) # ys))"
  shows "map_of (xs @ ys) = (map_of (xs @ (a, k) # ys))(a := None)"
proof
  fix c
  have "a \<notin> fst ` set xs" "a \<notin> fst ` set ys" using assms by auto
  then have "map_of xs a = None" "map_of ys a = None" by (auto simp: map_of_eq_None_iff)
  then show "map_of (xs @ ys) c = ((map_of (xs @ (a, k) # ys))(a := None)) c"
    by (auto simp: map_add_def split: option.splits)
qed

lemma map_of_same_entries:
  assumes "distinct (map fst xs)" "distinct (map fst ys)" "set xs = set ys"
  shows "map_of xs = map_of ys"
proof (rule map_of_eqI)
  show "set (map fst xs) = set (map fst ys)" using assms(3) by simp
  show "\<forall>k \<in> set (map fst xs). map_of xs k = map_of ys k"
  proof
    fix k assume "k \<in> set (map fst xs)"
    then obtain v where "(k, v) \<in> set xs" by auto
    then have "map_of xs k = Some v" "map_of ys k = Some v" using assms by (auto intro: map_of_is_SomeI)
    then show "map_of xs k = map_of ys k" by simp
  qed
qed

text \<open>The entries of a list under migration: finished items on the left, the others on the right.\<close>

definition entries ::
  "('i, 'a, 'c) differ \<Rightarrow> 'a list \<Rightarrow> ('a \<Rightarrow> 'a \<Rightarrow> 'e) \<Rightarrow> ('a \<Rightarrow> 'e) \<Rightarrow> 'a list \<Rightarrow> 'a list \<Rightarrow> (string \<times> 'e) list" where
  "entries D next fin ini ps qs =
     concat (map (\<lambda>p. case partner D next p of None \<Rightarrow> [] | Some n \<Rightarrow> [(df_name D n, fin p n)]) ps) @
     map (\<lambda>q. (df_name D q, ini q)) qs"

lemma in_entries:
  "e \<in> set (entries D next fin ini ps qs) \<longleftrightarrow>
     (\<exists>p n. p \<in> set ps \<and> partner D next p = Some n \<and> e = (df_name D n, fin p n)) \<or>
     (\<exists>q \<in> set qs. e = (df_name D q, ini q))"
proof (induction ps)
  case (Cons p ps)
  then show ?case by (cases "partner D next p") (auto simp: entries_def)
qed (auto simp: entries_def)

lemma entries_keys:
  "fst ` set (entries D next fin ini ps qs) =
     {df_name D n | p n. p \<in> set ps \<and> partner D next p = Some n} \<union> df_name D ` set qs"
  by (force simp: entries_def split: option.splits)

lemma distinct_entries:
  assumes m: "matching D prev next" and "distinct (ps @ qs)" "set (ps @ qs) \<subseteq> set prev"
  shows "distinct (map fst (entries D next fin ini ps qs))"
  using assms(2,3)
proof (induction ps)
  case Nil
  have "inj_on (df_name D) (set prev)" using m by (simp add: matching_def distinct_map)
  with Nil show ?case by (auto simp: entries_def distinct_map comp_def inj_on_def subset_iff)
next
  case (Cons p ps)
  show ?case
  proof (cases "partner D next p")
    case None
    with Cons show ?thesis by (simp add: entries_def)
  next
    case (Some n)
    have p: "p \<in> set prev" using Cons.prems by simp
    have "df_name D n \<noteq> df_name D n'" if "p' \<in> set ps" "partner D next p' = Some n'" for p' n'
    proof
      assume "df_name D n = df_name D n'"
      moreover have "inj_on (df_name D) (set next)" using m by (simp add: matching_def distinct_map)
      ultimately have "n = n'" using partner_in Some that by (metis inj_onD)
      then show False using partner_inj [OF m p _ Some] that Cons.prems by auto
    qed
    moreover have "df_name D n \<noteq> df_name D q" if q: "q \<in> set qs" for q
    proof
      assume eq: "df_name D n = df_name D q"
      moreover have qp: "q \<in> set prev" using q Cons.prems by auto
      ultimately have "partner D next q = Some n" using partner_same_name [OF m] partner_in [OF Some] by metis
      then have "p = q" using partner_inj [OF m p qp Some] by simp
      with q Cons.prems show False by auto
    qed
    ultimately have "df_name D n \<notin> fst ` set (entries D next fin ini ps qs)"
      by (auto simp: entries_keys)
    moreover have "distinct (map fst (entries D next fin ini ps qs))" using Cons by simp
    moreover have "entries D next fin ini (p # ps) qs = (df_name D n, fin p n) # entries D next fin ini ps qs"
      by (simp add: entries_def Some)
    ultimately show ?thesis by simp
  qed
qed

lemma entries_step:
  "entries D next fin ini ps (q # qs) =
     entries D next fin ini ps [] @ (df_name D q, ini q) # entries D next fin ini [] qs"
  "entries D next fin ini (ps @ [q]) qs =
     entries D next fin ini ps [] @
     (case partner D next q of None \<Rightarrow> [] | Some n \<Rightarrow> [(df_name D n, fin q n)]) @ entries D next fin ini [] qs"
  by (simp_all add: entries_def)

lemma entries_drop:
  assumes m: "matching D prev next" and "distinct (ps @ q # qs)" "set (ps @ q # qs) \<subseteq> set prev"
    and "partner D next q = None"
  shows "map_of (entries D next fin ini (ps @ [q]) qs) =
    (map_of (entries D next fin ini ps (q # qs)))(df_name D q := None)"
  using map_of_delete [OF distinct_entries [OF assms(1-3), of fin ini, unfolded entries_step]] assms(4)
  by (simp add: entries_step)

lemma entries_alter:
  assumes m: "matching D prev next" and "distinct (ps @ q # qs)" "set (ps @ q # qs) \<subseteq> set prev"
    and n: "partner D next q = Some n"
  shows "map_of (entries D next fin ini (ps @ [q]) qs) =
    (map_of (entries D next fin ini ps (q # qs)))(df_name D q := None, df_name D n \<mapsto> fin q n)"
    and "df_name D n \<noteq> df_name D q \<Longrightarrow> map_of (entries D next fin ini ps (q # qs)) (df_name D n) = None"
proof -
  have d: "distinct (map fst (entries D next fin ini ps [] @ (df_name D q, ini q) # entries D next fin ini [] qs))"
    using distinct_entries [OF assms(1-3), of fin ini] by (simp only: entries_step)
  have d': "distinct (map fst (entries D next fin ini (ps @ [q]) qs))"
    by (rule distinct_entries [OF m]) (use assms in auto)
  then have fresh: "df_name D n \<notin> fst ` set (entries D next fin ini ps [] @ entries D next fin ini [] qs)"
    by (auto simp: entries_step n)
  from map_of_replace [OF d, of "df_name D n" "fin q n"] fresh
  show "map_of (entries D next fin ini (ps @ [q]) qs) =
    (map_of (entries D next fin ini ps (q # qs)))(df_name D q := None, df_name D n \<mapsto> fin q n)"
    by (simp add: entries_step n)
  show "map_of (entries D next fin ini ps (q # qs)) (df_name D n) = None" if "df_name D n \<noteq> df_name D q"
    using fresh that by (simp add: entries_step map_of_eq_None_iff image_Un)
qed

lemma entries_at:
  assumes "matching D prev next" "distinct (ps @ q # qs)" "set (ps @ q # qs) \<subseteq> set prev"
  shows "map_of (entries D next fin ini ps (q # qs)) (df_name D q) = Some (ini q)"
  using distinct_entries [OF assms, of fin ini] by (intro map_of_is_SomeI) (simp_all add: entries_step)

text \<open>At the end the finished entries and those of the added items are the entries of the next list.\<close>

lemma distinct_entries_added:
  assumes m: "matching D prev next" and "distinct prev" and as: "mset as = mset (unmatched D prev next)"
  shows "distinct (map fst (entries D next fin ini prev [] @ map (\<lambda>n. (df_name D n, new n)) as))"
proof -
  have asset: "set as = set (unmatched D prev next)" using as by (metis set_mset_mset)
  have inj: "inj_on (df_name D) (set next)" and dn: "distinct next"
    using m by (auto simp: matching_def distinct_map)
  have "distinct as" using mset_eq_imp_distinct_iff [OF as] dn by (simp add: unmatched_def)
  then have "distinct (map (df_name D) as)"
    using inj_on_subset [OF inj] asset by (simp add: distinct_map unmatched_def subset_iff)
  moreover have "distinct (map fst (entries D next fin ini prev []))"
    by (rule distinct_entries [OF m]) (use assms(2) in auto)
  moreover have new_key: "df_name D n \<notin> fst ` set (entries D next fin ini prev [])" if n: "n \<in> set as" for n
  proof
    assume "df_name D n \<in> fst ` set (entries D next fin ini prev [])"
    then obtain p n' where p: "p \<in> set prev" "partner D next p = Some n'" "df_name D n = df_name D n'"
      by (auto simp: entries_keys)
    with n asset have "n = n'" using inj_onD [OF inj p(3)] partner_in [OF p(2)] by (simp add: unmatched_def)
    with n asset p show False by (simp add: unmatched_def)
  qed
  moreover have "fst ` set (entries D next fin ini prev []) \<inter> df_name D ` set as = {}"
    by (intro equals0I) (metis IntE imageE new_key)
  ultimately show ?thesis by (simp add: comp_def image_image)
qed

lemma entries_end:
  assumes m: "matching D prev next" and "distinct prev" and as: "mset as = mset (unmatched D prev next)"
    and fin: "\<And>p n. p \<in> set prev \<Longrightarrow> partner D next p = Some n \<Longrightarrow> fin p n = goal n"
    and new: "\<And>n. n \<in> set as \<Longrightarrow> new n = goal n"
  shows "map_of (entries D next fin ini prev [] @ map (\<lambda>n. (df_name D n, new n)) as) =
    map_of (map (\<lambda>n. (df_name D n, goal n)) next)" (is "map_of ?xs = map_of ?ys")
proof (rule map_of_same_entries)
  have asset: "set as = set (unmatched D prev next)" using as by (metis set_mset_mset)
  show "distinct (map fst ?xs)" by (rule distinct_entries_added [OF m assms(2) as])
  show "distinct (map fst ?ys)" using m by (simp add: matching_def comp_def)
  show "set ?xs = set ?ys"
  proof
    show "set ?xs \<subseteq> set ?ys"
    proof
      fix e assume "e \<in> set ?xs"
      then consider (fin) p n where "p \<in> set prev" "partner D next p = Some n" "e = (df_name D n, fin p n)"
        | (new) n where "n \<in> set as" "e = (df_name D n, new n)"
        by (auto simp: in_entries)
      then show "e \<in> set ?ys"
      proof cases
        case fin
        with assms(4) partner_in show ?thesis by (metis (no_types, lifting) image_eqI list.set_map)
      next
        case new
        with assms(5) asset show ?thesis by (auto simp: unmatched_def)
      qed
    qed
    show "set ?ys \<subseteq> set ?xs"
    proof
      fix e assume "e \<in> set ?ys"
      then obtain n where n: "n \<in> set next" "e = (df_name D n, goal n)" by auto
      show "e \<in> set ?xs"
      proof (cases "n \<in> set as")
        case True
        with n new show ?thesis by auto
      next
        case False
        with n asset obtain p where "p \<in> set prev" "partner D next p = Some n" by (auto simp: unmatched_def)
        moreover from this fin have "fin p n = goal n" by simp
        ultimately have "e \<in> set (entries D next fin ini prev [])" using n unfolding in_entries by metis
        then show ?thesis by simp
      qed
    qed
  qed
qed

end
