(* ===== verification/MigrateColumns.thy ===== *)
theory MigrateColumns
  imports DiffRules Catalog
begin

text \<open>
  Column changes on one table of a catalog: after the statements of a column difference the
  table has the columns of the next schema, and the primary key and the surviving indices
  follow the renamed columns.
\<close>

subsection \<open>Statements on one table\<close>

fun run_table :: "('d cat_table \<Rightarrow> 'd cat_table option) list \<Rightarrow> 'd cat_table \<Rightarrow> 'd cat_table option" where
  "run_table [] T = Some T"
| "run_table (f # fs) T = Option.bind (f T) (run_table fs)"

lemma run_table_append: "run_table (fs @ gs) T = Option.bind (run_table fs T) (run_table gs)"
  by (induction fs arbitrary: T) (auto split: Option.bind_split)

lemma run_Nil [simp]: "run_migration dl [] = Some" "run_table [] = Some"
  by (rule ext, simp)+

lemma on_table_Some: "ct_tables K nm = Some T \<Longrightarrow> on_table nm Some K = Some K"
  by (simp add: on_table_def fun_upd_idem)

lemma on_table_bind:
  "Option.bind (on_table nm f K) (on_table nm g) = on_table nm (\<lambda>T. Option.bind (f T) g) K"
  by (auto simp: on_table_def split: Option.bind_split)

definition column_steps :: "dialect \<Rightarrow> capability \<Rightarrow> column_change \<Rightarrow> ('d cat_table \<Rightarrow> 'd cat_table option) list" where
  "column_steps dl C ch =
     (case ch of
        ColumnAdd c \<Rightarrow> [add_column (column_def_of C c)]
      | ColumnDrop c \<Rightarrow> [drop_column (co_name c)]
      | ColumnAlter p n \<Rightarrow>
          map (alter_table_column dl (column_def_of C p))
            (if cb_alter_column_properties_atomic C then [changes_from_diff p n]
             else split_changes (changes_from_diff p n)))"

text \<open>Columns of no named enum type, so that no change is left to the type.\<close>

definition unnamed :: "column \<Rightarrow> bool" where
  "unnamed c \<longleftrightarrow> (case named_enum (co_storage_ty c) of Some te \<Rightarrow> te_name te = None | None \<Rightarrow> True)"

lemma unnamed_change: "unnamed p \<Longrightarrow> \<not> is_named_enum_type_only_change p n renamed"
  by (auto simp: unnamed_def is_named_enum_type_only_change_def split: option.splits)

definition change_of :: "table_id \<Rightarrow> column_change \<Rightarrow> bool" where
  "change_of t ch \<longleftrightarrow>
     (case ch of
        ColumnAdd c \<Rightarrow> True
      | ColumnDrop c \<Rightarrow> fst (co_id c) = t
      | ColumnAlter p n \<Rightarrow> fst (co_id p) = t \<and> unnamed p)"

lemma run_alters:
  assumes "schema_table S t = Ok tb" "fst (co_id p) = t" "ct_tables K (tb_name tb) \<noteq> None"
  shows "run_migration dl (map (\<lambda>x. (alter_column C p x, S)) chs) K =
    on_table (tb_name tb) (run_table (map (alter_table_column dl (column_def_of C p)) chs)) K"
  using assms(3)
proof (induction chs arbitrary: K)
  case Nil
  then show ?case by (auto simp: on_table_Some)
next
  case (Cons ch chs)
  let ?f = "alter_table_column dl (column_def_of C p) ch"
  have "run_ddl dl (alter_column C p ch, S) K = on_table (tb_name tb) ?f K"
    using assms(1,2) by (simp add: run_ddl_def alter_column_def as_option_def)
  moreover have "run_migration dl (map (\<lambda>x. (alter_column C p x, S)) chs) K' =
      on_table (tb_name tb) (run_table (map (alter_table_column dl (column_def_of C p)) chs)) K'"
    if "on_table (tb_name tb) ?f K = Some K'" for K'
    using that by (intro Cons.IH) (auto simp: on_table_def split: Option.bind_splits)
  ultimately show ?case
    using on_table_bind [of "tb_name tb" ?f K "run_table (map (alter_table_column dl (column_def_of C p)) chs)"]
    by (cases "on_table (tb_name tb) ?f K") simp_all
qed

lemma run_column_statement:
  assumes "schema_table S t = Ok tb" "change_of t ch" "ct_tables K (tb_name tb) \<noteq> None"
  shows "run_migration dl (column_statements C renamed S t ch) K =
    on_table (tb_name tb) (run_table (column_steps dl C ch)) K"
proof (cases ch)
  case (ColumnAlter p n)
  with assms show ?thesis
    using run_alters [OF assms(1) _ assms(3)] unnamed_change
    by (simp add: column_statements_def column_steps_def change_of_def)
qed (use assms in \<open>auto simp: column_statements_def column_steps_def change_of_def run_ddl_def as_option_def on_table_def\<close>)

lemma run_column_statements:
  assumes "schema_table S t = Ok tb" "list_all (change_of t) chs" "ct_tables K (tb_name tb) \<noteq> None"
  shows "run_migration dl (concat (map (column_statements C renamed S t) chs)) K =
    on_table (tb_name tb) (run_table (concat (map (column_steps dl C) chs))) K"
  using assms(2,3)
proof (induction chs arbitrary: K)
  case Nil
  then show ?case by (auto simp: on_table_Some)
next
  case (Cons ch chs)
  have first: "run_migration dl (column_statements C renamed S t ch) K =
      on_table (tb_name tb) (run_table (column_steps dl C ch)) K"
    using Cons.prems by (intro run_column_statement [OF assms(1)]) auto
  have rest: "run_migration dl (concat (map (column_statements C renamed S t) chs)) K' =
      on_table (tb_name tb) (run_table (concat (map (column_steps dl C) chs))) K'"
    if "on_table (tb_name tb) (run_table (column_steps dl C ch)) K = Some K'" for K'
    using that Cons.prems by (intro Cons.IH) (auto simp: on_table_def split: Option.bind_splits)
  have steps: "run_table (concat (map (column_steps dl C) (ch # chs))) =
      (\<lambda>T. Option.bind (run_table (column_steps dl C ch) T) (run_table (concat (map (column_steps dl C) chs))))"
    by (rule ext) (simp add: run_table_append)
  have "on_table (tb_name tb) (run_table (concat (map (column_steps dl C) (ch # chs)))) K =
      Option.bind (on_table (tb_name tb) (run_table (column_steps dl C ch)) K)
        (on_table (tb_name tb) (run_table (concat (map (column_steps dl C) chs))))"
    unfolding steps by (rule on_table_bind [symmetric])
  then show ?case
    by (cases "on_table (tb_name tb) (run_table (column_steps dl C ch)) K")
      (simp_all add: run_migration_append first rest)
qed

subsection \<open>One altered column\<close>

text \<open>The databases the capabilities describe: MySQL takes a whole definition, PostgreSQL one
  property at a time, SQLite can only rename.\<close>

definition dialect_supports :: "dialect \<Rightarrow> capability \<Rightarrow> bool" where
  "dialect_supports dl C \<longleftrightarrow>
     (case dl of
        Postgresql \<Rightarrow> \<not> cb_alter_column_properties_atomic C \<and> cb_alter_column_type C \<and> cb_native_enum C
      | Sqlite \<Rightarrow> \<not> cb_alter_column_properties_atomic C \<and> \<not> cb_alter_column_type C
      | _ \<Rightarrow> cb_alter_column_properties_atomic C \<and> cb_alter_column_type C \<and> cb_native_enum C)"

lemma rename_in_same [simp]: "rename_in a a = (\<lambda>x. x)"
  by (auto simp: rename_in_def)

lemma column_def_simps [simp]:
  "cd_name (column_def_of C c) = co_name c" "cd_not_null (column_def_of C c) \<longleftrightarrow> \<not> co_nullable c"
  "cd_auto_increment (column_def_of C c) = co_auto_increment c"
  by (simp_all add: column_def_of_def split: db_ty.split bool.split)

lemma column_def_native:
  "cb_native_enum C \<Longrightarrow> cd_ty (column_def_of C c) = co_storage_ty c"
  "cb_native_enum C \<Longrightarrow> check_list (column_def_of C c) = None"
  by (simp_all add: column_def_of_def check_list_def split: db_ty.split)

lemma column_def_same_ty:
  assumes "co_storage_ty p = co_storage_ty n"
  shows "cd_ty (column_def_of C p) = cd_ty (column_def_of C n)"
    and "check_list (column_def_of C p) = check_list (column_def_of C n)"
  using assms by (simp_all add: column_def_of_def check_list_def split: db_ty.split bool.split)

definition renamed_table :: "string \<Rightarrow> string \<Rightarrow> 'd cat_column \<Rightarrow> 'd cat_table \<Rightarrow> 'd cat_table" where
  "renamed_table a b k T =
     \<lparr>kt_columns = (kt_columns T)(a := None, b \<mapsto> k), kt_pk = map (rename_in a b) (kt_pk T),
      kt_indices = (\<lambda>x. map_option (apfst (map (apfst (rename_in a b)))) (kt_indices T x))\<rparr>"

lemma apfst_id [simp]: "apfst (\<lambda>x. x) = (\<lambda>x. x)" "map_option (\<lambda>x. x) = (\<lambda>x. x)"
  by (auto simp: apfst_def map_prod_def option.map_ident)

lemma renamed_table_same [simp]: "renamed_table a a k T = T\<lparr>kt_columns := (kt_columns T)(a \<mapsto> k)\<rparr>"
  by (cases T) (simp add: renamed_table_def)

lemma alter_one:
  assumes "kt_columns T (cd_name d) = Some k" "altered_column dl d ch k = Some k'"
    and "(case cc_name ch of Some b \<Rightarrow> b | None \<Rightarrow> cd_name d) = b"
    and "b \<noteq> cd_name d \<Longrightarrow> kt_columns T b = None"
  shows "alter_table_column dl d ch T = Some (renamed_table (cd_name d) b k' T)"
  unfolding alter_table_column_def Let_def renamed_table_def assms(3) using assms(1,2,4)
  by (cases "b = cd_name d") simp_all

lemma alter_properties:
  assumes "kt_columns T (cd_name d) = Some k" "cc_name ch = None" "one_change ch"
  shows "alter_table_column Postgresql d ch T =
    Some (T\<lparr>kt_columns := (kt_columns T)(cd_name d \<mapsto> changed_column ch k)\<rparr>)"
  using alter_one [OF assms(1), of Postgresql ch "changed_column ch k" "cd_name d"] assms(2,3)
  by (simp add: altered_column_def)

lemma one_change_simps [simp]:
  "one_change (no_changes\<lparr>cc_ty := Some t\<rparr>)" "one_change (no_changes\<lparr>cc_not_null := Some b\<rparr>)"
  "one_change (no_changes\<lparr>cc_auto_increment := Some b\<rparr>)" "one_change (no_changes\<lparr>cc_name := Some s\<rparr>)"
  by (simp_all add: one_change_def no_changes_def)

lemma changed_column_simps [simp]:
  "changed_column (no_changes\<lparr>cc_ty := Some t\<rparr>) k = k\<lparr>kc_ty := t\<rparr>"
  "changed_column (no_changes\<lparr>cc_not_null := Some b\<rparr>) k = k\<lparr>kc_not_null := b\<rparr>"
  "changed_column (no_changes\<lparr>cc_auto_increment := Some b\<rparr>) k = k\<lparr>kc_auto_increment := b\<rparr>"
  "changed_column (no_changes\<lparr>cc_name := Some s\<rparr>) k = k"
  by (simp_all add: changed_column_def no_changes_def)

lemma no_changes_simps [simp]:
  "cc_name no_changes = None" "cc_ty no_changes = None" "cc_not_null no_changes = None"
  "cc_auto_increment no_changes = None"
  by (simp_all add: no_changes_def)


definition property_changes :: "column_changes \<Rightarrow> column_changes list" where
  "property_changes ch = split_changes (ch\<lparr>cc_name := None\<rparr>)"

lemma split_changes_eq:
  "split_changes ch = property_changes ch @ (if cc_name ch \<noteq> None then [no_changes\<lparr>cc_name := cc_name ch\<rparr>] else [])"
  by (simp add: property_changes_def split_changes_def)

lemma property_changes_ok: "list_all (\<lambda>x. cc_name x = None \<and> one_change x) (property_changes ch)"
  by (auto simp: property_changes_def split_changes_def)

lemma run_properties:
  assumes "list_all (\<lambda>x. cc_name x = None \<and> one_change x) chs" "kt_columns T (cd_name d) = Some k"
  shows "run_table (map (alter_table_column Postgresql d) chs) T =
    Some (T\<lparr>kt_columns := (kt_columns T)(cd_name d \<mapsto> fold changed_column chs k)\<rparr>)"
  using assms
proof (induction chs arbitrary: T k)
  case Nil
  then show ?case by (cases T) (simp add: fun_upd_idem)
next
  case (Cons ch chs)
  let ?T = "T\<lparr>kt_columns := (kt_columns T)(cd_name d \<mapsto> changed_column ch k)\<rparr>"
  have "alter_table_column Postgresql d ch T = Some ?T" using Cons.prems by (simp add: alter_properties)
  moreover have "run_table (map (alter_table_column Postgresql d) chs) ?T =
      Some (?T\<lparr>kt_columns := (kt_columns ?T)(cd_name d \<mapsto> fold changed_column chs (changed_column ch k))\<rparr>)"
    using Cons.prems by (intro Cons.IH) simp_all
  moreover have "?T\<lparr>kt_columns := (kt_columns ?T)(cd_name d \<mapsto> x)\<rparr> = T\<lparr>kt_columns := (kt_columns T)(cd_name d \<mapsto> x)\<rparr>" for x
    by (cases T) (simp add: fun_eq_iff)
  ultimately show ?case
    by (simp only: list.map run_table.simps fold_simps Option.bind.bind_lunit)
qed

lemma fold_property_changes:
  assumes "cb_native_enum C"
  shows "fold changed_column (property_changes (changes_from_diff p n)) (new_column (column_def_of C p) v) =
    new_column (column_def_of C n) v"
  using assms
  by (auto simp: property_changes_def split_changes_def changes_from_diff_def new_column_def column_def_native)

lemma changed_whole:
  assumes "cb_native_enum C"
  shows "changed_column (changes_from_diff p n) (new_column (column_def_of C p) v) = new_column (column_def_of C n) v"
  using assms by (auto simp: changed_column_def changes_from_diff_def new_column_def column_def_native)

lemma new_column_unchanged:
  assumes "\<not> has_type_change (changes_from_diff p n)"
  shows "new_column (column_def_of C p) v = new_column (column_def_of C n) v"
proof -
  have "co_storage_ty p = co_storage_ty n" "co_nullable p = co_nullable n" "co_auto_increment p = co_auto_increment n"
    using assms unfolding has_type_change_def changes_from_diff_def by (simp_all split: if_splits)
  then show ?thesis using column_def_same_ty [of p n C] by (simp add: new_column_def)
qed

lemma changes_name [simp]:
  "cc_name (changes_from_diff p n) = (if co_name p \<noteq> co_name n then Some (co_name n) else None)"
  by (simp add: changes_from_diff_def)

lemma alter_steps_atomic:
  assumes "cb_alter_column_properties_atomic C" "cb_native_enum C" "dl = Mysql \<or> dl = MariaDb"
    and "kt_columns T (co_name p) = Some (new_column (column_def_of C p) v)"
    and "co_name n \<noteq> co_name p \<Longrightarrow> kt_columns T (co_name n) = None"
  shows "run_table (column_steps dl C (ColumnAlter p n)) T =
    Some (renamed_table (co_name p) (co_name n) (new_column (column_def_of C n) v) T)"
proof -
  let ?k = "new_column (column_def_of C p) v"
  have "altered_column dl (column_def_of C p) (changes_from_diff p n) ?k = Some (new_column (column_def_of C n) v)"
    using assms(2,3) changed_whole [of C p n v]
    by (auto simp: altered_column_def) (simp_all add: new_column_def)
  then show ?thesis
    using assms alter_one [of T "column_def_of C p" ?k dl "changes_from_diff p n" _ "co_name n"]
    by (simp add: column_steps_def)
qed

lemma alter_steps_postgresql:
  assumes "\<not> cb_alter_column_properties_atomic C" "cb_native_enum C"
    and "kt_columns T (co_name p) = Some (new_column (column_def_of C p) v)"
    and "co_name n \<noteq> co_name p \<Longrightarrow> kt_columns T (co_name n) = None"
  shows "run_table (column_steps Postgresql C (ColumnAlter p n)) T =
    Some (renamed_table (co_name p) (co_name n) (new_column (column_def_of C n) v) T)"
proof -
  let ?d = "column_def_of C p" and ?k = "new_column (column_def_of C n) v"
  let ?T = "T\<lparr>kt_columns := (kt_columns T)(co_name p \<mapsto> ?k)\<rparr>"
  have props: "run_table (map (alter_table_column Postgresql ?d) (property_changes (changes_from_diff p n))) T = Some ?T"
    using run_properties [OF property_changes_ok, of T ?d] assms(2,3) by (simp add: fold_property_changes)
  have "alter_table_column Postgresql ?d (no_changes\<lparr>cc_name := Some (co_name n)\<rparr>) ?T =
      Some (renamed_table (co_name p) (co_name n) ?k ?T)" if "co_name p \<noteq> co_name n"
    using that assms(4) alter_one [of ?T ?d ?k Postgresql "no_changes\<lparr>cc_name := Some (co_name n)\<rparr>" ?k "co_name n"]
    by (simp add: altered_column_def)
  moreover have "renamed_table (co_name p) (co_name n) ?k ?T = renamed_table (co_name p) (co_name n) ?k T"
    by (simp add: renamed_table_def)
  ultimately show ?thesis
    using assms(1) props by (simp add: column_steps_def split_changes_eq run_table_append)
qed

lemma alter_steps_sqlite:
  assumes "\<not> cb_alter_column_properties_atomic C" "\<not> has_type_change (changes_from_diff p n)"
    and "kt_columns T (co_name p) = Some (new_column (column_def_of C p) v)"
    and "co_name n \<noteq> co_name p \<Longrightarrow> kt_columns T (co_name n) = None"
  shows "run_table (column_steps Sqlite C (ColumnAlter p n)) T =
    Some (renamed_table (co_name p) (co_name n) (new_column (column_def_of C n) v) T)"
proof -
  let ?d = "column_def_of C p" and ?k = "new_column (column_def_of C n) v"
  have props: "property_changes (changes_from_diff p n) = []"
    using assms(2) by (simp add: has_type_change_def property_changes_def split_changes_def)
  have k: "kt_columns T (co_name p) = Some ?k" using assms(3) new_column_unchanged [OF assms(2)] by simp
  show ?thesis
  proof (cases "co_name p = co_name n")
    case True
    then show ?thesis using assms(1) props k
      by (cases T) (simp add: column_steps_def split_changes_eq fun_upd_idem)
  next
    case False
    then show ?thesis
      using assms(1,4) props k
        alter_one [of T ?d ?k Sqlite "no_changes\<lparr>cc_name := Some (co_name n)\<rparr>" ?k "co_name n"]
      by (simp add: column_steps_def split_changes_eq altered_column_def)
  qed
qed

lemma alter_steps:
  assumes "dialect_supports dl C" "dl = Sqlite \<Longrightarrow> \<not> has_type_change (changes_from_diff p n)"
    and "kt_columns T (co_name p) = Some (new_column (column_def_of C p) v)"
    and "co_name n \<noteq> co_name p \<Longrightarrow> kt_columns T (co_name n) = None"
  shows "run_table (column_steps dl C (ColumnAlter p n)) T =
    Some (renamed_table (co_name p) (co_name n) (new_column (column_def_of C n) v) T)"
  using assms
  by (cases dl) (auto simp: dialect_supports_def intro!: alter_steps_atomic alter_steps_postgresql alter_steps_sqlite)

end
