(* ===== verification/MigrateTable.thy ===== *)
theory MigrateTable
  imports MigrateColumns
begin

text \<open>
  A table between two schemas: some columns already have their next definition, the others the
  previous one, and the primary key and the surviving indices name the columns as they are now.
\<close>

subsection \<open>Names during a migration\<close>

definition current :: "('i, 'a, 'c) differ \<Rightarrow> 'a list \<Rightarrow> 'a list \<Rightarrow> 'a \<Rightarrow> 'a" where
  "current D next ds q =
     (if q \<in> set ds then (case partner D next q of Some m \<Rightarrow> m | None \<Rightarrow> q) else q)"

lemma current_name_differs:
  assumes m: "matching D prev next" and q: "q \<in> set prev" "q \<notin> set ps"
    and r: "r \<in> set prev" "r \<noteq> q" "partner D next r \<noteq> None"
  shows "df_name D (current D next ps r) \<noteq> df_name D q"
proof (cases "r \<in> set ps")
  case True
  from r obtain n where n: "partner D next r = Some n" by auto
  have "df_name D n \<noteq> df_name D q"
  proof
    assume "df_name D n = df_name D q"
    then have "partner D next q = Some n" using partner_same_name [OF m q(1) partner_in [OF n]] by simp
    then show False using partner_inj [OF m q(1) r(1) _ n] r(2) by simp
  qed
  with True n show ?thesis by (simp add: current_def)
next
  case False
  have "inj_on (df_name D) (set prev)" using m by (simp add: matching_def distinct_map)
  with False q r show ?thesis by (auto simp: current_def inj_on_def)
qed

lemma current_step:
  assumes m: "matching D prev next" and q: "q \<in> set prev" "q \<notin> set ps" "partner D next q = Some n"
    and r: "r \<in> set prev" "partner D next r \<noteq> None"
  shows "df_name D (current D next (ps @ [q]) r) =
    rename_in (df_name D q) (df_name D n) (df_name D (current D next ps r))"
proof (cases "r = q")
  case True
  with q show ?thesis by (simp add: current_def rename_in_def)
next
  case False
  with current_name_differs [OF m q(1,2) r(1) _ r(2)] show ?thesis by (simp add: current_def rename_in_def)
qed

lemma current_skip:
  assumes "partner D next q = None" "partner D next r \<noteq> None"
  shows "current D next (ps @ [q]) r = current D next ps r"
  using assms by (auto simp: current_def)

subsection \<open>The columns of one table\<close>

definition sort_of :: "index_column \<Rightarrow> direction option" where
  "sort_of c = (case ic_op c of IxEq \<Rightarrow> None | IxSort dir \<Rightarrow> Some dir)"

definition named_index :: "(nat \<Rightarrow> string) \<Rightarrow> db_index \<Rightarrow> cat_index" where
  "named_index nm x = (map (\<lambda>c. (nm (snd (ic_column c)), sort_of c)) (ix_columns x), ix_unique x)"

lemma index_of_named: "index_of cols x = named_index (\<lambda>i. co_name (cols ! i)) x"
  by (simp add: index_of_def named_index_def sort_of_def)

definition col_fin :: "capability \<Rightarrow> (column_id \<Rightarrow> 'd option) \<Rightarrow> column \<Rightarrow> column \<Rightarrow> 'd cat_column" where
  "col_fin C v q m = new_column (column_def_of C m) (v (co_id q))"

definition col_ini :: "capability \<Rightarrow> (column_id \<Rightarrow> 'd option) \<Rightarrow> column \<Rightarrow> 'd cat_column" where
  "col_ini C v q = new_column (column_def_of C q) (v (co_id q))"

definition mid_table ::
  "capability \<Rightarrow> (column_id \<Rightarrow> 'd option) \<Rightarrow> (column_id, column, column_change) differ \<Rightarrow> column list \<Rightarrow> column list \<Rightarrow>
   db_index list \<Rightarrow> nat list \<Rightarrow> column list \<Rightarrow> column list \<Rightarrow> 'd cat_table" where
  "mid_table C v D prev next R pks ds ts =
     (let nm = (\<lambda>i. co_name (current D next ds (prev ! i))) in
      \<lparr>kt_columns = map_of (entries D next (col_fin C v) (col_ini C v) ds ts),
       kt_pk = map nm pks,
       kt_indices = map_of (map (\<lambda>x. (ix_name x, named_index nm x)) R)\<rparr>)"

lemma mid_table_simps [simp]:
  "kt_columns (mid_table C v D prev next R pks ds ts) = map_of (entries D next (col_fin C v) (col_ini C v) ds ts)"
  "kt_pk (mid_table C v D prev next R pks ds ts) = map (\<lambda>i. co_name (current D next ds (prev ! i))) pks"
  "kt_indices (mid_table C v D prev next R pks ds ts) =
     map_of (map (\<lambda>x. (ix_name x, named_index (\<lambda>i. co_name (current D next ds (prev ! i))) x)) R)"
  by (simp_all add: mid_table_def Let_def)

definition column_item :: "(column_id, column, column_change) differ \<Rightarrow> column list \<Rightarrow> column \<Rightarrow> column_change list" where
  "column_item D next = item_changes D next (\<lambda>q m. if column_has_diff q m then [ColumnAlter q m] else [])"

text \<open>The columns the primary key and the surviving indices need are kept.\<close>

definition needed_kept ::
  "('i, column, 'c) differ \<Rightarrow> column list \<Rightarrow> column list \<Rightarrow> db_index list \<Rightarrow> nat list \<Rightarrow> bool" where
  "needed_kept D prev next R pks \<longleftrightarrow>
     (\<forall>i \<in> set pks. i < length prev \<and> partner D next (prev ! i) \<noteq> None) \<and>
     (\<forall>x \<in> set R. \<forall>c \<in> set (ix_columns x).
        snd (ic_column c) < length prev \<and> partner D next (prev ! snd (ic_column c)) \<noteq> None)"

definition only_renames :: "('i, column, 'c) differ \<Rightarrow> column list \<Rightarrow> column list \<Rightarrow> bool" where
  "only_renames D prev next \<longleftrightarrow>
     (\<forall>q \<in> set prev. \<forall>m. partner D next q = Some m \<longrightarrow> column_has_diff q m \<longrightarrow>
        \<not> has_type_change (changes_from_diff q m))"

lemma neededD:
  "needed_kept D prev next R pks \<Longrightarrow> i \<in> set pks \<Longrightarrow> prev ! i \<in> set prev \<and> partner D next (prev ! i) \<noteq> None"
  "needed_kept D prev next R pks \<Longrightarrow> x \<in> set R \<Longrightarrow> c \<in> set (ix_columns x) \<Longrightarrow>
     prev ! snd (ic_column c) \<in> set prev \<and> partner D next (prev ! snd (ic_column c)) \<noteq> None"
  by (auto simp: needed_kept_def)

lemma map_of_map_value: "map_of (map (\<lambda>x. (f x, h (g x))) xs) = map_option h \<circ> map_of (map (\<lambda>x. (f x, g x)) xs)"
  by (induction xs) (auto simp: fun_eq_iff)

lemma map_option_map_of_list: "map_of (map (\<lambda>x. (f x, h (g x))) xs) k = map_option h (map_of (map (\<lambda>x. (f x, g x)) xs) k)"
  by (simp add: map_of_map_value)

lemma named_index_rename:
  assumes "\<And>c. c \<in> set (ix_columns x) \<Longrightarrow> nm' (snd (ic_column c)) = f (nm (snd (ic_column c)))"
  shows "named_index nm' x = apfst (map (apfst f)) (named_index nm x)"
  using assms by (simp add: named_index_def)

lemma named_index_cong:
  assumes "\<And>c. c \<in> set (ix_columns x) \<Longrightarrow> nm' (snd (ic_column c)) = nm (snd (ic_column c))"
  shows "named_index nm' x = named_index nm x"
  using assms by (simp add: named_index_def)

lemma df_simps [simp]:
  "df_name (column_differ cx) = co_name" "df_id (column_differ cx) = co_id"
  "df_dropped (column_differ cx) = ColumnDrop" "df_added (column_differ cx) = ColumnAdd"
  "df_lookup (column_differ cx) = schema_column (cx_next cx)"
  "df_hint (column_differ cx) = rh_columns (cx_hints cx)"
  by (simp_all add: column_differ_def)

lemma mid_table_rename:
  fixes cx defines "D \<equiv> column_differ cx"
  assumes m: "matching D prev next" and d: "distinct (ps @ q # qs)" "set (ps @ q # qs) \<subseteq> set prev"
    and n: "partner D next q = Some n" and need: "needed_kept D prev next R pks"
  shows "renamed_table (co_name q) (co_name n) (col_fin C v q n) (mid_table C v D prev next R pks ps (q # qs)) =
    mid_table C v D prev next R pks (ps @ [q]) qs"
proof -
  have q: "q \<in> set prev" "q \<notin> set ps" using d by auto
  let ?f = "rename_in (co_name q) (co_name n)"
  have cols: "map_of (entries D next (col_fin C v) (col_ini C v) (ps @ [q]) qs) =
      (map_of (entries D next (col_fin C v) (col_ini C v) ps (q # qs)))(co_name q := None, co_name n \<mapsto> col_fin C v q n)"
    using entries_alter(1) [OF m d n] by (simp add: D_def)
  have nm: "co_name (current D next (ps @ [q]) r) = ?f (co_name (current D next ps r))"
    if "r \<in> set prev" "partner D next r \<noteq> None" for r
    using current_step [OF m q n that] by (simp add: D_def)
  have pk: "map (\<lambda>i. co_name (current D next (ps @ [q]) (prev ! i))) pks =
      map ?f (map (\<lambda>i. co_name (current D next ps (prev ! i))) pks)"
    using neededD(1) [OF need] nm by auto
  have "map_of (map (\<lambda>x. (ix_name x, named_index (\<lambda>i. co_name (current D next (ps @ [q]) (prev ! i))) x)) R) =
      map_of (map (\<lambda>x. (ix_name x, apfst (map (apfst ?f)) (named_index (\<lambda>i. co_name (current D next ps (prev ! i))) x))) R)"
    using neededD(2) [OF need] nm by (intro arg_cong [where f = map_of] map_cong refl) (auto intro!: named_index_rename)
  with cols pk show ?thesis
    by (simp add: renamed_table_def mid_table_def Let_def map_option_map_of_list fun_eq_iff)
qed

lemma mid_table_drop:
  fixes cx defines "D \<equiv> column_differ cx"
  assumes m: "matching D prev next" and d: "distinct (ps @ q # qs)" "set (ps @ q # qs) \<subseteq> set prev"
    and n: "partner D next q = None" and need: "needed_kept D prev next R pks"
  shows "drop_column (co_name q) (mid_table C v D prev next R pks ps (q # qs)) =
    Some (mid_table C v D prev next R pks (ps @ [q]) qs)"
proof -
  let ?T = "mid_table C v D prev next R pks ps (q # qs)"
  have q: "q \<in> set prev" "q \<notin> set ps" using d by auto
  have nm: "co_name (current D next ps r) \<noteq> co_name q" if r: "r \<in> set prev" "partner D next r \<noteq> None" for r
  proof -
    have "r \<noteq> q" using r n by auto
    from current_name_differs [OF m q r(1) this r(2)] show ?thesis by (simp add: D_def)
  qed
  have skip: "current D next (ps @ [q]) r = current D next ps r" if "partner D next r \<noteq> None" for r
    by (rule current_skip [OF n that])
  have "kt_columns ?T (co_name q) \<noteq> None"
    using entries_at [OF m d, of "col_fin C v" "col_ini C v"] by (simp add: D_def)
  moreover have "\<not> uses_column ?T (co_name q)"
  proof -
    have "co_name q \<notin> set (kt_pk ?T)"
      using neededD(1) [OF need] nm by fastforce
    moreover have "co_name q \<notin> fst ` set (fst ix)" if "ix \<in> ran (kt_indices ?T)" for ix
    proof -
      from that obtain x where "x \<in> set R" "ix = named_index (\<lambda>i. co_name (current D next ps (prev ! i))) x"
        by (auto simp: ran_def dest!: map_of_SomeD)
      with neededD(2) [OF need] nm show ?thesis by (fastforce simp: named_index_def)
    qed
    ultimately show ?thesis by (auto simp: uses_column_def)
  qed
  moreover have "?T\<lparr>kt_columns := (kt_columns ?T)(co_name q := None)\<rparr> = mid_table C v D prev next R pks (ps @ [q]) qs"
  proof -
    have "map (\<lambda>i. co_name (current D next (ps @ [q]) (prev ! i))) pks = map (\<lambda>i. co_name (current D next ps (prev ! i))) pks"
      using neededD(1) [OF need] skip by auto
    moreover have "map (\<lambda>x. (ix_name x, named_index (\<lambda>i. co_name (current D next (ps @ [q]) (prev ! i))) x)) R =
        map (\<lambda>x. (ix_name x, named_index (\<lambda>i. co_name (current D next ps (prev ! i))) x)) R"
      using neededD(2) [OF need] skip by (auto intro!: named_index_cong)
    ultimately show ?thesis
      using entries_drop [OF m d n, of "col_fin C v" "col_ini C v"]
      unfolding mid_table_def Let_def by (simp only: cat_table.update_convs cat_table.select_convs) (simp add: D_def)
  qed
  ultimately show ?thesis by (simp add: drop_column_def)
qed


lemma no_diff_same:
  "\<not> column_has_diff p n \<Longrightarrow> co_name n = co_name p \<and> new_column (column_def_of C n) w = new_column (column_def_of C p) w"
  using column_def_same_ty [of p n C] by (simp add: column_has_diff_def new_column_def)

lemma column_step_runs:
  fixes cx defines "D \<equiv> column_differ cx"
  assumes m: "matching D prev next" and d: "distinct (ps @ q # qs)" "set (ps @ q # qs) \<subseteq> set prev"
    and need: "needed_kept D prev next R pks"
    and dl: "dialect_supports dl C" "dl = Sqlite \<Longrightarrow> only_renames D prev next"
  shows "run_table (concat (map (column_steps dl C) (column_item D next q))) (mid_table C v D prev next R pks ps (q # qs)) =
    Some (mid_table C v D prev next R pks (ps @ [q]) qs)"
proof (cases "partner D next q")
  case None
  with mid_table_drop [OF m [unfolded D_def] d _ need [unfolded D_def]] show ?thesis
    by (simp add: column_item_def item_changes_def column_steps_def D_def)
next
  case (Some n)
  let ?T = "mid_table C v D prev next R pks ps (q # qs)"
  have at: "kt_columns ?T (co_name q) = Some (col_ini C v q)"
    using entries_at [OF m d, of "col_fin C v" "col_ini C v"] by (simp add: D_def)
  have mid: "renamed_table (co_name q) (co_name n) (col_fin C v q n) ?T = mid_table C v D prev next R pks (ps @ [q]) qs"
    unfolding D_def by (rule mid_table_rename) (use m d Some need in \<open>simp_all add: D_def\<close>)
  show ?thesis
  proof (cases "column_has_diff q n")
    case True
    have "run_table (column_steps dl C (ColumnAlter q n)) ?T = Some (renamed_table (co_name q) (co_name n) (col_fin C v q n) ?T)"
      unfolding col_fin_def
    proof (rule alter_steps [OF dl(1)])
      show "\<not> has_type_change (changes_from_diff q n)" if "dl = Sqlite"
        using dl(2) [OF that] Some True d by (auto simp: only_renames_def)
      show "kt_columns ?T (co_name q) = Some (new_column (column_def_of C q) (v (co_id q)))"
        using at by (simp add: col_ini_def)
      show "kt_columns ?T (co_name n) = None" if "co_name n \<noteq> co_name q"
        using entries_alter(2) [OF m d Some, of "col_fin C v" "col_ini C v"] that by (simp add: D_def)
    qed
    with True Some mid show ?thesis by (simp add: column_item_def item_changes_def)
  next
    case False
    with no_diff_same [OF this, of C "v (co_id q)"] at
    have "kt_columns ?T (co_name q) = Some (col_fin C v q n)" "co_name n = co_name q"
      by (simp_all add: col_ini_def col_fin_def)
    then have "renamed_table (co_name q) (co_name n) (col_fin C v q n) ?T = ?T"
      using renamed_table_same [of "co_name q" "col_fin C v q n" ?T] by (cases ?T) (simp add: fun_upd_idem)
    with mid False Some show ?thesis by (simp add: column_item_def item_changes_def)
  qed
qed

lemma columns_run:
  fixes cx defines "D \<equiv> column_differ cx"
  assumes m: "matching D prev next" and d: "distinct (ps @ qs)" "set (ps @ qs) \<subseteq> set prev"
    and need: "needed_kept D prev next R pks"
    and dl: "dialect_supports dl C" "dl = Sqlite \<Longrightarrow> only_renames D prev next"
  shows "run_table (concat (map (column_steps dl C) (concat (map (column_item D next) qs))))
      (mid_table C v D prev next R pks ps qs) = Some (mid_table C v D prev next R pks (ps @ qs) [])"
  using d
proof (induction qs arbitrary: ps)
  case (Cons q qs)
  have "run_table (concat (map (column_steps dl C) (column_item D next q))) (mid_table C v D prev next R pks ps (q # qs)) =
      Some (mid_table C v D prev next R pks (ps @ [q]) qs)"
    unfolding D_def by (rule column_step_runs) (use Cons.prems m need dl in \<open>simp_all add: D_def\<close>)
  with Cons.IH [of "ps @ [q]"] Cons.prems show ?case by (simp add: run_table_append)
qed simp

lemma adds_run:
  assumes "distinct (map fst es @ map co_name as)" "kt_columns T = map_of es"
  shows "run_table (map (\<lambda>c. add_column (column_def_of C c)) as) T =
    Some (T\<lparr>kt_columns := map_of (es @ map (\<lambda>c. (co_name c, new_column (column_def_of C c) None)) as)\<rparr>)"
  using assms
proof (induction as arbitrary: es T)
  case (Cons a as)
  let ?k = "new_column (column_def_of C a) None"
  have fresh: "map_of es (co_name a) = None" using Cons.prems(1) by (auto simp: map_of_eq_None_iff)
  then have upd: "(map_of es)(co_name a \<mapsto> ?k) = map_of (es @ [(co_name a, ?k)])"
    by (auto simp: map_add_def fun_eq_iff split: option.splits)
  have "add_column (column_def_of C a) T = Some (T\<lparr>kt_columns := map_of (es @ [(co_name a, ?k)])\<rparr>)"
    using Cons.prems(2) fresh unfolding upd [symmetric] by (simp add: add_column_def)
  with Cons.IH [of "es @ [(co_name a, ?k)]" "T\<lparr>kt_columns := map_of (es @ [(co_name a, ?k)])\<rparr>"] Cons.prems(1)
  show ?case by simp
qed simp

end
