(* ===== verification/MigrateIndices.thy ===== *)
theory MigrateIndices
  imports MigrateTable
begin

text \<open>
  The indices of an altered table: the ones that changed are dropped before the columns change
  and created again after it, the others survive under the names their columns end up with.
\<close>

subsection \<open>Unchanged indices\<close>

lemma any_ok_False: "any_ok P xs = Ok False \<longleftrightarrow> (\<forall>x \<in> set xs. P x = Ok False)"
  by (induction xs) (auto simp: rbind_eq_Ok split: if_splits)

lemma any_ok_total: "(\<And>x. x \<in> set xs \<Longrightarrow> \<not> isl (P x)) \<Longrightarrow> \<not> isl (any_ok P xs)"
proof (induction xs)
  case (Cons x xs)
  then have "\<not> isl (P x)" "\<not> isl (any_ok P xs)" by simp_all
  then show ?case by (cases "P x") simp_all
qed simp

definition column_kept :: "diff_context \<Rightarrow> index_column \<Rightarrow> index_column \<Rightarrow> bool" where
  "column_kept cx a b \<longleftrightarrow> ic_op a = ic_op b \<and> ic_scope a = ic_scope b \<and> index_columns_match cx a b = Ok True"

lemma index_unchanged:
  assumes "index_has_diff cx x y = Ok False"
  shows "ix_name x = ix_name y" "ix_unique x = ix_unique y" "ix_primary_key x = ix_primary_key y"
    "list_all2 (column_kept cx) (ix_columns x) (ix_columns y)"
proof -
  from assms have same: "ix_name x = ix_name y" "length (ix_columns x) = length (ix_columns y)"
    "ix_unique x = ix_unique y" "ix_primary_key x = ix_primary_key y"
    by (auto simp: index_has_diff_def split: if_splits)
  have "column_kept cx a b" if ab: "(a, b) \<in> set (zip (ix_columns x) (ix_columns y))" for a b
  proof -
    have "index_column_differs cx a b = Ok False"
      using assms same ab by (force simp: index_has_diff_def any_ok_False)
    then show ?thesis by (auto simp: index_column_differs_def column_kept_def rmap_eq_Ok split: if_splits)
  qed
  with same show "ix_name x = ix_name y" "ix_unique x = ix_unique y" "ix_primary_key x = ix_primary_key y"
    "list_all2 (column_kept cx) (ix_columns x) (ix_columns y)"
    by (auto simp: list_all2_iff)
qed

lemma wf_index_column:
  assumes "wf_schema S" "tb \<in> set S" "x \<in> set (tb_indices tb)" "c \<in> set (ix_columns x)"
  shows "snd (ic_column c) < length (tb_columns tb)" "co_id (tb_columns tb ! snd (ic_column c)) = ic_column c"
    "schema_column S (ic_column c) = Ok (tb_columns tb ! snd (ic_column c))"
proof -
  have wf: "wf_table (tb_id tb) tb" by (rule schema_table_wf [OF assms(1,2)])
  with assms(3,4) have c: "fst (ic_column c) = tb_id tb" "snd (ic_column c) < length (tb_columns tb)"
    by (auto simp: wf_table_def list_all_iff)
  let ?col = "tb_columns tb ! snd (ic_column c)"
  have "map co_id (tb_columns tb) ! snd (ic_column c) = (tb_id tb, snd (ic_column c))"
    using wf c by (simp add: wf_table_def)
  with c show id: "co_id ?col = ic_column c" by (simp add: prod_eq_iff)
  show "snd (ic_column c) < length (tb_columns tb)" by (rule c)
  show "schema_column S (ic_column c) = Ok ?col"
    using schema_column_wf [OF assms(1,2), of ?col] c by (simp add: id)
qed

lemma index_has_diff_total:
  assumes p: "wf_schema (cx_previous cx)" "p \<in> set (cx_previous cx)" "x \<in> set (tb_indices p)"
    and n: "wf_schema (cx_next cx)" "n \<in> set (cx_next cx)" "y \<in> set (tb_indices n)"
  shows "\<exists>b. index_has_diff cx x y = Ok b"
proof -
  have columns: "\<not> isl (index_columns_match cx a c)" if "a \<in> set (ix_columns x)" "c \<in> set (ix_columns y)" for a c
    using wf_index_column(3) [OF p that(1)] wf_index_column(3) [OF n that(2)]
    by (simp add: index_columns_match_def split: option.split)
  have "\<not> isl (index_column_differs cx a c)" if ac: "a \<in> set (ix_columns x)" "c \<in> set (ix_columns y)" for a c
  proof -
    obtain b where "index_columns_match cx a c = Ok b"
      using columns [OF ac] by (cases "index_columns_match cx a c") auto
    then show ?thesis by (simp add: index_column_differs_def)
  qed
  then have "\<not> isl (any_ok (case_prod (index_column_differs cx)) (zip (ix_columns x) (ix_columns y)))"
    by (intro any_ok_total) (auto dest: set_zip_leftD set_zip_rightD)
  then have "\<not> isl (index_has_diff cx x y)" by (simp add: index_has_diff_def)
  then show ?thesis by (cases "index_has_diff cx x y") auto
qed

lemma index_column_partner:
  assumes p: "wf_schema (cx_previous cx)" "p \<in> set (cx_previous cx)" "x \<in> set (tb_indices p)" "a \<in> set (ix_columns x)"
    and n: "wf_schema (cx_next cx)" "n \<in> set (cx_next cx)" "y \<in> set (tb_indices n)" "c \<in> set (ix_columns y)"
    and m: "matching (column_differ cx) (tb_columns p) (tb_columns n)"
    and kept: "column_kept cx a c"
  shows "partner (column_differ cx) (tb_columns n) (tb_columns p ! snd (ic_column a)) =
    Some (tb_columns n ! snd (ic_column c))"
proof -
  let ?q = "tb_columns p ! snd (ic_column a)" and ?r = "tb_columns n ! snd (ic_column c)"
  note P = wf_index_column [OF p] and N = wf_index_column [OF n]
  have r: "?r \<in> set (tb_columns n)" using N(1) by simp
  have q: "?q \<in> set (tb_columns p)" using P(1) by simp
  show ?thesis
  proof (cases "rh_columns (cx_hints cx) (ic_column a)")
    case (Some i)
    with kept have "i = ic_column c" by (simp add: column_kept_def index_columns_match_def)
    moreover have "find (\<lambda>m. co_id m = ic_column c) (tb_columns n) = Some ?r"
    proof (rule find_unique [where P = "\<lambda>m. co_id m = ic_column c", OF r N(2)])
      fix z assume z: "z \<in> set (tb_columns n)" "co_id z = ic_column c"
      have "wf_table (tb_id n) n" by (rule schema_table_wf [OF n(1,2)])
      from wf_table_columns(3) [OF this z(1)] z(2) show "z = ?r" by simp
    qed
    ultimately show ?thesis using Some by (simp add: partner_def P(2))
  next
    case None
    with kept have "co_name ?r = co_name ?q" by (simp add: column_kept_def index_columns_match_def P(3) N(3))
    then show ?thesis using partner_same_name [OF m q r] by simp
  qed
qed

subsection \<open>Surviving indices\<close>

definition survives :: "diff_context \<Rightarrow> db_table \<Rightarrow> db_index \<Rightarrow> bool" where
  "survives cx n x \<longleftrightarrow>
     (case partner (index_differ cx) (tb_indices n) x of
        Some y \<Rightarrow> index_has_diff cx x y = Ok False
      | None \<Rightarrow> False)"

definition survivors :: "diff_context \<Rightarrow> db_table \<Rightarrow> db_table \<Rightarrow> db_index list" where
  "survivors cx p n = filter (survives cx n) (secondary p)"

definition index_item :: "diff_context \<Rightarrow> db_table \<Rightarrow> db_index \<Rightarrow> index_change list" where
  "index_item cx n = item_changes (index_differ cx) (tb_indices n)
     (\<lambda>x y. if index_has_diff cx x y = Ok False then [] else [IndexAlter x y])"

lemma index_df_simps [simp]:
  "df_name (index_differ cx) = ix_name" "df_id (index_differ cx) = ix_id"
  "df_dropped (index_differ cx) = IndexDrop" "df_added (index_differ cx) = IndexCreate"
  "df_lookup (index_differ cx) = schema_index (cx_next cx)"
  "df_hint (index_differ cx) = rh_indices (cx_hints cx)"
  by (simp_all add: index_differ_def)

lemma index_diff_eq:
  assumes p: "wf_schema (cx_previous cx)" "p \<in> set (cx_previous cx)"
    and n: "wf_schema (cx_next cx)" "n \<in> set (cx_next cx)"
    and m: "matching (index_differ cx) (tb_indices p) (tb_indices n)"
  shows "\<exists>as. index_diff cx (tb_indices p) (tb_indices n) =
      Ok (concat (map (index_item cx n) (tb_indices p)) @ map IndexCreate as) \<and>
    mset as = mset (unmatched (index_differ cx) (tb_indices p) (tb_indices n))"
proof -
  have "df_changed (index_differ cx) x y = Ok (if index_has_diff cx x y = Ok False then [] else [IndexAlter x y])"
    if "x \<in> set (tb_indices p)" "partner (index_differ cx) (tb_indices n) x = Some y" for x y
    using index_has_diff_total [OF p that(1) n partner_in [OF that(2)]] by (auto simp: index_differ_def)
  from diff_items_eq [OF _ this] m show ?thesis
    unfolding index_diff_def index_item_def by (simp add: matching_def)
qed

text \<open>The primary key and its index are not touched by the difference.\<close>

definition pk_kept :: "diff_context \<Rightarrow> db_table \<Rightarrow> db_table \<Rightarrow> bool" where
  "pk_kept cx p n \<longleftrightarrow>
     list_all2 (\<lambda>a b. partner (column_differ cx) (tb_columns n) (tb_columns p ! snd a) = Some (tb_columns n ! snd b))
       (pk_columns (tb_primary_key p)) (pk_columns (tb_primary_key n)) \<and>
     (\<forall>x \<in> set (tb_indices p). ix_primary_key x \<longrightarrow> survives cx n x) \<and>
     (\<forall>y \<in> set (tb_indices n). ix_primary_key y \<longrightarrow>
        (\<exists>x \<in> set (tb_indices p). partner (index_differ cx) (tb_indices n) x = Some y \<and> survives cx n x))"

definition dropped_indices :: "diff_context \<Rightarrow> db_table \<Rightarrow> db_table \<Rightarrow> db_index list" where
  "dropped_indices cx p n = filter (\<lambda>x. \<not> survives cx n x) (tb_indices p)"

lemma index_drops_eq:
  "index_drops cx (concat (map (index_item cx n) xs) @ map IndexCreate as) =
     map (\<lambda>x. (DropIndex (ix_name x), cx_previous cx)) (filter (\<lambda>x. \<not> survives cx n x) xs)"
proof (induction xs)
  case Nil
  show ?case by (induction as) (simp_all add: index_drops_def)
next
  case (Cons x xs)
  then show ?case
    by (cases "partner (index_differ cx) (tb_indices n) x")
      (auto simp: index_drops_def index_item_def item_changes_def survives_def)
qed

definition altered_indices :: "diff_context \<Rightarrow> db_table \<Rightarrow> db_index list \<Rightarrow> db_index list" where
  "altered_indices cx n xs =
     concat (map (\<lambda>x. case partner (index_differ cx) (tb_indices n) x of
         Some y \<Rightarrow> if survives cx n x then [] else [y]
       | None \<Rightarrow> []) xs)"

lemma index_creates_eq:
  "index_creates cx (concat (map (index_item cx n) xs) @ map IndexCreate as) =
     map (\<lambda>y. (create_index y, cx_next cx)) (altered_indices cx n xs @ as)"
proof (induction xs)
  case Nil
  show ?case by (induction as) (simp_all add: index_creates_def altered_indices_def)
next
  case (Cons x xs)
  then show ?case
    by (cases "partner (index_differ cx) (tb_indices n) x")
      (auto simp: index_creates_def index_item_def item_changes_def survives_def altered_indices_def)
qed

end
