(* ===== verification/MigrateAlter.thy ===== *)
theory MigrateAlter
  imports MigrateIndices
begin

text \<open>
  The statements of one altered table: renaming it, dropping the indices that change, changing
  the columns in place, creating the indices again.
\<close>

subsection \<open>Dropping and creating indices\<close>

definition with_table :: "string \<Rightarrow> 'd cat_table \<Rightarrow> 'd catalog \<Rightarrow> 'd catalog" where
  "with_table nm T K = K\<lparr>ct_tables := (ct_tables K)(nm \<mapsto> T)\<rparr>"

lemma with_table_simps [simp]:
  "ct_tables (with_table nm T K) = (ct_tables K)(nm \<mapsto> T)" "ct_types (with_table nm T K) = ct_types K"
  "with_table nm T (with_table nm T' K) = with_table nm T K"
  by (simp_all add: with_table_def)

lemma with_table_same: "ct_tables K nm = Some T \<Longrightarrow> with_table nm T K = K"
  by (cases K) (simp add: with_table_def fun_upd_idem)

text \<open>No other table of the catalog has one of the names.\<close>

definition own_names :: "'d catalog \<Rightarrow> string \<Rightarrow> string set \<Rightarrow> bool" where
  "own_names K nm names \<longleftrightarrow>
     (\<forall>t T. t \<noteq> nm \<longrightarrow> ct_tables K t = Some T \<longrightarrow> (\<forall>x \<in> names. kt_indices T x = None))"

lemma own_names_with_table [simp]: "own_names (with_table nm T K) nm names = own_names K nm names"
  by (simp add: own_names_def)

lemma own_names_mono: "own_names K nm names \<Longrightarrow> names' \<subseteq> names \<Longrightarrow> own_names K nm names'"
  by (auto simp: own_names_def)

lemma drop_index_own:
  assumes "ct_tables K nm = Some T" "own_names K nm {x}" "kt_indices T x \<noteq> None"
  shows "drop_index x K = Some (with_table nm (T\<lparr>kt_indices := (kt_indices T)(x := None)\<rparr>) K)"
proof -
  have "T'\<lparr>kt_indices := (kt_indices T')(x := None)\<rparr> = T'" if "ct_tables K t = Some T'" "t \<noteq> nm" for t T'
    using assms(2) that by (cases T') (force simp: own_names_def intro!: fun_upd_idem)
  then have "map_option (\<lambda>T. T\<lparr>kt_indices := (kt_indices T)(x := None)\<rparr>) (ct_tables K t) =
      ((ct_tables K)(nm \<mapsto> T\<lparr>kt_indices := (kt_indices T)(x := None)\<rparr>)) t" for t
    using assms(1) by (cases "ct_tables K t") auto
  moreover have "has_index K x" using assms(1,3) by (auto simp: has_index_def ran_def)
  ultimately show ?thesis by (simp add: drop_index_def with_table_def fun_eq_iff)
qed

lemma drops_run:
  assumes "ct_tables K nm = Some T" "own_names K nm (ix_name ` set xs)" "distinct (map ix_name xs)"
    and "\<And>x. x \<in> set xs \<Longrightarrow> kt_indices T (ix_name x) \<noteq> None"
  shows "run_migration dl (map (\<lambda>x. (DropIndex (ix_name x), S)) xs) K =
    Some (with_table nm (T\<lparr>kt_indices := kt_indices T |` (- ix_name ` set xs)\<rparr>) K)"
  using assms
proof (induction xs arbitrary: K T)
  case Nil
  then show ?case by (cases T) (simp add: with_table_same)
next
  case (Cons x xs)
  let ?T = "T\<lparr>kt_indices := (kt_indices T)(ix_name x := None)\<rparr>"
  have "run_ddl dl (DropIndex (ix_name x), S) K = Some (with_table nm ?T K)"
    using Cons.prems drop_index_own [of K nm T "ix_name x"] own_names_mono [of K nm _ "{ix_name x}"]
    by (simp add: run_ddl_def)
  moreover have "run_migration dl (map (\<lambda>x. (DropIndex (ix_name x), S)) xs) (with_table nm ?T K) =
      Some (with_table nm (?T\<lparr>kt_indices := kt_indices ?T |` (- ix_name ` set xs)\<rparr>) (with_table nm ?T K))"
  proof (rule Cons.IH)
    show "own_names (with_table nm ?T K) nm (ix_name ` set xs)"
      using Cons.prems(2) own_names_mono [of K nm _ "ix_name ` set xs"] by auto
    have "ix_name y \<noteq> ix_name x" if "y \<in> set xs" for y using Cons.prems(3) that by (metis distinct.simps(2) image_eqI list.map(2) list.set_map)
    with Cons.prems(4) show "kt_indices ?T (ix_name y) \<noteq> None" if "y \<in> set xs" for y using that by simp
  qed (use Cons.prems in simp_all)
  moreover have "?T\<lparr>kt_indices := kt_indices ?T |` (- ix_name ` set xs)\<rparr> =
      T\<lparr>kt_indices := kt_indices T |` (- ix_name ` set (x # xs))\<rparr>"
    by (cases T) (auto simp: restrict_map_def fun_eq_iff)
  ultimately show ?case by simp
qed

definition index_entry :: "db_table \<Rightarrow> db_index \<Rightarrow> string \<times> cat_index" where
  "index_entry tb x = (ix_name x, index_of (tb_columns tb) x)"

lemma create_index_run:
  assumes S: "wf_schema S" "n \<in> set S" "y \<in> set (tb_indices n)"
    and T: "ct_tables K (tb_name n) = Some T" "co_name ` set (tb_columns n) \<subseteq> dom (kt_columns T)"
    and fresh: "\<not> has_index K (ix_name y)"
  shows "run_ddl dl (create_index y, S) K =
    Some (with_table (tb_name n) (T\<lparr>kt_indices := (kt_indices T)(ix_name y \<mapsto> index_of (tb_columns n) y)\<rparr>) K)"
proof -
  have on: "schema_table S (ix_on y) = Ok n"
    using schema_table_wf [OF S(1,2)] S(3) by (auto simp: wf_table_def list_all_iff)
  let ?nm = "\<lambda>c. co_name (tb_columns n ! snd (ic_column c))"
  have cols: "snd (ic_column c) < length (tb_columns n)" if "c \<in> set (ix_columns y)" for c
    by (rule wf_index_column(1) [OF S that])
  then have "opt_all (\<lambda>(e, dir). map_option (\<lambda>c. (c, dir)) (ref_name n e))
      (map (\<lambda>c. (column_ref (ic_column c), sort_of c)) (ix_columns y)) =
      Some (map (\<lambda>c. (?nm c, sort_of c)) (ix_columns y))"
    by (simp add: opt_all_eq_Some list_all2_conv_all_nth column_ref_def ref_name_def)
  moreover have "?nm c \<in> dom (kt_columns T)" if "c \<in> set (ix_columns y)" for c
    using cols [OF that] T(2) nth_mem by blast
  then have "fst ` set (map (\<lambda>c. (?nm c, sort_of c)) (ix_columns y)) \<subseteq> dom (kt_columns T)"
    by (metis (no_types, lifting) fst_conv image_subset_iff imageE list.set_map)
  ultimately show ?thesis
    using on schema_index_wf [OF S] fresh T(1)
    by (simp add: run_ddl_def create_index_def as_option_def on_table_def add_index_def with_table_def
        index_of_def flip: sort_of_def)
qed

lemma creates_run:
  assumes S: "wf_schema S" "n \<in> set S" "set ys \<subseteq> set (tb_indices n)" "distinct (map ix_name ys)"
    and T: "ct_tables K (tb_name n) = Some T" "co_name ` set (tb_columns n) \<subseteq> dom (kt_columns T)"
    and own: "own_names K (tb_name n) (ix_name ` set ys)" "\<And>y. y \<in> set ys \<Longrightarrow> kt_indices T (ix_name y) = None"
  shows "run_migration dl (map (\<lambda>y. (create_index y, S)) ys) K =
    Some (with_table (tb_name n) (T\<lparr>kt_indices := kt_indices T ++ map_of (map (index_entry n) ys)\<rparr>) K)"
  using S(3,4) T own
proof (induction ys arbitrary: K T)
  case Nil
  then show ?case by (cases T) (simp add: with_table_same)
next
  case (Cons y ys)
  let ?T = "T\<lparr>kt_indices := (kt_indices T)(ix_name y \<mapsto> index_of (tb_columns n) y)\<rparr>"
  have "kt_indices T' (ix_name y) = None" if "ct_tables K t = Some T'" for t T'
    using Cons.prems(3,5) Cons.prems(6) [of y] that by (cases "t = tb_name n") (auto simp: own_names_def)
  then have "\<not> has_index K (ix_name y)" by (auto simp: has_index_def ran_def)
  then have "run_ddl dl (create_index y, S) K = Some (with_table (tb_name n) ?T K)"
    using Cons.prems by (intro create_index_run [OF S(1,2)]) simp_all
  moreover have "run_migration dl (map (\<lambda>y. (create_index y, S)) ys) (with_table (tb_name n) ?T K) =
      Some (with_table (tb_name n) (?T\<lparr>kt_indices := kt_indices ?T ++ map_of (map (index_entry n) ys)\<rparr>)
        (with_table (tb_name n) ?T K))"
  proof (rule Cons.IH)
    show "own_names (with_table (tb_name n) ?T K) (tb_name n) (ix_name ` set ys)"
      using Cons.prems(5) own_names_mono [of K "tb_name n" _ "ix_name ` set ys"] by auto
    have "ix_name z \<noteq> ix_name y" if "z \<in> set ys" for z using Cons.prems(2) that by (metis distinct.simps(2) image_eqI list.map(2) list.set_map)
    with Cons.prems(6) show "kt_indices ?T (ix_name z) = None" if "z \<in> set ys" for z using that by simp
  qed (use Cons.prems in simp_all)
  moreover have "?T\<lparr>kt_indices := kt_indices ?T ++ map_of (map (index_entry n) ys)\<rparr> =
      T\<lparr>kt_indices := kt_indices T ++ map_of (map (index_entry n) (y # ys))\<rparr>"
  proof -
    have "ix_name y \<notin> fst ` set (map (index_entry n) ys)" using Cons.prems(2) by (auto simp: index_entry_def)
    then have "ix_name y \<notin> dom (map_of (map (index_entry n) ys))" by (simp add: dom_map_of_conv_image_fst)
    then show ?thesis by (cases T) (simp add: index_entry_def map_add_upd_left)
  qed
  ultimately show ?case
    by (simp only: list.map run_migration.simps Option.bind.bind_lunit with_table_simps)
qed

subsection \<open>Changing the columns\<close>

text \<open>The data of a column goes to its partner; an added column has none.\<close>

definition carries :: "diff_context \<Rightarrow> db_table \<Rightarrow> db_table \<Rightarrow> (column_id \<Rightarrow> 'd option) \<Rightarrow> (column_id \<Rightarrow> 'd option) \<Rightarrow> bool" where
  "carries cx p n v v' \<longleftrightarrow>
     (\<forall>q \<in> set (tb_columns p). \<forall>m. partner (column_differ cx) (tb_columns n) q = Some m \<longrightarrow> v' (co_id m) = v (co_id q)) \<and>
     (\<forall>m \<in> set (unmatched (column_differ cx) (tb_columns p) (tb_columns n)). v' (co_id m) = None)"

lemma column_diff_eq:
  assumes "matching (column_differ cx) prev next"
  shows "\<exists>as. column_diff cx prev next = Ok (concat (map (column_item (column_differ cx) next) prev) @ map ColumnAdd as) \<and>
    mset as = mset (unmatched (column_differ cx) prev next)"
proof -
  have "df_changed (column_differ cx) q m = Ok (if column_has_diff q m then [ColumnAlter q m] else [])" for q m
    by (simp add: column_differ_def)
  from diff_items_eq [OF _ this] assms show ?thesis
    unfolding column_diff_def column_item_def by (simp add: matching_def)
qed

lemma columns_changed:
  fixes cx p n defines "D \<equiv> column_differ cx" and "prev \<equiv> tb_columns p" and "next \<equiv> tb_columns n"
  assumes m: "matching D prev next" and need: "needed_kept D prev next R pks"
    and dl: "dialect_supports dl C" "dl = Sqlite \<Longrightarrow> only_renames D prev next"
    and as: "mset as = mset (unmatched D prev next)" and v': "carries cx p n v v'"
  shows "run_table (concat (map (column_steps dl C) (concat (map (column_item D next) prev) @ map ColumnAdd as)))
      (mid_table C v D prev next R pks [] prev) =
    Some \<lparr>kt_columns = map_of (map (column_entry C v') next),
      kt_pk = map (\<lambda>i. co_name (current D next prev (prev ! i))) pks,
      kt_indices = map_of (map (\<lambda>x. (ix_name x, named_index (\<lambda>i. co_name (current D next prev (prev ! i))) x)) R)\<rparr>"
proof -
  let ?T = "mid_table C v D prev next R pks prev []"
  let ?es = "entries D next (col_fin C v) (col_ini C v) prev []"
  let ?as = "map (\<lambda>c. (co_name c, new_column (column_def_of C c) None)) as"
  have d: "distinct prev" using m by (auto simp: matching_def distinct_map)
  have asset: "set as = set (unmatched D prev next)" using as by (metis set_mset_mset)
  have run: "run_table (concat (map (column_steps dl C) (concat (map (column_item D next) prev))))
      (mid_table C v D prev next R pks [] prev) = Some ?T"
    using columns_run [of cx prev "next" "[]" prev R pks dl C v] m d need dl by (simp add: D_def)
  have "distinct (map fst (?es @ ?as))"
    using distinct_entries_added [OF m d as, where fin = "col_fin C v" and ini = "col_ini C v" and new = "\<lambda>c. new_column (column_def_of C c) None"]
    by (simp add: D_def)
  then have adds: "run_table (map (\<lambda>c. add_column (column_def_of C c)) as) ?T = Some (?T\<lparr>kt_columns := map_of (?es @ ?as)\<rparr>)"
    by (intro adds_run) (simp_all add: comp_def)
  have "map_of (?es @ ?as) = map_of (map (\<lambda>c. (co_name c, new_column (column_def_of C c) (v' (co_id c)))) next)"
  proof -
    have "col_fin C v q c = new_column (column_def_of C c) (v' (co_id c))"
      if "q \<in> set prev" "partner D next q = Some c" for q c
      using v' that by (simp add: carries_def col_fin_def D_def prev_def next_def)
    moreover have "new_column (column_def_of C c) None = new_column (column_def_of C c) (v' (co_id c))" if "c \<in> set as" for c
      using v' that asset by (simp add: carries_def D_def prev_def next_def)
    ultimately show ?thesis
      using entries_end [OF m d as, of "col_fin C v" "\<lambda>c. new_column (column_def_of C c) (v' (co_id c))"
          "\<lambda>c. new_column (column_def_of C c) None" "col_ini C v"]
      by (simp add: D_def)
  qed
  then have "?T\<lparr>kt_columns := map_of (?es @ ?as)\<rparr> =
      \<lparr>kt_columns = map_of (map (column_entry C v') next),
        kt_pk = map (\<lambda>i. co_name (current D next prev (prev ! i))) pks,
        kt_indices = map_of (map (\<lambda>x. (ix_name x, named_index (\<lambda>i. co_name (current D next prev (prev ! i))) x)) R)\<rparr>"
    by (simp add: mid_table_def Let_def column_entry_def [abs_def])
  moreover have "run_table (concat (map (column_steps dl C) (map ColumnAdd as))) ?T =
      run_table (map (\<lambda>c. add_column (column_def_of C c)) as) ?T"
    by (intro arg_cong [where f = "\<lambda>fs. run_table fs ?T"]) (simp add: column_steps_def comp_def concat_map_singleton)
  ultimately show ?thesis using run adds by (simp add: run_table_append)
qed

end
