(* ===== verification/MigrateTables.thy ===== *)
theory MigrateTables
  imports MigrateAlter
begin

text \<open>
  The indices of an altered table that survive its column changes, and the ones created after them:
  together they are the indices of the next schema.
\<close>

subsection \<open>What survives\<close>

definition pair_ok :: "diff_context \<Rightarrow> db_table \<Rightarrow> db_table \<Rightarrow> bool" where
  "pair_ok cx p n \<longleftrightarrow>
     wf_schema (cx_previous cx) \<and> p \<in> set (cx_previous cx) \<and> wf_schema (cx_next cx) \<and> n \<in> set (cx_next cx) \<and>
     matching (column_differ cx) (tb_columns p) (tb_columns n) \<and>
     matching (index_differ cx) (tb_indices p) (tb_indices n) \<and> pk_kept cx p n"

lemma pair_okD:
  assumes "pair_ok cx p n"
  shows "wf_schema (cx_previous cx)" "p \<in> set (cx_previous cx)" "wf_schema (cx_next cx)" "n \<in> set (cx_next cx)"
    "matching (column_differ cx) (tb_columns p) (tb_columns n)"
    "matching (index_differ cx) (tb_indices p) (tb_indices n)" "pk_kept cx p n"
  using assms by (simp_all add: pair_ok_def)

definition pk_positions :: "db_table \<Rightarrow> nat list" where
  "pk_positions tb = map snd (pk_columns (tb_primary_key tb))"

lemma survives_partner:
  assumes "pair_ok cx p n" "x \<in> set (tb_indices p)" "survives cx n x"
  obtains y where "y \<in> set (tb_indices n)" "partner (index_differ cx) (tb_indices n) x = Some y"
    "ix_name x = ix_name y" "ix_unique x = ix_unique y" "ix_primary_key x = ix_primary_key y"
    "list_all2 (\<lambda>a b. sort_of a = sort_of b \<and>
       partner (column_differ cx) (tb_columns n) (tb_columns p ! snd (ic_column a)) = Some (tb_columns n ! snd (ic_column b)))
       (ix_columns x) (ix_columns y)"
proof -
  note ok = pair_okD [OF assms(1)]
  obtain y where y: "partner (index_differ cx) (tb_indices n) x = Some y" "index_has_diff cx x y = Ok False"
    using assms(3) by (auto simp: survives_def split: option.splits)
  have yn: "y \<in> set (tb_indices n)" by (rule partner_in [OF y(1)])
  have cols: "list_all2 (\<lambda>a b. sort_of a = sort_of b \<and>
       partner (column_differ cx) (tb_columns n) (tb_columns p ! snd (ic_column a)) = Some (tb_columns n ! snd (ic_column b)))
       (ix_columns x) (ix_columns y)"
    by (rule list.rel_mono_strong [OF index_unchanged(4) [OF y(2)]])
      (auto simp: column_kept_def sort_of_def intro!: index_column_partner [OF ok(1,2) assms(2) _ ok(3,4) yn _ ok(5)])
  show ?thesis by (rule that [OF yn y(1) index_unchanged(1-3) [OF y(2)] cols])
qed

lemma wf_pk:
  assumes "wf_schema S" "tb \<in> set S" "i \<in> set (pk_positions tb)"
  shows "i < length (tb_columns tb)"
  using schema_table_wf(2) [OF assms(1,2)] assms(3) by (auto simp: pk_positions_def wf_table_def list_all_iff)

lemma needed_survivors:
  assumes "pair_ok cx p n"
  shows "needed_kept (column_differ cx) (tb_columns p) (tb_columns n) (survivors cx p n) (pk_positions p)"
proof -
  note ok = pair_okD [OF assms]
  have pk: "partner (column_differ cx) (tb_columns n) (tb_columns p ! i) \<noteq> None" if "i \<in> set (pk_positions p)" for i
    using ok(7) that unfolding pk_kept_def pk_positions_def by (auto dest: list_all2_in_left)
  have "partner (column_differ cx) (tb_columns n) (tb_columns p ! snd (ic_column c)) \<noteq> None"
    if x: "x \<in> set (survivors cx p n)" and c: "c \<in> set (ix_columns x)" for x c
  proof -
    have xs: "x \<in> set (tb_indices p)" "survives cx n x" using x by (auto simp: survivors_def secondary_def)
    obtain y :: db_index where
      "list_all2 (\<lambda>a b. sort_of a = sort_of b \<and>
         partner (column_differ cx) (tb_columns n) (tb_columns p ! snd (ic_column a)) =
         Some (tb_columns n ! snd (ic_column b))) (ix_columns x) (ix_columns y)"
      by (rule survives_partner [OF assms xs]) (rule that, assumption)
    from list_all2_in_left [OF this c] show ?thesis by auto
  qed
  moreover have "snd (ic_column c) < length (tb_columns p)"
    if "x \<in> set (survivors cx p n)" "c \<in> set (ix_columns x)" for x c
    using wf_index_column(1) [OF ok(1,2) _ that(2)] that(1) by (auto simp: survivors_def secondary_def)
  ultimately show ?thesis using pk wf_pk [OF ok(1,2)] by (simp add: needed_kept_def)
qed

text \<open>After the changed indices are dropped, the table is at the start of its column changes.\<close>

lemma dropped_secondary:
  "pair_ok cx p n \<Longrightarrow> dropped_indices cx p n = filter (\<lambda>x. \<not> survives cx n x) (secondary p)"
  unfolding dropped_indices_def secondary_def filter_filter
  by (rule filter_cong) (auto simp: pair_ok_def pk_kept_def)

lemma restrict_entries:
  assumes "distinct (map f xs)"
  shows "map_of (map (\<lambda>x. (f x, g x)) xs) |` (- f ` set (filter (\<lambda>x. \<not> P x) xs)) =
    map_of (map (\<lambda>x. (f x, g x)) (filter P xs))"
proof
  fix k
  have inj: "inj_on f (set xs)" using assms by (simp add: distinct_map)
  show "(map_of (map (\<lambda>x. (f x, g x)) xs) |` (- f ` set (filter (\<lambda>x. \<not> P x) xs))) k =
      map_of (map (\<lambda>x. (f x, g x)) (filter P xs)) k"
  proof (cases "k \<in> f ` set (filter P xs)")
    case True
    then obtain x where x: "x \<in> set xs" "P x" "k = f x" by auto
    then have "k \<notin> f ` set (filter (\<lambda>x. \<not> P x) xs)" using inj by (auto simp: inj_on_def)
    moreover have "map_of (map (\<lambda>x. (f x, g x)) xs) k = Some (g x)"
      using x assms by (intro map_of_is_SomeI) (auto simp: comp_def)
    moreover have "map_of (map (\<lambda>x. (f x, g x)) (filter P xs)) k = Some (g x)"
      using x assms by (intro map_of_is_SomeI) (auto simp: comp_def distinct_map_filter)
    ultimately show ?thesis by simp
  next
    case False
    then have "map_of (map (\<lambda>x. (f x, g x)) (filter P xs)) k = None"
      by (simp add: map_of_eq_None_iff image_image)
    moreover have "k \<in> f ` set (filter (\<lambda>x. \<not> P x) xs)" if "k \<in> f ` set xs" using False that by auto
    then have "(map_of (map (\<lambda>x. (f x, g x)) xs) |` (- f ` set (filter (\<lambda>x. \<not> P x) xs))) k = None"
      by (cases "k \<in> f ` set xs") (auto simp: restrict_map_def map_of_eq_None_iff image_image)
    ultimately show ?thesis by simp
  qed
qed

lemma distinct_secondary:
  assumes "wf_schema S" "tb \<in> set S"
  shows "distinct (map ix_name (tb_indices tb))" "distinct (map ix_name (secondary tb))"
  using schema_table_wf(2) [OF assms] by (auto simp: wf_table_def secondary_def distinct_map_filter)

lemma start_of_columns:
  assumes "pair_ok cx p n"
  shows "(table_entry C v p)\<lparr>kt_indices := kt_indices (table_entry C v p) |` (- ix_name ` set (dropped_indices cx p n))\<rparr> =
    mid_table C v (column_differ cx) (tb_columns p) (tb_columns n) (survivors cx p n) (pk_positions p) [] (tb_columns p)"
proof -
  note ok = pair_okD [OF assms]
  have "map_of (map (\<lambda>x. (ix_name x, index_of (tb_columns p) x)) (secondary p)) |` (- ix_name ` set (dropped_indices cx p n)) =
      map_of (map (\<lambda>x. (ix_name x, index_of (tb_columns p) x)) (survivors cx p n))"
    unfolding dropped_secondary [OF assms] survivors_def
    by (rule restrict_entries [OF distinct_secondary(2) [OF ok(1,2)]])
  moreover have "entries (column_differ cx) (tb_columns n) (col_fin C v) (col_ini C v) [] (tb_columns p) =
      map (column_entry C v) (tb_columns p)"
    by (simp add: entries_def column_entry_def col_ini_def)
  ultimately show ?thesis
    by (simp add: table_entry_def mid_table_def Let_def current_def pk_positions_def index_of_named comp_def)
qed

text \<open>At the end the key has the names of the next schema.\<close>

lemma current_done: "q \<in> set ds \<Longrightarrow> partner D next q = Some m \<Longrightarrow> current D next ds q = m"
  by (simp add: current_def)

lemma pk_at_end:
  assumes "pair_ok cx p n"
  shows "map (\<lambda>i. co_name (current (column_differ cx) (tb_columns n) (tb_columns p) (tb_columns p ! i))) (pk_positions p) =
    kt_pk (table_entry C v n)"
proof -
  note ok = pair_okD [OF assms]
  have pk: "list_all2 (\<lambda>a b. partner (column_differ cx) (tb_columns n) (tb_columns p ! snd a) = Some (tb_columns n ! snd b))
      (pk_columns (tb_primary_key p)) (pk_columns (tb_primary_key n))"
    using ok(7) by (simp add: pk_kept_def)
  have "list_all2 (\<lambda>a b. co_name (current (column_differ cx) (tb_columns n) (tb_columns p) (tb_columns p ! snd a)) =
      co_name (tb_columns n ! snd b)) (pk_columns (tb_primary_key p)) (pk_columns (tb_primary_key n))"
  proof (rule list.rel_mono_strong [OF pk])
    fix a b assume "a \<in> set (pk_columns (tb_primary_key p))"
      and ab: "partner (column_differ cx) (tb_columns n) (tb_columns p ! snd a) = Some (tb_columns n ! snd b)"
    then have "tb_columns p ! snd a \<in> set (tb_columns p)" using wf_pk [OF ok(1,2)] by (simp add: pk_positions_def)
    with ab show "co_name (current (column_differ cx) (tb_columns n) (tb_columns p) (tb_columns p ! snd a)) =
        co_name (tb_columns n ! snd b)" by (simp add: current_done)
  qed
  then show ?thesis
    by (simp add: table_entry_def pk_positions_def comp_def list_all2_conv_all_nth list_eq_iff_nth_eq)
qed

text \<open>The surviving indices and the created ones are the indices of the next schema.\<close>

lemma surviving_entry:
  assumes ok: "pair_ok cx p n" and x: "x \<in> set (survivors cx p n)"
  obtains y where "y \<in> set (secondary n)" "partner (index_differ cx) (tb_indices n) x = Some y"
    "(ix_name x, named_index (\<lambda>i. co_name (current (column_differ cx) (tb_columns n) (tb_columns p) (tb_columns p ! i))) x) =
      index_entry n y"
proof -
  let ?D = "column_differ cx"
  have xs: "x \<in> set (tb_indices p)" "survives cx n x" "\<not> ix_primary_key x"
    using x by (auto simp: survivors_def secondary_def)
  from survives_partner [OF ok xs(1,2)] obtain y where y: "y \<in> set (tb_indices n)"
    "partner (index_differ cx) (tb_indices n) x = Some y" "ix_name x = ix_name y" "ix_unique x = ix_unique y"
    "ix_primary_key x = ix_primary_key y" and cols: "list_all2 (\<lambda>a b. sort_of a = sort_of b \<and>
      partner ?D (tb_columns n) (tb_columns p ! snd (ic_column a)) = Some (tb_columns n ! snd (ic_column b)))
      (ix_columns x) (ix_columns y)" by blast
  have "list_all2 (\<lambda>a b. (co_name (current ?D (tb_columns n) (tb_columns p) (tb_columns p ! snd (ic_column a))), sort_of a) =
      (co_name (tb_columns n ! snd (ic_column b)), sort_of b)) (ix_columns x) (ix_columns y)"
  proof (rule list.rel_mono_strong [OF cols])
    fix a b assume a: "a \<in> set (ix_columns x)" and ab: "sort_of a = sort_of b \<and>
      partner ?D (tb_columns n) (tb_columns p ! snd (ic_column a)) = Some (tb_columns n ! snd (ic_column b))"
    have "tb_columns p ! snd (ic_column a) \<in> set (tb_columns p)"
      using wf_index_column(1) [OF pair_okD(1,2) [OF ok] xs(1) a] by simp
    with ab show "(co_name (current ?D (tb_columns n) (tb_columns p) (tb_columns p ! snd (ic_column a))), sort_of a) =
        (co_name (tb_columns n ! snd (ic_column b)), sort_of b)" by (simp add: current_done)
  qed
  then have "named_index (\<lambda>i. co_name (current ?D (tb_columns n) (tb_columns p) (tb_columns p ! i))) x = index_of (tb_columns n) y"
    unfolding index_of_named named_index_def using y(4) by (simp add: list_all2_conv_all_nth list_eq_iff_nth_eq)
  with y xs(3) show ?thesis by (intro that) (auto simp: index_entry_def secondary_def)
qed

lemma created_indices:
  assumes ok: "pair_ok cx p n" and as: "mset as = mset (unmatched (index_differ cx) (tb_indices p) (tb_indices n))"
  shows "set (altered_indices cx n (tb_indices p) @ as) =
      {y \<in> set (secondary n). \<forall>x \<in> set (tb_indices p). partner (index_differ cx) (tb_indices n) x = Some y \<longrightarrow> \<not> survives cx n x}"
      (is "set ?ys = ?Y")
    and "distinct (map ix_name (altered_indices cx n (tb_indices p) @ as))"
proof -
  let ?D = "index_differ cx"
  note okD = pair_okD [OF ok]
  have asset: "set as = set (unmatched ?D (tb_indices p) (tb_indices n))" using as by (metis set_mset_mset)
  have alt: "y \<in> set (altered_indices cx n xs) \<longleftrightarrow>
      (\<exists>x \<in> set xs. partner ?D (tb_indices n) x = Some y \<and> \<not> survives cx n x)" for y xs
    by (induction xs) (auto simp: altered_indices_def split: option.splits if_splits)
  have inj: "x = x'" if "x \<in> set (tb_indices p)" "x' \<in> set (tb_indices p)"
    "partner ?D (tb_indices n) x = Some y" "partner ?D (tb_indices n) x' = Some y" for x x' y
    by (rule partner_inj [OF okD(6) that])
  have pk: "\<exists>x \<in> set (tb_indices p). partner ?D (tb_indices n) x = Some y \<and> survives cx n x"
    if "y \<in> set (tb_indices n)" "ix_primary_key y" for y
    using okD(7) that by (auto simp: pk_kept_def)
  show "set ?ys = ?Y"
  proof (intro set_eqI iffI)
    fix y assume "y \<in> set ?ys"
    then consider x where "x \<in> set (tb_indices p)" "partner ?D (tb_indices n) x = Some y" "\<not> survives cx n x"
      | "y \<in> set as"
      unfolding set_append Un_iff alt by blast
    then have "y \<in> set (tb_indices n) \<and> (\<forall>x \<in> set (tb_indices p). partner ?D (tb_indices n) x = Some y \<longrightarrow> \<not> survives cx n x)"
    proof cases
      case (1 x)
      with inj [OF _ 1(1) _ 1(2)] show ?thesis using partner_in [OF 1(2)] by blast
    next
      case 2
      then show ?thesis unfolding asset unmatched_def by simp
    qed
    with pk show "y \<in> ?Y" by (auto simp: secondary_def)
  next
    fix y assume "y \<in> ?Y"
    then show "y \<in> set ?ys" using asset by (auto simp: alt unmatched_def secondary_def)
  qed
  then have sub: "set ?ys \<subseteq> set (tb_indices n)" by (auto simp: secondary_def)
  have dn: "distinct (map ix_name (tb_indices n))" "distinct (tb_indices n)"
    using distinct_secondary(1) [OF okD(3,4)] by (auto simp: distinct_map)
  have "distinct as" using mset_eq_imp_distinct_iff [OF as] dn by (simp add: unmatched_def)
  moreover have "distinct (altered_indices cx n xs)" if "distinct xs" "set xs \<subseteq> set (tb_indices p)" for xs
    using that
  proof (induction xs)
    case (Cons x xs)
    have "y \<notin> set (altered_indices cx n xs)" if "partner ?D (tb_indices n) x = Some y" for y
      using Cons.prems inj [OF _ _ that] by (auto simp: alt)
    moreover have "altered_indices cx n (x # xs) = (case partner ?D (tb_indices n) x of
        Some y \<Rightarrow> if survives cx n x then [] else [y] | None \<Rightarrow> []) @ altered_indices cx n xs"
      by (simp add: altered_indices_def)
    ultimately show ?case using Cons by (auto split: option.splits)
  qed (simp add: altered_indices_def)
  moreover have "distinct (tb_indices p)"
    using distinct_secondary(1) [OF okD(1,2)] by (auto simp: distinct_map)
  ultimately have "distinct ?ys" using asset by (auto simp: alt unmatched_def)
  then show "distinct (map ix_name ?ys)"
    unfolding distinct_map using inj_on_subset [of ix_name "set (tb_indices n)" "set ?ys"] dn(1) sub
    by (simp add: distinct_map)
qed

lemma secondary_names:
  assumes "pair_ok cx p n" "y \<in> set (secondary n)" "z \<in> set (secondary n)" "ix_name y = ix_name z"
  shows "y = z"
  using distinct_secondary(2) [OF pair_okD(3,4) [OF assms(1)]] assms(2-4) by (auto simp: distinct_map inj_on_def)

lemma created_fresh:
  assumes ok: "pair_ok cx p n" and as: "mset as = mset (unmatched (index_differ cx) (tb_indices p) (tb_indices n))"
  shows "ix_name ` set (altered_indices cx n (tb_indices p) @ as) \<inter> ix_name ` set (survivors cx p n) = {}"
    (is "ix_name ` ?ys \<inter> _ = {}")
proof (rule equals0I)
  fix k assume k: "k \<in> ix_name ` ?ys \<inter> ix_name ` set (survivors cx p n)"
  obtain z where z: "z \<in> ?ys" "k = ix_name z" using IntD1 [OF k] by blast
  obtain x where "x \<in> set (survivors cx p n)" "k = ix_name x" using IntD2 [OF k] by blast
  with z have x: "x \<in> set (survivors cx p n)" "ix_name x = ix_name z" by simp_all
  note Y = created_indices(1) [OF ok as]
  from surviving_entry [OF ok x(1)] obtain y where y: "y \<in> set (secondary n)"
    "partner (index_differ cx) (tb_indices n) x = Some y" "ix_name x = ix_name y"
    by (auto simp: index_entry_def)
  have "z \<in> set (secondary n)" using z(1) unfolding Y by simp
  with secondary_names [OF ok y(1)] x(2) y(3) have "y = z" by simp
  with y(2) x(1) z(1) show False unfolding Y by (auto simp: survivors_def secondary_def)
qed

lemma indices_at_end:
  assumes ok: "pair_ok cx p n" and as: "mset as = mset (unmatched (index_differ cx) (tb_indices p) (tb_indices n))"
  shows "map_of (map (\<lambda>x. (ix_name x, named_index (\<lambda>i. co_name (current (column_differ cx) (tb_columns n) (tb_columns p) (tb_columns p ! i))) x))
        (survivors cx p n)) ++
      map_of (map (index_entry n) (altered_indices cx n (tb_indices p) @ as)) = kt_indices (table_entry C v n)"
proof -
  let ?D = "index_differ cx" and ?ys = "altered_indices cx n (tb_indices p) @ as"
  let ?e = "\<lambda>x. (ix_name x, named_index (\<lambda>i. co_name (current (column_differ cx) (tb_columns n) (tb_columns p) (tb_columns p ! i))) x)"
  note okD = pair_okD [OF ok] and Y = created_indices [OF ok as]
  have E: "\<exists>y \<in> set (secondary n). partner ?D (tb_indices n) x = Some y \<and> ?e x = index_entry n y"
    if "x \<in> set (survivors cx p n)" for x
    using surviving_entry [OF ok that] by blast
  have names: "distinct (map ix_name (secondary n))" by (rule distinct_secondary(2) [OF okD(3,4)])
  have "map_of (map ?e (survivors cx p n)) ++ map_of (map (index_entry n) ?ys) =
      map_of (map (index_entry n) ?ys @ map ?e (survivors cx p n))" by (rule map_of_append [symmetric])
  also have "\<dots> = map_of (map (index_entry n) (secondary n))"
  proof (rule map_of_same_entries)
    have "distinct (map ix_name (survivors cx p n))"
      using distinct_secondary(2) [OF okD(1,2)] by (simp add: survivors_def distinct_map_filter)
    moreover have "map fst (map (index_entry n) xs @ map ?e zs) = map ix_name xs @ map ix_name zs" for xs zs
      by (simp add: index_entry_def comp_def)
    ultimately show "distinct (map fst (map (index_entry n) ?ys @ map ?e (survivors cx p n)))"
      using Y(2) created_fresh [OF ok as] by (simp only: distinct_append list.set_map)
    show "distinct (map fst (map (index_entry n) (secondary n)))" using names by (simp add: comp_def index_entry_def)
    have "index_entry n y \<in> ?e ` set (survivors cx p n)"
      if y: "y \<in> set (secondary n)" "y \<notin> set ?ys" for y
    proof -
      from y obtain x where x: "x \<in> set (tb_indices p)" "partner ?D (tb_indices n) x = Some y" "survives cx n x"
        unfolding Y(1) by blast
      from survives_partner [OF ok x(1,3)] x(2) have "ix_primary_key x = ix_primary_key y" by force
      with x y have xs: "x \<in> set (survivors cx p n)" by (simp add: survivors_def secondary_def)
      from E [OF this] x(2) have "index_entry n y = ?e x" by force
      with xs show ?thesis by (rule rev_image_eqI)
    qed
    then have "index_entry n ` set (secondary n) \<subseteq> index_entry n ` set ?ys \<union> ?e ` set (survivors cx p n)" by blast
    moreover have "?e ` set (survivors cx p n) \<subseteq> index_entry n ` set (secondary n)" using E by blast
    moreover have "set ?ys \<subseteq> set (secondary n)" unfolding Y(1) by blast
    ultimately show "set (map (index_entry n) ?ys @ map ?e (survivors cx p n)) = set (map (index_entry n) (secondary n))"
      unfolding set_append list.set_map [of "index_entry n"] list.set_map [of ?e] by blast
  qed
  finally show ?thesis by (simp add: table_entry_def index_entry_def [abs_def])
qed

end
