(* ===== verification/MigrateInPlace.thy ===== *)
theory MigrateInPlace
  imports MigrateTables
begin

text \<open>
  A table altered without being recreated: its statements replace its entry of the catalog by
  the one of the next schema and touch nothing else.
\<close>

definition renamed_in :: "string \<Rightarrow> string \<Rightarrow> 'd cat_table \<Rightarrow> 'd catalog \<Rightarrow> 'd catalog" where
  "renamed_in a b T K = K\<lparr>ct_tables := (ct_tables K)(a := None, b \<mapsto> T)\<rparr>"

lemma renamed_in_simps [simp]:
  "ct_tables (renamed_in a b T K) = (ct_tables K)(a := None, b \<mapsto> T)" "ct_types (renamed_in a b T K) = ct_types K"
  "with_table b T' (renamed_in a b T K) = renamed_in a b T' K"
  by (simp_all add: renamed_in_def with_table_def)

lemma renamed_in_same: "ct_tables K a = Some T \<Longrightarrow> renamed_in a a T K = K"
  by (cases K) (simp add: renamed_in_def fun_upd_idem)

lemma own_names_renamed: "own_names K a names \<Longrightarrow> own_names (renamed_in a b T K) b names"
  by (auto simp: own_names_def)

lemma rename_runs:
  assumes "ct_tables K a = Some T" "b \<noteq> a \<Longrightarrow> ct_tables K b = None"
  shows "run_migration dl (if a \<noteq> b then [(RenameTable a b, S)] else []) K = Some (renamed_in a b T K)"
  using assms renamed_in_same [OF assms(1)]
  by (cases "a = b") (simp_all add: run_ddl_def remove_table_def put_table_def renamed_in_def)

text \<open>The schema the statements after a rename are resolved against.\<close>

lemma renamed_schema:
  assumes "wf_schema S" "p \<in> set S"
  obtains S' where "(if tb_name p \<noteq> nm then schema_update S (tb_id p) (\<lambda>t. t\<lparr>tb_name := nm\<rparr>) else Ok S) = Ok S'"
    "schema_table S' (tb_id p) = Ok (p\<lparr>tb_name := nm\<rparr>)" "length S' = length S"
proof (cases "tb_name p = nm")
  case True
  then have "p\<lparr>tb_name := nm\<rparr> = p" by (cases p) simp
  with True show ?thesis using schema_table_wf [OF assms] that [of S] by simp
next
  case False
  from schema_table_wf(1) [OF assms] have "tb_id p < length S" "S ! tb_id p = p"
    by (auto simp: schema_table_def split: if_splits)
  with False show ?thesis
    using that [of "S[tb_id p := p\<lparr>tb_name := nm\<rparr>]"] by (simp add: schema_update_def schema_table_def)
qed

lemma changes_of_table:
  assumes "wf_schema S" "p \<in> set S" "\<And>c. c \<in> set (tb_columns p) \<Longrightarrow> unnamed c"
  shows "list_all (change_of (tb_id p)) (concat (map (column_item (column_differ cx) next) (tb_columns p)) @ map ColumnAdd as)"
proof -
  have "fst (co_id q) = tb_id p" if "q \<in> set (tb_columns p)" for q
    by (rule wf_table_columns(1) [OF schema_table_wf(2) [OF assms(1,2)] that])
  then show ?thesis using assms(3)
    by (auto simp: list_all_iff column_item_def item_changes_def change_of_def split: option.splits if_splits)
qed

text \<open>Without recreation SQLite has only renames to do.\<close>

lemma sqlite_only_renames:
  assumes "\<not> needs_recreation C renamed (concat (map (column_item (column_differ cx) next) prev) @ map ColumnAdd as)"
    and "dialect_supports Sqlite C" "\<And>c. c \<in> set prev \<Longrightarrow> unnamed c"
  shows "only_renames (column_differ cx) prev next"
proof -
  have "\<not> has_type_change (changes_from_diff q m)"
    if q: "q \<in> set prev" "partner (column_differ cx) next q = Some m" "column_has_diff q m" for q m
  proof
    assume "has_type_change (changes_from_diff q m)"
    moreover have "ColumnAlter q m \<in> set (concat (map (column_item (column_differ cx) next) prev))"
      using q by (auto simp: column_item_def item_changes_def intro!: bexI [of _ q])
    ultimately have "needs_recreation C renamed (concat (map (column_item (column_differ cx) next) prev) @ map ColumnAdd as)"
      using assms(2) unnamed_change [OF assms(3) [OF q(1)]]
      unfolding needs_recreation_def list_ex_iff dialect_supports_def by force
    with assms(1) show False by simp
  qed
  then show ?thesis by (simp add: only_renames_def)
qed

lemma secondary_entry:
  "x \<in> set (secondary tb) \<Longrightarrow> kt_indices (table_entry C v tb) (ix_name x) \<noteq> None"
  by (auto simp: table_entry_def map_of_eq_None_iff image_image)

text \<open>A run of the indices and columns of one table, given what the column changes do to it.\<close>

lemma around_columns:
  assumes ok: "pair_ok cx p n" and as: "mset as = mset (unmatched (index_differ cx) (tb_indices p) (tb_indices n))"
    and T: "ct_tables K (tb_name n) = Some (table_entry C v p)"
    and own: "own_names K (tb_name n) (ix_name ` (set (tb_indices p) \<union> set (tb_indices n)))"
    and body: "run_migration dl body (with_table (tb_name n)
        (mid_table C v (column_differ cx) (tb_columns p) (tb_columns n) (survivors cx p n) (pk_positions p) [] (tb_columns p)) K) =
      Some (with_table (tb_name n) \<lparr>kt_columns = map_of (map (column_entry C v') (tb_columns n)),
          kt_pk = map (\<lambda>i. co_name (current (column_differ cx) (tb_columns n) (tb_columns p) (tb_columns p ! i))) (pk_positions p),
          kt_indices = map_of (map (\<lambda>x. (ix_name x, named_index (\<lambda>i. co_name (current (column_differ cx) (tb_columns n) (tb_columns p) (tb_columns p ! i))) x)) (survivors cx p n))\<rparr> K)"
      (is "_ = Some (with_table _ ?T K)")
  shows "run_migration dl
      (index_drops cx (concat (map (index_item cx n) (tb_indices p)) @ map IndexCreate as) @ body @
       index_creates cx (concat (map (index_item cx n) (tb_indices p)) @ map IndexCreate as)) K =
    Some (with_table (tb_name n) (table_entry C v' n) K)"
proof -
  note okD = pair_okD [OF ok]
  let ?xs = "dropped_indices cx p n" and ?ys = "altered_indices cx n (tb_indices p) @ as"
  note Y = created_indices [OF ok as]
  have xs: "set ?xs \<subseteq> set (tb_indices p)" by (auto simp: dropped_indices_def)
  have ys: "set ?ys \<subseteq> set (tb_indices n)" unfolding Y(1) by (auto simp: secondary_def)
  have "run_migration dl (map (\<lambda>x. (DropIndex (ix_name x), cx_previous cx)) ?xs) K =
      Some (with_table (tb_name n) ((table_entry C v p)\<lparr>kt_indices := kt_indices (table_entry C v p) |` (- ix_name ` set ?xs)\<rparr>) K)"
  proof (rule drops_run [OF T])
    show "own_names K (tb_name n) (ix_name ` set ?xs)" by (rule own_names_mono [OF own]) (use xs in blast)
    show "distinct (map ix_name ?xs)"
      using distinct_secondary(1) [OF okD(1,2)] by (simp add: dropped_indices_def distinct_map_filter)
    show "kt_indices (table_entry C v p) (ix_name x) \<noteq> None" if "x \<in> set ?xs" for x
      using that secondary_entry unfolding dropped_secondary [OF ok] by auto
  qed
  note drops = this [unfolded start_of_columns [OF ok]]
  have creates: "run_migration dl (map (\<lambda>y. (create_index y, cx_next cx)) ?ys) (with_table (tb_name n) ?T K) =
      Some (with_table (tb_name n) (?T\<lparr>kt_indices := kt_indices ?T ++ map_of (map (index_entry n) ?ys)\<rparr>) (with_table (tb_name n) ?T K))"
  proof (rule creates_run [OF okD(3,4) ys Y(2)])
    show "co_name ` set (tb_columns n) \<subseteq> dom (kt_columns ?T)"
      by (simp add: dom_map_of_conv_image_fst image_image column_entry_def)
    have "own_names K (tb_name n) (ix_name ` set ?ys)" by (rule own_names_mono [OF own]) (use ys in blast)
    then show "own_names (with_table (tb_name n) ?T K) (tb_name n) (ix_name ` set ?ys)" by simp
    show "kt_indices ?T (ix_name y) = None" if "y \<in> set ?ys" for y
    proof -
      have "ix_name y \<notin> ix_name ` set (survivors cx p n)" using created_fresh [OF ok as] that by blast
      then show ?thesis by (simp add: map_of_eq_None_iff image_image)
    qed
  qed simp
  have "?T\<lparr>kt_indices := kt_indices ?T ++ map_of (map (index_entry n) ?ys)\<rparr> = table_entry C v' n"
    using indices_at_end [OF ok as, of C v'] pk_at_end [OF ok, of C v']
    by (simp add: table_entry_def)
  with creates have "run_migration dl (map (\<lambda>y. (create_index y, cx_next cx)) ?ys) (with_table (tb_name n) ?T K) =
      Some (with_table (tb_name n) (table_entry C v' n) K)" by (simp only: with_table_simps)
  with drops body show ?thesis
    unfolding index_drops_eq index_creates_eq run_migration_append dropped_indices_def [symmetric]
    by (simp only: Option.bind.bind_lunit)
qed

lemma with_table_own: "ct_tables K nm = Some T \<Longrightarrow> renamed_in nm nm T' K = with_table nm T' K"
  by (simp add: renamed_in_def with_table_def)

lemma altered_in_place:
  assumes ok: "pair_ok cx p n" and un: "\<And>c. c \<in> set (tb_columns p) \<Longrightarrow> unnamed c"
    and dl: "dialect_supports dl C" and v': "carries cx p n v v'"
    and columns: "column_diff cx (tb_columns p) (tb_columns n) = Ok columns"
    and indices: "index_diff cx (tb_indices p) (tb_indices n) = Ok indices"
    and stay: "\<not> needs_recreation C renamed columns"
    and K: "ct_tables K (tb_name p) = Some (table_entry C v p)" "tb_name n \<noteq> tb_name p \<Longrightarrow> ct_tables K (tb_name n) = None"
    and own: "own_names K (tb_name p) (ix_name ` (set (tb_indices p) \<union> set (tb_indices n)))"
  shows "\<exists>steps. table_statements C cx renamed (TableAlter p n columns indices) = Ok steps \<and>
    run_migration dl steps K = Some (renamed_in (tb_name p) (tb_name n) (table_entry C v' n) K)"
proof -
  note okD = pair_okD [OF ok]
  obtain cs where cs: "columns = concat (map (column_item (column_differ cx) (tb_columns n)) (tb_columns p)) @ map ColumnAdd cs"
    "mset cs = mset (unmatched (column_differ cx) (tb_columns p) (tb_columns n))"
    using column_diff_eq [OF okD(5)] columns by auto
  obtain as where as: "indices = concat (map (index_item cx n) (tb_indices p)) @ map IndexCreate as"
    "mset as = mset (unmatched (index_differ cx) (tb_indices p) (tb_indices n))"
    using index_diff_eq [OF okD(1-4,6)] indices by auto
  obtain S where S: "(if tb_name p \<noteq> tb_name n then schema_update (cx_previous cx) (tb_id p) (\<lambda>t. t\<lparr>tb_name := tb_name n\<rparr>)
      else Ok (cx_previous cx)) = Ok S" "schema_table S (tb_id p) = Ok (p\<lparr>tb_name := tb_name n\<rparr>)"
    by (rule renamed_schema [OF okD(1,2)])
  let ?K = "renamed_in (tb_name p) (tb_name n) (table_entry C v p) K"
  let ?body = "concat (map (column_statements C renamed S (tb_id p)) columns)"
  have ownK: "own_names ?K (tb_name n) (ix_name ` (set (tb_indices p) \<union> set (tb_indices n)))"
    by (rule own_names_renamed [OF own])
  let ?M = "mid_table C v (column_differ cx) (tb_columns p) (tb_columns n) (survivors cx p n) (pk_positions p) [] (tb_columns p)"
  have "only_renames (column_differ cx) (tb_columns p) (tb_columns n)" if "dl = Sqlite"
    using sqlite_only_renames [OF stay [unfolded cs(1)]] dl un that by simp
  note changed = columns_changed [OF okD(5) needed_survivors [OF ok] dl this cs(2) v']
  have "run_migration dl ?body (with_table (tb_name n) ?M ?K) =
      on_table (tb_name n) (run_table (concat (map (column_steps dl C) columns))) (with_table (tb_name n) ?M ?K)"
    using run_column_statements [OF S(2), of columns "with_table (tb_name n) ?M ?K" dl C renamed]
      changes_of_table [OF okD(1,2) un, of cx "tb_columns n" cs] by (simp add: cs(1))
  also have "\<dots> = Some (with_table (tb_name n) \<lparr>kt_columns = map_of (map (column_entry C v') (tb_columns n)),
          kt_pk = map (\<lambda>i. co_name (current (column_differ cx) (tb_columns n) (tb_columns p) (tb_columns p ! i))) (pk_positions p),
          kt_indices = map_of (map (\<lambda>x. (ix_name x, named_index (\<lambda>i. co_name (current (column_differ cx) (tb_columns n) (tb_columns p) (tb_columns p ! i))) x)) (survivors cx p n))\<rparr> ?K)"
    unfolding on_table_def cs(1) using changed by (simp add: with_table_def renamed_in_def)
  finally have body: "run_migration dl ?body (with_table (tb_name n) ?M ?K) = \<dots>" .
  have "run_migration dl (index_drops cx indices @ ?body @ index_creates cx indices) ?K =
      Some (with_table (tb_name n) (table_entry C v' n) ?K)"
    unfolding as(1) by (rule around_columns [OF ok as(2) _ ownK body]) simp
  with rename_runs [OF K, of dl "cx_previous cx"]
  have "run_migration dl ((if tb_name p \<noteq> tb_name n then [(RenameTable (tb_name p) (tb_name n), cx_previous cx)] else []) @
      index_drops cx indices @ ?body @ index_creates cx indices) K = Some (renamed_in (tb_name p) (tb_name n) (table_entry C v' n) K)"
    unfolding run_migration_append by simp
  then show ?thesis using S(1) stay by (simp add: table_statements_def)
qed

end
