(* ===== verification/MigrateRecreate.thy ===== *)
theory MigrateRecreate
  imports MigrateInPlace
begin

text \<open>
  Creating a table, and recreating one whose columns cannot be altered in place: the rows are
  copied column by column, from the column each one was before the change.
\<close>

subsection \<open>Creating a table\<close>

definition ddl_ok :: "dialect \<Rightarrow> capability \<Rightarrow> db_table \<Rightarrow> bool" where
  "ddl_ok dl C n \<longleftrightarrow>
     auto_increment_ok dl (map (column_def_of C) (tb_columns n))
       (Some (ERecord (map column_ref (pk_columns (tb_primary_key n)))))"

definition bare_table :: "capability \<Rightarrow> db_table \<Rightarrow> 'd cat_table" where
  "bare_table C n = (table_entry C (\<lambda>_. None) n)\<lparr>kt_indices := Map.empty\<rparr>"

lemma create_table_run:
  fixes K :: "'d catalog"
  assumes S: "schema_table S (tb_id n) = Ok tb" "tb_columns tb = tb_columns n"
    and n: "wf_table (tb_id n) n" "ddl_ok dl C n" and fresh: "ct_tables K (tb_name tb) = None"
  shows "run_ddl dl (create_table C n, S) K = Some (with_table (tb_name tb) (bare_table C n) K)"
proof -
  let ?pk = "pk_columns (tb_primary_key n)"
  have pk: "snd c < length (tb_columns n)" if "c \<in> set ?pk" for c
    using n(1) that by (auto simp: wf_table_def list_all_iff)
  then have "opt_all (ref_name tb) (map column_ref ?pk) = Some (map (\<lambda>c. co_name (tb_columns n ! snd c)) ?pk)"
    using S(2) by (simp add: opt_all_eq_Some list_all2_conv_all_nth ref_name_def column_ref_def)
  then have names: "pk_names tb (Some (ERecord (map column_ref ?pk))) = Some (map (\<lambda>c. co_name (tb_columns n ! snd c)) ?pk)"
    by (simp add: pk_names_def)
  have "distinct (map cd_name (map (column_def_of C) (tb_columns n)))"
    using n(1) by (simp add: wf_table_def comp_def)
  moreover have "set (map (\<lambda>c. co_name (tb_columns n ! snd c)) ?pk) \<subseteq> set (map cd_name (map (column_def_of C) (tb_columns n)))"
    using pk by auto
  ultimately have "created_table (map (column_def_of C) (tb_columns n)) (map (\<lambda>c. co_name (tb_columns n ! snd c)) ?pk) =
      Some (bare_table C n :: 'd cat_table)"
    by (simp add: created_table_def bare_table_def table_entry_def comp_def column_entry_def [abs_def])
  with names n(2) fresh S(1) show ?thesis
    by (simp add: run_ddl_def create_table_def as_option_def ddl_ok_def put_table_def with_table_def)
qed

subsection \<open>Copying the columns\<close>

lemma column_change_members:
  assumes "columns = concat (map (column_item (column_differ cx) next) prev) @ map ColumnAdd cs"
  shows "ColumnAlter q m \<in> set columns \<longleftrightarrow>
      q \<in> set prev \<and> partner (column_differ cx) next q = Some m \<and> column_has_diff q m"
    and "ColumnAdd m \<in> set columns \<longleftrightarrow> m \<in> set cs"
  by (auto simp: assms column_item_def item_changes_def split: option.splits if_splits)

lemma is_added_iff:
  assumes "distinct (map co_id next)" "m \<in> set next"
    and "columns = concat (map (column_item (column_differ cx) next) prev) @ map ColumnAdd cs"
    and "set cs = set (unmatched (column_differ cx) prev next)"
  shows "is_added columns m \<longleftrightarrow> m \<in> set (unmatched (column_differ cx) prev next)"
proof -
  have "is_added columns m \<longleftrightarrow> (\<exists>c. ColumnAdd c \<in> set columns \<and> co_id c = co_id m)"
    unfolding is_added_def by (induction columns) (auto split: column_change.split)
  also have "\<dots> \<longleftrightarrow> (\<exists>c \<in> set (unmatched (column_differ cx) prev next). co_id c = co_id m)"
    unfolding column_change_members(2) [OF assms(3)] assms(4) by blast
  also have "\<dots> \<longleftrightarrow> m \<in> set (unmatched (column_differ cx) prev next)"
    using assms(1,2) by (auto simp: unmatched_def distinct_map inj_on_def)
  finally show ?thesis .
qed

lemma column_source_partner:
  assumes m: "matching (column_differ cx) prev next"
    and q: "q \<in> set prev" "partner (column_differ cx) next q = Some c"
    and columns: "columns = concat (map (column_item (column_differ cx) next) prev) @ map ColumnAdd cs"
  shows "column_source columns c = co_name q"
proof -
  let ?P = "\<lambda>ch. case ch of ColumnAlter p n \<Rightarrow> co_id n = co_id c \<and> co_name p \<noteq> co_name n | _ \<Rightarrow> False"
  note mem = column_change_members(1) [OF columns]
  have ids: "distinct (map co_id next)" using m by (simp add: matching_def resolvable_def)
  have only: "p = q \<and> n = c" if "ColumnAlter p n \<in> set columns" "co_id n = co_id c" for p n
  proof -
    from that(1) have pn: "p \<in> set prev" "partner (column_differ cx) next p = Some n" unfolding mem by simp_all
    have "n = c" using ids that(2) partner_in [OF pn(2)] partner_in [OF q(2)] by (auto simp: distinct_map inj_on_def)
    with partner_inj [OF m pn(1) q(1) pn(2)] q(2) show ?thesis by simp
  qed
  show ?thesis
  proof (cases "co_name q = co_name c")
    case True
    have "\<not> ?P ch" if "ch \<in> set columns" for ch
      using only that True by (auto split: column_change.split)
    then have "find ?P columns = None" by (simp add: find_None_iff)
    with True show ?thesis by (simp add: column_source_def)
  next
    case False
    then have "find ?P columns = Some (ColumnAlter q c)"
      using only q by (intro find_unique) (auto simp: mem column_has_diff_def split: column_change.splits)
    then show ?thesis by (simp add: column_source_def)
  qed
qed

lemma map_of_column:
  assumes "distinct (map co_name cols)" "c \<in> set cols"
  shows "map_of (map (column_entry C v) cols) (co_name c) = Some (new_column (column_def_of C c) (v (co_id c)))"
  using assms by (intro map_of_is_SomeI) (auto simp: column_entry_def comp_def)

lemma map_of_no_column:
  "k \<notin> co_name ` set cols \<Longrightarrow> map_of (map (column_entry C v) cols) k = None"
  by (auto simp: map_of_eq_None_iff column_entry_def)

lemma copied_from_partners:
  fixes v v' :: "column_id \<Rightarrow> 'd option"
  assumes m: "matching (column_differ cx) (tb_columns p) (tb_columns n)" and v': "carries cx p n v v'"
    and columns: "columns = concat (map (column_item (column_differ cx) (tb_columns n)) (tb_columns p)) @ map ColumnAdd cs"
    and cs: "mset cs = mset (unmatched (column_differ cx) (tb_columns p) (tb_columns n))"
  defines "pairs \<equiv> map (\<lambda>col. (co_name col, column_source columns col))
      (filter (\<lambda>col. \<not> is_added columns col) (tb_columns n))"
  shows "copied_columns (map_of (map (column_entry C v) (tb_columns p)))
      (map_of (map (column_entry C (\<lambda>_. None)) (tb_columns n))) pairs =
    map_of (map (column_entry C v') (tb_columns n))"
    and "distinct (map fst pairs)" "set (map fst pairs) \<subseteq> co_name ` set (tb_columns n)"
    and "set (map snd pairs) \<subseteq> co_name ` set (tb_columns p)"
proof -
  let ?D = "column_differ cx"
  have names: "distinct (map co_name (tb_columns n))" "distinct (map co_name (tb_columns p))"
    and ids: "distinct (map co_id (tb_columns n))"
    using m by (simp_all add: matching_def resolvable_def)
  have csset: "set cs = set (unmatched ?D (tb_columns p) (tb_columns n))" using cs by (metis set_mset_mset)
  note added = is_added_iff [OF ids _ columns csset]
  have src: "\<exists>q \<in> set (tb_columns p). partner ?D (tb_columns n) q = Some c \<and> column_source columns c = co_name q"
    if c: "c \<in> set (tb_columns n)" "\<not> is_added columns c" for c
  proof -
    have "c \<notin> set (unmatched ?D (tb_columns p) (tb_columns n))" using c(2) added [OF c(1)] by simp
    with c(1) obtain q where "q \<in> set (tb_columns p)" "partner ?D (tb_columns n) q = Some c"
      by (auto simp: unmatched_def)
    with column_source_partner [OF m this columns] show ?thesis by blast
  qed
  show d: "distinct (map fst pairs)" using names(1) by (simp add: pairs_def comp_def distinct_map_filter)
  show "set (map fst pairs) \<subseteq> co_name ` set (tb_columns n)" by (auto simp: pairs_def)
  show "set (map snd pairs) \<subseteq> co_name ` set (tb_columns p)" using src by (force simp: pairs_def)
  show "copied_columns (map_of (map (column_entry C v) (tb_columns p)))
      (map_of (map (column_entry C (\<lambda>_. None)) (tb_columns n))) pairs =
    map_of (map (column_entry C v') (tb_columns n))" (is "?l = ?r")
  proof
    fix k
    show "?l k = ?r k"
    proof (cases "k \<in> co_name ` set (tb_columns n)")
      case False
      then have "map_of pairs k = None" by (auto simp: pairs_def map_of_eq_None_iff)
      with False show ?thesis by (simp add: copied_columns_def map_of_no_column)
    next
      case True
      then obtain c where c: "c \<in> set (tb_columns n)" "k = co_name c" by blast
      note look = map_of_column [OF names(1) c(1)]
      show ?thesis
      proof (cases "is_added columns c")
        case True
        then have "v' (co_id c) = None" using v' added [OF c(1)] by (simp add: carries_def)
        moreover have "map_of pairs k = None"
        proof (rule ccontr)
          assume "map_of pairs k \<noteq> None"
          then obtain b where "b \<in> set (tb_columns n)" "\<not> is_added columns b" "co_name b = co_name c"
            using c(2) by (auto simp: pairs_def dest!: map_of_SomeD)
          moreover from this c(1) have "b = c" using names(1) by (auto simp: distinct_map dest: inj_onD)
          ultimately show False using True by simp
        qed
        ultimately show ?thesis using look [of C v'] look [of C "\<lambda>_. None :: 'd option"] by (simp add: copied_columns_def c(2))
      next
        case False
        with src [OF c(1)] obtain q where q: "q \<in> set (tb_columns p)" "partner ?D (tb_columns n) q = Some c"
          "column_source columns c = co_name q" by blast
        have "map_of pairs k = Some (co_name q)"
          using d c q(3) False by (intro map_of_is_SomeI) (auto simp: pairs_def)
        moreover have "v' (co_id c) = v (co_id q)" using v' q by (simp add: carries_def)
        ultimately show ?thesis
          using look [of C v'] look [of C "\<lambda>_. None :: 'd option"] map_of_column [OF names(2) q(1), of C v]
          by (simp add: copied_columns_def c(2) new_column_def)
      qed
    qed
  qed
qed

subsection \<open>The recreated table\<close>

abbreviation temp_name :: "string \<Rightarrow> string" where
  "temp_name nm \<equiv> ''_toasty_new_'' @ nm"

lemma recreation_run:
  fixes K :: "'d catalog"
  assumes ok: "pair_ok cx p n" and v': "carries cx p n v v'" and ddl: "ddl_ok Sqlite C n"
    and columns: "columns = concat (map (column_item (column_differ cx) (tb_columns n)) (tb_columns p)) @ map ColumnAdd cs"
    and cs: "mset cs = mset (unmatched (column_differ cx) (tb_columns p) (tb_columns n))"
    and S: "schema_table S (tb_id p) = Ok (p\<lparr>tb_name := tb_name n\<rparr>)" "tb_id n < length S"
    and T: "ct_tables K (tb_name n) = Some T" "kt_columns T = map_of (map (column_entry C v) (tb_columns p))"
    and temp: "ct_tables K (temp_name (tb_name n)) = None"
  shows "\<exists>steps. table_recreation C S p n columns = Ok steps \<and>
    run_migration Sqlite steps K =
      Some (with_table (tb_name n) ((table_entry C v' n)\<lparr>kt_indices := Map.empty\<rparr>) K)"
proof -
  note okD = pair_okD [OF ok]
  let ?tmp = "temp_name (tb_name n)"
  let ?t = "(S ! tb_id n)\<lparr>tb_name := ?tmp, tb_columns := tb_columns n, tb_primary_key := tb_primary_key n\<rparr>"
  let ?S = "S[tb_id n := ?t]"
  define pairs where "pairs = map (\<lambda>col. (co_name col, column_source columns col))
      (filter (\<lambda>col. \<not> is_added columns col) (tb_columns n))"
  note copied = copied_from_partners [OF okD(5) v' columns cs, folded pairs_def]
  have neq: "tb_name n \<noteq> ?tmp" by (metis append_self_conv2 list.distinct(1))
  have steps: "table_recreation C S p n columns =
      Ok [(Pragma ''foreign_keys'' (Some ''OFF''), S), (create_table C n, ?S), (CopyTable (tb_name n) ?tmp pairs, S),
          (DropTable (tb_name n), S), (RenameTable ?tmp (tb_name n), S), (Pragma ''foreign_keys'' (Some ''ON''), S)]"
    using S by (simp add: table_recreation_def schema_update_def pairs_def Let_def)
  let ?K1 = "with_table ?tmp (bare_table C n) K"
  have create: "run_ddl Sqlite (create_table C n, ?S) K = Some ?K1"
  proof -
    have "schema_table ?S (tb_id n) = Ok ?t" using S(2) by (simp add: schema_table_def)
    from create_table_run [OF this _ schema_table_wf(2) [OF okD(3,4)] ddl, of K] temp show ?thesis by simp
  qed
  let ?B = "(table_entry C v' n)\<lparr>kt_indices := Map.empty\<rparr>"
  have "kt_columns (bare_table C n :: 'd cat_table) = map_of (map (column_entry C (\<lambda>_. None)) (tb_columns n))"
    by (simp add: bare_table_def table_entry_def)
  moreover have "dom (map_of (map (column_entry C w) cols)) = co_name ` set cols" for w :: "column_id \<Rightarrow> 'd option" and cols
    by (simp add: dom_map_of_conv_image_fst image_image column_entry_def)
  ultimately have "copy_into T pairs (bare_table C n) = Some ?B"
    using copied by (simp add: copy_into_def T(2) bare_table_def table_entry_def)
  then have copy: "run_ddl Sqlite (CopyTable (tb_name n) ?tmp pairs, S) ?K1 = Some (with_table ?tmp ?B K)"
    using T(1) neq by (simp add: run_ddl_def on_table_def with_table_def)
  have drop: "run_ddl Sqlite (DropTable (tb_name n), S) (with_table ?tmp ?B K) =
      Some ((with_table ?tmp ?B K)\<lparr>ct_tables := ((ct_tables K)(?tmp \<mapsto> ?B))(tb_name n := None)\<rparr>)" (is "_ = Some ?K3")
    using T(1) neq by (simp add: run_ddl_def remove_table_def)
  have "(((ct_tables K)(?tmp \<mapsto> ?B))(tb_name n := None))(?tmp := None, tb_name n \<mapsto> ?B) = (ct_tables K)(tb_name n \<mapsto> ?B)"
    using temp neq by (auto simp: fun_eq_iff)
  then have rename: "run_ddl Sqlite (RenameTable ?tmp (tb_name n), S) ?K3 = Some (with_table (tb_name n) ?B K)"
    using neq by (simp add: run_ddl_def remove_table_def put_table_def with_table_def)
  have pragma: "run_ddl Sqlite (Pragma nm w, S) K' = Some K'" for nm w and K' :: "'d catalog"
    by (simp add: run_ddl_def)
  show ?thesis unfolding steps
    by (intro exI conjI, rule refl)
      (simp only: run_migration.simps pragma create copy drop rename Option.bind.bind_lunit)
qed

definition recreation_ok :: "capability \<Rightarrow> diff_context \<Rightarrow> db_table \<Rightarrow> db_table \<Rightarrow> bool" where
  "recreation_ok C cx p n \<longleftrightarrow>
     survivors cx p n = [] \<and> tb_id n < length (cx_previous cx) \<and> ddl_ok Sqlite C n"

lemma altered_recreated:
  assumes ok: "pair_ok cx p n" and v': "carries cx p n v v'" and re: "recreation_ok C cx p n"
    and columns: "column_diff cx (tb_columns p) (tb_columns n) = Ok columns"
    and indices: "index_diff cx (tb_indices p) (tb_indices n) = Ok indices"
    and needs: "needs_recreation C renamed columns"
    and K: "ct_tables K (tb_name p) = Some (table_entry C v p)" "tb_name n \<noteq> tb_name p \<Longrightarrow> ct_tables K (tb_name n) = None"
      "ct_tables K (temp_name (tb_name n)) = None"
    and own: "own_names K (tb_name p) (ix_name ` (set (tb_indices p) \<union> set (tb_indices n)))"
  shows "\<exists>steps. table_statements C cx renamed (TableAlter p n columns indices) = Ok steps \<and>
    run_migration Sqlite steps K = Some (renamed_in (tb_name p) (tb_name n) (table_entry C v' n) K)"
proof -
  note okD = pair_okD [OF ok]
  obtain cs where cs: "columns = concat (map (column_item (column_differ cx) (tb_columns n)) (tb_columns p)) @ map ColumnAdd cs"
    "mset cs = mset (unmatched (column_differ cx) (tb_columns p) (tb_columns n))"
    using column_diff_eq [OF okD(5)] columns by auto
  obtain as where as: "indices = concat (map (index_item cx n) (tb_indices p)) @ map IndexCreate as"
    "mset as = mset (unmatched (index_differ cx) (tb_indices p) (tb_indices n))"
    using index_diff_eq [OF okD(1-4,6)] indices by auto
  obtain S where S: "(if tb_name p \<noteq> tb_name n then schema_update (cx_previous cx) (tb_id p) (\<lambda>t. t\<lparr>tb_name := tb_name n\<rparr>)
      else Ok (cx_previous cx)) = Ok S" "schema_table S (tb_id p) = Ok (p\<lparr>tb_name := tb_name n\<rparr>)"
    "length S = length (cx_previous cx)"
    by (rule renamed_schema [OF okD(1,2)])
  let ?K = "renamed_in (tb_name p) (tb_name n) (table_entry C v p) K"
  let ?M = "mid_table C v (column_differ cx) (tb_columns p) (tb_columns n) (survivors cx p n) (pk_positions p) [] (tb_columns p)"
  have surv: "survivors cx p n = []" and ddl: "ddl_ok Sqlite C n" and idn: "tb_id n < length S"
    using re S(3) by (simp_all add: recreation_ok_def)
  have "tb_name p \<noteq> temp_name (tb_name n)" using K(1,3) by auto
  moreover have "tb_name n \<noteq> temp_name (tb_name n)" by (metis append_self_conv2 list.distinct(1))
  ultimately have temp: "ct_tables (with_table (tb_name n) ?M ?K) (temp_name (tb_name n)) = None" using K(3) by simp
  have src: "kt_columns ?M = map_of (map (column_entry C v) (tb_columns p))"
    unfolding start_of_columns [OF ok, symmetric] by (simp add: table_entry_def)
  obtain body where body: "table_recreation C S p n columns = Ok body"
    "run_migration Sqlite body (with_table (tb_name n) ?M ?K) =
      Some (with_table (tb_name n) ((table_entry C v' n)\<lparr>kt_indices := Map.empty\<rparr>) (with_table (tb_name n) ?M ?K))"
    using recreation_run [OF ok v' ddl cs S(2) idn _ src temp] by auto
  have ownK: "own_names ?K (tb_name n) (ix_name ` (set (tb_indices p) \<union> set (tb_indices n)))"
    by (rule own_names_renamed [OF own])
  have "run_migration Sqlite (index_drops cx indices @ body @ index_creates cx indices) ?K =
      Some (with_table (tb_name n) (table_entry C v' n) ?K)"
    unfolding as(1)
    by (rule around_columns [OF ok as(2) _ ownK])
      (use body(2) pk_at_end [OF ok, of C v'] in \<open>simp_all add: surv table_entry_def\<close>)
  with rename_runs [OF K(1,2), of Sqlite "cx_previous cx"]
  have "run_migration Sqlite ((if tb_name p \<noteq> tb_name n then [(RenameTable (tb_name p) (tb_name n), cx_previous cx)] else []) @
      index_drops cx indices @ body @ index_creates cx indices) K = Some (renamed_in (tb_name p) (tb_name n) (table_entry C v' n) K)"
    unfolding run_migration_append by simp
  then show ?thesis using S(1) needs body(1) by (simp add: table_statements_def)
qed

text \<open>An altered table, whichever way it is changed.\<close>

definition alterable :: "capability \<Rightarrow> diff_context \<Rightarrow> db_table \<Rightarrow> db_table \<Rightarrow> bool" where
  "alterable C cx p n \<longleftrightarrow>
     pair_ok cx p n \<and>
     (\<forall>columns. column_diff cx (tb_columns p) (tb_columns n) = Ok columns \<longrightarrow> needs_recreation C [] columns \<longrightarrow>
        recreation_ok C cx p n \<and>
        temp_name (tb_name n) \<notin> tb_name ` set (cx_previous cx) \<union> tb_name ` set (cx_next cx))"

lemma altered_table:
  assumes ok: "alterable C cx p n" and un: "\<And>c. c \<in> set (tb_columns p) \<Longrightarrow> unnamed c"
    and dl: "dialect_supports dl C" and v': "carries cx p n v v'"
    and columns: "column_diff cx (tb_columns p) (tb_columns n) = Ok columns"
    and indices: "index_diff cx (tb_indices p) (tb_indices n) = Ok indices"
    and K: "ct_tables K (tb_name p) = Some (table_entry C v p)" "tb_name n \<noteq> tb_name p \<Longrightarrow> ct_tables K (tb_name n) = None"
      "dom (ct_tables K) \<subseteq> tb_name ` set (cx_previous cx) \<union> tb_name ` set (cx_next cx)"
    and own: "own_names K (tb_name p) (ix_name ` (set (tb_indices p) \<union> set (tb_indices n)))"
  shows "\<exists>steps. table_statements C cx [] (TableAlter p n columns indices) = Ok steps \<and>
    run_migration dl steps K = Some (renamed_in (tb_name p) (tb_name n) (table_entry C v' n) K)"
proof (cases "needs_recreation C [] columns")
  case True
  then have "dl = Sqlite" using dl by (auto simp: needs_recreation_def dialect_supports_def split: dialect.splits)
  moreover have re: "recreation_ok C cx p n" "temp_name (tb_name n) \<notin> dom (ct_tables K)"
    using True ok columns K(3) by (auto simp: alterable_def)
  moreover have "pair_ok cx p n" using ok by (simp add: alterable_def)
  ultimately show ?thesis
    using altered_recreated [OF _ v' re(1) columns indices True K(1,2) _ own] by (simp add: domIff)
next
  case False
  with ok show ?thesis using altered_in_place [OF _ un dl v' columns indices False K(1,2) own]
    by (simp add: alterable_def)
qed

end
