(* ===== verification/MigrateSchema.thy ===== *)
theory MigrateSchema
  imports MigrateRecreate
begin

text \<open>
  The migration of a whole schema: run on the catalog of the previous schema, the statements of
  the difference lead to the catalog of the next one, every kept column with its data.
\<close>

subsection \<open>Where the data goes\<close>

definition kept_columns :: "diff_context \<Rightarrow> (column \<times> column) list" where
  "kept_columns cx =
     concat (map (\<lambda>p.
       case partner (table_differ cx) (cx_next cx) p of
         None \<Rightarrow> []
       | Some n \<Rightarrow>
           concat (map (\<lambda>q.
             case partner (column_differ cx) (tb_columns n) q of None \<Rightarrow> [] | Some c \<Rightarrow> [(q, c)]) (tb_columns p)))
       (cx_previous cx))"

definition carried :: "diff_context \<Rightarrow> (column_id \<Rightarrow> 'd option) \<Rightarrow> column_id \<Rightarrow> 'd option" where
  "carried cx v i =
     (case find (\<lambda>(q, c). co_id c = i) (kept_columns cx) of Some (q, c) \<Rightarrow> v (co_id q) | None \<Rightarrow> None)"

definition indices_stay :: "diff_context \<Rightarrow> bool" where
  "indices_stay cx \<longleftrightarrow>
     (\<forall>p \<in> set (cx_previous cx). \<forall>n \<in> set (cx_next cx).
        ix_name ` set (tb_indices p) \<inter> ix_name ` set (tb_indices n) \<noteq> {} \<longrightarrow>
        partner (table_differ cx) (cx_next cx) p = Some n)"

definition migratable :: "dialect \<Rightarrow> capability \<Rightarrow> diff_context \<Rightarrow> bool" where
  "migratable dl C cx \<longleftrightarrow>
     wf_schema (cx_previous cx) \<and> wf_schema (cx_next cx) \<and> dialect_supports dl C \<and>
     (\<forall>tb \<in> set (cx_previous cx) \<union> set (cx_next cx). \<forall>c \<in> set (tb_columns tb). unnamed c) \<and>
     matching (table_differ cx) (cx_previous cx) (cx_next cx) \<and> indices_stay cx \<and>
     (\<forall>p \<in> set (cx_previous cx). \<forall>n. partner (table_differ cx) (cx_next cx) p = Some n \<longrightarrow> alterable C cx p n) \<and>
     (\<forall>n \<in> set (unmatched (table_differ cx) (cx_previous cx) (cx_next cx)). ddl_ok dl C n)"

lemma migratableD:
  assumes "migratable dl C cx"
  shows "wf_schema (cx_previous cx)" "wf_schema (cx_next cx)" "dialect_supports dl C"
    "matching (table_differ cx) (cx_previous cx) (cx_next cx)" "indices_stay cx"
    "p \<in> set (cx_previous cx) \<Longrightarrow> partner (table_differ cx) (cx_next cx) p = Some n \<Longrightarrow> alterable C cx p n"
    "n \<in> set (unmatched (table_differ cx) (cx_previous cx) (cx_next cx)) \<Longrightarrow> ddl_ok dl C n"
    "tb \<in> set (cx_previous cx) \<Longrightarrow> c \<in> set (tb_columns tb) \<Longrightarrow> unnamed c"
    "tb \<in> set (cx_next cx) \<Longrightarrow> c \<in> set (tb_columns tb) \<Longrightarrow> unnamed c"
  using assms by (auto simp: migratable_def)

lemma table_df_simps [simp]:
  "df_name (table_differ cx) = tb_name" "df_id (table_differ cx) = tb_id"
  "df_dropped (table_differ cx) = TableDrop" "df_added (table_differ cx) = TableCreate"
  "df_changed (table_differ cx) = table_changed cx"
  by (simp_all add: table_differ_def)

lemma wf_same_id:
  assumes "wf_schema S" "a \<in> set S" "b \<in> set S" "tb_id a = tb_id b"
  shows "a = b"
proof -
  have "Ok a = Ok b" unfolding schema_table_wf(1) [OF assms(1,2), symmetric] assms(4)
    by (rule schema_table_wf(1) [OF assms(1,3)])
  then show ?thesis by simp
qed

lemma in_kept_columns:
  "(q, c) \<in> set (kept_columns cx) \<longleftrightarrow>
     (\<exists>p \<in> set (cx_previous cx). \<exists>n. partner (table_differ cx) (cx_next cx) p = Some n \<and>
        q \<in> set (tb_columns p) \<and> partner (column_differ cx) (tb_columns n) q = Some c)"
proof -
  have "(q, c) \<in> set (concat (map (\<lambda>q. case partner (column_differ cx) cols q of None \<Rightarrow> [] | Some c \<Rightarrow> [(q, c)]) qs)) \<longleftrightarrow>
      q \<in> set qs \<and> partner (column_differ cx) cols q = Some c" for cols qs
    by (induction qs) (auto split: option.split)
  then have inner: "(q, c) \<in> set (case partner (table_differ cx) (cx_next cx) p of
         None \<Rightarrow> []
       | Some n \<Rightarrow>
           concat (map (\<lambda>q.
             case partner (column_differ cx) (tb_columns n) q of None \<Rightarrow> [] | Some c \<Rightarrow> [(q, c)]) (tb_columns p))) \<longleftrightarrow>
      (\<exists>n. partner (table_differ cx) (cx_next cx) p = Some n \<and>
        q \<in> set (tb_columns p) \<and> partner (column_differ cx) (tb_columns n) q = Some c)" for p
    by (cases "partner (table_differ cx) (cx_next cx) p") auto
  show ?thesis unfolding kept_columns_def by (simp only: set_concat list.set_map UN_iff bex_simps inner)
qed

lemma kept_column_unique:
  assumes m: "migratable dl C cx" and a: "(q, c) \<in> set (kept_columns cx)" and b: "(q', c') \<in> set (kept_columns cx)"
    and same: "co_id c = co_id c'"
  shows "q = q' \<and> c = c'"
proof -
  note mD = migratableD [OF m]
  obtain p n where p: "p \<in> set (cx_previous cx)" "partner (table_differ cx) (cx_next cx) p = Some n"
    "q \<in> set (tb_columns p)" "partner (column_differ cx) (tb_columns n) q = Some c"
    using a unfolding in_kept_columns by blast
  obtain p' n' where p': "p' \<in> set (cx_previous cx)" "partner (table_differ cx) (cx_next cx) p' = Some n'"
    "q' \<in> set (tb_columns p')" "partner (column_differ cx) (tb_columns n') q' = Some c'"
    using b unfolding in_kept_columns by blast
  have in_next: "n \<in> set (cx_next cx)" "n' \<in> set (cx_next cx)" using p(2) p'(2) partner_in by metis+
  have ids: "fst (co_id c) = tb_id n" "tb_columns n ! snd (co_id c) = c"
    "fst (co_id c') = tb_id n'" "tb_columns n' ! snd (co_id c') = c'"
    using wf_table_columns [OF schema_table_wf(2) [OF mD(2) in_next(1)] partner_in [OF p(4)]]
      wf_table_columns [OF schema_table_wf(2) [OF mD(2) in_next(2)] partner_in [OF p'(4)]] by simp_all
  then have "tb_id n = tb_id n'" using same by simp
  then have n: "n = n'" by (rule wf_same_id [OF mD(2) in_next])
  then have "p = p'" using partner_inj [OF mD(4) p(1) p'(1)] p(2) p'(2) by simp
  moreover have "c = c'" using ids(2,4) unfolding same n by simp
  moreover have "matching (column_differ cx) (tb_columns p) (tb_columns n)"
    using mD(6) [OF p(1,2)] by (simp add: alterable_def pair_ok_def)
  ultimately show ?thesis using partner_inj p(3,4) p'(3,4) n by metis
qed

lemma carried_kept:
  assumes "migratable dl C cx" "(q, c) \<in> set (kept_columns cx)"
  shows "carried cx v (co_id c) = v (co_id q)"
proof -
  have "find (\<lambda>(q, d). co_id d = co_id c) (kept_columns cx) = Some (q, c)"
    using assms kept_column_unique [OF assms(1)] by (intro find_unique) auto
  then show ?thesis by (simp add: carried_def)
qed

lemma carried_new:
  "(\<And>q d. (q, d) \<in> set (kept_columns cx) \<Longrightarrow> co_id d \<noteq> i) \<Longrightarrow> carried cx v i = None"
  by (auto simp: carried_def find_None_iff split: option.split dest!: find_Some_D)

lemma carries_carried:
  assumes m: "migratable dl C cx" and p: "p \<in> set (cx_previous cx)" "partner (table_differ cx) (cx_next cx) p = Some n"
  shows "carries cx p n v (carried cx v)"
proof -
  note mD = migratableD [OF m]
  have "carried cx v (co_id c) = v (co_id q)"
    if "q \<in> set (tb_columns p)" "partner (column_differ cx) (tb_columns n) q = Some c" for q c
    using p that by (intro carried_kept [OF m]) (auto simp: in_kept_columns)
  moreover have "carried cx v (co_id c) = None"
    if c: "c \<in> set (unmatched (column_differ cx) (tb_columns p) (tb_columns n))" for c
  proof (rule carried_new, rule notI)
    fix q d assume "(q, d) \<in> set (kept_columns cx)" and same: "co_id d = co_id c"
    then obtain p' n' where p': "p' \<in> set (cx_previous cx)" "partner (table_differ cx) (cx_next cx) p' = Some n'"
      "q \<in> set (tb_columns p')" "partner (column_differ cx) (tb_columns n') q = Some d"
      unfolding in_kept_columns by blast
    have in_next: "n \<in> set (cx_next cx)" "n' \<in> set (cx_next cx)" using p(2) p'(2) partner_in by metis+
    have cn: "c \<in> set (tb_columns n)" using c by (simp add: unmatched_def)
    note C = wf_table_columns [OF schema_table_wf(2) [OF mD(2) in_next(1)] cn]
      and D = wf_table_columns [OF schema_table_wf(2) [OF mD(2) in_next(2)] partner_in [OF p'(4)]]
    have "tb_id n = tb_id n'" using C(1) D(1) same by simp
    then have n: "n = n'" by (rule wf_same_id [OF mD(2) in_next])
    then have "p = p'" using partner_inj [OF mD(4) p(1) p'(1)] p(2) p'(2) by simp
    moreover have "c = d" using C(3) D(3) same n by simp
    ultimately show False using c p' n by (auto simp: unmatched_def)
  qed
  ultimately show ?thesis by (simp add: carries_def)
qed

lemma carried_created:
  assumes m: "migratable dl C cx" and n: "n \<in> set (unmatched (table_differ cx) (cx_previous cx) (cx_next cx))"
    and c: "c \<in> set (tb_columns n)"
  shows "carried cx v (co_id c) = None"
proof (rule carried_new, rule notI)
  note mD = migratableD [OF m]
  fix q d assume "(q, d) \<in> set (kept_columns cx)" and same: "co_id d = co_id c"
  then obtain p' n' where p': "p' \<in> set (cx_previous cx)" "partner (table_differ cx) (cx_next cx) p' = Some n'"
    "partner (column_differ cx) (tb_columns n') q = Some d"
    unfolding in_kept_columns by blast
  have in_next: "n \<in> set (cx_next cx)" "n' \<in> set (cx_next cx)" using n partner_in [OF p'(2)] by (simp_all add: unmatched_def)
  have "tb_id n = tb_id n'"
    using wf_table_columns(1) [OF schema_table_wf(2) [OF mD(2) in_next(1)] c]
      wf_table_columns(1) [OF schema_table_wf(2) [OF mD(2) in_next(2)] partner_in [OF p'(3)]] same by simp
  then have "n = n'" by (rule wf_same_id [OF mD(2) in_next])
  with n p'(1,2) show False by (simp add: unmatched_def)
qed

end
