(* ===== verification/MigrateRun.thy ===== *)
theory MigrateRun
  imports MigrateSchema
begin

text \<open>
  The run of a whole migration, table by table: before each table the catalog has the tables
  done so far in their next form and the others as they were.
\<close>

definition runs :: "dialect \<Rightarrow> capability \<Rightarrow> diff_context \<Rightarrow> table_change list \<Rightarrow> 'd catalog \<Rightarrow> 'd catalog \<Rightarrow> bool" where
  "runs dl C cx chs K K' \<longleftrightarrow>
     (\<exists>steps. traverse (table_statements C cx []) chs = Ok steps \<and> run_migration dl (concat steps) K = Some K')"

lemma runs_Nil: "runs dl C cx [] K K"
  by (simp add: runs_def)

lemma runs_one:
  "table_statements C cx [] ch = Ok steps \<Longrightarrow> run_migration dl steps K = Some K' \<Longrightarrow> runs dl C cx [ch] K K'"
  by (simp add: runs_def)

lemma runs_append:
  "runs dl C cx as K K1 \<Longrightarrow> runs dl C cx bs K1 K2 \<Longrightarrow> runs dl C cx (as @ bs) K K2"
  unfolding runs_def traverse_append by (auto simp: run_migration_append)

definition mid_catalog ::
  "capability \<Rightarrow> diff_context \<Rightarrow> (column_id \<Rightarrow> 'd option) \<Rightarrow> db_table list \<Rightarrow> db_table list \<Rightarrow> db_table list \<Rightarrow> 'd catalog" where
  "mid_catalog C cx v ps qs as =
     \<lparr>ct_tables = map_of (entries (table_differ cx) (cx_next cx) (\<lambda>p n. table_entry C (carried cx v) n)
          (table_entry C v) ps qs @
        map (\<lambda>n. (tb_name n, table_entry C (carried cx v) n)) as),
      ct_types = Map.empty\<rparr>"

lemma in_mid_catalog:
  assumes "ct_tables (mid_catalog C cx v ps qs as) t = Some T"
  obtains (kept) p n where "p \<in> set ps" "partner (table_differ cx) (cx_next cx) p = Some n" "t = tb_name n"
      "T = table_entry C (carried cx v) n"
    | (old) q where "q \<in> set qs" "t = tb_name q" "T = table_entry C v q"
    | (created) n where "n \<in> set as" "t = tb_name n" "T = table_entry C (carried cx v) n"
  using assms by (auto simp: mid_catalog_def in_entries dest!: map_of_SomeD)

lemma mid_catalog_names:
  assumes "set ps \<subseteq> set (cx_previous cx)" "set qs \<subseteq> set (cx_previous cx)" "set as \<subseteq> set (cx_next cx)"
  shows "dom (ct_tables (mid_catalog C cx v ps qs as)) \<subseteq> tb_name ` set (cx_previous cx) \<union> tb_name ` set (cx_next cx)"
proof
  fix t assume "t \<in> dom (ct_tables (mid_catalog C cx v ps qs as))"
  then obtain T where "ct_tables (mid_catalog C cx v ps qs as) t = Some T" by blast
  then show "t \<in> tb_name ` set (cx_previous cx) \<union> tb_name ` set (cx_next cx)"
    by (cases rule: in_mid_catalog) (use assms partner_in in \<open>fastforce+\<close>)
qed

subsection \<open>Index names\<close>

lemma distinct_concat_same:
  "distinct (concat (map f xs)) \<Longrightarrow> a \<in> set xs \<Longrightarrow> b \<in> set xs \<Longrightarrow> k \<in> set (f a) \<Longrightarrow> k \<in> set (f b) \<Longrightarrow> a = b"
  by (induction xs) auto

lemma wf_index_names:
  assumes "wf_schema S" "a \<in> set S" "b \<in> set S" "x \<in> ix_name ` set (tb_indices a)" "x \<in> ix_name ` set (tb_indices b)"
  shows "a = b"
  using assms distinct_concat_same [of "\<lambda>tb. map ix_name (tb_indices tb)" S a b x]
  by (simp add: wf_schema_def)

lemma no_index:
  "x \<notin> ix_name ` set (tb_indices tb) \<Longrightarrow> kt_indices (table_entry C v tb) x = None"
  by (auto simp: table_entry_def map_of_eq_None_iff secondary_def)

lemma own_names_old:
  assumes m: "migratable dl C cx" and d: "distinct (ps @ q # qs)" "set (ps @ q # qs) \<subseteq> set (cx_previous cx)"
    and n: "partner (table_differ cx) (cx_next cx) q = Some n"
  shows "own_names (mid_catalog C cx v ps (q # qs) []) (tb_name q) (ix_name ` (set (tb_indices q) \<union> set (tb_indices n)))"
  unfolding own_names_def
proof (intro allI impI ballI)
  note mD = migratableD [OF m]
  fix t T x
  assume t: "t \<noteq> tb_name q" and at: "ct_tables (mid_catalog C cx v ps (q # qs) []) t = Some T"
    and x: "x \<in> ix_name ` (set (tb_indices q) \<union> set (tb_indices n))"
  have q: "q \<in> set (cx_previous cx)" "q \<notin> set ps" using d by auto
  have nn: "n \<in> set (cx_next cx)" by (rule partner_in [OF n])
  from x consider "x \<in> ix_name ` set (tb_indices q)" | "x \<in> ix_name ` set (tb_indices n)" by blast
  note xs = this
  have stay: "partner (table_differ cx) (cx_next cx) p = Some c"
    if "p \<in> set (cx_previous cx)" "c \<in> set (cx_next cx)" "x \<in> ix_name ` set (tb_indices p)" "x \<in> ix_name ` set (tb_indices c)" for p c
    using mD(5) that unfolding indices_stay_def by blast
  from at show "kt_indices T x = None"
  proof (cases rule: in_mid_catalog)
    case (kept p c)
    have p: "p \<in> set (cx_previous cx)" "p \<noteq> q" using kept(1) d q by auto
    have c: "c \<in> set (cx_next cx)" by (rule partner_in [OF kept(2)])
    have "x \<notin> ix_name ` set (tb_indices c)"
    proof
      assume xc: "x \<in> ix_name ` set (tb_indices c)"
      from xs show False
      proof cases
        case 1
        from stay [OF q(1) c this xc] partner_inj [OF mD(4) p(1) q(1) kept(2)] p(2) show False by simp
      next
        case 2
        from wf_index_names [OF mD(2) nn c this xc] n partner_inj [OF mD(4) p(1) q(1) kept(2)] p(2) show False by simp
      qed
    qed
    then show ?thesis unfolding kept(4) by (rule no_index)
  next
    case (old r)
    have r: "r \<in> set (cx_previous cx)" "r \<noteq> q" using old(1,2) t d by auto
    have "x \<notin> ix_name ` set (tb_indices r)"
    proof
      assume xr: "x \<in> ix_name ` set (tb_indices r)"
      from xs show False
      proof cases
        case 1
        from wf_index_names [OF mD(1) q(1) r(1) this xr] r(2) show False by simp
      next
        case 2
        from partner_inj [OF mD(4) r(1) q(1) stay [OF r(1) nn xr this] n] r(2) show False by simp
      qed
    qed
    then show ?thesis unfolding old(3) by (rule no_index)
  next
    case (created c)
    then show ?thesis by simp
  qed
qed

lemma own_names_created:
  assumes m: "migratable dl C cx" and d: "distinct (as @ n # bs)"
    and as: "set (as @ n # bs) \<subseteq> set (unmatched (table_differ cx) (cx_previous cx) (cx_next cx))"
    and ps: "set ps \<subseteq> set (cx_previous cx)"
  shows "own_names (mid_catalog C cx v ps [] as) nm (ix_name ` set (tb_indices n))"
  unfolding own_names_def
proof (intro allI impI ballI)
  note mD = migratableD [OF m]
  fix t T x
  assume at: "ct_tables (mid_catalog C cx v ps [] as) t = Some T" and x: "x \<in> ix_name ` set (tb_indices n)"
  have n: "n \<in> set (cx_next cx)" "\<And>p. p \<in> set (cx_previous cx) \<Longrightarrow> partner (table_differ cx) (cx_next cx) p \<noteq> Some n"
    using as by (auto simp: unmatched_def)
  from at show "kt_indices T x = None"
  proof (cases rule: in_mid_catalog)
    case (kept p c)
    with n(2) ps have "c \<noteq> n" by auto
    with wf_index_names [OF mD(2) partner_in [OF kept(2)] n(1) _ x] show ?thesis
      unfolding kept(4) by (intro no_index) auto
  next
    case (created c)
    have "c \<in> set (cx_next cx)" "c \<noteq> n" using created(1) as d by (auto simp: unmatched_def)
    with wf_index_names [OF mD(2) this(1) n(1) _ x] show ?thesis
      unfolding created(3) by (intro no_index) auto
  qed simp
qed

subsection \<open>The tables of the previous schema\<close>

definition changes_of :: "diff_context \<Rightarrow> db_table \<Rightarrow> db_table \<Rightarrow> table_change list" where
  "changes_of cx p n = (case table_changed cx p n of Inr chs \<Rightarrow> chs | Inl _ \<Rightarrow> [])"

lemma table_diffs:
  assumes "pair_ok cx p n"
  obtains columns indices where "column_diff cx (tb_columns p) (tb_columns n) = Ok columns"
    "index_diff cx (tb_indices p) (tb_indices n) = Ok indices"
    "table_changed cx p n =
      Ok (if tb_name p \<noteq> tb_name n \<or> columns \<noteq> [] \<or> indices \<noteq> [] then [TableAlter p n columns indices] else [])"
proof -
  note okD = pair_okD [OF assms]
  obtain columns where "column_diff cx (tb_columns p) (tb_columns n) = Ok columns"
    using column_diff_eq [OF okD(5)] by blast
  moreover obtain indices where "index_diff cx (tb_indices p) (tb_indices n) = Ok indices"
    using index_diff_eq [OF okD(1-4,6)] by blast
  ultimately show ?thesis using that by (simp add: table_changed_def)
qed

lemma previous_table_run:
  assumes m: "migratable dl C cx" and d: "distinct (ps @ q # qs)" "set (ps @ q # qs) \<subseteq> set (cx_previous cx)"
  shows "runs dl C cx (item_changes (table_differ cx) (cx_next cx) (changes_of cx) q)
    (mid_catalog C cx v ps (q # qs) []) (mid_catalog C cx v (ps @ [q]) qs [])"
proof -
  note mD = migratableD [OF m]
  let ?K = "mid_catalog C cx v ps (q # qs) []"
  have q: "q \<in> set (cx_previous cx)" using d by auto
  have at: "ct_tables ?K (tb_name q) = Some (table_entry C v q)"
    using entries_at [OF mD(4) d, of _ "table_entry C v"] by (simp add: mid_catalog_def)
  show ?thesis
  proof (cases "partner (table_differ cx) (cx_next cx) q")
    case None
    have "run_migration dl [(DropTable (tb_name q), cx_previous cx)] ?K = Some (mid_catalog C cx v (ps @ [q]) qs [])"
      using at entries_drop [OF mD(4) d None, of "\<lambda>p n. table_entry C (carried cx v) n" "table_entry C v"]
      by (simp add: run_ddl_def remove_table_def) (simp add: mid_catalog_def)
    moreover have "table_statements C cx [] (TableDrop q) = Ok [(DropTable (tb_name q), cx_previous cx)]"
      by (simp add: table_statements_def)
    ultimately show ?thesis using None by (simp add: item_changes_def runs_one)
  next
    case (Some n)
    have al: "alterable C cx q n" by (rule mD(6) [OF q Some])
    then have ok: "pair_ok cx q n" by (simp add: alterable_def)
    obtain columns indices where diffs: "column_diff cx (tb_columns q) (tb_columns n) = Ok columns"
      "index_diff cx (tb_indices q) (tb_indices n) = Ok indices"
      "table_changed cx q n =
        Ok (if tb_name q \<noteq> tb_name n \<or> columns \<noteq> [] \<or> indices \<noteq> [] then [TableAlter q n columns indices] else [])"
      by (rule table_diffs [OF ok])
    note alter = entries_alter [OF mD(4) d Some, of "\<lambda>p n. table_entry C (carried cx v) n" "table_entry C v"]
    have fresh: "ct_tables ?K (tb_name n) = None" if "tb_name n \<noteq> tb_name q"
      using alter(2) that by (simp add: mid_catalog_def)
    have names: "dom (ct_tables ?K) \<subseteq> tb_name ` set (cx_previous cx) \<union> tb_name ` set (cx_next cx)"
      by (rule mid_catalog_names) (use d in auto)
    obtain steps where steps: "table_statements C cx [] (TableAlter q n columns indices) = Ok steps"
      "run_migration dl steps ?K = Some (renamed_in (tb_name q) (tb_name n) (table_entry C (carried cx v) n) ?K)"
      using altered_table [OF al mD(8) [OF q] mD(3) carries_carried [OF m q Some] diffs(1,2) at fresh names
        own_names_old [OF m d Some]] by blast
    have mid: "renamed_in (tb_name q) (tb_name n) (table_entry C (carried cx v) n) ?K = mid_catalog C cx v (ps @ [q]) qs []"
      using alter(1) by (simp add: renamed_in_def mid_catalog_def)
    show ?thesis
    proof (cases "tb_name q \<noteq> tb_name n \<or> columns \<noteq> [] \<or> indices \<noteq> []")
      case True
      with Some diffs(3) have "item_changes (table_differ cx) (cx_next cx) (changes_of cx) q = [TableAlter q n columns indices]"
        by (simp add: item_changes_def changes_of_def)
      with runs_one [OF steps(1), of dl ?K "mid_catalog C cx v (ps @ [q]) qs []"] steps(2) mid show ?thesis by simp
    next
      case False
      with Some diffs(3) have none: "item_changes (table_differ cx) (cx_next cx) (changes_of cx) q = []"
        by (simp add: item_changes_def changes_of_def)
      have "steps = []"
        using steps(1) False by (simp add: table_statements_def needs_recreation_def index_drops_def index_creates_def)
      with steps(2) mid have "?K = mid_catalog C cx v (ps @ [q]) qs []" by simp
      with none runs_Nil [of dl C cx ?K] show ?thesis by simp
    qed
  qed
qed

lemma previous_tables_run:
  assumes m: "migratable dl C cx" and "distinct (ps @ qs)" "set (ps @ qs) \<subseteq> set (cx_previous cx)"
  shows "runs dl C cx (concat (map (item_changes (table_differ cx) (cx_next cx) (changes_of cx)) qs))
    (mid_catalog C cx v ps qs []) (mid_catalog C cx v (ps @ qs) [] [])"
  using assms(2,3)
proof (induction qs arbitrary: ps)
  case Nil
  then show ?case by (simp add: runs_Nil)
next
  case (Cons q qs)
  from previous_table_run [OF m Cons.prems] Cons.IH [of "ps @ [q]"] Cons.prems
  show ?case by (auto intro: runs_append)
qed

subsection \<open>The created tables\<close>

lemma created_table_run:
  fixes v :: "column_id \<Rightarrow> 'd option"
  assumes m: "migratable dl C cx" and d: "distinct (as @ n # bs)"
    and as: "mset (as @ n # bs) = mset (unmatched (table_differ cx) (cx_previous cx) (cx_next cx))"
  shows "runs dl C cx [TableCreate n] (mid_catalog C cx v (cx_previous cx) [] as)
    (mid_catalog C cx v (cx_previous cx) [] (as @ [n]))"
proof -
  note mD = migratableD [OF m]
  let ?K = "mid_catalog C cx v (cx_previous cx) [] as" and ?es = "entries (table_differ cx) (cx_next cx)
      (\<lambda>p n. table_entry C (carried cx v) n) (table_entry C v) (cx_previous cx) []"
  let ?e = "\<lambda>n. (tb_name n, table_entry C (carried cx v) n)"
  have sub: "set (as @ n # bs) \<subseteq> set (unmatched (table_differ cx) (cx_previous cx) (cx_next cx))"
    using as by (metis set_mset_mset subset_refl)
  then have nu: "n \<in> set (unmatched (table_differ cx) (cx_previous cx) (cx_next cx))" by simp
  then have nn: "n \<in> set (cx_next cx)" by (simp add: unmatched_def)
  have dp: "distinct (cx_previous cx)" using mD(4) by (auto simp: matching_def distinct_map)
  have names: "distinct (map fst (?es @ map ?e (as @ n # bs)))"
    using distinct_entries_added [OF mD(4) dp as, of _ _ "\<lambda>n. table_entry C (carried cx v) n"] by simp
  then have "map_of (?es @ map ?e as) (tb_name n) = None"
    by (auto simp: map_of_eq_None_iff)
  then have fresh: "ct_tables ?K (tb_name n) = None" by (simp add: mid_catalog_def)
  have create: "run_ddl dl (create_table C n, cx_next cx) ?K = Some (with_table (tb_name n) (bare_table C n) ?K)"
    by (rule create_table_run [OF schema_table_wf(1) [OF mD(2) nn] refl schema_table_wf(2) [OF mD(2) nn] mD(7) [OF nu] fresh])
  let ?ys = "secondary n" and ?B = "bare_table C n :: 'd cat_table"
  have ys: "set ?ys \<subseteq> set (tb_indices n)" by (auto simp: secondary_def)
  have "run_migration dl (map (\<lambda>y. (create_index y, cx_next cx)) ?ys) (with_table (tb_name n) ?B ?K) =
      Some (with_table (tb_name n) (?B\<lparr>kt_indices := kt_indices ?B ++ map_of (map (index_entry n) ?ys)\<rparr>)
        (with_table (tb_name n) ?B ?K))"
  proof (rule creates_run [OF mD(2) nn ys distinct_secondary(2) [OF mD(2) nn]])
    show "co_name ` set (tb_columns n) \<subseteq> dom (kt_columns ?B)"
      by (simp add: bare_table_def table_entry_def dom_map_of_conv_image_fst image_image column_entry_def)
    have "own_names ?K (tb_name n) (ix_name ` set (tb_indices n))"
      by (rule own_names_created [OF m d sub]) simp
    then have "own_names ?K (tb_name n) (ix_name ` set ?ys)" by (rule own_names_mono) (use ys in blast)
    then show "own_names (with_table (tb_name n) ?B ?K) (tb_name n) (ix_name ` set ?ys)" by simp
  qed (simp_all add: bare_table_def)
  moreover have "?B\<lparr>kt_indices := kt_indices ?B ++ map_of (map (index_entry n) ?ys)\<rparr> =
      table_entry C (carried cx v) n"
  proof -
    have "map (column_entry C (\<lambda>_. None)) (tb_columns n) = map (column_entry C (carried cx v)) (tb_columns n)"
      using carried_created [OF m nu, of _ v] by (simp add: column_entry_def)
    then show ?thesis
      unfolding bare_table_def table_entry_def index_entry_def [abs_def] by (simp only:) simp
  qed
  moreover have "with_table (tb_name n) (table_entry C (carried cx v) n) ?K = mid_catalog C cx v (cx_previous cx) [] (as @ [n])"
    using fresh by (auto simp: with_table_def mid_catalog_def map_add_def fun_eq_iff split: option.splits)
  ultimately have run: "run_migration dl ((create_table C n, cx_next cx) # map (\<lambda>y. (create_index y, cx_next cx)) ?ys) ?K =
      Some (mid_catalog C cx v (cx_previous cx) [] (as @ [n]))"
    using create by simp
  have "table_statements C cx [] (TableCreate n) = Ok ((create_table C n, cx_next cx) # map (\<lambda>y. (create_index y, cx_next cx)) ?ys)"
    by (simp add: table_statements_def secondary_def)
  from runs_one [OF this run] show ?thesis .
qed

lemma created_tables_run:
  assumes m: "migratable dl C cx" and "distinct (as @ bs)"
    and "mset (as @ bs) = mset (unmatched (table_differ cx) (cx_previous cx) (cx_next cx))"
  shows "runs dl C cx (map TableCreate bs) (mid_catalog C cx v (cx_previous cx) [] as)
    (mid_catalog C cx v (cx_previous cx) [] (as @ bs))"
  using assms(2,3)
proof (induction bs arbitrary: as)
  case Nil
  then show ?case by (simp add: runs_Nil)
next
  case (Cons n bs)
  from runs_append [OF created_table_run [OF m Cons.prems] Cons.IH [of "as @ [n]"]] Cons.prems
  show ?case by simp
qed

subsection \<open>The whole migration\<close>

lemma schema_diff_eq:
  assumes m: "migratable dl C cx"
  shows "\<exists>as. schema_diff cx =
      Ok (concat (map (item_changes (table_differ cx) (cx_next cx) (changes_of cx)) (cx_previous cx)) @ map TableCreate as) \<and>
    mset as = mset (unmatched (table_differ cx) (cx_previous cx) (cx_next cx))"
proof -
  note mD = migratableD [OF m]
  have "df_changed (table_differ cx) p n = Ok (changes_of cx p n)"
    if p: "p \<in> set (cx_previous cx)" "partner (table_differ cx) (cx_next cx) p = Some n" for p n
  proof -
    have "pair_ok cx p n" using mD(6) [OF p] by (simp add: alterable_def)
    then obtain columns indices where "table_changed cx p n =
      Ok (if tb_name p \<noteq> tb_name n \<or> columns \<noteq> [] \<or> indices \<noteq> [] then [TableAlter p n columns indices] else [])"
      by (rule table_diffs)
    then show ?thesis by (simp add: changes_of_def)
  qed
  from diff_items_eq [OF _ this] mD(4) show ?thesis
    by (simp add: schema_diff_def table_diff_def matching_def)
qed

lemma no_named_enums:
  assumes "\<And>tb c. tb \<in> set S \<Longrightarrow> c \<in> set (tb_columns tb) \<Longrightarrow> unnamed c"
  shows "enum_names S = []"
proof -
  have "enum_uses S = []"
    using assms by (fastforce simp: enum_uses_def unnamed_def split: option.splits)
  then show ?thesis by (simp add: enum_names_def)
qed

lemma no_types:
  assumes m: "migratable dl C cx" and "any_order ord"
  shows "type_diff ord (cx_previous cx) (cx_next cx) = Ok []"
proof -
  have "enum_names (cx_next cx) = []" using migratableD(9) [OF m] by (intro no_named_enums) blast
  moreover have "ord [] = []" using assms(2) by (simp add: any_order_def flip: mset_zero_iff)
  ultimately show ?thesis by (simp add: type_diff_def)
qed

lemma migration_runs:
  assumes m: "migratable dl C cx" and ord: "any_order ord"
  shows "\<exists>changes steps. schema_diff cx = Ok changes \<and> migration_from_diff C cx ord changes = Ok steps \<and>
    run_migration dl steps (catalog_of C (cx_previous cx) v) = Some (catalog_of C (cx_next cx) (carried cx v))"
proof -
  note mD = migratableD [OF m]
  obtain as where as: "schema_diff cx =
      Ok (concat (map (item_changes (table_differ cx) (cx_next cx) (changes_of cx)) (cx_previous cx)) @ map TableCreate as)"
    "mset as = mset (unmatched (table_differ cx) (cx_previous cx) (cx_next cx))"
    using schema_diff_eq [OF m] by blast
  have dp: "distinct (cx_previous cx)" and dn: "distinct (cx_next cx)"
    using mD(4) by (auto simp: matching_def distinct_map)
  have da: "distinct as" using mset_eq_imp_distinct_iff [OF as(2)] dn by (simp add: unmatched_def)
  have start: "catalog_of C (cx_previous cx) v = mid_catalog C cx v [] (cx_previous cx) []"
    by (simp add: catalog_of_def mid_catalog_def entries_def)
  have finish: "mid_catalog C cx v (cx_previous cx) [] as = catalog_of C (cx_next cx) (carried cx v)"
    using entries_end [OF mD(4) dp as(2), of "\<lambda>p n. table_entry C (carried cx v) n" "table_entry C (carried cx v)"
        "table_entry C (carried cx v)" "table_entry C v"]
    by (simp add: catalog_of_def mid_catalog_def)
  have "runs dl C cx (concat (map (item_changes (table_differ cx) (cx_next cx) (changes_of cx)) (cx_previous cx)))
      (mid_catalog C cx v [] (cx_previous cx) []) (mid_catalog C cx v (cx_previous cx) [] [])"
    using previous_tables_run [OF m, of "[]" "cx_previous cx"] dp by simp
  moreover have "runs dl C cx (map TableCreate as) (mid_catalog C cx v (cx_previous cx) [] [])
      (mid_catalog C cx v (cx_previous cx) [] as)"
    using created_tables_run [OF m, of "[]" as] da as(2) by simp
  ultimately have "runs dl C cx (concat (map (item_changes (table_differ cx) (cx_next cx) (changes_of cx)) (cx_previous cx)) @ map TableCreate as)
      (catalog_of C (cx_previous cx) v) (catalog_of C (cx_next cx) (carried cx v))"
    unfolding start finish [symmetric] by (rule runs_append)
  then obtain steps where
    "traverse (table_statements C cx []) (concat (map (item_changes (table_differ cx) (cx_next cx) (changes_of cx)) (cx_previous cx)) @ map TableCreate as) = Ok steps"
    "run_migration dl (concat steps) (catalog_of C (cx_previous cx) v) = Some (catalog_of C (cx_next cx) (carried cx v))"
    unfolding runs_def by blast
  moreover have "migration_from_diff C cx ord chs = rmap concat (traverse (table_statements C cx []) chs)" for chs
    using no_types [OF m ord] by (simp add: migration_from_diff_def renamed_types_def)
  ultimately show ?thesis using as(1) by simp
qed

end
