(* ===== verification/MigrationText.thy ===== *)
theory MigrationText
  imports Prelude
begin

text \<open>
  The text of a migration (\<open>toasty-core/src/schema/db/migration.rs\<close>): statements are joined by
  lines that hold a marker, and split at these lines again.  The characters of \<open>string\<close> stand for
  the code points below 256, of which Unicode counts eight as white space.
\<close>

abbreviation newline :: char where
  "newline \<equiv> CHR 0x0A"

definition is_whitespace :: "char \<Rightarrow> bool" where
  "is_whitespace c \<longleftrightarrow> (let n = (of_char c :: nat) in 9 \<le> n \<and> n \<le> 13 \<or> n = 32 \<or> n = 133 \<or> n = 160)"

definition trim :: "string \<Rightarrow> string" where
  "trim s = rev (dropWhile is_whitespace (rev (dropWhile is_whitespace s)))"

fun split_inclusive :: "string \<Rightarrow> string list" where
  "split_inclusive [] = []"
| "split_inclusive (c # cs) =
     (if c = newline then [c] # split_inclusive cs
      else (case split_inclusive cs of [] \<Rightarrow> [[c]] | l # ls \<Rightarrow> (c # l) # ls))"

definition breakpoint :: string where
  "breakpoint = ''-- #[toasty::breakpoint]''"

definition new_sql_with_breakpoints :: "string list \<Rightarrow> string" where
  "new_sql_with_breakpoints statements =
     (case statements of
        [] \<Rightarrow> []
      | s # ss \<Rightarrow> s @ concat (map (\<lambda>t. newline # breakpoint @ newline # t) ss))"

definition strip_line_ending :: "string \<Rightarrow> string" where
  "strip_line_ending s =
     (if drop (length s - 2) s = [CHR 0x0D, newline] then take (length s - 2) s
      else if drop (length s - 1) s = [newline] then take (length s - 1) s
      else s)"

definition slice :: "string \<Rightarrow> nat \<Rightarrow> nat \<Rightarrow> string" where
  "slice s a b = drop a (take b s)"

fun split_lines :: "string \<Rightarrow> string list \<Rightarrow> string list \<Rightarrow> nat \<Rightarrow> nat \<Rightarrow> string list \<times> nat" where
  "split_lines sql [] statements statement_start line_start = (statements, statement_start)"
| "split_lines sql (line # lines) statements statement_start line_start =
     (let line_end = line_start + length line in
      if trim line = breakpoint then
        split_lines sql lines (statements @ [strip_line_ending (slice sql statement_start line_start)]) line_end line_end
      else split_lines sql lines statements statement_start line_end)"

definition split_on_breakpoints :: "string \<Rightarrow> string list" where
  "split_on_breakpoints sql =
     (let (statements, statement_start) = split_lines sql (split_inclusive sql) [] 0 0 in
      filter (\<lambda>s. trim s \<noteq> []) (statements @ [drop statement_start sql]))"

subsection \<open>The pieces\<close>

text \<open>The loop over positions collects the lines between two markers.\<close>

fun pieces :: "string \<Rightarrow> string list \<Rightarrow> string list" where
  "pieces current [] = [current]"
| "pieces current (line # lines) =
     (if trim line = breakpoint then strip_line_ending current # pieces [] lines
      else pieces (current @ line) lines)"

lemma split_lines_pieces:
  assumes "sql = done_text @ current @ concat lines" "statement_start = length done_text"
    and "line_start = length done_text + length current"
  shows "(case split_lines sql lines statements statement_start line_start of (ss, i) \<Rightarrow> ss @ [drop i sql]) =
    statements @ pieces current lines"
  using assms
proof (induction lines arbitrary: done_text current statements statement_start line_start)
  case (Cons line lines)
  have piece: "slice sql statement_start line_start = current" using Cons.prems by (simp add: slice_def)
  show ?case
  proof (cases "trim line = breakpoint")
    case True
    let ?k = "line_start + length line"
    have "(case split_lines sql lines (statements @ [strip_line_ending current]) ?k ?k of (ss, i) \<Rightarrow> ss @ [drop i sql]) =
        (statements @ [strip_line_ending current]) @ pieces [] lines"
      by (rule Cons.IH [of "done_text @ current @ line" "[]"]) (use Cons.prems in simp_all)
    with True piece show ?thesis by (simp add: Let_def)
  next
    case False
    have "(case split_lines sql lines statements statement_start (line_start + length line) of (ss, i) \<Rightarrow> ss @ [drop i sql]) =
        statements @ pieces (current @ line) lines"
      by (rule Cons.IH [of done_text "current @ line"]) (use Cons.prems in simp_all)
    with False show ?thesis by (simp add: Let_def)
  qed
qed simp

lemma concat_split_inclusive [simp]: "concat (split_inclusive s) = s"
  by (induction s rule: split_inclusive.induct) (auto split: list.split)

lemma split_on_breakpoints_pieces:
  "split_on_breakpoints sql = filter (\<lambda>s. trim s \<noteq> []) (pieces [] (split_inclusive sql))"
  using split_lines_pieces [of sql "[]" "[]" "split_inclusive sql" 0 0 "[]", simplified, symmetric]
  unfolding split_on_breakpoints_def Let_def split_def by simp

lemma pieces_plain:
  "\<forall>l \<in> set ls. trim l \<noteq> breakpoint \<Longrightarrow> pieces current (ls @ lines) = pieces (current @ concat ls) lines"
  by (induction ls arbitrary: current) auto

subsection \<open>Lines of a joined text\<close>

lemma split_inclusive_Nil [simp]: "split_inclusive s = [] \<longleftrightarrow> s = []"
  by (cases s) (auto split: list.split)

lemma split_inclusive_append:
  "split_inclusive (xs @ newline # ys) = split_inclusive (xs @ [newline]) @ split_inclusive ys"
proof (induction xs)
  case (Cons x xs)
  have "split_inclusive (xs @ [newline]) \<noteq> []" by simp
  then obtain l ls where "split_inclusive (xs @ [newline]) = l # ls" by (cases "split_inclusive (xs @ [newline])") auto
  with Cons show ?case by simp
qed simp

lemma split_inclusive_terminated:
  "split_inclusive (s @ [newline]) =
     (if s = [] \<or> last s = newline then split_inclusive s @ [[newline]]
      else butlast (split_inclusive s) @ [last (split_inclusive s) @ [newline]])"
proof (induction s)
  case (Cons c s)
  show ?case
  proof (cases "s = []")
    case False
    then obtain h hs where "split_inclusive s = h # hs" by (cases "split_inclusive s") auto
    with False Cons.IH show ?thesis by (cases hs) auto
  qed simp
qed simp

lemma white_newline [simp]: "is_whitespace newline"
  by (simp add: is_whitespace_def)

lemma trim_newline [simp]: "trim (l @ [newline]) = trim l" "trim [newline] = []"
proof -
  have "dropWhile is_whitespace (l @ [newline]) =
      (if dropWhile is_whitespace l = [] then [] else dropWhile is_whitespace l @ [newline])"
    by (simp add: dropWhile_append)
  then show "trim (l @ [newline]) = trim l" by (cases "dropWhile is_whitespace l = []") (simp_all add: trim_def del: dropWhile_eq_Nil_conv)
  show "trim [newline] = []" by (simp add: trim_def)
qed

definition plain_statement :: "string \<Rightarrow> bool" where
  "plain_statement s \<longleftrightarrow>
     trim s \<noteq> [] \<and> (\<forall>l \<in> set (split_inclusive s). trim l \<noteq> breakpoint) \<and> last s \<noteq> CHR 0x0D"

lemma strip_newline:
  assumes "s = [] \<or> last s \<noteq> CHR 0x0D"
  shows "strip_line_ending (s @ [newline]) = s"
proof (cases s rule: rev_cases)
  case (snoc xs x)
  with assms show ?thesis by (simp add: strip_line_ending_def)
qed (simp add: strip_line_ending_def)

lemma terminated_plain:
  assumes "plain_statement s"
  shows "\<forall>l \<in> set (split_inclusive (s @ [newline])). trim l \<noteq> breakpoint"
proof -
  have lines: "\<forall>l \<in> set (split_inclusive s). trim l \<noteq> breakpoint" and "s \<noteq> []"
    using assms by (auto simp: plain_statement_def trim_def)
  then have "last (split_inclusive s) \<in> set (split_inclusive s)" by simp
  with lines show ?thesis
    by (auto simp: split_inclusive_terminated breakpoint_def dest: in_set_butlastD)
qed

lemma joined_Cons:
  "new_sql_with_breakpoints (s # t # ts) = s @ newline # breakpoint @ newline # new_sql_with_breakpoints (t # ts)"
  by (simp add: new_sql_with_breakpoints_def)

lemma marker_line: "split_inclusive (breakpoint @ [newline]) = [breakpoint @ [newline]]" "trim breakpoint = breakpoint"
  by (simp_all add: breakpoint_def trim_def is_whitespace_def)

lemma pieces_joined:
  "\<forall>u \<in> set (s # ss). plain_statement u \<Longrightarrow> pieces [] (split_inclusive (new_sql_with_breakpoints (s # ss))) = s # ss"
proof (induction ss arbitrary: s)
  case Nil
  then show ?case
    using pieces_plain [of "split_inclusive s" "[]" "[]"]
    by (simp add: new_sql_with_breakpoints_def plain_statement_def)
next
  case (Cons t ts)
  let ?J = "new_sql_with_breakpoints (t # ts)"
  have s: "plain_statement s" using Cons.prems by simp
  have lines: "split_inclusive (new_sql_with_breakpoints (s # t # ts)) =
      split_inclusive (s @ [newline]) @ (breakpoint @ [newline]) # split_inclusive ?J"
    using split_inclusive_append [of s "breakpoint @ newline # ?J"] split_inclusive_append [of breakpoint ?J]
    by (simp add: joined_Cons marker_line)
  have "pieces [] (split_inclusive (new_sql_with_breakpoints (s # t # ts))) =
      strip_line_ending (s @ [newline]) # pieces [] (split_inclusive ?J)"
    unfolding lines using pieces_plain [OF terminated_plain [OF s], of "[]"] by (simp add: marker_line)
  moreover have "strip_line_ending (s @ [newline]) = s"
    by (rule strip_newline) (use s in \<open>simp add: plain_statement_def\<close>)
  moreover have "pieces [] (split_inclusive ?J) = t # ts" by (rule Cons.IH) (use Cons.prems in simp)
  ultimately show ?case by simp
qed

lemma text_round_trip:
  assumes "\<forall>s \<in> set ss. plain_statement s"
  shows "split_on_breakpoints (new_sql_with_breakpoints ss) = ss"
proof (cases ss)
  case Nil
  then show ?thesis by (simp add: split_on_breakpoints_pieces new_sql_with_breakpoints_def trim_def)
next
  case (Cons s ts)
  have "filter (\<lambda>s. trim s \<noteq> []) ss = ss"
    using assms by (simp add: plain_statement_def filter_id_conv)
  then show ?thesis
    using Cons pieces_joined [of s ts] assms by (simp add: split_on_breakpoints_pieces)
qed

end
