(* ===== verification/MigrateSame.thy ===== *)
theory MigrateSame
  imports MigrateRun MigrationText
begin

text \<open>
  Without rename hints a schema does not differ from itself, on any of the three levels.
\<close>

lemma diff_items_self:
  assumes ids: "distinct (map (df_id D) xs)" "\<And>x. x \<in> set xs \<Longrightarrow> df_lookup D (df_id D x) = Ok x"
    and names: "distinct (map (df_name D) xs)" and hints: "\<And>x. x \<in> set xs \<Longrightarrow> df_hint D (df_id D x) = None"
    and ord: "any_order (df_order D)" and same: "\<And>x. x \<in> set xs \<Longrightarrow> df_changed D x x = Ok []"
  shows "diff_items D xs xs = Ok []"
proof -
  have p: "partner D xs x = Some x" if "x \<in> set xs" for x
    using by_name_in [OF names that] hints [OF that] by (simp add: partner_def)
  have "resolvable D xs xs" using ids hints ord by (simp add: resolvable_def)
  then obtain as where "diff_items D xs xs = Ok (concat (map (item_changes D xs (\<lambda>_ _. [])) xs) @ map (df_added D) as)"
    "mset as = mset (unmatched D xs xs)"
    using diff_items_eq [of D xs xs "\<lambda>_ _. []"] p same by fastforce
  moreover have "unmatched D xs xs = []" using p by (simp add: unmatched_def filter_empty_conv)
  moreover have "concat (map (item_changes D xs (\<lambda>_ _. [])) xs) = []" using p by (simp add: item_changes_def)
  ultimately show ?thesis by simp
qed

definition no_hints :: rename_hints where
  "no_hints = \<lparr>rh_tables = Map.empty, rh_columns = Map.empty, rh_indices = Map.empty\<rparr>"

definition hash_orders :: "diff_context \<Rightarrow> bool" where
  "hash_orders cx \<longleftrightarrow>
     any_order (cx_table_order cx) \<and> any_order (cx_column_order cx) \<and> any_order (cx_index_order cx)"

lemma distinct_pairs [simp]: "distinct (map (Pair t) [0..<n])"
  by (simp add: distinct_map inj_on_def)

lemma index_same:
  assumes "wf_schema S" "tb \<in> set S" "x \<in> set (tb_indices tb)" "cx_previous cx = S" "cx_next cx = S" "cx_hints cx = no_hints"
  shows "index_has_diff cx x x = Ok False"
proof -
  have "index_column_differs cx c c = Ok False" if "c \<in> set (ix_columns x)" for c
  proof -
    have "fst (ic_column c) = tb_id tb" "snd (ic_column c) < length (tb_columns tb)"
      using schema_table_wf(2) [OF assms(1,2)] assms(3) that by (auto simp: wf_table_def list_all_iff)
    then have "schema_column S (ic_column c) = Ok (tb_columns tb ! snd (ic_column c))"
      using schema_table_wf(1) [OF assms(1,2)] by (simp add: schema_column_def)
    then show ?thesis using assms(4-6) by (simp add: index_column_differs_def index_columns_match_def no_hints_def)
  qed
  then have "any_ok (case_prod (index_column_differs cx)) (zip cs cs) = Ok False" if "set cs \<subseteq> set (ix_columns x)" for cs
    using that by (induction cs) auto
  then show ?thesis by (simp add: index_has_diff_def)
qed

lemma table_same:
  assumes wf: "wf_schema S" "tb \<in> set S" and cx: "cx_previous cx = S" "cx_next cx = S" "cx_hints cx = no_hints" "hash_orders cx"
  shows "table_changed cx tb tb = Ok []"
proof -
  note T = schema_table_wf(2) [OF wf]
  have "column_diff cx (tb_columns tb) (tb_columns tb) = Ok []" unfolding column_diff_def
    by (rule diff_items_self)
      (use T cx schema_column_wf [OF wf] in
        \<open>auto simp: column_differ_def wf_table_def no_hints_def hash_orders_def column_has_diff_def\<close>)
  moreover have "index_diff cx (tb_indices tb) (tb_indices tb) = Ok []" unfolding index_diff_def
    by (rule diff_items_self)
      (use T cx schema_index_wf [OF wf] index_same [OF wf] in
        \<open>auto simp: index_differ_def wf_table_def no_hints_def hash_orders_def\<close>)
  ultimately show ?thesis by (simp add: table_changed_def)
qed

lemma wf_schema_ids: "wf_schema S \<Longrightarrow> map tb_id S = [0..<length S]"
  by (rule nth_equalityI) (auto simp: wf_schema_def wf_table_def)

lemma schema_same:
  assumes "wf_schema S" "cx_previous cx = S" "cx_next cx = S" "cx_hints cx = no_hints" "hash_orders cx"
  shows "schema_diff cx = Ok []"
  unfolding schema_diff_def table_diff_def assms(2,3)
  by (rule diff_items_self)
    (use assms wf_schema_ids [OF assms(1)] schema_table_wf(1) [OF assms(1)] table_same [OF assms(1)] in
      \<open>auto simp: wf_schema_def no_hints_def hash_orders_def table_differ_def\<close>)

end
