(* ===== verification/MigrateExamples.thy ===== *)
theory MigrateExamples
  imports MigrateSame
begin

text \<open>
  Concrete migrations: one that is in the scope of the general theorem, and three outside of it
  that the code gets wrong.
\<close>

subsection \<open>An example in scope\<close>

text \<open>
  A column is renamed by a hint and becomes nullable, one is dropped, one is added; an index on
  the renamed column survives; one table is dropped and one is created.
\<close>

definition ex_column :: "nat \<Rightarrow> nat \<Rightarrow> string \<Rightarrow> db_ty \<Rightarrow> bool \<Rightarrow> column" where
  "ex_column t i name ty nullable =
     \<lparr>co_id = (t, i), co_name = name, co_ty = TString, co_storage_ty = ty, co_nullable = nullable,
      co_primary_key = (i = 0), co_auto_increment = False, co_versionable = False\<rparr>"

definition ex_index :: "nat \<Rightarrow> nat \<Rightarrow> string \<Rightarrow> nat \<Rightarrow> bool \<Rightarrow> db_index" where
  "ex_index t i name c pk =
     \<lparr>ix_id = (t, i), ix_name = name, ix_on = t,
      ix_columns = [\<lparr>ic_column = (t, c), ic_op = IxEq, ic_scope = ScPartition\<rparr>],
      ix_unique = pk, ix_primary_key = pk\<rparr>"

definition ex_table :: "nat \<Rightarrow> string \<Rightarrow> column list \<Rightarrow> db_index list \<Rightarrow> db_table" where
  "ex_table t name columns indices =
     \<lparr>tb_id = t, tb_name = name, tb_columns = columns,
      tb_primary_key = \<lparr>pk_columns = [(t, 0)], pk_index = (t, 0)\<rparr>, tb_indices = indices\<rparr>"

definition ex_previous :: db_schema where
  "ex_previous =
     [ex_table 0 ''log'' [ex_column 0 0 ''id'' DbText False] [ex_index 0 0 ''log_pk'' 0 True],
      ex_table 1 ''user''
        [ex_column 1 0 ''id'' DbText False, ex_column 1 1 ''email'' DbText False, ex_column 1 2 ''old'' DbText False]
        [ex_index 1 0 ''user_pk'' 0 True, ex_index 1 1 ''by_email'' 1 False]]"

definition ex_next :: db_schema where
  "ex_next =
     [ex_table 0 ''user''
        [ex_column 0 0 ''id'' DbText False, ex_column 0 1 ''age'' (DbInteger 4) True, ex_column 0 2 ''mail'' DbText True]
        [ex_index 0 0 ''user_pk'' 0 True, ex_index 0 1 ''by_email'' 2 False],
      ex_table 1 ''tag'' [ex_column 1 0 ''id'' DbText False] [ex_index 1 0 ''tag_pk'' 0 True]]"

definition ex_hints :: rename_hints where
  "ex_hints = \<lparr>rh_tables = Map.empty, rh_columns = [(1, 1) \<mapsto> (0, 2)], rh_indices = Map.empty\<rparr>"

definition ex_context :: "db_schema \<Rightarrow> db_schema \<Rightarrow> rename_hints \<Rightarrow> diff_context" where
  "ex_context p n h =
     \<lparr>cx_previous = p, cx_next = n, cx_hints = h, cx_table_order = (\<lambda>is. is), cx_column_order = (\<lambda>is. is),
      cx_index_order = (\<lambda>is. is)\<rparr>"

definition ex_cx :: diff_context where
  "ex_cx = ex_context ex_previous ex_next ex_hints"

subsection \<open>Examples out of scope\<close>

text \<open>
  A column changes its type in a table with an index, on a database that has to recreate the
  table; the same in a schema where the table has moved to a new position; and a primary-key
  column that is renamed together with its index.
\<close>

definition count_column :: "nat \<Rightarrow> db_ty \<Rightarrow> column" where
  "count_column t ty = ex_column t 1 ''n'' ty False"

definition count_table :: "nat \<Rightarrow> db_ty \<Rightarrow> db_table" where
  "count_table t ty =
     ex_table t ''user'' [ex_column t 0 ''id'' DbText False, count_column t ty]
       [ex_index t 0 ''user_pk'' 0 True, ex_index t 1 ''by_n'' 1 False]"

definition ex_widened :: diff_context where
  "ex_widened = ex_context [count_table 0 (DbInteger 4)] [count_table 0 (DbInteger 8)] no_hints"

definition ex_shifted :: diff_context where
  "ex_shifted = ex_context [count_table 0 (DbInteger 4)]
     [ex_table 0 ''tag'' [ex_column 0 0 ''id'' DbText False] [], count_table 1 (DbInteger 8)] no_hints"

definition key_table :: "string \<Rightarrow> string \<Rightarrow> db_table" where
  "key_table column index = ex_table 0 ''user'' [ex_column 0 0 column DbText False] [ex_index 0 0 index 0 True]"

definition ex_renamed :: diff_context where
  "ex_renamed = ex_context [key_table ''id'' ''index_user_by_id''] [key_table ''key'' ''index_user_by_key'']
     (no_hints\<lparr>rh_columns := [(0, 0) \<mapsto> (0, 0)]\<rparr>)"

subsection \<open>In scope\<close>

lemmas example_simps = ex_column_def ex_index_def ex_table_def ex_previous_def
  ex_next_def ex_hints_def ex_context_def

lemma any_order_id: "any_order (\<lambda>is. is)"
  by (simp add: any_order_def)

lemma ex_wf: "wf_schema ex_previous" "wf_schema ex_next"
  by (simp_all add: wf_schema_def wf_table_def example_simps less_Suc_eq upt_rec all_conj_distrib imp_disjL)

lemma ex_dialect: "dialect_supports Postgresql postgresql_capability"
  by (simp add: dialect_supports_def postgresql_capability_def sqlite_capability_def postgresql_mutations_def)

lemma ex_unnamed:
  "tb \<in> set ex_previous \<union> set ex_next \<Longrightarrow> c \<in> set (tb_columns tb) \<Longrightarrow> unnamed c"
  by (auto simp: example_simps unnamed_def named_enum_def)

lemma ex_cx_simps [simp]:
  "cx_previous ex_cx = ex_previous" "cx_next ex_cx = ex_next" "cx_hints ex_cx = ex_hints"
  "cx_table_order ex_cx = (\<lambda>is. is)" "cx_column_order ex_cx = (\<lambda>is. is)" "cx_index_order ex_cx = (\<lambda>is. is)"
  by (simp_all add: ex_cx_def ex_context_def)

lemma ex_orders: "df_order (table_differ ex_cx) = (\<lambda>is. is)" "df_order (column_differ ex_cx) = (\<lambda>is. is)"
  "df_order (index_differ ex_cx) = (\<lambda>is. is)"
  by (simp_all add: table_differ_def column_differ_def index_differ_def)

lemmas matching_simps = matching_def resolvable_def clean_hints_def any_order_def ex_orders

lemma ex_lookup:
  "df_lookup (table_differ ex_cx) = schema_table ex_next" "df_lookup (column_differ ex_cx) = schema_column ex_next"
  "df_hint (table_differ ex_cx) = Map.empty" "df_hint (index_differ ex_cx) = Map.empty"
  "df_hint (column_differ ex_cx) = [(1, 1) \<mapsto> (0, 2)]"
  by (simp_all add: table_differ_def column_differ_def index_differ_def ex_hints_def)


lemma ex_tables: "matching (table_differ ex_cx) ex_previous ex_next"
  by (simp add: matching_simps ex_lookup example_simps schema_table_def)

lemma ex_partners:
  "partner (table_differ ex_cx) ex_next p = (if tb_name p = ''user'' then Some (ex_next ! 0)
     else if tb_name p = ''tag'' then Some (ex_next ! 1) else None)"
  by (simp add: partner_def by_name_def ex_lookup example_simps)

lemma ex_stay: "indices_stay ex_cx"
  by (simp add: indices_stay_def partner_def by_name_def ex_lookup example_simps)

lemma ex_unmatched: "unmatched (table_differ ex_cx) ex_previous ex_next = [ex_next ! 1]"
  by (simp add: unmatched_def partner_def by_name_def ex_lookup example_simps)

lemma ex_created: "ddl_ok Postgresql postgresql_capability (ex_next ! 1)"
  by (simp add: ddl_ok_def auto_increment_ok_def)

lemma ex_in_place: "\<not> needs_recreation postgresql_capability renamed columns"
  by (simp add: needs_recreation_def postgresql_capability_def sqlite_capability_def postgresql_mutations_def)

lemma ex_columns: "matching (column_differ ex_cx) (tb_columns (ex_previous ! 1)) (tb_columns (ex_next ! 0))"
  by (simp add: matching_simps ex_lookup example_simps schema_column_def schema_table_def)

lemma ex_indices: "matching (index_differ ex_cx) (tb_indices (ex_previous ! 1)) (tb_indices (ex_next ! 0))"
  by (simp add: matching_simps ex_lookup example_simps schema_index_def schema_table_def)

lemma ex_pk: "pk_kept ex_cx (ex_previous ! 1) (ex_next ! 0)"
  by (simp add: pk_kept_def survives_def partner_def by_name_def ex_lookup example_simps index_has_diff_def
      index_column_differs_def index_columns_match_def schema_column_def schema_table_def)

lemma ex_migratable: "migratable Postgresql postgresql_capability ex_cx"
proof -
  have "pair_ok ex_cx (ex_previous ! 1) (ex_next ! 0)"
    using ex_wf ex_columns ex_indices ex_pk by (simp add: pair_ok_def) (simp add: ex_previous_def ex_next_def)
  then have "alterable postgresql_capability ex_cx (ex_previous ! 1) (ex_next ! 0)"
    by (simp add: alterable_def ex_in_place)
  moreover have "p = ex_previous ! 1 \<and> n = ex_next ! 0"
    if "p \<in> set ex_previous" "partner (table_differ ex_cx) ex_next p = Some n" for p n
    using that by (auto simp: ex_partners ex_previous_def ex_table_def split: if_splits)
  ultimately show ?thesis
    using ex_wf ex_unnamed ex_tables ex_stay ex_created ex_dialect
    by (auto simp: migratable_def ex_unmatched)
qed


subsection \<open>Out of scope\<close>

lemmas gap_simps = example_simps count_table_def count_column_def ex_context_def no_hints_def schema_diff_def
  table_diff_def diff_items_def counterpart_def by_name_def table_differ_def table_changed_def column_diff_def
  column_differ_def index_diff_def index_differ_def index_has_diff_def index_column_differs_def index_columns_match_def
  schema_column_def schema_table_def schema_index_def column_has_diff_def

lemma widened_diff:
  "schema_diff ex_widened = Ok [TableAlter (count_table 0 (DbInteger 4)) (count_table 0 (DbInteger 8))
     [ColumnAlter (count_column 0 (DbInteger 4)) (count_column 0 (DbInteger 8))] []]"
  by (simp add: ex_widened_def gap_simps)


lemma shifted_diff:
  "schema_diff ex_shifted = Ok [TableAlter (count_table 0 (DbInteger 4)) (count_table 1 (DbInteger 8))
     [ColumnAlter (count_column 0 (DbInteger 4)) (count_column 1 (DbInteger 8))] [],
     TableCreate (ex_table 0 ''tag'' [ex_column 0 0 ''id'' DbText False] [])]"
  by (simp add: ex_shifted_def gap_simps)

lemma renamed_diff:
  "schema_diff ex_renamed = Ok [TableAlter (key_table ''id'' ''index_user_by_id'') (key_table ''key'' ''index_user_by_key'')
     [ColumnAlter (ex_column 0 0 ''id'' DbText False) (ex_column 0 0 ''key'' DbText False)]
     [IndexDrop (ex_index 0 0 ''index_user_by_id'' 0 True), IndexCreate (ex_index 0 0 ''index_user_by_key'' 0 True)]]"
  by (simp add: ex_renamed_def key_table_def gap_simps)

lemma gap_contexts [simp]:
  "cx_previous ex_widened = [count_table 0 (DbInteger 4)]" "cx_next ex_widened = [count_table 0 (DbInteger 8)]"
  "cx_previous ex_shifted = [count_table 0 (DbInteger 4)]"
  "cx_next ex_shifted = [ex_table 0 ''tag'' [ex_column 0 0 ''id'' DbText False] [], count_table 1 (DbInteger 8)]"
  "cx_previous ex_renamed = [key_table ''id'' ''index_user_by_id'']"
  "cx_next ex_renamed = [key_table ''key'' ''index_user_by_key'']"
  by (simp_all add: ex_widened_def ex_shifted_def ex_renamed_def ex_context_def)

lemma gap_types:
  "type_diff (\<lambda>is. is) (cx_previous ex_widened) (cx_next ex_widened) = Ok []"
  "type_diff (\<lambda>is. is) (cx_previous ex_shifted) (cx_next ex_shifted) = Ok []"
  "type_diff (\<lambda>is. is) (cx_previous ex_renamed) (cx_next ex_renamed) = Ok []"
  by (simp_all add: type_diff_def enum_names_def enum_uses_def count_table_def count_column_def key_table_def
      ex_table_def ex_column_def named_enum_def)

lemma untyped_migration:
  assumes "type_diff ord (cx_previous cx) (cx_next cx) = Ok []"
  shows "migration_from_diff C cx ord changes = rmap concat (traverse (table_statements C cx []) changes)"
  by (simp add: migration_from_diff_def assms renamed_types_def)

lemmas gap_migrations = gap_types [THEN untyped_migration]

lemma sqlite_mutates:
  "\<not> cb_alter_column_type sqlite_capability" "\<not> cb_alter_column_properties_atomic sqlite_capability"
  "\<not> cb_named_enum_types sqlite_capability"
  by (simp_all add: sqlite_capability_def sqlite_mutations_def)

lemma postgresql_mutates:
  "cb_alter_column_type postgresql_capability" "\<not> cb_alter_column_properties_atomic postgresql_capability"
  by (simp_all add: postgresql_capability_def sqlite_capability_def postgresql_mutations_def)

lemmas step_simps = table_statements_def needs_recreation_def
  table_recreation_def schema_update_def schema_table_def index_drops_def index_creates_def column_statements_def
  changes_from_diff_def has_type_change_def count_table_def count_column_def key_table_def ex_table_def ex_column_def

lemma shifted_panics:
  "rbind (schema_diff ex_shifted) (migration_from_diff sqlite_capability ex_shifted (\<lambda>is. is)) =
     Err (Panic ''invalid table ID'')"
  by (simp add: shifted_diff gap_migrations sqlite_mutates step_simps)

lemma renamed_steps:
  "\<exists>steps. rbind (schema_diff ex_renamed) (migration_from_diff postgresql_capability ex_renamed (\<lambda>is. is)) =
     Ok ((DropIndex ''index_user_by_id'', cx_previous ex_renamed) # steps)"
  by (simp add: renamed_diff gap_migrations postgresql_mutates step_simps ex_index_def)

lemma widened_steps:
  "rbind (schema_diff ex_widened) (migration_from_diff sqlite_capability ex_widened (\<lambda>is. is)) =
     Ok [(Pragma ''foreign_keys'' (Some ''OFF''), [count_table 0 (DbInteger 4)]),
         (create_table sqlite_capability (count_table 0 (DbInteger 8)),
            [(count_table 0 (DbInteger 8))\<lparr>tb_name := ''_toasty_new_user''\<rparr>]),
         (CopyTable ''user'' ''_toasty_new_user'' [(''id'', ''id''), (''n'', ''n'')], [count_table 0 (DbInteger 4)]),
         (DropTable ''user'', [count_table 0 (DbInteger 4)]),
         (RenameTable ''_toasty_new_user'' ''user'', [count_table 0 (DbInteger 4)]),
         (Pragma ''foreign_keys'' (Some ''ON''), [count_table 0 (DbInteger 4)])]"
  by (simp add: widened_diff gap_migrations sqlite_mutates step_simps is_added_def column_source_def Let_def)

lemma unknown_index: "drop_index y (catalog_of C [key_table c x] v) = None"
  by (simp add: drop_index_def has_index_def catalog_of_def table_entry_def secondary_def key_table_def ex_table_def
      ex_index_def ran_def)

lemma renamed_refused:
  assumes "rbind (schema_diff ex_renamed) (migration_from_diff postgresql_capability ex_renamed (\<lambda>is. is)) = Ok steps"
  shows "run_migration Postgresql steps (catalog_of postgresql_capability (cx_previous ex_renamed) v) = None"
  using renamed_steps assms by (auto simp: run_ddl_def unknown_index)

lemma widened_run:
  assumes "rbind (schema_diff ex_widened) (migration_from_diff sqlite_capability ex_widened (\<lambda>is. is)) = Ok steps"
  shows "\<exists>K T. run_migration Sqlite steps (catalog_of sqlite_capability (cx_previous ex_widened) Some) = Some K \<and>
    ct_tables K ''user'' = Some T \<and> kt_indices T ''by_n'' = None"
  using assms unfolding widened_steps
  by (auto simp: run_ddl_def catalog_of_def create_table_def pk_names_def auto_increment_ok_def created_table_def
      as_option_def put_table_def remove_table_def on_table_def copy_into_def table_entry_def column_entry_def column_ref_def ref_name_def step_simps)

end
