(* ===== verification/MigrateProps.thy ===== *)
theory MigrateProps
  imports MigrateExamples
begin

text \<open>
  The properties of capabilities, schema differences and migrations.
\<close>




text \<open>C30. A schema needs no migration to itself: without rename hints the difference of a
  well-formed schema with itself is empty, whatever order the hash sets are iterated in.\<close>

theorem same_schema_no_migration:
  assumes "wf_schema S" "cx_previous cx = S" "cx_next cx = S" "cx_hints cx = no_hints" "hash_orders cx"
  shows "schema_diff cx = Ok []"
  using assms by (rule schema_same)

theorem same_schema_no_migration_witness:
  "schema_diff (ex_context ex_next ex_next no_hints) = Ok []"
  by (rule same_schema_no_migration [of ex_next])
    (simp_all add: ex_wf ex_context_def hash_orders_def any_order_id)

text \<open>C31. The text of a migration loses nothing: statements that are not blank, that contain no
  breakpoint line and do not end in a carriage return are read back from the file they are
  written to, in their order and character by character.\<close>

theorem migration_text_round_trip:
  assumes "\<forall>s \<in> set ss. plain_statement s"
  shows "split_on_breakpoints (new_sql_with_breakpoints ss) = ss"
  using assms by (rule text_round_trip)

theorem migration_text_round_trip_witness:
  "split_on_breakpoints (new_sql_with_breakpoints [''CREATE'' @ [newline] @ ''TABLE;'', ''DROP'']) =
     [''CREATE'' @ [newline] @ ''TABLE;'', ''DROP'']"
  by (rule migration_text_round_trip) (simp add: plain_statement_def trim_def is_whitespace_def breakpoint_def)




end
