(* ===== verification/IndexMatch.thy ===== *)
theory IndexMatch
  imports DbSchema Visit
begin

text \<open>
  How a filter restricts an index (\<open>toasty/src/engine/index/index_match.rs\<close>): which of its
  predicates match which columns, what the match costs, and the split of the filter into the
  part the index answers and the part that is left.

  The source keys its matches by the address of a subexpression; here a subexpression is
  identified by its position in the filter, the list of the operand numbers that lead to it.
\<close>

type_synonym path = "nat list"

text \<open>The matched positions of a column, true for an equality; a later mark replaces an earlier one.\<close>

type_synonym marks = "(path \<times> bool) list"

definition mark :: "path \<Rightarrow> bool \<Rightarrow> marks \<Rightarrow> marks" where
  "mark p eq f = (p, eq) # f"

record index_match =
  im_index :: db_index
  im_columns :: "marks list"

definition new_match :: "db_index \<Rightarrow> index_match" where
  "new_match ix = \<lparr>im_index = ix, im_columns = map (\<lambda>_. []) (ix_columns ix)\<rparr>"

text \<open>A column reference in a statement on one table (\<open>ExprContext::resolve_expr_reference\<close>).\<close>

definition resolve_column :: "db_table \<Rightarrow> expr_ref \<Rightarrow> column result" where
  "resolve_column tb r =
     (case r of
        RColumn nesting _ i \<Rightarrow>
          (if nesting > 0 then todo
           else if i < length (tb_columns tb) then Ok (tb_columns tb ! i)
           else Err (Panic ''index out of bounds''))
      | RField nesting _ \<Rightarrow> if nesting > 0 then todo else Err (Panic ''cannot resolve a field'')
      | RModel nesting \<Rightarrow> if nesting > 0 then todo else Err (Panic ''cannot resolve a model''))"

definition as_column_ref :: "expr \<Rightarrow> expr_ref option" where
  "as_column_ref e =
     (case e of EReference r \<Rightarrow> (case r of RColumn _ _ _ \<Rightarrow> Some r | _ \<Rightarrow> None) | _ \<Rightarrow> None)"

definition is_reference :: "expr \<Rightarrow> bool" where
  "is_reference e = (case e of EReference _ \<Rightarrow> True | _ \<Rightarrow> False)"

subsection \<open>Matching\<close>

definition column_hit :: "column \<Rightarrow> binop \<Rightarrow> index_column \<Rightarrow> bool" where
  "column_hit col op c \<longleftrightarrow> ic_column c = co_id col \<and> (ic_scope c = ScPartition \<longrightarrow> op = OpEq)"

definition match_column ::
  "db_table \<Rightarrow> expr_ref \<Rightarrow> path \<Rightarrow> binop \<Rightarrow> index_match \<Rightarrow> (bool \<times> index_match) result" where
  "match_column tb r p op m =
     rmap (\<lambda>col.
         (list_ex (column_hit col op) (ix_columns (im_index m)),
          m\<lparr>im_columns := map (\<lambda>(c, f). if column_hit col op c then mark p (op = OpEq) f else f)
             (zip (ix_columns (im_index m)) (im_columns m))\<rparr>))
       (resolve_column tb r)"

text \<open>The operands of a record on the left of \<open>IN\<close> are matched one by one.\<close>

fun match_fields ::
  "db_table \<Rightarrow> path \<Rightarrow> nat \<Rightarrow> expr list \<Rightarrow> index_match \<Rightarrow> (bool \<times> index_match) result" where
  "match_fields tb p i [] m = Ok (False, m)"
| "match_fields tb p i (e # es) m =
     (case as_column_ref e of
        None \<Rightarrow> todo
      | Some r \<Rightarrow>
          rbind (match_column tb r (p @ [i]) OpEq m) (\<lambda>(b, m').
          rmap (apfst ((\<or>) b)) (match_fields tb p (Suc i) es m')))"

definition match_in_list :: "db_table \<Rightarrow> path \<Rightarrow> expr \<Rightarrow> index_match \<Rightarrow> (bool \<times> index_match) result" where
  "match_in_list tb p lhs m =
     (case as_column_ref lhs of
        Some r \<Rightarrow> match_column tb r p OpEq m
      | None \<Rightarrow>
          (case lhs of
             ERecord es \<Rightarrow>
               rmap (\<lambda>(b, m').
                   (b, if b then m'\<lparr>im_columns := map (\<lambda>f.
                          if list_ex (\<lambda>i. map_of f (p @ [i]) \<noteq> None) [0..<length es] then mark p True f else f)
                          (im_columns m')\<rparr>
                       else m'))
                 (match_fields tb p 0 es m)
           | _ \<Rightarrow> todo))"

text \<open>A conjunction matches a column as soon as one operand does, by equality if one can.\<close>

fun union_operands :: "path \<Rightarrow> nat list \<Rightarrow> marks \<Rightarrow> marks" where
  "union_operands p [] f = f"
| "union_operands p (i # is) f =
     (case map_of f (p @ [i]) of
        None \<Rightarrow> union_operands p is f
      | Some eq \<Rightarrow>
          (let f' = (case map_of f p of None \<Rightarrow> mark p eq f | Some _ \<Rightarrow> if eq then mark p True f else f) in
           if eq then f' else union_operands p is f'))"

text \<open>A disjunction matches a column only if every operand does.\<close>

definition balanced :: "path \<Rightarrow> nat \<Rightarrow> marks \<Rightarrow> bool" where
  "balanced p n f \<longleftrightarrow> list_all (\<lambda>i. map_of f (p @ [i]) \<noteq> None) [0..<n]"

definition balance_operands :: "path \<Rightarrow> nat \<Rightarrow> marks \<Rightarrow> marks" where
  "balance_operands p n f =
     (if balanced p n f then mark p (list_all (\<lambda>i. map_of f (p @ [i]) = Some True) [0..<n]) f else f)"

definition lift_match :: "path \<Rightarrow> path \<Rightarrow> marks \<Rightarrow> marks" where
  "lift_match p q f = (case map_of f q of None \<Rightarrow> f | Some eq \<Rightarrow> mark p eq f)"

definition match_ref ::
  "db_table \<Rightarrow> expr \<Rightarrow> path \<Rightarrow> binop \<Rightarrow> index_match \<Rightarrow> (bool \<times> index_match) result" where
  "match_ref tb e p op m =
     (case as_column_ref e of Some r \<Rightarrow> match_column tb r p op m | None \<Rightarrow> Ok (False, m))"

definition match_binary ::
  "db_table \<Rightarrow> expr \<Rightarrow> binop \<Rightarrow> expr \<Rightarrow> path \<Rightarrow> index_match \<Rightarrow> (bool \<times> index_match) result" where
  "match_binary tb l op r p m =
     (if is_reference l \<and> is_reference r then Ok (False, m)
      else if as_column_ref l \<noteq> None then match_ref tb l p op m
      else
        (case as_column_ref r of
           Some _ \<Rightarrow> (case commute_op op of Some op' \<Rightarrow> match_ref tb r p op' m | None \<Rightarrow> Ok (False, m))
         | None \<Rightarrow> Ok (False, m)))"

function match_restriction :: "db_table \<Rightarrow> path \<Rightarrow> expr \<Rightarrow> index_match \<Rightarrow> (bool \<times> index_match) result"
  and match_all :: "db_table \<Rightarrow> path \<Rightarrow> nat \<Rightarrow> expr list \<Rightarrow> index_match \<Rightarrow> (bool \<times> index_match) result" where
  "match_restriction tb p e m =
     (case e of
        EBinaryOp l op r \<Rightarrow> match_binary tb l op r p m
      | EStartsWith x _ \<Rightarrow> match_ref tb x p OpGe m
      | EBetween x _ _ \<Rightarrow> match_ref tb x p OpGe m
      | EInList x _ \<Rightarrow> match_in_list tb p x m
      | EIsNull x negated \<Rightarrow> if negated then Ok (False, m) else match_ref tb x p OpEq m
      | EAnd es \<Rightarrow>
          rmap (\<lambda>(b, m').
              (b, if b then m'\<lparr>im_columns := map (union_operands p [0..<length es]) (im_columns m')\<rparr> else m'))
            (match_all tb p 0 es m)
      | EOr es \<Rightarrow>
          rmap (\<lambda>(b, m').
              (b \<and> list_ex (balanced p (length es)) (im_columns m'),
               if b then m'\<lparr>im_columns := map (balance_operands p (length es)) (im_columns m')\<rparr> else m'))
            (match_all tb p 0 es m)
      | EAny x \<Rightarrow>
          (case x of
             EMap _ body \<Rightarrow>
               rmap (\<lambda>(b, m').
                   (b, if b then m'\<lparr>im_columns := map (lift_match p (p @ [0])) (im_columns m')\<rparr> else m'))
                 (match_restriction tb (p @ [0]) body m)
           | _ \<Rightarrow> todo)
      | _ \<Rightarrow> Ok (False, m))"
| "match_all tb p i [] m = Ok (False, m)"
| "match_all tb p i (e # es) m =
     rbind (match_restriction tb (p @ [i]) e m) (\<lambda>(b, m').
     rmap (apfst ((\<or>) b)) (match_all tb p (Suc i) es m'))"
  by pat_completeness auto

termination
  by (relation "measure (\<lambda>x. case x of Inl (_, _, e, _) \<Rightarrow> size e | Inr (_, _, _, es, _) \<Rightarrow> size_list size es)")
    auto

declare match_restriction.simps [simp del]

subsection \<open>Cost\<close>

fun column_costs :: "marks list \<Rightarrow> nat" where
  "column_costs [] = 0"
| "column_costs (f # fs) =
     (case map_of f [] of None \<Rightarrow> 0 | Some eq \<Rightarrow> (if eq then 1 else 10) + column_costs fs)"

definition compute_cost :: "index_match \<Rightarrow> nat" where
  "compute_cost m = (if ix_unique (im_index m) then column_costs (im_columns m) else 10)"

subsection \<open>Splitting the filter\<close>

definition matched :: "index_match \<Rightarrow> path \<Rightarrow> bool" where
  "matched m p \<longleftrightarrow> list_ex (\<lambda>f. map_of f p \<noteq> None) (im_columns m)"

abbreviation true_expr :: expr where
  "true_expr \<equiv> EValue (VBool True)"

definition conjunction :: "expr list \<Rightarrow> expr" where
  "conjunction es = (case es of [] \<Rightarrow> true_expr | [e] \<Rightarrow> e | _ \<Rightarrow> EAnd es)"

definition normalize_comparison :: "expr \<Rightarrow> binop \<Rightarrow> expr \<Rightarrow> expr result" where
  "normalize_comparison l op r =
     (if as_column_ref l \<noteq> None then Ok (EBinaryOp l op r)
      else if as_column_ref r \<noteq> None then
        (case commute_op op of
           Some op' \<Rightarrow> Ok (EBinaryOp r op' l)
         | None \<Rightarrow> Err (Panic ''partition filter normalization reached a non-commutative op''))
      else todo)"

text \<open>
  The flag says that the whole filter has to be applied to the results.  The operands of a
  disjunction have to go to one side together.
\<close>

definition partition_side :: "index_match \<Rightarrow> path \<Rightarrow> expr \<Rightarrow> bool \<Rightarrow> ((expr \<times> expr) \<times> bool) result" where
  "partition_side m p e flag = Ok (if matched m p then (e, true_expr) else (true_expr, e), flag)"

definition partition_leaf ::
  "capability \<Rightarrow> index_match \<Rightarrow> path \<Rightarrow> expr \<Rightarrow> bool \<Rightarrow> ((expr \<times> expr) \<times> bool) result" where
  "partition_leaf C m p e flag =
     (case e of
        EStartsWith _ _ \<Rightarrow> partition_side m p e flag
      | EBetween _ _ _ \<Rightarrow> partition_side m p e flag
      | EInList _ _ \<Rightarrow> partition_side m p e flag
      | EIsNull _ _ \<Rightarrow> partition_side m p e flag
      | ELike _ _ _ _ \<Rightarrow> partition_side m p e flag
      | ENot _ \<Rightarrow> partition_side m p e flag
      | EBinaryOp l op r \<Rightarrow>
          (if \<not> matched m p then partition_side m p e flag
           else if op = OpNe \<and> \<not> cb_primary_key_ne_predicate C then Ok ((true_expr, true_expr), True)
           else rmap (\<lambda>e'. ((e', true_expr), flag)) (normalize_comparison l op r))
      | _ \<Rightarrow> todo)"

function partition_filter ::
  "capability \<Rightarrow> index_match \<Rightarrow> path \<Rightarrow> expr \<Rightarrow> bool \<Rightarrow> ((expr \<times> expr) \<times> bool) result"
  and partition_all ::
  "capability \<Rightarrow> index_match \<Rightarrow> path \<Rightarrow> nat \<Rightarrow> expr list \<Rightarrow> bool \<Rightarrow> ((expr \<times> expr) list \<times> bool) result"
  and partition_or ::
  "capability \<Rightarrow> index_match \<Rightarrow> path \<Rightarrow> nat \<Rightarrow> expr list \<Rightarrow> bool \<Rightarrow> expr list \<Rightarrow> expr list \<Rightarrow>
   ((expr \<times> expr) \<times> bool) result" where
  "partition_filter C m p e flag =
     (case e of
        EAnd es \<Rightarrow>
          rmap (apfst (\<lambda>ps. (conjunction (filter (\<lambda>x. \<not> is_true x) (map fst ps)),
                             conjunction (filter (\<lambda>x. \<not> is_true x) (map snd ps)))))
            (partition_all C m p 0 es flag)
      | EOr es \<Rightarrow> partition_or C m p 0 es flag [] []
      | EAny x \<Rightarrow>
          (case x of
             EMap base body \<Rightarrow>
               rmap (apfst (\<lambda>(i, r).
                   if \<not> is_true i then (EAny (EMap base i), true_expr)
                   else if \<not> is_true r then (true_expr, EAny (EMap base r))
                   else (true_expr, true_expr)))
                 (partition_filter C m (p @ [0]) body flag)
           | _ \<Rightarrow> todo)
      | _ \<Rightarrow> partition_leaf C m p e flag)"
| "partition_all C m p i [] flag = Ok ([], flag)"
| "partition_all C m p i (e # es) flag =
     rbind (partition_filter C m (p @ [i]) e flag) (\<lambda>(x, flag').
     rmap (apfst (Cons x)) (partition_all C m p (Suc i) es flag'))"
| "partition_or C m p i [] flag index result =
     Ok (if index \<noteq> [] then (EOr index, true_expr) else (true_expr, EOr result), flag)"
| "partition_or C m p i (e # es) flag index result =
     rbind (partition_filter C m (p @ [i]) e flag) (\<lambda>((x, r), flag').
       if \<not> is_true x \<and> \<not> is_true r then todo
       else if \<not> is_true x then
         (if result = [] then partition_or C m p (Suc i) es flag' (index @ [x]) result
          else Err (Panic ''assertion failed: result_filter_operands.is_empty()''))
       else if \<not> is_true r then
         (if index = [] then partition_or C m p (Suc i) es flag' index (result @ [r])
          else Err (Panic ''assertion failed: index_filter_operands.is_empty()''))
       else todo)"
  by pat_completeness auto

termination
  by (relation "measure (\<lambda>x. case x of Inl (_, _, _, e, _) \<Rightarrow> size e
      | Inr (Inl (_, _, _, _, es, _)) \<Rightarrow> size_list size es | Inr (Inr (_, _, _, _, es, _, _, _)) \<Rightarrow> size_list size es)")
    auto

declare partition_filter.simps [simp del]

lemma partition_filter_simps [simp]:
  "partition_filter C m p (EAnd es) flag =
     rmap (apfst (\<lambda>ps. (conjunction (filter (\<lambda>x. \<not> is_true x) (map fst ps)),
                        conjunction (filter (\<lambda>x. \<not> is_true x) (map snd ps)))))
       (partition_all C m p 0 es flag)"
  "partition_filter C m p (EOr es) flag = partition_or C m p 0 es flag [] []"
  by (subst partition_filter.simps, simp)+

end
