(* ===== verification/OrRewrite.thy ===== *)
theory OrRewrite
  imports Exprs
begin

text \<open>
  The rewrite of disjunctions for databases that have none in their key conditions
  (\<open>toasty/src/engine/index/or_rewrite.rs\<close>): the filter is brought to disjunctive normal form by
  a work queue, and branches of one shape become the items of an \<open>ANY(MAP(...))\<close>.
\<close>

subsection \<open>Checks\<close>

function contains_or :: "expr \<Rightarrow> bool" where
  "contains_or e =
     (case e of
        EOr _ \<Rightarrow> True
      | EAnd es \<Rightarrow> list_ex contains_or es
      | EAny x \<Rightarrow> contains_or x
      | EMap b body \<Rightarrow> contains_or b \<or> contains_or body
      | EBinaryOp l _ r \<Rightarrow> contains_or l \<or> contains_or r
      | ENot x \<Rightarrow> contains_or x
      | EIsNull x _ \<Rightarrow> contains_or x
      | _ \<Rightarrow> False)"
  by pat_completeness auto

termination
  by (relation "measure size") (auto simp: less_Suc_eq_le intro: size_list_estimation')

declare contains_or.simps [simp del]

function assert_no_or_in_any :: "expr \<Rightarrow> unit result" where
  "assert_no_or_in_any e =
     (case e of
        EAny x \<Rightarrow>
          (if contains_or x then Err (Panic ''Any(Map(...)) contains an Or expression after DNF distribution'')
           else Ok ())
      | EAnd es \<Rightarrow> rmap (\<lambda>_. ()) (traverse assert_no_or_in_any es)
      | _ \<Rightarrow> Ok ())"
  by pat_completeness auto

termination
  by (relation "measure size") (auto simp: less_Suc_eq_le intro: size_list_estimation')

declare assert_no_or_in_any.simps [simp del]

subsection \<open>The work queue\<close>

text \<open>The head of the list is the end the source pops from.\<close>

definition distribute_over_or :: "expr list \<Rightarrow> nat \<Rightarrow> expr list \<Rightarrow> expr list" where
  "distribute_over_or operands pos branches = map (\<lambda>b. EAnd (operands[pos := b])) branches"

definition remove_at :: "nat \<Rightarrow> 'a list \<Rightarrow> 'a list" where
  "remove_at i xs = take i xs @ drop (Suc i) xs"

definition distribute_into_any :: "expr list \<Rightarrow> nat \<Rightarrow> expr \<Rightarrow> expr result" where
  "distribute_into_any operands pos x =
     (case x of
        EMap base body \<Rightarrow>
          (let inner = body # remove_at pos operands in
           Ok (EAny (EMap base (case inner of [e] \<Rightarrow> e | _ \<Rightarrow> EAnd inner))))
      | _ \<Rightarrow> todo)"

text \<open>What one \<open>And\<close> adds to the queue and to the branches.\<close>

fun or_operands :: "expr \<Rightarrow> expr list option" where
  "or_operands (EOr es) = Some es"
| "or_operands _ = None"

fun any_operand :: "expr \<Rightarrow> expr option" where
  "any_operand (EAny x) = Some x"
| "any_operand _ = None"

definition process_and :: "expr list \<Rightarrow> (expr list \<times> expr list) result" where
  "process_and operands =
     (case position (\<lambda>e. or_operands e \<noteq> None) operands of
        Some pos \<Rightarrow> Ok (distribute_over_or operands pos (the (or_operands (operands ! pos))), [])
      | None \<Rightarrow>
          (case position (\<lambda>e. any_operand e \<noteq> None) operands of
             Some pos \<Rightarrow>
               rmap (\<lambda>e. ([e], [])) (distribute_into_any operands pos (the (any_operand (operands ! pos))))
           | None \<Rightarrow> Ok ([], [EAnd operands])))"

function dnf_weight :: "expr \<Rightarrow> nat" where
  "dnf_weight e =
     (case e of
        EOr es \<Rightarrow> 1 + (\<Sum>x \<leftarrow> es. 1 + dnf_weight x)
      | EAnd es \<Rightarrow> 1 + (\<Prod>x \<leftarrow> es. dnf_weight x)
      | _ \<Rightarrow> 1)"
  by pat_completeness auto

termination
  by (relation "measure size") (auto simp: less_Suc_eq_le intro: size_list_estimation')

declare dnf_weight.simps [simp del]

lemma dnf_weight_simps [simp]:
  "dnf_weight (EOr es) = 1 + (\<Sum>x \<leftarrow> es. 1 + dnf_weight x)"
  "dnf_weight (EAnd es) = 1 + (\<Prod>x \<leftarrow> es. dnf_weight x)"
  "dnf_weight (EAny x) = 1"
  by (subst dnf_weight.simps, simp)+

lemma dnf_weight_pos [simp]: "0 < dnf_weight e"
  by (subst dnf_weight.simps) (simp split: expr.split)

lemma prod_weight_pos [simp]: "0 < (\<Prod>x \<leftarrow> es. dnf_weight x)"
  by (induction es) simp_all

lemma distributed_weight:
  assumes "pos < length operands" "operands ! pos = EOr bs"
  shows "(\<Sum>x \<leftarrow> distribute_over_or operands pos bs. dnf_weight x) < dnf_weight (EAnd operands)"
proof -
  let ?R = "(\<Prod>x \<leftarrow> take pos operands. dnf_weight x) * (\<Prod>x \<leftarrow> drop (Suc pos) operands. dnf_weight x)"
  have R: "0 < ?R" by simp
  have one: "dnf_weight (EAnd (operands[pos := b])) = 1 + ?R * dnf_weight b" for b
    using assms(1) by (simp add: upd_conv_take_nth_drop mult.commute mult.left_commute)
  have "(\<Sum>b \<leftarrow> cs. 1 + ?R * dnf_weight b) \<le> ?R * (\<Sum>b \<leftarrow> cs. 1 + dnf_weight b)" for cs
  proof (induction cs)
    case (Cons b cs)
    have "1 + ?R * dnf_weight b \<le> ?R * (1 + dnf_weight b)" using R by (simp only: distrib_left)
    with Cons show ?case by (simp only: list.map sum_list.Cons distrib_left)
  qed simp
  from this [of bs] have "(\<Sum>x \<leftarrow> distribute_over_or operands pos bs. dnf_weight x) \<le> ?R * (\<Sum>b \<leftarrow> bs. 1 + dnf_weight b)"
    unfolding distribute_over_or_def list.map_comp comp_def one .
  moreover have "dnf_weight (EAnd operands) = dnf_weight (EAnd (operands[pos := EOr bs]))"
    using assms(2) list_update_id [of operands pos] by simp
  moreover have "\<dots> = 1 + ?R * (1 + (\<Sum>b \<leftarrow> bs. 1 + dnf_weight b))"
    unfolding one by simp
  ultimately show ?thesis using R by (simp only: distrib_left)
qed

lemma or_operands_eq: "or_operands e = Some es \<longleftrightarrow> e = EOr es"
  by (cases e) auto

lemma any_operand_eq: "any_operand e = Some x \<longleftrightarrow> e = EAny x"
  by (cases e) auto

lemma process_and_weight:
  assumes "process_and operands = Ok (queue, branches)"
  shows "(\<Sum>x \<leftarrow> queue. dnf_weight x) < dnf_weight (EAnd operands)"
proof (cases "position (\<lambda>e. or_operands e \<noteq> None) operands")
  case (Some pos)
  with position_Some [OF Some] assms distributed_weight [of pos operands] show ?thesis
    by (auto simp: process_and_def or_operands_eq)
next
  case None
  have one: "1 < dnf_weight (EAnd operands)" by simp
  show ?thesis
  proof (cases "position (\<lambda>e. any_operand e \<noteq> None) operands")
    case (Some pos)
    with assms None one show ?thesis
      by (auto simp: process_and_def distribute_into_any_def todo_def Let_def split: expr.splits)
  next
    case pos: None
    with assms None one show ?thesis by (auto simp: process_and_def)
  qed
qed

lemma or_weight: "(\<Sum>x \<leftarrow> es. dnf_weight x) < dnf_weight (EOr es)"
  by (induction es) auto

function flatten_queue :: "expr list \<Rightarrow> expr list \<Rightarrow> expr list result" where
  "flatten_queue [] branches = Ok branches"
| "flatten_queue (e # queue) branches =
     (case e of
        EOr es \<Rightarrow> flatten_queue (es @ queue) branches
      | EAnd es \<Rightarrow> rbind (process_and es) (\<lambda>(more, b). flatten_queue (more @ queue) (branches @ b))
      | _ \<Rightarrow> flatten_queue queue (branches @ [e]))"
  by pat_completeness auto

termination
  by (relation "measure (\<lambda>(queue, branches). \<Sum>x \<leftarrow> queue. dnf_weight x)")
    (auto dest!: process_and_weight simp del: dnf_weight_simps simp: or_weight)

declare flatten_queue.simps(2) [simp del]

definition flatten_to_dnf :: "expr \<Rightarrow> expr list result" where
  "flatten_to_dnf e =
     rbind (flatten_queue [e] []) (\<lambda>branches.
       rmap (\<lambda>_. branches) (traverse assert_no_or_in_any branches))"

subsection \<open>Shapes\<close>

definition extract_operand :: "nat \<Rightarrow> expr \<Rightarrow> (expr \<times> val) option" where
  "extract_operand i e =
     (case e of
        EBinaryOp l op r \<Rightarrow> (case r of EValue v \<Rightarrow> Some (EBinaryOp l op (EArg i 0), v) | _ \<Rightarrow> None)
      | _ \<Rightarrow> None)"

fun extract_operands :: "nat \<Rightarrow> expr list \<Rightarrow> (expr list \<times> val list) option" where
  "extract_operands i [] = Some ([], [])"
| "extract_operands i (e # es) =
     Option.bind (extract_operand i e) (\<lambda>(s, v).
       map_option (\<lambda>(shapes, vs). (s # shapes, v # vs)) (extract_operands (Suc i) es))"

definition extract_shape :: "expr \<Rightarrow> (expr \<times> val) option" where
  "extract_shape e =
     (case e of
        EBinaryOp _ _ _ \<Rightarrow> extract_operand 0 e
      | EAnd es \<Rightarrow> map_option (\<lambda>(shapes, vs). (EAnd shapes, VRecord vs)) (extract_operands 0 es)
      | _ \<Rightarrow> None)"

fun add_to_group :: "expr \<times> val \<Rightarrow> (expr \<times> val list) list \<Rightarrow> (expr \<times> val list) list" where
  "add_to_group (s, v) [] = [(s, [v])]"
| "add_to_group (s, v) ((s', vs) # groups) =
     (if s' = s then (s', vs @ [v]) # groups else (s', vs) # add_to_group (s, v) groups)"

definition unify_dnf_branches :: "expr list \<Rightarrow> expr option result" where
  "unify_dnf_branches branches =
     (case branches of
        [b] \<Rightarrow> Ok (Some b)
      | _ \<Rightarrow>
          (case opt_all extract_shape branches of
             None \<Rightarrow> Ok None
           | Some shapes \<Rightarrow>
               (case fold add_to_group shapes [] of
                  [] \<Rightarrow> Err (Panic ''called Option::unwrap() on a None value'')
                | [(shape, values)] \<Rightarrow> Ok (Some (EAny (EMap (EValue (VList values)) shape)))
                | _ \<Rightarrow> Ok None)))"

definition index_filter_to_any_map :: "expr \<Rightarrow> expr option result" where
  "index_filter_to_any_map e =
     (let dnf = rbind (flatten_to_dnf e) unify_dnf_branches in
      case e of
        EInList x l \<Rightarrow>
          (case l of
             EValue v \<Rightarrow>
               (case v of VList _ \<Rightarrow> Ok (Some (EAny (EMap l (EBinaryOp x OpEq (EArg 0 0))))) | _ \<Rightarrow> dnf)
           | _ \<Rightarrow> dnf)
      | _ \<Rightarrow> dnf)"

end
