(* ===== verification/IndexPlan.thy ===== *)
theory IndexPlan
  imports IndexMatch OrRewrite
begin

text \<open>
  The choice of an index for a filter (\<open>toasty/src/engine/index.rs\<close>, \<open>index/index_plan.rs\<close>): the part
  that depends on arguments only is split off, the cheapest matching index is taken, the filter
  is split into what the index answers and the rest, and literal keys are collected for a direct
  lookup.

  The statement's target is a table of the schema.  The bodies of subqueries are opaque; whether
  one of them mentions a column is the parameter \<open>Q\<close>.
\<close>

subsection \<open>The part without columns\<close>

definition references_column :: "(expr \<Rightarrow> bool) \<Rightarrow> expr \<Rightarrow> bool" where
  "references_column Q e \<longleftrightarrow> \<not> for_all_exprs (\<lambda>x. as_column_ref x = None \<and> \<not> Q x) e"

definition extract_pre_filter :: "(expr \<Rightarrow> bool) \<Rightarrow> expr \<Rightarrow> expr option \<times> expr" where
  "extract_pre_filter Q e =
     (case e of
        EAnd es \<Rightarrow>
          (let pre = filter (\<lambda>x. \<not> references_column Q x) es; remaining = filter (references_column Q) es in
           if remaining = [] then (Some e, true_expr)
           else (case pre of [] \<Rightarrow> None | [p] \<Rightarrow> Some p | _ \<Rightarrow> Some (EAnd pre),
                 case remaining of [r] \<Rightarrow> r | _ \<Rightarrow> EAnd remaining))
      | _ \<Rightarrow> if references_column Q e then (None, e) else (Some e, true_expr))"

subsection \<open>Literal keys\<close>

definition key_column_eq :: "db_table \<Rightarrow> db_index \<Rightarrow> expr \<Rightarrow> (nat \<times> val) option result" where
  "key_column_eq tb ix e =
     (case e of
        EBinaryOp l op r \<Rightarrow>
          (if op \<noteq> OpEq then Ok None
           else case l of
             EReference ref \<Rightarrow>
               (case r of
                  EValue v \<Rightarrow>
                    (if is_null v then Ok None
                     else rmap (\<lambda>col. map_option (\<lambda>i. (i, v))
                            (position (\<lambda>c. ic_column c = co_id col) (ix_columns ix)))
                          (resolve_column tb ref))
                | _ \<Rightarrow> Ok None)
           | _ \<Rightarrow> Ok None)
      | _ \<Rightarrow> Ok None)"

text \<open>The first equality on a key column fills its place; every other operand is left over.\<close>

fun fill_key ::
  "db_table \<Rightarrow> db_index \<Rightarrow> expr list \<Rightarrow> val list \<Rightarrow> expr list \<Rightarrow> (val list \<times> expr list) result" where
  "fill_key tb ix [] key residual = Ok (key, residual)"
| "fill_key tb ix (e # es) key residual =
     rbind (key_column_eq tb ix e) (\<lambda>m.
       case m of
         Some (i, v) \<Rightarrow>
           (if is_null (key ! i) then fill_key tb ix es (key[i := v]) residual
            else fill_key tb ix es key (residual @ [e]))
       | None \<Rightarrow> fill_key tb ix es key (residual @ [e]))"

definition extract_key_record :: "db_table \<Rightarrow> db_index \<Rightarrow> expr \<Rightarrow> (val \<times> expr) option result" where
  "extract_key_record tb ix e =
     (case e of
        EBinaryOp l op r \<Rightarrow>
          (if op = OpEq \<and> length (ix_columns ix) = 1
           then Ok (case r of EValue v \<Rightarrow> Some (VRecord [v], true_expr) | _ \<Rightarrow> None)
           else Ok None)
      | EAnd es \<Rightarrow>
          rmap (\<lambda>(key, residual).
              if list_ex is_null key then None else Some (VRecord key, and_from_vec residual))
            (fill_key tb ix es (replicate (length (ix_columns ix)) VNull) [])
      | _ \<Rightarrow> Ok None)"

definition key_item :: "db_index \<Rightarrow> val \<Rightarrow> val option" where
  "key_item ix v =
     (case v of
        VRecord _ \<Rightarrow> Some v
      | _ \<Rightarrow> if length (ix_columns ix) = 1 then Some (VRecord [v]) else None)"

fun key_records :: "db_table \<Rightarrow> db_index \<Rightarrow> expr list \<Rightarrow> val list \<Rightarrow> val list option result" where
  "key_records tb ix [] records = Ok (Some records)"
| "key_records tb ix (b # bs) records =
     rbind (extract_key_record tb ix b) (\<lambda>m.
       case m of
         Some (record, rest) \<Rightarrow> (if is_true rest then key_records tb ix bs (records @ [record]) else Ok None)
       | None \<Rightarrow> Ok None)"

definition literal_keys :: "val list \<Rightarrow> expr" where
  "literal_keys records = EValue (VList records)"

definition try_extract_key_values :: "db_table \<Rightarrow> db_index \<Rightarrow> expr \<Rightarrow> (expr \<times> expr) option result" where
  "try_extract_key_values tb ix e =
     (let single = rmap (map_option (\<lambda>(record, rest). (literal_keys [record], rest))) (extract_key_record tb ix e) in
      case e of
        EInList _ l \<Rightarrow>
          (case l of
             EArg i n \<Rightarrow> Ok (Some (EArg i n, true_expr))
           | EValue v \<Rightarrow>
               (case v of
                  VList items \<Rightarrow>
                    Ok (map_option (\<lambda>records. (literal_keys records, true_expr)) (opt_all (key_item ix) items))
                | _ \<Rightarrow> Ok None)
           | _ \<Rightarrow> Ok None)
      | EOr es \<Rightarrow> rmap (map_option (\<lambda>records. (literal_keys records, true_expr))) (key_records tb ix es [])
      | _ \<Rightarrow> single)"

subsection \<open>The plan\<close>

record index_plan =
  ip_index :: db_index
  ip_index_filter :: expr
  ip_result_filter :: "expr option"
  ip_post_filter :: "expr option"
  ip_pre_filter :: "expr option"
  ip_key_values :: "expr option"
  ip_has_pk_keys :: bool

definition index_matches :: "db_table \<Rightarrow> expr \<Rightarrow> index_match list result" where
  "index_matches tb e =
     rmap concat (traverse (\<lambda>ix.
       rbind (match_restriction tb [] e (new_match ix)) (\<lambda>(matches, m).
         if \<not> matches then Ok []
         else (case im_columns m of
                 [] \<Rightarrow> Err (Panic ''index out of bounds'')
               | f # _ \<Rightarrow> Ok (if f = [] then [] else [m])))) (tb_indices tb))"

text \<open>\<open>Iterator::min_by_key\<close>: the first of the cheapest.\<close>

fun cheapest :: "index_match list \<Rightarrow> index_match option" where
  "cheapest [] = None"
| "cheapest (m # ms) =
     (case cheapest ms of
        None \<Rightarrow> Some m
      | Some m' \<Rightarrow> if compute_cost m \<le> compute_cost m' then Some m else Some m')"

text \<open>The keys, and the result filter with the residual of a direct lookup added.\<close>

definition take_keys ::
  "db_index \<Rightarrow> bool \<Rightarrow> (expr \<times> expr) option \<Rightarrow> expr \<Rightarrow> expr option \<times> expr" where
  "take_keys ix is_query found result_filter =
     (case found of
        None \<Rightarrow> (None, result_filter)
      | Some (keys, residual) \<Rightarrow>
          (if is_true residual then (Some keys, result_filter)
           else if is_query \<and> ix_primary_key ix then (Some keys, and_expr residual result_filter)
           else (None, result_filter)))"

text \<open>The last step: the rewrite for databases without disjunctions, and the plan itself.\<close>

definition finish_plan ::
  "capability \<Rightarrow> db_schema \<Rightarrow> bool \<Rightarrow> index_id \<Rightarrow> expr option \<Rightarrow> expr \<Rightarrow> bool \<Rightarrow> expr \<Rightarrow>
   expr option \<times> expr \<Rightarrow> index_plan option result" where
  "finish_plan C S is_query index pre_filter remaining on_results index_filter keys_result =
     rbind (if \<not> cb_index_or_predicate C then index_filter_to_any_map index_filter else Ok (Some index_filter))
       (\<lambda>rewritten.
     case rewritten of
       None \<Rightarrow>
         (if cb_scan C \<and> is_query then Ok None
          else Err (UnsupportedFeature ''this OR filter requires a full-table scan''))
     | Some index_filter' \<Rightarrow>
         rmap (\<lambda>ix. Some
           \<lparr>ip_index = ix, ip_index_filter = index_filter',
            ip_result_filter = (if is_true (snd keys_result) then None else Some (snd keys_result)),
            ip_post_filter = (if on_results then Some remaining else None),
            ip_pre_filter = pre_filter, ip_key_values = fst keys_result,
            ip_has_pk_keys = (ix_primary_key ix \<and> fst keys_result \<noteq> None)\<rparr>)
         (schema_index S index))"

definition make_plan ::
  "capability \<Rightarrow> db_schema \<Rightarrow> db_table \<Rightarrow> bool \<Rightarrow> expr option \<Rightarrow> expr \<Rightarrow> index_match \<Rightarrow>
   index_plan option result" where
  "make_plan C S tb is_query pre_filter remaining m =
     rbind (partition_filter C m [] remaining False) (\<lambda>((index_filter, result_filter), on_results).
     rbind (try_extract_key_values tb (im_index m) index_filter) (\<lambda>found.
       finish_plan C S is_query (ix_id (im_index m)) pre_filter remaining on_results index_filter
         (take_keys (im_index m) is_query found result_filter)))"

definition plan_index_path ::
  "(expr \<Rightarrow> bool) \<Rightarrow> capability \<Rightarrow> db_schema \<Rightarrow> db_table \<Rightarrow> expr \<Rightarrow> bool \<Rightarrow> index_plan option result" where
  "plan_index_path Q C S tb e is_query =
     (let (pre_filter, remaining) = extract_pre_filter Q e in
      rbind (index_matches tb remaining) (\<lambda>ms.
      case cheapest ms of
        None \<Rightarrow>
          (if cb_scan C then Ok None
           else Err (UnsupportedFeature ''queries have to use an index''))
      | Some m \<Rightarrow> make_plan C S tb is_query pre_filter remaining m))"

end
