(* ===== verification/FilterSem.thy ===== *)
theory FilterSem
  imports FoldSem
begin

text \<open>
  Filters as predicates: a filter that has a truth value selects the rows where it is true.
  What the connectives and \<open>ANY(MAP(...))\<close> select, in terms of their operands.
\<close>

definition decided :: "interp \<Rightarrow> val list list \<Rightarrow> expr \<Rightarrow> bool" where
  "decided I \<rho> e \<longleftrightarrow> (\<exists>t. sem I \<rho> e = Some t \<and> truth t)"

definition selects :: "interp \<Rightarrow> val list list \<Rightarrow> expr \<Rightarrow> bool" where
  "selects I \<rho> e \<longleftrightarrow> sem I \<rho> e = Some (VBool True)"

lemma selects_decided: "selects I \<rho> e \<Longrightarrow> decided I \<rho> e"
  by (simp add: selects_def decided_def truth_def)

lemma decided_true [simp]: "decided I \<rho> (EValue (VBool b))" "selects I \<rho> (EValue (VBool b)) = b"
  by (simp_all add: decided_def selects_def truth_def)

lemma all_truth_decided: "all_truth (sem I \<rho>) es \<longleftrightarrow> (\<forall>e \<in> set es. decided I \<rho> e)"
  by (simp add: all_truth_def decided_def)

lemma decided_and: "decided I \<rho> (EAnd es) \<longleftrightarrow> (\<forall>e \<in> set es. decided I \<rho> e)"
  unfolding decided_def [of I \<rho> "EAnd es"] sem_and all_truth_decided by simp

lemma decided_or: "decided I \<rho> (EOr es) \<longleftrightarrow> (\<forall>e \<in> set es. decided I \<rho> e)"
  unfolding decided_def [of I \<rho> "EOr es"] sem_or all_truth_decided by simp

lemma decidedE:
  assumes "decided I \<rho> e"
  obtains "sem I \<rho> e = Some (VBool True)" | "sem I \<rho> e = Some (VBool False)" | "sem I \<rho> e = Some VNull"
  using assms by (auto simp: decided_def truth_def)

lemma or_true: "or_result (values_of f xs) = VBool True \<longleftrightarrow> (\<exists>x \<in> set xs. f x = Some (VBool True))"
  by (simp add: or_result_def values_of_def)

lemma selects_and: "selects I \<rho> (EAnd es) \<longleftrightarrow> (\<forall>e \<in> set es. selects I \<rho> e)"
proof (cases "\<forall>e \<in> set es. decided I \<rho> e")
  case True
  have "VBool True = and_result (values_of (sem I \<rho>) es) \<longleftrightarrow> (\<forall>e \<in> set es. sem I \<rho> e = Some (VBool True))"
    using True by (force simp: and_result_def values_of_def elim: decidedE)
  with True show ?thesis by (simp add: selects_def sem_and all_truth_decided del: sem.simps)
next
  case False
  then show ?thesis using selects_decided by (auto simp: selects_def sem_and all_truth_decided simp del: sem.simps)
qed

lemma selects_or:
  assumes "decided I \<rho> (EOr es)"
  shows "selects I \<rho> (EOr es) \<longleftrightarrow> (\<exists>e \<in> set es. selects I \<rho> e)"
  using assms or_true [of "sem I \<rho>" es] unfolding selects_def sem_or all_truth_decided decided_or by metis

lemma or_connective:
  "Option.bind (opt_all f es) or3 = Some v \<longleftrightarrow> all_truth f es \<and> v = or_result (values_of f es)"
  by (rule sem_connective) (rule or3_eq)

lemma sem_any_map:
  "sem I \<rho> (EAny (EMap b m)) = Option.bind (sem I \<rho> b) (on_list (\<lambda>items.
     Option.bind (opt_all (\<lambda>x. sem I ([x] # \<rho>) m) items) or3))"
  by (cases "sem I \<rho> b"; simp add: on_list_def)
    (auto simp: on_list_def split: Option.bind_split option.split)

lemma any_map_cases:
  assumes "decided I \<rho> (EAny (EMap b m))"
  obtains items where "sem I \<rho> b = Some (VList items)" "\<forall>x \<in> set items. decided I ([x] # \<rho>) m"
proof -
  from assms obtain t where "sem I \<rho> (EAny (EMap b m)) = Some t" by (auto simp: decided_def)
  then obtain v items where v: "sem I \<rho> b = Some v" "as_list v = Some items"
    "Option.bind (opt_all (\<lambda>x. sem I ([x] # \<rho>) m) items) or3 = Some t"
    unfolding sem_any_map on_list_def by (auto simp: bind_eq_Some_conv)
  from v(3) have "all_truth (\<lambda>x. sem I ([x] # \<rho>) m) items"
    unfolding or_connective by blast
  moreover have "v = VList items" using v(2) by (cases v) (auto simp: as_list_def)
  ultimately show ?thesis using that v(1) by (auto simp: all_truth_def decided_def)
qed

lemma any_map_value:
  assumes "sem I \<rho> b = Some (VList items)" "\<forall>x \<in> set items. decided I ([x] # \<rho>) m"
  shows "decided I \<rho> (EAny (EMap b m))" "selects I \<rho> (EAny (EMap b m)) \<longleftrightarrow> (\<exists>x \<in> set items. selects I ([x] # \<rho>) m)"
proof -
  let ?f = "\<lambda>x. sem I ([x] # \<rho>) m"
  have t: "all_truth ?f items" using assms(2) by (simp add: all_truth_def decided_def)
  have "Option.bind (opt_all ?f items) or3 = Some (or_result (values_of ?f items))"
    unfolding or_connective using t by (rule conjI) (rule refl)
  then have s: "sem I \<rho> (EAny (EMap b m)) = Some (or_result (values_of ?f items))"
    unfolding sem_any_map on_list_def assms(1) by (simp only: Option.bind.simps as_list_def val.case)
  then show "decided I \<rho> (EAny (EMap b m))" by (simp add: decided_def)
  show "selects I \<rho> (EAny (EMap b m)) \<longleftrightarrow> (\<exists>x \<in> set items. selects I ([x] # \<rho>) m)"
    unfolding selects_def s option.inject or_true ..
qed

definition scope_free :: "expr \<Rightarrow> bool" where
  "scope_free e \<longleftrightarrow> closed_in [] e \<and> scalar e"

lemma scope_free_selects:
  assumes "scope_free e"
  shows "decided I (vs # \<rho>) e = decided I \<rho> e" "selects I (vs # \<rho>) e = selects I \<rho> e"
proof -
  have "sem I ([] @ vs # \<rho>) e = sem I ([] @ \<rho>) e"
    using assms by (intro sem_closed [of "[]"]) (auto simp: scope_free_def)
  then show "decided I (vs # \<rho>) e = decided I \<rho> e" "selects I (vs # \<rho>) e = selects I \<rho> e"
    by (simp_all add: decided_def selects_def)
qed

lemma scope_free_or: "scope_free (EOr es) \<Longrightarrow> e \<in> set es \<Longrightarrow> scope_free e"
  using children_scalar [of "EOr es" e] by (auto simp: scope_free_def list_all_iff)

text \<open>Predicates that hold beside an \<open>ANY\<close> can be asked of each of its items.\<close>

lemma any_map_and:
  assumes "decided I \<rho> (EAny (EMap b m))" "\<forall>e \<in> set es. scope_free e \<and> decided I \<rho> e" "set inner = insert m (set es)"
  shows "decided I \<rho> (EAny (EMap b (EAnd inner)))"
    "selects I \<rho> (EAny (EMap b (EAnd inner))) \<longleftrightarrow> selects I \<rho> (EAny (EMap b m)) \<and> (\<forall>e \<in> set es. selects I \<rho> e)"
proof -
  obtain items where items: "sem I \<rho> b = Some (VList items)" "\<forall>x \<in> set items. decided I ([x] # \<rho>) m"
    using assms(1) by (rule any_map_cases)
  have "\<forall>x \<in> set items. decided I ([x] # \<rho>) (EAnd inner)"
    using items(2) assms(2,3) by (simp add: decided_and scope_free_selects)
  note inner = any_map_value [OF items(1) this]
  show "decided I \<rho> (EAny (EMap b (EAnd inner)))" by (rule inner)
  show "selects I \<rho> (EAny (EMap b (EAnd inner))) \<longleftrightarrow> selects I \<rho> (EAny (EMap b m)) \<and> (\<forall>e \<in> set es. selects I \<rho> e)"
    unfolding inner(2) any_map_value(2) [OF items] selects_and using assms(2,3) by (auto simp: scope_free_selects)
qed

end
