(* ===== verification/OrRules.thy ===== *)
theory OrRules
  imports OrRewrite FilterSem
begin

text \<open>
  The rewrite of disjunctions: its branches select together what the filter selects, and the
  branches that are merged can be read off the merged form again.
\<close>

subsection \<open>Where it applies\<close>

function any_free :: "expr \<Rightarrow> bool" where
  "any_free e =
     (case e of
        EOr es \<Rightarrow> list_all any_free es
      | EAnd es \<Rightarrow> list_all any_free es
      | EAny _ \<Rightarrow> False
      | _ \<Rightarrow> True)"
  by pat_completeness auto

termination
  by (relation "measure size") (auto simp: less_Suc_eq_le intro: size_list_estimation')

declare any_free.simps [simp del]

lemma any_free_simps [simp]:
  "any_free (EOr es) = list_all any_free es" "any_free (EAnd es) = list_all any_free es" "any_free (EAny x) = False"
  by (subst any_free.simps, simp)+

text \<open>
  The operands beside an \<open>ANY\<close> are moved below its map, so they must not refer to an argument.
\<close>

definition and_ready :: "expr list \<Rightarrow> bool" where
  "and_ready es \<longleftrightarrow>
     list_all any_free es \<or>
     list_ex (\<lambda>i. list_all (\<lambda>j. j = i \<or> scope_free (es ! j) \<and> any_free (es ! j)) [0..<length es]) [0..<length es]"

function dnf_ready :: "expr \<Rightarrow> bool" where
  "dnf_ready e =
     (case e of
        EOr es \<Rightarrow> list_all dnf_ready es
      | EAnd es \<Rightarrow> list_all dnf_ready es \<and> and_ready es
      | _ \<Rightarrow> True)"
  by pat_completeness auto

termination
  by (relation "measure size") (auto simp: less_Suc_eq_le intro: size_list_estimation')

declare dnf_ready.simps [simp del]

lemma dnf_ready_simps [simp]:
  "dnf_ready (EOr es) = list_all dnf_ready es" "dnf_ready (EAnd es) \<longleftrightarrow> list_all dnf_ready es \<and> and_ready es"
  "dnf_ready (EAny x)"
  by (subst dnf_ready.simps, simp)+

lemma and_ready_iff:
  "and_ready es \<longleftrightarrow> (\<forall>e \<in> set es. any_free e) \<or>
     (\<exists>i < length es. \<forall>j < length es. j \<noteq> i \<longrightarrow> scope_free (es ! j) \<and> any_free (es ! j))"
  unfolding and_ready_def list_all_iff list_ex_iff set_upt by (metis atLeastLessThan_iff zero_le)

subsection \<open>One step\<close>

lemma distribute_over_or_selects:
  assumes pos: "pos < length es" "es ! pos = EOr bs" and d: "decided I \<rho> (EAnd es)"
  shows "\<forall>x \<in> set (distribute_over_or es pos bs). decided I \<rho> x"
    "(\<exists>x \<in> set (distribute_over_or es pos bs). selects I \<rho> x) \<longleftrightarrow> selects I \<rho> (EAnd es)"
proof -
  have e: "es = take pos es @ EOr bs # drop (Suc pos) es" using id_take_nth_drop [OF pos(1)] pos(2) by simp
  let ?rest = "set (take pos es) \<union> set (drop (Suc pos) es)"
  have upd: "set (es[pos := b]) = insert b ?rest" for b using pos(1) by (simp add: upd_conv_take_nth_drop)
  have all: "set es = insert (EOr bs) ?rest" using upd [of "EOr bs"] list_update_id [of es pos] pos(2) by simp
  have rest: "\<forall>x \<in> ?rest. decided I \<rho> x" and b: "decided I \<rho> (EOr bs)"
    using d unfolding decided_and all by blast+
  show "\<forall>x \<in> set (distribute_over_or es pos bs). decided I \<rho> x"
    using rest b by (auto simp: distribute_over_or_def decided_and decided_or upd)
  show "(\<exists>x \<in> set (distribute_over_or es pos bs). selects I \<rho> x) \<longleftrightarrow> selects I \<rho> (EAnd es)"
    unfolding distribute_over_or_def selects_and all
    by (auto simp: selects_and upd selects_or [OF b])
qed

lemma set_remove_at: "pos < length es \<Longrightarrow> set es = insert (es ! pos) (set (remove_at pos es))"
  using arg_cong [OF id_take_nth_drop [of pos es], of set] by (simp add: remove_at_def)

lemma in_remove_at: "x \<in> set (remove_at pos es) \<Longrightarrow> \<exists>j < length es. j \<noteq> pos \<and> x = es ! j"
proof -
  assume "x \<in> set (remove_at pos es)"
  then consider i where "i < length es" "i < pos" "x = es ! i"
    | i where "i < length es - Suc pos" "x = es ! (Suc pos + i)"
    by (auto simp: remove_at_def in_set_conv_nth)
  then show ?thesis
  proof cases
    case (2 i)
    then show ?thesis by (intro exI [of _ "Suc pos + i"]) simp
  qed blast
qed

lemma distribute_into_any_selects:
  assumes pos: "pos < length es" "es ! pos = EAny x" and d: "decided I \<rho> (EAnd es)"
    and free: "\<forall>e \<in> set (remove_at pos es). scope_free e" and out: "distribute_into_any es pos x = Ok e"
  shows "decided I \<rho> e" "selects I \<rho> e \<longleftrightarrow> selects I \<rho> (EAnd es)" "\<exists>y. e = EAny y"
proof -
  obtain base body where x: "x = EMap base body"
    using out by (cases x) (auto simp: distribute_into_any_def todo_def)
  let ?rest = "remove_at pos es"
  have all: "set es = insert (EAny x) (set ?rest)" using set_remove_at [OF pos(1)] pos(2) by simp
  have rest: "\<forall>e \<in> set ?rest. scope_free e \<and> decided I \<rho> e" and a: "decided I \<rho> (EAny (EMap base body))"
    using d free unfolding decided_and all x by blast+
  show "\<exists>y. e = EAny y" using out by (auto simp: distribute_into_any_def x Let_def)
  show "decided I \<rho> e" "selects I \<rho> e \<longleftrightarrow> selects I \<rho> (EAnd es)"
  proof (atomize (full), cases "?rest = []")
    case True
    then have "e = EAny (EMap base body)" using out by (simp add: distribute_into_any_def x)
    then show "decided I \<rho> e \<and> (selects I \<rho> e \<longleftrightarrow> selects I \<rho> (EAnd es))"
      using a True all by (simp add: selects_and x)
  next
    case False
    then have "e = EAny (EMap base (EAnd (body # ?rest)))"
      using out by (cases ?rest) (simp_all add: distribute_into_any_def x)
    then show "decided I \<rho> e \<and> (selects I \<rho> e \<longleftrightarrow> selects I \<rho> (EAnd es))"
      using any_map_and [OF a rest, of "body # ?rest"] all by (simp add: selects_and x)
  qed
qed

lemma and_ready_distributed:
  assumes "pos < length es" "es ! pos = EOr bs" "b \<in> set bs" "and_ready es"
  shows "and_ready (es[pos := b])"
proof (cases "\<forall>e \<in> set es. any_free e")
  case True
  then have "any_free (EOr bs)" using assms(1,2) nth_mem [of pos es] by auto
  then have "any_free b" using assms(3) by (simp add: list_all_iff)
  then have "\<forall>e \<in> set (es[pos := b]). any_free e" using True set_update_subset_insert [of es pos b] by auto
  then show ?thesis by (simp add: and_ready_iff)
next
  case False
  then obtain i where i: "i < length es" "\<forall>j < length es. j \<noteq> i \<longrightarrow> scope_free (es ! j) \<and> any_free (es ! j)"
    using assms(4) by (auto simp: and_ready_iff)
  have "scope_free b \<and> any_free b" if "pos \<noteq> i"
    using i(2) assms(1-3) that scope_free_or [of bs b] by (auto simp: list_all_iff)
  then have "\<forall>j < length (es[pos := b]). j \<noteq> i \<longrightarrow> scope_free (es[pos := b] ! j) \<and> any_free (es[pos := b] ! j)"
    using i(2) assms(1) by (auto simp: nth_list_update)
  then show ?thesis using i(1) unfolding and_ready_iff length_list_update by blast
qed

lemma process_and_selects:
  assumes out: "process_and es = Ok (ms, b)" and d: "decided I \<rho> (EAnd es)" and r: "dnf_ready (EAnd es)"
  shows "(\<forall>x \<in> set ms \<union> set b. decided I \<rho> x) \<and> (\<forall>x \<in> set ms. dnf_ready x) \<and>
    ((\<exists>x \<in> set ms \<union> set b. selects I \<rho> x) \<longleftrightarrow> selects I \<rho> (EAnd es))"
proof (cases "position (\<lambda>e. or_operands e \<noteq> None) es")
  case (Some pos)
  then obtain bs where pos: "pos < length es" "es ! pos = EOr bs"
    using position_Some [OF Some] by (auto simp: or_operands_eq)
  have eq: "ms = distribute_over_or es pos bs" "b = []" using out Some pos by (auto simp: process_and_def)
  have "dnf_ready (EOr bs)" using r pos nth_mem [of pos es] by (auto simp: list_all_iff)
  then have "dnf_ready (EAnd (es[pos := x]))" if "x \<in> set bs" for x
    using r and_ready_distributed [OF pos that] that set_update_subset_insert [of es pos x]
    by (auto simp: list_all_iff)
  then have "\<forall>x \<in> set ms. dnf_ready x" by (auto simp: eq distribute_over_or_def)
  then show ?thesis using distribute_over_or_selects [OF pos d] by (simp add: eq)
next
  case None
  show ?thesis
  proof (cases "position (\<lambda>e. any_operand e \<noteq> None) es")
    case (Some pos)
    then obtain x where pos: "pos < length es" "es ! pos = EAny x"
      using position_Some [OF Some] by (auto simp: any_operand_eq)
    obtain e where eq: "distribute_into_any es pos x = Ok e" "ms = [e]" "b = []"
      using out None Some pos by (auto simp: process_and_def rmap_eq_Ok)
    have "EAny x \<in> set es" using pos nth_mem by fastforce
    then have "\<not> (\<forall>e \<in> set es. any_free e)" by force
    then obtain i where i: "i < length es" "\<forall>j < length es. j \<noteq> i \<longrightarrow> scope_free (es ! j) \<and> any_free (es ! j)"
      using r by (auto simp: and_ready_iff)
    with pos have "pos = i" by force
    with i(2) have "\<forall>e \<in> set (remove_at pos es). scope_free e" by (auto dest!: in_remove_at)
    from distribute_into_any_selects [OF pos d this eq(1)] eq show ?thesis by auto
  next
    case pos: None
    then have "ms = []" "b = [EAnd es]" using out None by (simp_all add: process_and_def)
    then show ?thesis using d by simp
  qed
qed

subsection \<open>The whole queue\<close>

lemma flatten_queue_selects:
  assumes "flatten_queue queue branches = Ok out" "\<forall>x \<in> set queue \<union> set branches. decided I \<rho> x"
    "\<forall>x \<in> set queue. dnf_ready x"
  shows "(\<forall>x \<in> set out. decided I \<rho> x) \<and>
    ((\<exists>x \<in> set out. selects I \<rho> x) \<longleftrightarrow> (\<exists>x \<in> set queue \<union> set branches. selects I \<rho> x))"
  using assms
proof (induction "\<Sum>x \<leftarrow> queue. dnf_weight x" arbitrary: queue branches rule: less_induct)
  case less
  show ?case
  proof (cases queue)
    case Nil
    then show ?thesis using less.prems by simp
  next
    case (Cons e rest)
    consider (or) es where "e = EOr es" | (conj) es where "e = EAnd es" | (leaf) "\<forall>es. e \<noteq> EOr es" "\<forall>es. e \<noteq> EAnd es"
      by blast
    then show ?thesis
    proof cases
      case or
      have d: "decided I \<rho> (EOr es)" using less.prems(2) or Cons by simp
      have "flatten_queue (es @ rest) branches = Ok out"
        using less.prems(1) by (simp add: or Cons flatten_queue.simps(2))
      moreover have "(\<Sum>x \<leftarrow> es @ rest. dnf_weight x) < (\<Sum>x \<leftarrow> queue. dnf_weight x)"
        using or_weight [of es] by (simp add: Cons or del: dnf_weight_simps)
      ultimately show ?thesis
        using less.hyps [of "es @ rest" branches] less.prems(2,3) d selects_or [OF d]
        by (simp add: Cons or decided_or list_all_iff ball_Un bex_Un)
    next
      case conj
      obtain ms b where ms: "process_and es = Ok (ms, b)" "flatten_queue (ms @ rest) (branches @ b) = Ok out"
        using less.prems(1) by (auto simp: conj Cons flatten_queue.simps(2) rbind_eq_Ok)
      have "decided I \<rho> (EAnd es)" "dnf_ready (EAnd es)" using less.prems(2,3) conj Cons by simp_all
      note step = process_and_selects [OF ms(1) this]
      have "(\<Sum>x \<leftarrow> ms @ rest. dnf_weight x) < (\<Sum>x \<leftarrow> queue. dnf_weight x)"
        using process_and_weight [OF ms(1)] by (simp add: Cons conj del: dnf_weight_simps)
      from less.hyps [OF this ms(2)] less.prems(2,3) step conj Cons show ?thesis
        by (simp add: ball_Un bex_Un) blast
    next
      case leaf
      then have "flatten_queue rest (branches @ [e]) = Ok out"
        using less.prems(1) by (cases e) (simp_all add: Cons flatten_queue.simps(2))
      moreover have "(\<Sum>x \<leftarrow> rest. dnf_weight x) < (\<Sum>x \<leftarrow> queue. dnf_weight x)"
        by (simp add: Cons)
      ultimately show ?thesis
        using less.hyps [of rest "branches @ [e]"] less.prems(2,3) by (auto simp: Cons)
    qed
  qed
qed

lemma flatten_queue_any_free:
  assumes "\<forall>x \<in> set queue \<union> set branches. any_free x"
  shows "\<exists>out. flatten_queue queue branches = Ok out \<and> (\<forall>x \<in> set out. any_free x)"
  using assms
proof (induction "\<Sum>x \<leftarrow> queue. dnf_weight x" arbitrary: queue branches rule: less_induct)
  case less
  show ?case
  proof (cases queue)
    case Nil
    then show ?thesis using less.prems by auto
  next
    case (Cons e rest)
    consider (or) es where "e = EOr es" | (conj) es where "e = EAnd es" | (leaf) "\<forall>es. e \<noteq> EOr es" "\<forall>es. e \<noteq> EAnd es"
      by blast
    then show ?thesis
    proof cases
      case or
      have "(\<Sum>x \<leftarrow> es @ rest. dnf_weight x) < (\<Sum>x \<leftarrow> queue. dnf_weight x)"
        using or_weight [of es] by (simp add: Cons or del: dnf_weight_simps)
      then show ?thesis
        using less.hyps [of "es @ rest" branches] less.prems by (auto simp: Cons or flatten_queue.simps(2) list_all_iff)
    next
      case conj
      have free: "\<forall>x \<in> set es. any_free x" using less.prems by (simp add: Cons conj list_all_iff)
      obtain ms b where ms: "process_and es = Ok (ms, b)" "\<forall>x \<in> set ms \<union> set b. any_free x"
      proof (cases "position (\<lambda>e. or_operands e \<noteq> None) es")
        case (Some pos)
        then obtain bs where pos: "pos < length es" "es ! pos = EOr bs"
          using position_Some [OF Some] by (auto simp: or_operands_eq)
        then have "any_free (EOr bs)" using free nth_mem [of pos es] by auto
        then have "\<forall>x \<in> set (distribute_over_or es pos bs). any_free x"
          using free set_update_subset_insert [of es pos]
          by (fastforce simp: distribute_over_or_def list_all_iff)
        then show ?thesis using that Some pos by (simp add: process_and_def)
      next
        case None
        have "position (\<lambda>e. any_operand e \<noteq> None) es = None"
          using free by (auto simp: position_None any_operand_eq)
        then show ?thesis using that None free by (simp add: process_and_def list_all_iff)
      qed
      have "(\<Sum>x \<leftarrow> ms @ rest. dnf_weight x) < (\<Sum>x \<leftarrow> queue. dnf_weight x)"
        using process_and_weight [OF ms(1)] by (simp add: Cons conj del: dnf_weight_simps)
      from less.hyps [OF this, of "branches @ b"] less.prems ms show ?thesis
        by (auto simp: Cons conj flatten_queue.simps(2))
    next
      case leaf
      then have "flatten_queue queue branches = flatten_queue rest (branches @ [e])"
        by (cases e) (simp_all add: Cons flatten_queue.simps(2))
      moreover have "(\<Sum>x \<leftarrow> rest. dnf_weight x) < (\<Sum>x \<leftarrow> queue. dnf_weight x)"
        by (simp add: Cons)
      ultimately show ?thesis
        using less.hyps [of rest "branches @ [e]"] less.prems by (auto simp: Cons)
    qed
  qed
qed

lemma assert_any_free: "any_free e \<Longrightarrow> assert_no_or_in_any e = Ok ()"
proof (induction e rule: assert_no_or_in_any.induct)
  case (1 e)
  then show ?case
  proof (cases "\<exists>es. e = EAnd es")
    case True
    then obtain es where e: "e = EAnd es" by blast
    have "traverse assert_no_or_in_any es = Ok (map (\<lambda>_. ()) es)"
      using 1 e by (auto simp: traverse_eq_Ok list_all2_conv_all_nth list_all_iff)
    then show ?thesis by (simp add: e assert_no_or_in_any.simps)
  next
    case False
    then show ?thesis using "1.prems" by (subst assert_no_or_in_any.simps) (cases e; simp)
  qed
qed

lemma flatten_total:
  assumes "any_free e"
  shows "\<exists>branches. flatten_to_dnf e = Ok branches"
proof -
  obtain out where out: "flatten_queue [e] [] = Ok out" "\<forall>x \<in> set out. any_free x"
    using flatten_queue_any_free [of "[e]" "[]"] assms by auto
  then have "traverse assert_no_or_in_any out = Ok (map (\<lambda>_. ()) out)"
    by (auto simp: traverse_eq_Ok list_all2_conv_all_nth assert_any_free)
  with out show ?thesis by (simp add: flatten_to_dnf_def)
qed

lemma flatten_selects:
  assumes "flatten_to_dnf e = Ok branches" "decided I \<rho> e" "dnf_ready e"
  shows "selects I \<rho> e \<longleftrightarrow> (\<exists>b \<in> set branches. selects I \<rho> b)"
proof -
  have "flatten_queue [e] [] = Ok branches" using assms(1) by (auto simp: flatten_to_dnf_def rbind_eq_Ok rmap_eq_Ok)
  from flatten_queue_selects [OF this, of I \<rho>] assms(2,3) show ?thesis by simp
qed

subsection \<open>Merging branches\<close>

text \<open>The branch that a shape stands for, given its literals.\<close>

definition with_literal :: "expr \<Rightarrow> val \<Rightarrow> expr" where
  "with_literal e v = (case e of EBinaryOp l op _ \<Rightarrow> EBinaryOp l op (EValue v) | _ \<Rightarrow> e)"

definition instance_of :: "expr \<Rightarrow> val \<Rightarrow> expr" where
  "instance_of shape v =
     (case shape of
        EAnd es \<Rightarrow> (case v of VRecord vs \<Rightarrow> EAnd (map2 with_literal es vs) | _ \<Rightarrow> shape)
      | _ \<Rightarrow> with_literal shape v)"

lemma extract_operand_literal: "extract_operand i e = Some (s, v) \<Longrightarrow> with_literal s v = e"
  by (auto simp: extract_operand_def with_literal_def split: expr.splits)

lemma extract_operands_literals:
  "extract_operands i es = Some (shapes, vs) \<Longrightarrow> map2 with_literal shapes vs = es"
  by (induction es arbitrary: i shapes vs) (auto simp: bind_eq_Some_conv dest: extract_operand_literal)

lemma extract_shape_instance:
  assumes "extract_shape e = Some (s, v)"
  shows "instance_of s v = e"
proof (cases "\<exists>es. e = EAnd es")
  case True
  with assms obtain es shapes vs where "e = EAnd es" "extract_operands 0 es = Some (shapes, vs)" "s = EAnd shapes" "v = VRecord vs"
    by (auto simp: extract_shape_def)
  with extract_operands_literals [of 0 es shapes vs] show ?thesis by (simp add: instance_of_def)
next
  case False
  with assms have "extract_operand 0 e = Some (s, v)" "\<exists>l op r. s = EBinaryOp l op r"
    by (auto simp: extract_shape_def extract_operand_def split: expr.splits)
  then show ?thesis by (auto simp: instance_of_def dest: extract_operand_literal)
qed

definition group_members :: "(expr \<times> val list) list \<Rightarrow> (expr \<times> val) list" where
  "group_members groups = concat (map (\<lambda>(s, vs). map (Pair s) vs) groups)"

lemma add_to_group_shapes:
  "add_to_group (s, v) groups \<noteq> []"
  "fst ` set (add_to_group (s, v) groups) = insert s (fst ` set groups)"
  by (induction "(s, v)" groups rule: add_to_group.induct) auto

lemma fold_groups_shapes:
  "fst ` set (fold add_to_group shapes groups) = fst ` set shapes \<union> fst ` set groups"
proof (induction shapes arbitrary: groups)
  case (Cons x shapes)
  then show ?case by (cases x) (simp add: add_to_group_shapes(2))
qed simp

lemma fold_one_group:
  assumes "\<forall>x \<in> set shapes. fst x = s"
  shows "fold add_to_group shapes [(s, vs)] = [(s, vs @ map snd shapes)]"
  using assms by (induction shapes arbitrary: vs) auto

lemma unify_instances:
  assumes "unify_dnf_branches branches = Ok (Some e)" "length branches \<noteq> 1"
  shows "\<exists>vs shape. e = EAny (EMap (EValue (VList vs)) shape) \<and> map (instance_of shape) vs = branches"
proof -
  obtain shapes where shapes: "opt_all extract_shape branches = Some shapes"
    and one: "(case fold add_to_group shapes [] of
        [] \<Rightarrow> Err (Panic ''called Option::unwrap() on a None value'')
      | [(shape, values)] \<Rightarrow> Ok (Some (EAny (EMap (EValue (VList values)) shape)))
      | _ \<Rightarrow> Ok None) = Ok (Some e)"
    using assms by (auto simp: unify_dnf_branches_def split: list.splits option.splits)
  obtain s vs where g: "fold add_to_group shapes [] = [(s, vs)]" "e = EAny (EMap (EValue (VList vs)) s)"
    using one by (auto split: list.splits prod.splits)
  have same: "\<forall>x \<in> set shapes. fst x = s"
    using fold_groups_shapes [of shapes "[]"] g(1) by auto
  have "vs = map snd shapes"
  proof (cases shapes)
    case (Cons x rest)
    obtain t v where x: "x = (t, v)" by (cases x)
    then have "fold add_to_group shapes [] = [(s, [v] @ map snd rest)]"
      using fold_one_group [of rest s "[v]"] same Cons by simp
    then show ?thesis using g(1) Cons x by simp
  qed (use g in simp)
  moreover have "map (\<lambda>x. instance_of (fst x) (snd x)) shapes = branches"
    using shapes by (auto simp: opt_all_eq_Some list_all2_conv_all_nth intro!: nth_equalityI extract_shape_instance)
  ultimately show ?thesis using g(2) same by (auto simp: comp_def cong: map_cong)
qed

end
