(* ===== verification/IndexRules.thy ===== *)
theory IndexRules
  imports IndexPlan FilterSem
begin

text \<open>
  An index plan selects what its filter selects: the part of the arguments, the index filter, the
  result filter and the post filter of a plan hold together exactly where the filter holds.
\<close>

subsection \<open>Conjunctions\<close>

lemma true_expr_selects [simp]: "is_true e \<Longrightarrow> selects I \<rho> e" "is_true e \<Longrightarrow> decided I \<rho> e"
  by (auto simp: is_true_def split: expr.splits val.splits)

lemma conjunction_selects:
  "selects I \<rho> (conjunction (filter (\<lambda>x. \<not> is_true x) xs)) \<longleftrightarrow> (\<forall>x \<in> set xs. selects I \<rho> x)"
  "decided I \<rho> (conjunction (filter (\<lambda>x. \<not> is_true x) xs)) \<longleftrightarrow> (\<forall>x \<in> set xs. decided I \<rho> x)"
proof -
  have c: "selects I \<rho> (conjunction ys) \<longleftrightarrow> (\<forall>x \<in> set ys. selects I \<rho> x)"
    "decided I \<rho> (conjunction ys) \<longleftrightarrow> (\<forall>x \<in> set ys. decided I \<rho> x)" for ys
    by (auto simp: conjunction_def selects_and decided_and split: list.split)
  show "selects I \<rho> (conjunction (filter (\<lambda>x. \<not> is_true x) xs)) \<longleftrightarrow> (\<forall>x \<in> set xs. selects I \<rho> x)"
    "decided I \<rho> (conjunction (filter (\<lambda>x. \<not> is_true x) xs)) \<longleftrightarrow> (\<forall>x \<in> set xs. decided I \<rho> x)"
    unfolding c by auto
qed

lemma and_from_vec_selects:
  "selects I \<rho> (and_from_vec es) \<longleftrightarrow> (\<forall>e \<in> set es. selects I \<rho> e)"
  by (auto simp: and_from_vec_def selects_and split: list.split)

lemma and_expr_selects: "selects I \<rho> (and_expr a b) \<longleftrightarrow> selects I \<rho> a \<and> selects I \<rho> b"
proof (cases "is_true a \<or> is_true b")
  case False
  have "selects I \<rho> (case (x, b) of (x, EAnd ys) \<Rightarrow> EAnd (ys @ [x]) | (x, y) \<Rightarrow> EAnd [x, y]) \<longleftrightarrow>
      selects I \<rho> x \<and> selects I \<rho> b" for x
    by (cases b) (auto simp: selects_and)
  moreover have "selects I \<rho> (case (EAnd xs, b) of (EAnd xs, EAnd ys) \<Rightarrow> EAnd (xs @ ys) | (EAnd xs, y) \<Rightarrow> EAnd (xs @ [y]) | _ \<Rightarrow> b) \<longleftrightarrow>
      selects I \<rho> (EAnd xs) \<and> selects I \<rho> b" for xs
    by (cases b) (auto simp: selects_and)
  ultimately show ?thesis using False unfolding and_expr_def by (cases a) simp_all
qed (auto simp: and_expr_def)

lemma pre_filter_selects:
  assumes "extract_pre_filter Q e = (pre, remaining)"
  shows "selects I \<rho> e \<longleftrightarrow> (\<forall>p \<in> set_option pre. selects I \<rho> p) \<and> selects I \<rho> remaining"
    "decided I \<rho> e \<Longrightarrow> decided I \<rho> remaining \<and> (\<forall>p \<in> set_option pre. decided I \<rho> p)"
proof -
  have "(selects I \<rho> e \<longleftrightarrow> (\<forall>p \<in> set_option pre. selects I \<rho> p) \<and> selects I \<rho> remaining) \<and>
    (decided I \<rho> e \<longrightarrow> decided I \<rho> remaining \<and> (\<forall>p \<in> set_option pre. decided I \<rho> p))"
  proof (cases "\<exists>es. e = EAnd es")
    case True
    then obtain es where e: "e = EAnd es" by blast
    let ?p = "filter (\<lambda>x. \<not> references_column Q x) es" and ?r = "filter (references_column Q) es"
    have set: "set es = set ?p \<union> set ?r" by auto
    have s: "selects I \<rho> e \<longleftrightarrow> (\<forall>x \<in> set ?p. selects I \<rho> x) \<and> (\<forall>x \<in> set ?r. selects I \<rho> x)"
      "decided I \<rho> e \<longleftrightarrow> (\<forall>x \<in> set ?p. decided I \<rho> x) \<and> (\<forall>x \<in> set ?r. decided I \<rho> x)"
      unfolding e selects_and decided_and set by blast+
    show ?thesis
    proof (cases "?r = []")
      case True
      with assms show ?thesis by (auto simp: extract_pre_filter_def e)
    next
      case False
      then have "pre = (case ?p of [] \<Rightarrow> None | [p] \<Rightarrow> Some p | _ \<Rightarrow> Some (EAnd ?p))"
        "remaining = (case ?r of [r] \<Rightarrow> r | _ \<Rightarrow> EAnd ?r)"
        using assms by (auto simp: extract_pre_filter_def e Let_def)
      moreover have "(\<forall>p \<in> set_option (case ps of [] \<Rightarrow> None | [p] \<Rightarrow> Some p | _ \<Rightarrow> Some (EAnd ps)). X p) \<longleftrightarrow> (\<forall>p \<in> set ps. X p)"
        "X (case ps of [r] \<Rightarrow> r | _ \<Rightarrow> EAnd ps) \<longleftrightarrow> (\<forall>p \<in> set ps. X p)"
        if "\<And>es. X (EAnd es) \<longleftrightarrow> (\<forall>e \<in> set es. X e)" for ps and X :: "expr \<Rightarrow> bool"
        using that by (auto split: list.split)
      note this(1) [of "selects I \<rho>", OF selects_and] this(2) [of "selects I \<rho>", OF selects_and]
        this(1) [of "decided I \<rho>", OF decided_and] this(2) [of "decided I \<rho>", OF decided_and]
      ultimately show ?thesis unfolding s by simp
    qed
  next
    case False
    then have "extract_pre_filter Q e = (if references_column Q e then (None, e) else (Some e, true_expr))"
      by (cases e) (simp_all add: extract_pre_filter_def)
    with assms show ?thesis by (auto split: if_splits)
  qed
  then show "selects I \<rho> e \<longleftrightarrow> (\<forall>p \<in> set_option pre. selects I \<rho> p) \<and> selects I \<rho> remaining"
    "decided I \<rho> e \<Longrightarrow> decided I \<rho> remaining \<and> (\<forall>p \<in> set_option pre. decided I \<rho> p)" by blast+
qed

subsection \<open>Splitting the filter\<close>

text \<open>
  The two parts hold wherever the filter does, and only there unless the whole filter is applied
  to the results.
\<close>

definition split_ok :: "interp \<Rightarrow> bool \<Rightarrow> expr \<Rightarrow> expr \<Rightarrow> expr \<Rightarrow> bool" where
  "split_ok I flag e i r \<longleftrightarrow>
     (\<forall>\<rho>. decided I \<rho> e \<longrightarrow> decided I \<rho> i \<and> decided I \<rho> r \<and>
        (selects I \<rho> e \<longrightarrow> selects I \<rho> i \<and> selects I \<rho> r) \<and>
        (\<not> flag \<longrightarrow> selects I \<rho> i \<and> selects I \<rho> r \<longrightarrow> selects I \<rho> e))"

lemma split_ok_at:
  assumes "split_ok I flag e i r" "decided I \<rho> e"
  shows "decided I \<rho> i" "decided I \<rho> r" "selects I \<rho> e \<Longrightarrow> selects I \<rho> i \<and> selects I \<rho> r"
    "\<not> flag \<Longrightarrow> selects I \<rho> i \<Longrightarrow> selects I \<rho> r \<Longrightarrow> selects I \<rho> e"
  using assms unfolding split_ok_def by blast+

lemma split_ok_mono: "split_ok I flag e i r \<Longrightarrow> (flag \<longrightarrow> flag') \<Longrightarrow> split_ok I flag' e i r"
  unfolding split_ok_def by blast

lemma split_ok_side [simp]: "split_ok I flag e e true_expr" "split_ok I flag e true_expr e" "split_ok I True e true_expr true_expr"
  by (simp_all add: split_ok_def)

text \<open>The body of an \<open>ANY\<close> goes to one side as a whole, and is not empty.\<close>

function unmixed :: "capability \<Rightarrow> index_match \<Rightarrow> path \<Rightarrow> expr \<Rightarrow> bool"
  and unmixed_all :: "capability \<Rightarrow> index_match \<Rightarrow> path \<Rightarrow> nat \<Rightarrow> expr list \<Rightarrow> bool" where
  "unmixed C m p e =
     (case e of
        EAnd es \<Rightarrow> unmixed_all C m p 0 es
      | EOr es \<Rightarrow> unmixed_all C m p 0 es
      | EAny x \<Rightarrow>
          (case x of
             EMap _ body \<Rightarrow>
               unmixed C m (p @ [0]) body \<and>
               list_all (\<lambda>flag. case partition_filter C m (p @ [0]) body flag of
                   Inr ((i, r), flag') \<Rightarrow> (is_true i \<or> is_true r) \<and> (is_true i \<and> is_true r \<longrightarrow> flag')
                 | Inl _ \<Rightarrow> True) [False, True]
           | _ \<Rightarrow> True)
      | _ \<Rightarrow> True)"
| "unmixed_all C m p i [] = True"
| "unmixed_all C m p i (e # es) \<longleftrightarrow> unmixed C m (p @ [i]) e \<and> unmixed_all C m p (Suc i) es"
  by pat_completeness auto

termination
  by (relation "measure (\<lambda>x. case x of Inl (_, _, _, e) \<Rightarrow> size e | Inr (_, _, _, _, es) \<Rightarrow> size_list size es)") auto

declare unmixed.simps [simp del]

lemma unmixed_simps [simp]:
  "unmixed C m p (EAnd es) = unmixed_all C m p 0 es"
  "unmixed C m p (EOr es) = unmixed_all C m p 0 es"
  by (subst unmixed.simps, simp)+

lemma connective_cases:
  obtains (conj) es where "e = EAnd es" | (disj) es where "e = EOr es" | (any) x where "e = EAny x"
    | (leaf) "\<And>C m p flag. partition_filter C m p e flag = partition_leaf C m p e flag" "\<And>C m p. unmixed C m p e"
proof (cases e)
  case (EAnd es) then show ?thesis by (rule conj)
next
  case (EOr es) then show ?thesis by (rule disj)
next
  case (EAny x) then show ?thesis by (rule any)
qed (rule leaf; subst partition_filter.simps unmixed.simps; simp)+

lemma partition_any:
  assumes "partition_filter C m p (EAny x) flag = Ok (ir, flag')"
  obtains base body i r where "x = EMap base body" "partition_filter C m (p @ [0]) body flag = Ok ((i, r), flag')"
    "ir = (if \<not> is_true i then (EAny (EMap base i), true_expr)
           else if \<not> is_true r then (true_expr, EAny (EMap base r)) else (true_expr, true_expr))"
  using assms
  by (subst (asm) partition_filter.simps) (auto split: expr.splits simp: todo_def rmap_eq_Ok)

lemma normalize_selects:
  assumes "normalize_comparison l op r = Ok e"
  shows "sem I \<rho> e = sem I \<rho> (EBinaryOp l op r)"
proof (cases "as_column_ref l = None")
  case True
  then obtain op' where "commute_op op = Some op'" "e = EBinaryOp r op' l"
    using assms by (auto simp: normalize_comparison_def todo_def split: if_splits option.splits)
  then show ?thesis by (cases "sem I \<rho> l"; cases "sem I \<rho> r") (simp_all add: opt2_def sem_op_commute)
qed (use assms in \<open>auto simp: normalize_comparison_def\<close>)

lemma partition_leaf_ok:
  assumes "partition_leaf C m p e flag = Ok ((i, r), flag')"
  shows "split_ok I flag' e i r" "flag \<Longrightarrow> flag'"
proof -
  have side: "split_ok I flag' e i r \<and> (flag \<longrightarrow> flag')" if "partition_side m p e flag = Ok ((i, r), flag')"
    using that by (auto simp: partition_side_def split: if_splits)
  have "split_ok I flag' e i r \<and> (flag \<longrightarrow> flag')"
  proof (cases "\<exists>l op r. e = EBinaryOp l op r \<and> matched m p")
    case True
    then obtain l op r' where e: "e = EBinaryOp l op r'" "matched m p" by blast
    show ?thesis
    proof (cases "op = OpNe \<and> \<not> cb_primary_key_ne_predicate C")
      case True
      then show ?thesis using assms e by (auto simp: partition_leaf_def)
    next
      case False
      then obtain e' where n: "normalize_comparison l op r' = Ok e'" "i = e'" "r = true_expr" "flag' = flag"
        using assms e by (auto simp: partition_leaf_def rmap_eq_Ok)
      have "decided I \<rho> e' = decided I \<rho> e" "selects I \<rho> e' = selects I \<rho> e" for \<rho>
        using normalize_selects [OF n(1), of I \<rho>] unfolding e(1) decided_def selects_def by metis+
      then show ?thesis using n(2-4) by (simp add: split_ok_def)
    qed
  next
    case False
    then have "partition_side m p e flag = Ok ((i, r), flag')"
      using assms by (cases e) (auto simp: partition_leaf_def todo_def)
    then show ?thesis by (rule side)
  qed
  then show "split_ok I flag' e i r" "flag \<Longrightarrow> flag'" by blast+
qed

definition partition_ok :: "interp \<Rightarrow> capability \<Rightarrow> index_match \<Rightarrow> expr \<Rightarrow> bool" where
  "partition_ok I C m e \<longleftrightarrow>
     (\<forall>p flag i r flag'. partition_filter C m p e flag = Ok ((i, r), flag') \<longrightarrow>
        (flag \<longrightarrow> flag') \<and> (unmixed C m p e \<longrightarrow> split_ok I flag' e i r))"

lemma partition_all_ok:
  assumes "\<And>e. e \<in> set es \<Longrightarrow> partition_ok I C m e" "partition_all C m p k es flag = Ok (ps, flag')"
  shows "(flag \<longrightarrow> flag') \<and>
    (unmixed_all C m p k es \<longrightarrow> list_all2 (\<lambda>e x. split_ok I flag' e (fst x) (snd x)) es ps)"
  using assms
proof (induction es arbitrary: k flag ps)
  case (Cons e es)
  obtain i r f qs where e: "partition_filter C m (p @ [k]) e flag = Ok ((i, r), f)" "partition_all C m p (Suc k) es f = Ok (qs, flag')"
    "ps = (i, r) # qs"
    using Cons.prems(2) by (auto simp: rbind_eq_Ok rmap_eq_Ok)
  have "(flag \<longrightarrow> f) \<and> (unmixed C m (p @ [k]) e \<longrightarrow> split_ok I f e i r)"
    using Cons.prems(1) [of e] e(1) unfolding partition_ok_def by simp blast
  with Cons.IH [OF Cons.prems(1) e(2)] show ?case by (auto simp: e(3) intro: split_ok_mono)
qed simp

text \<open>The operands of a disjunction, with those collected so far.\<close>

definition or_split_ok :: "interp \<Rightarrow> bool \<Rightarrow> expr list \<Rightarrow> expr list \<Rightarrow> expr \<Rightarrow> expr \<Rightarrow> bool" where
  "or_split_ok I flag es seen i r \<longleftrightarrow>
     (\<forall>\<rho>. (\<forall>x \<in> set es \<union> set seen. decided I \<rho> x) \<longrightarrow> decided I \<rho> i \<and> decided I \<rho> r \<and>
        ((\<exists>x \<in> set es \<union> set seen. selects I \<rho> x) \<longrightarrow> selects I \<rho> i \<and> selects I \<rho> r) \<and>
        (\<not> flag \<longrightarrow> selects I \<rho> i \<and> selects I \<rho> r \<longrightarrow> (\<exists>x \<in> set es \<union> set seen. selects I \<rho> x)))"

lemma or_split_step:
  assumes "or_split_ok I flag es (seen @ [x]) i r" "split_ok I flag e y z" "x = y \<and> is_true z \<or> x = z \<and> is_true y"
  shows "or_split_ok I flag (e # es) seen i r"
  unfolding or_split_ok_def
proof (rule allI, rule impI)
  fix \<rho>
  assume d: "\<forall>x \<in> set (e # es) \<union> set seen. decided I \<rho> x"
  have x: "decided I \<rho> x" "selects I \<rho> e \<Longrightarrow> selects I \<rho> x" "\<not> flag \<Longrightarrow> selects I \<rho> x \<Longrightarrow> selects I \<rho> e"
    using split_ok_at [OF assms(2), of \<rho>] d assms(3) true_expr_selects(1) [of y I \<rho>] true_expr_selects(1) [of z I \<rho>]
    by auto
  have "\<forall>y \<in> set es \<union> set (seen @ [x]). decided I \<rho> y" using d x(1) by auto
  with assms(1) have "decided I \<rho> i \<and> decided I \<rho> r \<and>
      ((\<exists>y \<in> set es \<union> set (seen @ [x]). selects I \<rho> y) \<longrightarrow> selects I \<rho> i \<and> selects I \<rho> r) \<and>
      (\<not> flag \<longrightarrow> selects I \<rho> i \<and> selects I \<rho> r \<longrightarrow> (\<exists>y \<in> set es \<union> set (seen @ [x]). selects I \<rho> y))"
    unfolding or_split_ok_def by (elim allE [of _ \<rho>] mp)
  then show "decided I \<rho> i \<and> decided I \<rho> r \<and>
      ((\<exists>y \<in> set (e # es) \<union> set seen. selects I \<rho> y) \<longrightarrow> selects I \<rho> i \<and> selects I \<rho> r) \<and>
      (\<not> flag \<longrightarrow> selects I \<rho> i \<and> selects I \<rho> r \<longrightarrow> (\<exists>y \<in> set (e # es) \<union> set seen. selects I \<rho> y))"
    using x(2,3) by auto
qed

lemma or_split_end:
  "index = [] \<or> result = [] \<Longrightarrow>
   or_split_ok I flag [] (index @ result) (if index \<noteq> [] then EOr index else true_expr)
     (if index \<noteq> [] then true_expr else EOr result)"
  by (auto simp: or_split_ok_def decided_or selects_or)

lemma or_split_whole:
  assumes "or_split_ok I flag es [] i r"
  shows "split_ok I flag (EOr es) i r"
  unfolding split_ok_def
proof (rule allI, rule impI)
  fix \<rho> assume d: "decided I \<rho> (EOr es)"
  then have "\<forall>x \<in> set es \<union> set []. decided I \<rho> x" by (simp add: decided_or)
  with assms have "decided I \<rho> i \<and> decided I \<rho> r \<and>
      ((\<exists>y \<in> set es \<union> set []. selects I \<rho> y) \<longrightarrow> selects I \<rho> i \<and> selects I \<rho> r) \<and>
      (\<not> flag \<longrightarrow> selects I \<rho> i \<and> selects I \<rho> r \<longrightarrow> (\<exists>y \<in> set es \<union> set []. selects I \<rho> y))"
    unfolding or_split_ok_def by (elim allE [of _ \<rho>] mp)
  then show "decided I \<rho> i \<and> decided I \<rho> r \<and> (selects I \<rho> (EOr es) \<longrightarrow> selects I \<rho> i \<and> selects I \<rho> r) \<and>
      (\<not> flag \<longrightarrow> selects I \<rho> i \<and> selects I \<rho> r \<longrightarrow> selects I \<rho> (EOr es))"
    unfolding selects_or [OF d] by (simp only: list.set Un_empty_right) fast
qed

lemma partition_or_ok:
  assumes "\<And>e. e \<in> set es \<Longrightarrow> partition_ok I C m e"
    "partition_or C m p k es flag index result = Ok ((i, r), flag')" "index = [] \<or> result = []"
  shows "(flag \<longrightarrow> flag') \<and> (unmixed_all C m p k es \<longrightarrow> or_split_ok I flag' es (index @ result) i r)"
  using assms
proof (induction es arbitrary: k flag index result)
  case Nil
  then have "i = (if index \<noteq> [] then EOr index else true_expr)" "r = (if index \<noteq> [] then true_expr else EOr result)"
    "flag = flag'" by (auto split: if_splits)
  then show ?case using or_split_end [OF Nil.prems(3)] by simp
next
  case (Cons e es)
  obtain x y f where e: "partition_filter C m (p @ [k]) e flag = Ok ((x, y), f)"
    and rest: "(if \<not> is_true x \<and> \<not> is_true y then todo
       else if \<not> is_true x then
         (if result = [] then partition_or C m p (Suc k) es f (index @ [x]) result
          else Err (Panic ''assertion failed: result_filter_operands.is_empty()''))
       else if \<not> is_true y then
         (if index = [] then partition_or C m p (Suc k) es f index (result @ [y])
          else Err (Panic ''assertion failed: index_filter_operands.is_empty()''))
       else todo) = Ok ((i, r), flag')"
    using Cons.prems(2) by (auto simp: rbind_eq_Ok)
  have step: "(flag \<longrightarrow> f) \<and> (unmixed C m (p @ [k]) e \<longrightarrow> split_ok I f e x y)"
    using Cons.prems(1) [of e] e unfolding partition_ok_def by simp blast
  from rest consider
    (index) "is_true y" "result = []" "partition_or C m p (Suc k) es f (index @ [x]) [] = Ok ((i, r), flag')"
    | (result) "is_true x" "index = []" "partition_or C m p (Suc k) es f [] (result @ [y]) = Ok ((i, r), flag')"
    by (auto simp: todo_def split: if_splits)
  then show ?case
  proof cases
    case index
    from Cons.IH [OF Cons.prems(1) index(3)] step index show ?thesis
      by (auto intro: or_split_step split_ok_mono)
  next
    case result
    from Cons.IH [OF Cons.prems(1) result(3)] step result show ?thesis
      by (auto intro: or_split_step split_ok_mono)
  qed
qed

lemma any_map_split:
  assumes "split_ok I flag body i r" "decided I \<rho> (EAny (EMap base body))"
  shows "is_true r \<Longrightarrow> decided I \<rho> (EAny (EMap base i)) \<and>
      (selects I \<rho> (EAny (EMap base body)) \<longrightarrow> selects I \<rho> (EAny (EMap base i))) \<and>
      (\<not> flag \<longrightarrow> selects I \<rho> (EAny (EMap base i)) \<longrightarrow> selects I \<rho> (EAny (EMap base body)))"
    "is_true i \<Longrightarrow> decided I \<rho> (EAny (EMap base r)) \<and>
      (selects I \<rho> (EAny (EMap base body)) \<longrightarrow> selects I \<rho> (EAny (EMap base r))) \<and>
      (\<not> flag \<longrightarrow> selects I \<rho> (EAny (EMap base r)) \<longrightarrow> selects I \<rho> (EAny (EMap base body)))"
proof -
  obtain items where items: "sem I \<rho> base = Some (VList items)" "\<forall>x \<in> set items. decided I ([x] # \<rho>) body"
    using assms(2) by (rule any_map_cases)
  have parts: "\<forall>x \<in> set items. decided I ([x] # \<rho>) i" "\<forall>x \<in> set items. decided I ([x] # \<rho>) r"
    using assms(1) items(2) unfolding split_ok_def by blast+
  note any_map_value [OF items] any_map_value [OF items(1) parts(1)] any_map_value [OF items(1) parts(2)]
  note vals = this
  have step: "selects I ([x] # \<rho>) body \<longrightarrow> selects I ([x] # \<rho>) i \<and> selects I ([x] # \<rho>) r"
    "\<not> flag \<Longrightarrow> selects I ([x] # \<rho>) i \<Longrightarrow> selects I ([x] # \<rho>) r \<Longrightarrow> selects I ([x] # \<rho>) body"
    if "x \<in> set items" for x
    using split_ok_at(3,4) [OF assms(1)] items(2) that by blast+
  show "is_true r \<Longrightarrow> decided I \<rho> (EAny (EMap base i)) \<and>
      (selects I \<rho> (EAny (EMap base body)) \<longrightarrow> selects I \<rho> (EAny (EMap base i))) \<and>
      (\<not> flag \<longrightarrow> selects I \<rho> (EAny (EMap base i)) \<longrightarrow> selects I \<rho> (EAny (EMap base body)))"
    "is_true i \<Longrightarrow> decided I \<rho> (EAny (EMap base r)) \<and>
      (selects I \<rho> (EAny (EMap base body)) \<longrightarrow> selects I \<rho> (EAny (EMap base r))) \<and>
      (\<not> flag \<longrightarrow> selects I \<rho> (EAny (EMap base r)) \<longrightarrow> selects I \<rho> (EAny (EMap base body)))"
    using vals(1,3,5) step true_expr_selects unfolding vals(2,4,6) by (metis (no_types))+
qed

lemma partition_ok: "partition_ok I C m e"
proof (induction "size e" arbitrary: e rule: less_induct)
  case less
  show ?case
    unfolding partition_ok_def
  proof (intro allI impI)
    fix p flag i r flag'
    assume out: "partition_filter C m p e flag = Ok ((i, r), flag')"
    show "(flag \<longrightarrow> flag') \<and> (unmixed C m p e \<longrightarrow> split_ok I flag' e i r)"
    proof (cases e rule: connective_cases)
      case (conj es)
      then have IH: "partition_ok I C m x" if "x \<in> set es" for x
        using that size_in_list [of x es] by (intro less.hyps) (simp add: less_Suc_eq_le)
      obtain ps where ps: "partition_all C m p 0 es flag = Ok (ps, flag')"
        "i = conjunction (filter (\<lambda>x. \<not> is_true x) (map fst ps))" "r = conjunction (filter (\<lambda>x. \<not> is_true x) (map snd ps))"
        using out by (auto simp: conj rmap_eq_Ok)
      note all = partition_all_ok [OF IH ps(1)]
      have "split_ok I flag' e i r" if "unmixed C m p e"
        unfolding split_ok_def
      proof (intro allI impI)
        fix \<rho> assume d: "decided I \<rho> e"
        have l: "list_all2 (\<lambda>e x. split_ok I flag' e (fst x) (snd x)) es ps" using all that conj by simp
        have des: "\<forall>x \<in> set es. decided I \<rho> x" using d by (simp add: conj decided_and)
        have len: "length es = length ps" using l by (rule list_all2_lengthD)
        have at: "decided I \<rho> (fst (ps ! k)) \<and> decided I \<rho> (snd (ps ! k)) \<and>
            (selects I \<rho> (es ! k) \<longrightarrow> selects I \<rho> (fst (ps ! k)) \<and> selects I \<rho> (snd (ps ! k))) \<and>
            (\<not> flag' \<longrightarrow> selects I \<rho> (fst (ps ! k)) \<and> selects I \<rho> (snd (ps ! k)) \<longrightarrow> selects I \<rho> (es ! k))"
          if "k < length ps" for k
          using split_ok_at [OF list_all2_nthD2 [OF l that]] des that len by simp
        have dp: "\<forall>x \<in> set ps. decided I \<rho> (fst x) \<and> decided I \<rho> (snd x)"
          unfolding all_set_conv_all_nth using at by simp
        have fwd: "\<forall>x \<in> set ps. selects I \<rho> (fst x) \<and> selects I \<rho> (snd x)" if "\<forall>x \<in> set es. selects I \<rho> x"
          unfolding all_set_conv_all_nth using at that len by simp
        have bwd: "\<forall>x \<in> set es. selects I \<rho> x"
          if "\<not> flag'" "\<forall>x \<in> set ps. selects I \<rho> (fst x) \<and> selects I \<rho> (snd x)"
          unfolding all_set_conv_all_nth using at that len by simp
        have parts: "decided I \<rho> i \<longleftrightarrow> (\<forall>x \<in> set ps. decided I \<rho> (fst x))" "decided I \<rho> r \<longleftrightarrow> (\<forall>x \<in> set ps. decided I \<rho> (snd x))"
          "selects I \<rho> i \<longleftrightarrow> (\<forall>x \<in> set ps. selects I \<rho> (fst x))" "selects I \<rho> r \<longleftrightarrow> (\<forall>x \<in> set ps. selects I \<rho> (snd x))"
          "selects I \<rho> e \<longleftrightarrow> (\<forall>x \<in> set es. selects I \<rho> x)"
          unfolding ps(2,3) conjunction_selects conj selects_and by simp_all
        show "decided I \<rho> i \<and> decided I \<rho> r \<and> (selects I \<rho> e \<longrightarrow> selects I \<rho> i \<and> selects I \<rho> r) \<and>
          (\<not> flag' \<longrightarrow> selects I \<rho> i \<and> selects I \<rho> r \<longrightarrow> selects I \<rho> e)"
          unfolding parts using dp fwd bwd by blast
      qed
      with all show ?thesis by blast
    next
      case (disj es)
      then have IH: "partition_ok I C m x" if "x \<in> set es" for x
        using that size_in_list [of x es] by (intro less.hyps) (simp add: less_Suc_eq_le)
      have "partition_or C m p 0 es flag [] [] = Ok ((i, r), flag')" using out by (simp add: disj)
      from partition_or_ok [OF IH this] have all: "(flag \<longrightarrow> flag') \<and> (unmixed_all C m p 0 es \<longrightarrow> or_split_ok I flag' es [] i r)"
        by simp
      moreover have "split_ok I flag' (EOr es) i r" if "or_split_ok I flag' es [] i r"
        using that by (rule or_split_whole)
      ultimately show ?thesis by (simp add: disj)
    next
      case (any x)
      obtain base body j s where x: "x = EMap base body" "partition_filter C m (p @ [0]) body flag = Ok ((j, s), flag')"
        "(i, r) = (if \<not> is_true j then (EAny (EMap base j), true_expr)
           else if \<not> is_true s then (true_expr, EAny (EMap base s)) else (true_expr, true_expr))"
        using out unfolding any by (rule partition_any)
      have "partition_ok I C m body" by (rule less.hyps) (simp add: any x(1))
      then have body: "(flag \<longrightarrow> flag') \<and> (unmixed C m (p @ [0]) body \<longrightarrow> split_ok I flag' body j s)"
        using x(2) unfolding partition_ok_def by blast
      have "split_ok I flag' e i r" if u: "unmixed C m p e"
      proof -
        have u': "unmixed C m (p @ [0]) body" "is_true j \<or> is_true s" "is_true j \<and> is_true s \<longrightarrow> flag'"
          using u x(2) by (subst (asm) unmixed.simps, cases flag, simp_all add: any x(1))+
        note split = any_map_split [OF body [THEN conjunct2, THEN mp, OF u'(1)]]
        show ?thesis
          unfolding split_ok_def
        proof (rule allI, rule impI)
          fix \<rho> assume "decided I \<rho> e"
          then have d: "decided I \<rho> (EAny (EMap base body))" by (simp add: any x(1))
          consider (index) "is_true s" "\<not> is_true j" "i = EAny (EMap base j)" "r = true_expr"
            | (result) "is_true j" "\<not> is_true s" "i = true_expr" "r = EAny (EMap base s)"
            | (both) "is_true j" "is_true s" "i = true_expr" "r = true_expr"
            using x(3) u'(2) by (auto split: if_splits)
          then show "decided I \<rho> i \<and> decided I \<rho> r \<and> (selects I \<rho> e \<longrightarrow> selects I \<rho> i \<and> selects I \<rho> r) \<and>
              (\<not> flag' \<longrightarrow> selects I \<rho> i \<and> selects I \<rho> r \<longrightarrow> selects I \<rho> e)"
          proof cases
            case index
            then show ?thesis using split(1) [OF d] by (simp add: any x(1))
          next
            case result
            then show ?thesis using split(2) [OF d] by (simp add: any x(1))
          next
            case both
            then show ?thesis using u'(3) by simp
          qed
        qed
      qed
      with body show ?thesis by blast
    next
      case leaf
      then have "partition_leaf C m p e flag = Ok ((i, r), flag')" using out by simp
      from partition_leaf_ok [OF this] show ?thesis by blast
    qed
  qed
qed

end
