(* ===== verification/IndexPlanRules.thy ===== *)
theory IndexPlanRules
  imports IndexRules OrRules
begin

text \<open>
  Whole index plans: the filters of a plan against the filter it was made for, on databases with
  and without disjunctions in key conditions, and the keys of a direct lookup.
\<close>

subsection \<open>Filters without ANY\<close>

lemma any_free_true [simp]: "any_free (EValue v)"
  by (subst any_free.simps) simp

lemma any_free_unmixed:
  "any_free e \<Longrightarrow> unmixed C m p e"
  "list_all any_free es \<Longrightarrow> unmixed_all C m p k es"
proof (induction C m p e and C m p k es rule: unmixed_unmixed_all.induct)
  case (1 C m p e)
  show ?case
  proof (cases e rule: connective_cases)
    case (any x)
    then show ?thesis using "1.prems" by simp
  qed (use 1 in simp_all)
qed simp_all

lemma any_free_ready: "any_free e \<Longrightarrow> dnf_ready e"
proof (induction e rule: dnf_ready.induct)
  case (1 e)
  then show ?case
    by (subst dnf_ready.simps) (auto split: expr.splits simp: list_all_iff and_ready_def)
qed

lemma conjunction_any_free: "list_all any_free xs \<Longrightarrow> any_free (conjunction (filter P xs))"
proof -
  assume "list_all any_free xs"
  then have "list_all any_free (filter P xs)" by (simp add: list_all_iff)
  then show ?thesis by (auto simp: conjunction_def split: list.split)
qed

lemma partition_any_free:
  "partition_filter C m p e flag = Ok ((i, r), flag') \<Longrightarrow> any_free e \<Longrightarrow> any_free i \<and> any_free r"
proof (induction "size e" arbitrary: e p flag i r flag' rule: less_induct)
  case less
  show ?case
  proof (cases e rule: connective_cases)
    case (conj es)
    have IH: "any_free (fst y) \<and> any_free (snd y)"
      if "partition_all C m p k es' flag = Ok (ps, flag')" "set es' \<subseteq> set es" "y \<in> set ps" for k es' flag flag' ps y
      using that
    proof (induction es' arbitrary: k flag ps)
      case (Cons x xs)
      have "size x < size e" using Cons.prems(2) size_in_list [of x es] by (simp add: conj less_Suc_eq_le)
      moreover have "any_free x" using less.prems(2) Cons.prems(2) by (auto simp: conj list_all_iff)
      ultimately show ?case
        using Cons less.hyps [of x] by (auto simp: rbind_eq_Ok rmap_eq_Ok)
    qed simp
    obtain ps where ps: "partition_all C m p 0 es flag = Ok (ps, flag')"
      "i = conjunction (filter (\<lambda>x. \<not> is_true x) (map fst ps))" "r = conjunction (filter (\<lambda>x. \<not> is_true x) (map snd ps))"
      using less.prems(1) by (auto simp: conj rmap_eq_Ok)
    then show ?thesis using IH [OF ps(1)] by (auto intro!: conjunction_any_free simp: list_all_iff)
  next
    case (disj es)
    have "any_free i \<and> any_free r"
      if "partition_or C m p k es' flag index result = Ok ((i, r), flag')" "set es' \<subseteq> set es"
        "list_all any_free (index @ result)" for k es' flag flag' index result
      using that
    proof (induction es' arbitrary: k flag index result)
      case (Cons x xs)
      obtain a b f where x: "partition_filter C m (p @ [k]) x flag = Ok ((a, b), f)"
        using Cons.prems(1) by (auto simp: rbind_eq_Ok)
      have "size x < size e" using Cons.prems(2) size_in_list [of x es] by (simp add: disj less_Suc_eq_le)
      moreover have "any_free x" using less.prems(2) Cons.prems(2) by (auto simp: disj list_all_iff)
      ultimately have "any_free a \<and> any_free b" using less.hyps x by blast
      then show ?case
        using Cons x by (auto simp: todo_def split: if_splits)
    qed (auto split: if_splits)
    then show ?thesis using less.prems(1) by (simp add: disj)
  next
    case (any x)
    then show ?thesis using less.prems by simp
  next
    case leaf
    have leaf_free: "any_free (EBinaryOp l op r')" for l op r' by (subst any_free.simps) simp
    show ?thesis
      using less.prems unfolding leaf(1) partition_leaf_def
      by (auto simp: partition_side_def normalize_comparison_def todo_def rmap_eq_Ok leaf_free
          split: expr.splits if_splits option.splits)
  qed
qed

subsection \<open>The rewritten index filter\<close>

text \<open>The key conditions a rewritten filter stands for.\<close>

definition key_conditions :: "expr \<Rightarrow> expr list" where
  "key_conditions e =
     (case e of
        EAny x \<Rightarrow>
          (case x of
             EMap b shape \<Rightarrow> (case b of EValue v \<Rightarrow> (case v of VList vs \<Rightarrow> map (instance_of shape) vs | _ \<Rightarrow> [e]) | _ \<Rightarrow> [e])
           | _ \<Rightarrow> [e])
      | _ \<Rightarrow> [e])"

lemma key_conditions_simps [simp]:
  "key_conditions (EAny (EMap (EValue (VList vs)) shape)) = map (instance_of shape) vs"
  "any_free e \<Longrightarrow> key_conditions e = [e]"
  by (simp add: key_conditions_def, cases e) (simp_all add: key_conditions_def)

lemma in_list_selects:
  assumes "decided I \<rho> (EInList x (EValue (VList vs)))"
  shows "selects I \<rho> (EInList x (EValue (VList vs))) \<longleftrightarrow> (\<exists>v \<in> set vs. selects I \<rho> (EBinaryOp x OpEq (EValue v)))"
proof -
  obtain a t where a: "sem I \<rho> x = Some a" "sem_in a vs = Some t" "sem I \<rho> (EInList x (EValue (VList vs))) = Some t"
    using assms by (auto simp: decided_def opt2_def on_list_def bind_eq_Some_conv)
  then have "t = or_result (values_of (sem_op OpEq a) vs)" by (simp add: sem_in_eq)
  then have "t = VBool True \<longleftrightarrow> (\<exists>v \<in> set vs. sem_op OpEq a v = Some (VBool True))" using or_true by metis
  then show ?thesis using a(1,3) by (simp add: selects_def opt2_def)
qed

lemma flatten_any_free:
  assumes "flatten_to_dnf e = Ok branches" "any_free e" "b \<in> set branches"
  shows "any_free b"
proof -
  have "flatten_queue [e] [] = Ok branches" using assms(1) by (auto simp: flatten_to_dnf_def rbind_eq_Ok rmap_eq_Ok)
  then show ?thesis using flatten_queue_any_free [of "[e]" "[]"] assms(2,3) by auto
qed

lemma any_map_selects:
  assumes out: "index_filter_to_any_map e = Ok (Some f)" and free: "any_free e" and d: "decided I \<rho> e"
  shows "selects I \<rho> e \<longleftrightarrow> (\<exists>k \<in> set (key_conditions f). selects I \<rho> k)"
proof (cases "\<exists>x vs. e = EInList x (EValue (VList vs))")
  case True
  then obtain x vs where e: "e = EInList x (EValue (VList vs))" by blast
  then have "f = EAny (EMap (EValue (VList vs)) (EBinaryOp x OpEq (EArg 0 0)))"
    using out by (simp add: index_filter_to_any_map_def)
  then show ?thesis using in_list_selects d by (simp add: e instance_of_def with_literal_def)
next
  case False
  have "index_filter_to_any_map e = rbind (flatten_to_dnf e) unify_dnf_branches"
    using False unfolding index_filter_to_any_map_def Let_def by (auto split: expr.split val.split)
  then obtain bs where bs: "flatten_to_dnf e = Ok bs" "unify_dnf_branches bs = Ok (Some f)"
    using out by (metis rbind_eq_Ok)
  note sel = flatten_selects [OF bs(1) d any_free_ready [OF free]]
  show ?thesis
  proof (cases "length bs = 1")
    case True
    then obtain b where "bs = [b]" by (auto simp: length_Suc_conv)
    moreover from this have "f = b" using bs(2) by (simp add: unify_dnf_branches_def)
    moreover have "any_free b" using flatten_any_free [OF bs(1) free] calculation by simp
    ultimately show ?thesis using sel by simp
  next
    case False
    from unify_instances [OF bs(2) False] obtain vs shape
      where "f = EAny (EMap (EValue (VList vs)) shape)" "map (instance_of shape) vs = bs" by blast
    then show ?thesis using sel by auto
  qed
qed

subsection \<open>The plan\<close>

definition holds_if :: "interp \<Rightarrow> val list list \<Rightarrow> expr option \<Rightarrow> bool" where
  "holds_if I \<rho> f \<longleftrightarrow> (\<forall>e \<in> set_option f. selects I \<rho> e)"

definition plan_selects :: "interp \<Rightarrow> val list list \<Rightarrow> index_plan \<Rightarrow> bool" where
  "plan_selects I \<rho> pl \<longleftrightarrow>
     holds_if I \<rho> (ip_pre_filter pl) \<and>
     (\<exists>k \<in> set (key_conditions (ip_index_filter pl)). selects I \<rho> k) \<and>
     holds_if I \<rho> (ip_result_filter pl) \<and> holds_if I \<rho> (ip_post_filter pl)"

text \<open>The residual of the keys is implied by the index filter.\<close>

lemma fill_key_residual:
  "fill_key tb ix es key residual = Ok (key', residual') \<Longrightarrow> set residual' \<subseteq> set residual \<union> set es"
  by (induction tb ix es key residual rule: fill_key.induct)
    (fastforce simp: rbind_eq_Ok split: option.splits if_splits)+

lemma extract_key_residual:
  "extract_key_record tb ix e = Ok (Some (record, rest)) \<Longrightarrow> selects I \<rho> e \<Longrightarrow> selects I \<rho> rest"
proof (cases "\<exists>es. e = EAnd es")
  case True
  assume a: "extract_key_record tb ix e = Ok (Some (record, rest))" "selects I \<rho> e"
  from True obtain es where es: "e = EAnd es" by blast
  then obtain key residual where k: "fill_key tb ix es (replicate (length (ix_columns ix)) VNull) [] = Ok (key, residual)"
    "rest = and_from_vec residual"
    using a(1) by (auto simp: extract_key_record_def rmap_eq_Ok split: if_splits)
  then show ?thesis using fill_key_residual [OF k(1)] a(2) by (auto simp: es selects_and and_from_vec_selects)
next
  case False
  assume "extract_key_record tb ix e = Ok (Some (record, rest))"
  then show ?thesis using False by (auto simp: extract_key_record_def split: expr.splits if_splits)
qed

lemma try_extract_residual:
  assumes "try_extract_key_values tb ix e = Ok (Some (keys, rest))" "selects I \<rho> e"
  shows "selects I \<rho> rest"
proof (cases "(\<exists>x l. e = EInList x l) \<or> (\<exists>es. e = EOr es)")
  case True
  then show ?thesis
    using assms(1)
    by (auto simp: try_extract_key_values_def rmap_eq_Ok eq_commute [of "Some (keys, rest)"] split: expr.splits val.splits)
next
  case False
  then have "try_extract_key_values tb ix e = rmap (map_option (\<lambda>(record, rest). (literal_keys [record], rest))) (extract_key_record tb ix e)"
    unfolding try_extract_key_values_def Let_def by (cases e) auto
  then have "rmap (map_option (\<lambda>(record, rest). (literal_keys [record], rest))) (extract_key_record tb ix e) = Ok (Some (keys, rest))"
    using assms(1) by metis
  then obtain k where "extract_key_record tb ix e = Ok (Some (k, rest))"
    by (auto simp: rmap_eq_Ok eq_commute [of "Some (keys, rest)"])
  then show ?thesis using assms(2) by (rule extract_key_residual)
qed

lemma take_keys_selects:
  assumes "take_keys ix q found r = (keys, r')" "\<And>k rest. found = Some (k, rest) \<Longrightarrow> selects I \<rho> i \<Longrightarrow> selects I \<rho> rest"
  shows "selects I \<rho> i \<Longrightarrow> selects I \<rho> r' \<longleftrightarrow> selects I \<rho> r"
  using assms by (auto simp: take_keys_def and_expr_selects split: option.splits if_splits)

lemma finish_planE:
  assumes "finish_plan C S q idx pre remaining flag i kr = Ok (Some pl)"
  obtains i' where "(if \<not> cb_index_or_predicate C then index_filter_to_any_map i else Ok (Some i)) = Ok (Some i')"
    "ip_pre_filter pl = pre" "ip_index_filter pl = i'" "ip_post_filter pl = (if flag then Some remaining else None)"
    "ip_result_filter pl = (if is_true (snd kr) then None else Some (snd kr))"
proof -
  let ?r = "if \<not> cb_index_or_predicate C then index_filter_to_any_map i else Ok (Some i)"
  obtain rw where rw: "?r = Ok rw"
    using assms by (cases ?r) (simp_all only: finish_plan_def rbind_simps sum.distinct)
  show ?thesis
  proof (cases rw)
    case None
    then show ?thesis using assms by (simp only: finish_plan_def rw rbind_simps option.case) (simp split: if_splits)
  next
    case (Some i')
    have "rmap Some (rmap (\<lambda>ix. \<lparr>ip_index = ix, ip_index_filter = i',
            ip_result_filter = (if is_true (snd kr) then None else Some (snd kr)),
            ip_post_filter = (if flag then Some remaining else None),
            ip_pre_filter = pre, ip_key_values = fst kr,
            ip_has_pk_keys = (ix_primary_key ix \<and> fst kr \<noteq> None)\<rparr>) (schema_index S idx)) = Ok (Some pl)"
      using assms Some by (cases "schema_index S idx") (simp_all only: finish_plan_def rw rbind_simps rmap_simps option.case)
    then obtain ix where "pl = \<lparr>ip_index = ix, ip_index_filter = i',
            ip_result_filter = (if is_true (snd kr) then None else Some (snd kr)),
            ip_post_filter = (if flag then Some remaining else None),
            ip_pre_filter = pre, ip_key_values = fst kr,
            ip_has_pk_keys = (ix_primary_key ix \<and> fst kr \<noteq> None)\<rparr>"
      unfolding rmap_eq_Ok by blast
    then show ?thesis using that [of i'] rw Some by simp
  qed
qed

lemma plan_index_selects:
  assumes plan: "plan_index_path Q C S tb e q = Ok (Some pl)" and free: "any_free e" and d: "decided I \<rho> e"
  shows "selects I \<rho> e \<longleftrightarrow> plan_selects I \<rho> pl"
proof -
  obtain pre remaining where pre: "extract_pre_filter Q e = (pre, remaining)" by fastforce
  note P = pre_filter_selects [OF pre, of I \<rho>]
  have free': "any_free remaining"
  proof (cases "\<exists>es. e = EAnd es")
    case True
    then obtain es where es: "e = EAnd es" by blast
    let ?r = "filter (references_column Q) es"
    have "list_all any_free ?r" using free by (simp add: es list_all_iff)
    moreover have "remaining = (if ?r = [] then true_expr else case ?r of [r] \<Rightarrow> r | _ \<Rightarrow> EAnd ?r)"
      using pre by (auto simp: extract_pre_filter_def es Let_def split: if_splits)
    ultimately show ?thesis by (auto split: list.split_asm if_split_asm)
  next
    case False
    then have "extract_pre_filter Q e = (if references_column Q e then (None, e) else (Some e, true_expr))"
      by (cases e) (simp_all add: extract_pre_filter_def)
    with pre free show ?thesis by (auto split: if_splits)
  qed
  obtain ms where "(case cheapest ms of
        None \<Rightarrow>
          (if cb_scan C then Ok None else Err (UnsupportedFeature ''queries have to use an index''))
      | Some m \<Rightarrow> make_plan C S tb q pre remaining m) = Ok (Some pl)"
    using plan unfolding plan_index_path_def pre Let_def prod.case rbind_eq_Ok by blast
  then obtain m where m: "make_plan C S tb q pre remaining m = Ok (Some pl)"
    by (auto split: option.splits if_splits)
  obtain i r flag found where part: "partition_filter C m [] remaining False = Ok ((i, r), flag)"
    and found1: "try_extract_key_values tb (im_index m) i = Ok found"
    and fin: "finish_plan C S q (ix_id (im_index m)) pre remaining flag i (take_keys (im_index m) q found r) = Ok (Some pl)"
    using m unfolding make_plan_def by (force simp: rbind_eq_Ok)
  obtain keys r' where found2: "take_keys (im_index m) q found r = (keys, r')" by fastforce
  note found = found1 found2
  obtain i' where
    rw: "(if \<not> cb_index_or_predicate C then index_filter_to_any_map i else Ok (Some i)) = Ok (Some i')"
    and pl: "ip_pre_filter pl = pre" "ip_index_filter pl = i'" "ip_post_filter pl = (if flag then Some remaining else None)"
      "ip_result_filter pl = (if is_true r' then None else Some r')"
    using fin unfolding found2 by (rule finish_planE) simp
  have fi: "any_free i" using partition_any_free [OF part free'] by simp
  have "split_ok I flag remaining i r"
    using partition_ok [of I C m remaining] part any_free_unmixed(1) [OF free'] unfolding partition_ok_def by blast
  note split = split_ok_at [OF this, of \<rho>]
  have dr: "decided I \<rho> remaining" using P(2) [OF d] by blast
  have i': "(\<exists>k \<in> set (key_conditions i'). selects I \<rho> k) \<longleftrightarrow> selects I \<rho> i"
  proof (cases "cb_index_or_predicate C")
    case True
    with rw fi show ?thesis by simp
  next
    case False
    with rw any_map_selects [OF _ fi split(1) [OF dr], of i'] show ?thesis by simp
  qed
  have r': "selects I \<rho> i \<Longrightarrow> selects I \<rho> r' \<longleftrightarrow> selects I \<rho> r"
    using take_keys_selects [OF found(2)] try_extract_residual found(1) by metis
  have h: "holds_if I \<rho> (ip_result_filter pl) \<longleftrightarrow> selects I \<rho> r'" "holds_if I \<rho> (ip_post_filter pl) \<longleftrightarrow> (flag \<longrightarrow> selects I \<rho> remaining)"
    "holds_if I \<rho> (ip_pre_filter pl) \<longleftrightarrow> (\<forall>p \<in> set_option pre. selects I \<rho> p)"
    by (auto simp: pl holds_if_def)
  show ?thesis
    unfolding plan_selects_def h pl(2) i' P(1) using split(3,4) dr r' by blast
qed

subsection \<open>Key records\<close>

text \<open>
  The keys of a direct lookup: a key record and its residual say together what the conjunction
  says of a row.
\<close>


definition reads_row :: "interp \<Rightarrow> db_table \<Rightarrow> (column_id \<Rightarrow> val) \<Rightarrow> bool" where
  "reads_row I tb row \<longleftrightarrow>
     (\<forall>ref col. resolve_column tb ref = Ok col \<longrightarrow> i_leaf I (EReference ref) = Some (row (co_id col)))"

definition key_equals :: "(column_id \<Rightarrow> val) \<Rightarrow> db_index \<Rightarrow> nat \<Rightarrow> val \<Rightarrow> bool" where
  "key_equals row ix j v \<longleftrightarrow> sem_op OpEq (row (ic_column (ix_columns ix ! j))) v = Some (VBool True)"

definition key_matches :: "(column_id \<Rightarrow> val) \<Rightarrow> db_index \<Rightarrow> val list \<Rightarrow> bool" where
  "key_matches row ix key \<longleftrightarrow> (\<forall>j < length key. is_null (key ! j) \<or> key_equals row ix j (key ! j))"

lemma key_column_eq_selects:
  assumes "key_column_eq tb ix e = Ok (Some (i, v))" "reads_row I tb row"
  shows "i < length (ix_columns ix)" "\<not> is_null v" "selects I \<rho> e \<longleftrightarrow> key_equals row ix i v"
proof -
  obtain ref col where e: "e = EBinaryOp (EReference ref) OpEq (EValue v)" "\<not> is_null v"
    "resolve_column tb ref = Ok col" "position (\<lambda>c. ic_column c = co_id col) (ix_columns ix) = Some i"
    using assms(1) by (auto simp: key_column_eq_def rmap_eq_Ok eq_commute [of "Some (i, v)"] split: expr.splits if_splits)
  have i: "i < length (ix_columns ix)" "ic_column (ix_columns ix ! i) = co_id col"
    using position_Some [OF e(4)] by simp_all
  have "i_leaf I (EReference ref) = Some (row (co_id col))" using assms(2) e(3) by (simp add: reads_row_def)
  then show "i < length (ix_columns ix)" "\<not> is_null v" "selects I \<rho> e \<longleftrightarrow> key_equals row ix i v"
    using e(2) i by (simp_all add: e(1) selects_def key_equals_def opt2_def)
qed

lemma fill_key_selects:
  assumes "fill_key tb ix es key residual = Ok (key', residual')" "reads_row I tb row" "length key = length (ix_columns ix)"
  shows "length key' = length (ix_columns ix) \<and>
    (key_matches row ix key' \<and> (\<forall>e \<in> set residual'. selects I \<rho> e) \<longleftrightarrow>
     key_matches row ix key \<and> (\<forall>e \<in> set residual \<union> set es. selects I \<rho> e))"
  using assms(1,3)
proof (induction es arbitrary: key residual)
  case (Cons e es)
  obtain m where m: "key_column_eq tb ix e = Ok m"
    using Cons.prems(1) by (auto simp: rbind_eq_Ok)
  show ?case
  proof (cases "\<exists>i v. m = Some (i, v) \<and> is_null (key ! i)")
    case True
    then obtain i v where i: "m = Some (i, v)" "is_null (key ! i)" by blast
    note k = key_column_eq_selects [OF m [unfolded i(1)] assms(2)]
    have "fill_key tb ix es (key[i := v]) residual = Ok (key', residual')"
      using Cons.prems(1) m i by simp
    note IH = Cons.IH [OF this]
    have "key_matches row ix (key[i := v]) \<longleftrightarrow> key_matches row ix key \<and> key_equals row ix i v"
      using k(1,2) i(2) Cons.prems(2) by (auto simp: key_matches_def nth_list_update)
    then show ?thesis using IH Cons.prems(2) k(3) by auto
  next
    case False
    then have "fill_key tb ix es key (residual @ [e]) = Ok (key', residual')"
      using Cons.prems(1) m by (auto split: option.splits if_splits)
    from Cons.IH [OF this Cons.prems(2)] show ?thesis by auto
  qed
qed simp

lemma key_record_selects:
  assumes "extract_key_record tb ix (EAnd es) = Ok (Some (k, rest))" "reads_row I tb row"
  shows "\<exists>key. k = VRecord key \<and> length key = length (ix_columns ix) \<and>
    (selects I \<rho> (EAnd es) \<longleftrightarrow> (\<forall>j < length key. key_equals row ix j (key ! j)) \<and> selects I \<rho> rest)"
proof -
  let ?start = "replicate (length (ix_columns ix)) VNull"
  obtain key residual where k: "fill_key tb ix es ?start [] = Ok (key, residual)"
    "k = VRecord key" "\<not> list_ex is_null key" "rest = and_from_vec residual"
    using assms(1) by (auto simp: extract_key_record_def rmap_eq_Ok split: if_splits)
  have "length ?start = length (ix_columns ix)" by simp
  from fill_key_selects [OF k(1) assms(2) this, of \<rho>]
  have "length key = length (ix_columns ix)" "key_matches row ix key \<and> (\<forall>e \<in> set residual. selects I \<rho> e) \<longleftrightarrow>
     key_matches row ix ?start \<and> (\<forall>e \<in> set es. selects I \<rho> e)" by simp_all
  moreover have "key_matches row ix ?start" by (simp add: key_matches_def)
  moreover have "key_matches row ix key \<longleftrightarrow> (\<forall>j < length key. key_equals row ix j (key ! j))"
    using k(3) by (auto simp: key_matches_def list_ex_iff)
  ultimately show ?thesis using k(2,4) by (auto simp: selects_and and_from_vec_selects)
qed

end
