(* ===== verification/IndexPlanProps.thy ===== *)
theory IndexPlanProps
  imports IndexPlanRules
begin

text \<open>
  The properties of index planning, with a table whose key is made of a partition column and a
  sort column.
\<close>

subsection \<open>An example\<close>

definition xp_column :: "nat \<Rightarrow> string \<Rightarrow> column" where
  "xp_column i name =
     \<lparr>co_id = (0, i), co_name = name, co_ty = TI64, co_storage_ty = DbInteger 8, co_nullable = False,
      co_primary_key = (i < 2), co_auto_increment = False, co_versionable = False\<rparr>"

definition xp_key :: "nat \<Rightarrow> index_scope \<Rightarrow> index_column" where
  "xp_key i scope = \<lparr>ic_column = (0, i), ic_op = IxEq, ic_scope = scope\<rparr>"

definition xp_index :: db_index where
  "xp_index =
     \<lparr>ix_id = (0, 0), ix_name = ''pk'', ix_on = 0, ix_columns = [xp_key 0 ScPartition, xp_key 1 ScLocal],
      ix_unique = True, ix_primary_key = True\<rparr>"

definition xp_table :: db_table where
  "xp_table =
     \<lparr>tb_id = 0, tb_name = ''t'', tb_columns = [xp_column 0 ''a'', xp_column 1 ''b'', xp_column 2 ''x''],
      tb_primary_key = \<lparr>pk_columns = [(0, 0), (0, 1)], pk_index = (0, 0)\<rparr>, tb_indices = [xp_index]\<rparr>"

definition xp_col :: "nat \<Rightarrow> expr" where
  "xp_col i = EReference (RColumn 0 0 i)"

definition xp_eq :: "nat \<Rightarrow> 64 word \<Rightarrow> expr" where
  "xp_eq i n = EBinaryOp (xp_col i) OpEq (EValue (VI64 n))"

definition xp_interp :: interp where
  "xp_interp =
     \<lparr>i_uuid = \<lparr>uuid_to_string = (\<lambda>_. []), uuid_parse = (\<lambda>_. None), uuid_as_bytes = (\<lambda>_. []), uuid_from_bytes = (\<lambda>_. None)\<rparr>,
      i_models = (\<lambda>_. None), i_arg = (\<lambda>_ _. None), i_leaf = (\<lambda>_. Some (VI64 2)), i_op = (\<lambda>_ _. None)\<rparr>"


definition xp_match :: index_match where
  "xp_match = \<lparr>im_index = xp_index, im_columns = [[([0], True)], []]\<rparr>"

definition xp_any :: expr where
  "xp_any = EAny (EMap (EValue (VList [VI64 1, VI64 2])) (EBinaryOp (xp_col 0) OpEq (EArg 0 0)))"

definition xp_both :: expr where
  "xp_both = EAnd [EOr [xp_eq 1 2, xp_eq 1 3], xp_any]"

definition xp_pairs :: expr where
  "xp_pairs = EOr [EAnd [xp_eq 0 1, xp_eq 1 2], EAnd [xp_eq 0 2, xp_eq 1 2]]"

lemma dynamodb_index [simp]:
  "\<not> cb_index_or_predicate dynamodb_capability" "\<not> cb_primary_key_ne_predicate dynamodb_capability"
  "cb_scan dynamodb_capability"
  by (simp_all add: dynamodb_capability_def)

lemmas xp_simps = xp_table_def xp_index_def xp_key_def xp_column_def xp_col_def xp_eq_def



lemmas dnf_simps = flatten_to_dnf_def flatten_queue.simps process_and_def distribute_over_or_def
  distribute_into_any_def remove_at_def assert_no_or_in_any.simps contains_or.simps unify_dnf_branches_def
  extract_shape_def extract_operand_def

lemma xp_decided:
  "decided xp_interp \<rho> (xp_eq i n)" "selects xp_interp \<rho> (xp_eq i n) \<longleftrightarrow> n = 2"
  by (auto simp: decided_def selects_def xp_eq_def xp_col_def xp_interp_def opt2_def sem_op_def truth_def is_bool_def value_eq_def)

lemma xp_free [simp]: "any_free (xp_eq i n)" "dnf_ready (xp_eq i n)" "scope_free (xp_eq i n)"
  by (simp_all add: xp_eq_def xp_col_def any_free.simps dnf_ready.simps scope_free_def)


subsection \<open>Properties\<close>



text \<open>C35. Splitting a filter for an index is exact, with \<open>ANY\<close> included as long as the body of one
  goes to one side: both parts are decided where the filter is, both hold where the filter holds,
  and where both hold the filter holds, unless the whole filter is applied to the results.\<close>

theorem filter_split_exact:
  assumes "partition_filter C m p e flag = Ok ((i, r), on_results)" "unmixed C m p e" "decided I \<rho> e"
  shows "decided I \<rho> i \<and> decided I \<rho> r \<and> (selects I \<rho> e \<longrightarrow> selects I \<rho> i \<and> selects I \<rho> r) \<and>
    (selects I \<rho> i \<and> selects I \<rho> r \<longrightarrow> \<not> on_results \<longrightarrow> selects I \<rho> e)"
proof -
  have "split_ok I on_results e i r"
    using partition_ok [of I C m e] assms(1,2) unfolding partition_ok_def by blast
  from split_ok_at [OF this assms(3)] show ?thesis by blast
qed

lemma xp_split:
  "partition_filter dynamodb_capability xp_match [] xp_any False = Ok ((xp_any, true_expr), False)"
  "unmixed dynamodb_capability xp_match [] xp_any"
  by (simp_all add: xp_any_def xp_match_def partition_filter.simps unmixed.simps partition_leaf_def matched_def
      normalize_comparison_def as_column_ref_def is_true_def xp_col_def ex_bool_eq all_bool_eq)

lemma xp_any_decided: "decided xp_interp [] xp_any" "selects xp_interp [] xp_any"
  by (simp_all add: xp_any_def xp_col_def xp_interp_def decided_def selects_def on_list_def opt2_def sem_op_def
      is_bool_def or3_def truth_def value_eq_def)

theorem filter_split_exact_witness:
  "decided xp_interp [] xp_any \<and> selects xp_interp [] xp_any"
  using filter_split_exact [OF xp_split xp_any_decided(1)] xp_any_decided by simp

text \<open>C36. The work queue that brings a filter to disjunctive normal form ends and keeps its
  meaning: where the filter is decided it holds exactly if one of the branches does. Operands
  that stand beside an \<open>ANY\<close> are moved below its map and therefore must not refer to arguments.
  Without \<open>ANY\<close> the branches are always found.\<close>

theorem dnf_branches_exact:
  assumes "dnf_ready e" "decided I \<rho> e"
  shows "(\<forall>bs. flatten_to_dnf e = Ok bs \<longrightarrow> (selects I \<rho> e \<longleftrightarrow> (\<exists>b \<in> set bs. selects I \<rho> b))) \<and>
    (any_free e \<longrightarrow> (\<exists>bs. flatten_to_dnf e = Ok bs))"
  using flatten_selects [OF _ assms(2,1)] flatten_total by blast

lemma xp_flat: "\<exists>bs. flatten_to_dnf xp_both = Ok bs"
  by (simp add: xp_both_def xp_any_def xp_col_def xp_eq_def dnf_simps)

theorem dnf_branches_exact_witness:
  "\<exists>bs. flatten_to_dnf xp_both = Ok bs \<and> (\<exists>b \<in> set bs. selects xp_interp [] b)"
proof -
  have "dnf_ready xp_both"
    by (simp add: xp_both_def xp_any_def and_ready_iff less_Suc_eq all_conj_distrib)
      (simp add: xp_eq_def xp_col_def scope_free_def)
  moreover have "decided xp_interp [] xp_both" "selects xp_interp [] xp_both"
    using xp_any_decided by (simp_all add: xp_both_def decided_and decided_or selects_and selects_or xp_decided)
  ultimately show ?thesis using dnf_branches_exact [of xp_both xp_interp "[]"] xp_flat by blast
qed

text \<open>C37. The rewrite for databases without disjunctions in key conditions is exact: if a filter
  without \<open>ANY\<close> is rewritten at all, then it holds exactly where one of the key conditions holds
  that the rewritten filter stands for, its shape with one item of literals put in; a membership
  test on a literal list and branches of one shape included.\<close>

theorem or_rewrite_exact:
  assumes "index_filter_to_any_map e = Ok (Some f)" "any_free e" "decided I \<rho> e"
  shows "selects I \<rho> e \<longleftrightarrow> (\<exists>k \<in> set (key_conditions f). selects I \<rho> k)"
  using assms by (rule any_map_selects)

lemma xp_rewritten:
  "index_filter_to_any_map xp_pairs =
     Ok (Some (EAny (EMap (EValue (VList [VRecord [VI64 1, VI64 2], VRecord [VI64 2, VI64 2]]))
       (EAnd [EBinaryOp (xp_col 0) OpEq (EArg 0 0), EBinaryOp (xp_col 1) OpEq (EArg 1 0)]))))"
  by (simp add: xp_pairs_def index_filter_to_any_map_def dnf_simps xp_eq_def xp_col_def)

theorem or_rewrite_exact_witness:
  "\<exists>f. index_filter_to_any_map xp_pairs = Ok (Some f) \<and> (\<exists>k \<in> set (key_conditions f). selects xp_interp [] k)"
proof -
  have d: "decided xp_interp [] xp_pairs"
    by (simp add: xp_pairs_def decided_or decided_and xp_decided)
  then have "selects xp_interp [] xp_pairs"
    unfolding xp_pairs_def by (subst selects_or) (simp_all add: selects_and xp_decided)
  then show ?thesis using or_rewrite_exact [OF xp_rewritten _ d] xp_rewritten by (simp add: xp_pairs_def)
qed

text \<open>C38. A key record and its residual say together what the conjunction they were taken from
  says: for a row with the values \<open>row\<close>, the conjunction holds exactly if every key column equals
  its field of the record and the residual holds. The record has a field for every column of the
  index, in the order of the index.\<close>

theorem key_record_exact:
  assumes "extract_key_record tb ix (EAnd es) = Ok (Some (k, rest))" "reads_row I tb row"
  shows "\<exists>key. k = VRecord key \<and> length key = length (ix_columns ix) \<and>
    (selects I \<rho> (EAnd es) \<longleftrightarrow> (\<forall>j < length key. key_equals row ix j (key ! j)) \<and> selects I \<rho> rest)"
  using assms by (rule key_record_selects)

lemma xp_record:
  "extract_key_record xp_table xp_index (EAnd [xp_eq 1 2, xp_eq 0 2, xp_eq 0 3]) =
     Ok (Some (VRecord [VI64 2, VI64 2], xp_eq 0 3))"
  by (simp add: extract_key_record_def key_column_eq_def resolve_column_def xp_simps and_from_vec_def numeral_2_eq_2)

theorem key_record_exact_witness:
  "key_equals (\<lambda>_. VI64 2) xp_index 0 (VI64 2) \<and> key_equals (\<lambda>_. VI64 2) xp_index 1 (VI64 2) \<and>
   \<not> selects xp_interp [] (xp_eq 0 3)"
proof -
  have row: "reads_row xp_interp xp_table (\<lambda>_. VI64 2)" by (simp add: reads_row_def xp_interp_def)
  have keys: "\<forall>j < 2. key_equals (\<lambda>_. VI64 2) xp_index j ([VI64 2, VI64 2] ! j)"
    by (simp add: key_equals_def sem_op_def is_bool_def value_eq_def less_Suc_eq numeral_2_eq_2)
  have "key_equals (\<lambda>_. VI64 2) xp_index 0 (VI64 2)" "key_equals (\<lambda>_. VI64 2) xp_index 1 (VI64 2)"
    using keys [rule_format, of 0] keys [rule_format, of 1] by simp_all
  with keys show ?thesis using key_record_exact [OF xp_record row, of "[]"] by (simp add: selects_and xp_decided)
qed


end
