(* ===== verification/Connectives.thy ===== *)
theory Connectives
  imports Fold FilterSem
begin

text \<open>
  The simplifier's rules for \<open>AND\<close> and \<open>OR\<close> (\<open>engine/simplify.rs\<close>, \<open>simplify/expr_and.rs\<close> and
  \<open>simplify/expr_or.rs\<close>): deduplication, absorption, complement, a pair of bounds to an equality,
  contradictions, pruning of branches, factoring and equalities to a membership test.  The rules of
  \<open>AND\<close> follow after the merge of membership subqueries, which needs the bodies of statements and
  leaves operands that are no such subqueries alone.
\<close>

subsection \<open>Operands\<close>

definition is_equivalent_to :: "expr \<Rightarrow> expr \<Rightarrow> bool" where
  "is_equivalent_to a b \<longleftrightarrow> expr_eq a b \<and> is_stable a"

fun disjuncts :: "expr \<Rightarrow> expr list option" where
  "disjuncts (EOr es) = Some es"
| "disjuncts _ = None"

fun conjuncts :: "expr \<Rightarrow> expr list option" where
  "conjuncts (EAnd es) = Some es"
| "conjuncts _ = None"

fun negated_operand :: "expr \<Rightarrow> expr option" where
  "negated_operand (ENot e) = Some e"
| "negated_operand _ = None"

fun dedup_from :: "expr list \<Rightarrow> expr list \<Rightarrow> expr list" where
  "dedup_from seen [] = []"
| "dedup_from seen (e # es) =
     (if list_ex (\<lambda>s. is_equivalent_to s e) seen then dedup_from seen es
      else e # dedup_from (seen @ [e]) es)"

definition dedup_operands :: "expr list \<Rightarrow> expr list" where
  "dedup_operands = dedup_from []"

definition has_complement :: "expr list \<Rightarrow> bool" where
  "has_complement es \<longleftrightarrow>
     list_ex (\<lambda>e. negated_operand e = None \<and> is_always_non_nullable e \<and>
       list_ex (\<lambda>other. case negated_operand other of
         Some inner \<Rightarrow> is_equivalent_to inner e | None \<Rightarrow> False) es) es"

text \<open>The operands of \<open>inner e\<close> that stand directly beside \<open>e\<close> absorb it.\<close>

definition absorb :: "(expr \<Rightarrow> expr list option) \<Rightarrow> expr list \<Rightarrow> expr list" where
  "absorb inner es =
     (let direct = filter (\<lambda>e. inner e = None) es in
      filter (\<lambda>e. case inner e of
        Some ops \<Rightarrow> \<not> list_ex (\<lambda>op. list_ex (\<lambda>d. is_equivalent_to d op) direct) ops
      | None \<Rightarrow> True) es)"

subsection \<open>Conjunction\<close>

definition as_bound :: "expr \<Rightarrow> (expr \<times> binop \<times> expr) option" where
  "as_bound e =
     (case e of EBinaryOp l op r \<Rightarrow> (if op = OpGe \<or> op = OpLe then Some (l, op, r) else None) | _ \<Rightarrow> None)"

definition bounds :: "expr \<Rightarrow> expr \<Rightarrow> expr \<Rightarrow> bool" where
  "bounds l r e =
     (case as_bound e of
        Some (l', _, r') \<Rightarrow> is_equivalent_to l' l \<and> is_equivalent_to r' r
      | None \<Rightarrow> False)"

definition opposite :: "expr \<Rightarrow> binop \<Rightarrow> expr \<Rightarrow> expr \<Rightarrow> bool" where
  "opposite l op r e =
     (case as_bound e of
        Some (l', op', r') \<Rightarrow> op' \<noteq> op \<and> is_equivalent_to l l' \<and> is_equivalent_to r r'
      | None \<Rightarrow> False)"

text \<open>The loop over \<open>i\<close>; the operands it has made \<open>true\<close> are dropped at its end.\<close>

function range_from :: "expr list \<Rightarrow> expr list" where
  "range_from [] = []"
| "range_from (e # es) =
     (case as_bound e of
        None \<Rightarrow> e # range_from es
      | Some (l, op, r) \<Rightarrow>
          (if list_ex (opposite l op r) es
           then EBinaryOp l OpEq r # range_from (map (\<lambda>k. if bounds l r k then EValue (VBool True) else k) es)
           else e # range_from es))"
  by pat_completeness auto

termination
  by (relation "measure length") auto

definition range_to_equality :: "expr list \<Rightarrow> expr list" where
  "range_to_equality es = filter (\<lambda>e. \<not> is_true e) (range_from es)"

definition extract_eq_ne :: "expr \<Rightarrow> (expr \<times> binop \<times> val) option" where
  "extract_eq_ne e =
     (case e of
        EBinaryOp l op r \<Rightarrow>
          (if op = OpEq \<or> op = OpNe then map_option (\<lambda>v. (l, op, v)) (as_value r) else None)
      | _ \<Rightarrow> None)"

definition contradicts :: "expr \<Rightarrow> expr \<Rightarrow> bool" where
  "contradicts a b =
     (case (extract_eq_ne a, extract_eq_ne b) of
        (Some (la, opa, va), Some (lb, opb, vb)) \<Rightarrow>
          is_equivalent_to la lb \<and>
          (if opa = OpEq \<and> opb = OpEq then \<not> value_eq va vb
           else if opa \<noteq> opb then value_eq va vb else False)
      | _ \<Rightarrow> False)"

definition is_contradicting_eq_constraints :: "expr list \<Rightarrow> expr list \<Rightarrow> bool" where
  "is_contradicting_eq_constraints outer branch \<longleftrightarrow> list_ex (\<lambda>a. list_ex (contradicts a) branch) outer"

fun has_self_contradiction :: "expr list \<Rightarrow> bool" where
  "has_self_contradiction [] = False"
| "has_self_contradiction (e # es) \<longleftrightarrow> is_contradicting_eq_constraints [e] es \<or> has_self_contradiction es"

definition prune_branches :: "expr list \<Rightarrow> expr list \<Rightarrow> expr" where
  "prune_branches outer branches =
     (case filter (\<lambda>b. \<not> is_contradicting_eq_constraints outer
              (case conjuncts b of Some ops \<Rightarrow> ops | None \<Rightarrow> [b])) branches of
        [] \<Rightarrow> EValue (VBool False)
      | [b] \<Rightarrow> b
      | bs \<Rightarrow> EOr bs)"

definition put_back :: "expr \<Rightarrow> expr list" where
  "put_back e = (case conjuncts e of Some ops \<Rightarrow> ops | None \<Rightarrow> [e])"

text \<open>\<open>prune_or_branches\<close>: \<open>None\<close> when the conjunction has become false.\<close>

definition prune_or_branches :: "expr list \<Rightarrow> expr list option" where
  "prune_or_branches es =
     (let outer = filter (\<lambda>e. disjuncts e = None) es; ors = List.map_filter disjuncts es in
      if ors = [] then Some outer
      else
        let ops = outer @ concat (map (\<lambda>bs. put_back (prune_branches outer bs)) ors) in
        if list_ex is_false ops then None else Some (dedup_operands ops))"

definition collapse :: "(expr list \<Rightarrow> expr) \<Rightarrow> bool \<Rightarrow> expr list \<Rightarrow> folded" where
  "collapse con unit es =
     (case es of [] \<Rightarrow> Replaced (EValue (VBool unit)) | [e] \<Rightarrow> Replaced e | _ \<Rightarrow> InPlace (con es))"

definition simplify_expr_and :: "expr list \<Rightarrow> folded" where
  "simplify_expr_and es =
     (let es1 = absorb disjuncts (dedup_operands es) in
      if has_complement es1 then Replaced (EValue (VBool False))
      else
        let es2 = range_to_equality es1 in
        if has_self_contradiction es2 then Replaced (EValue (VBool False))
        else
          (case prune_or_branches es2 of
             None \<Rightarrow> Replaced (EValue (VBool False))
           | Some es3 \<Rightarrow> collapse EAnd True es3))"

subsection \<open>Disjunction\<close>

definition without :: "expr list \<Rightarrow> expr list \<Rightarrow> expr" where
  "without common ops =
     (case filter (\<lambda>op. \<not> list_ex (\<lambda>c. is_equivalent_to c op) common) ops of
        [] \<Rightarrow> EValue (VBool True) | [e] \<Rightarrow> e | es \<Rightarrow> EAnd es)"

definition try_factor_or :: "expr list \<Rightarrow> expr option" where
  "try_factor_or es =
     (case opt_all conjuncts es of
        Some (first # second # rest) \<Rightarrow>
          (let common = filter (\<lambda>op. list_all (\<lambda>ops. list_ex (\<lambda>e. is_equivalent_to e op) ops) (second # rest)) first in
           if common = [] then None
           else Some (and_from_vec (common @ [EOr (map (without common) (first # second # rest))])))
      | _ \<Rightarrow> None)"

definition as_value_eq :: "expr \<Rightarrow> (expr \<times> val) option" where
  "as_value_eq e =
     (case e of
        EBinaryOp l op r \<Rightarrow> (if op = OpEq then map_option (Pair l) (as_value r) else None)
      | _ \<Rightarrow> None)"

fun group_push :: "expr \<Rightarrow> val \<Rightarrow> (expr \<times> val list) list \<Rightarrow> (expr \<times> val list) list" where
  "group_push l v [] = [(l, [v])]"
| "group_push l v ((g, vs) # gs) =
     (if is_equivalent_to g l then (g, vs @ [v]) # gs else (g, vs) # group_push l v gs)"

fun group_operands :: "expr list \<Rightarrow> (expr \<times> val list) list \<Rightarrow> expr list \<Rightarrow> (expr \<times> val list) list \<times> expr list" where
  "group_operands [] groups others = (groups, others)"
| "group_operands (e # es) groups others =
     (case as_value_eq e of
        Some (l, v) \<Rightarrow> group_operands es (group_push l v groups) others
      | None \<Rightarrow> group_operands es groups (others @ [e]))"

definition group_expr :: "expr \<times> val list \<Rightarrow> expr" where
  "group_expr g =
     (if 2 \<le> length (snd g) then EInList (fst g) (EList (map EValue (snd g)))
      else EBinaryOp (fst g) OpEq (EValue (last (snd g))))"

definition try_or_to_in_list :: "expr list \<Rightarrow> expr option \<times> expr list" where
  "try_or_to_in_list es =
     (case group_operands es [] [] of
        (groups, others) \<Rightarrow>
          (let ops = others @ map group_expr groups in
           if list_ex (\<lambda>g. 2 \<le> length (snd g)) groups \<and> length ops = 1 then (Some (hd ops), [])
           else (None, ops)))"

definition simplify_expr_or :: "expr list \<Rightarrow> folded" where
  "simplify_expr_or es =
     (let es1 = absorb conjuncts (dedup_operands es) in
      case try_factor_or es1 of
        Some e \<Rightarrow> Replaced e
      | None \<Rightarrow>
          (if has_complement es1 then Replaced (EValue (VBool True))
           else
             (case try_or_to_in_list es1 of
                (Some e, _) \<Rightarrow> Replaced e
              | (None, es2) \<Rightarrow> collapse EOr False es2)))"

end
