(* ===== verification/ConnectiveRules.thy ===== *)
theory ConnectiveRules
  imports Connectives
begin

text \<open>
  What the rules of \<open>AND\<close> and \<open>OR\<close> keep.  A truth value is known by whether it is true and whether
  it is false, so a rule is exact when the form it leaves selects and refutes what the operands did.
\<close>

subsection \<open>Selecting and refuting\<close>

definition refutes :: "interp \<Rightarrow> val list list \<Rightarrow> expr \<Rightarrow> bool" where
  "refutes I \<rho> e \<longleftrightarrow> sem I \<rho> e = Some (VBool False)"

definition same_value :: "interp \<Rightarrow> val list list \<Rightarrow> expr \<Rightarrow> expr \<Rightarrow> bool" where
  "same_value I \<rho> e e' \<longleftrightarrow> decided I \<rho> e' \<and> selects I \<rho> e' = selects I \<rho> e \<and> refutes I \<rho> e' = refutes I \<rho> e"

lemma same_value_sem: "decided I \<rho> e \<Longrightarrow> same_value I \<rho> e e' \<Longrightarrow> sem I \<rho> e' = sem I \<rho> e"
  by (auto simp: same_value_def selects_def refutes_def elim!: decidedE)

lemma selects_not_refutes: "selects I \<rho> e \<Longrightarrow> \<not> refutes I \<rho> e"
  by (simp add: selects_def refutes_def)

lemma refutes_literal [simp]: "refutes I \<rho> (EValue (VBool b)) = (\<not> b)"
  by (simp add: refutes_def)

lemma refutes_and:
  assumes "decided I \<rho> (EAnd es)"
  shows "refutes I \<rho> (EAnd es) \<longleftrightarrow> (\<exists>e \<in> set es. refutes I \<rho> e)"
proof -
  have "all_truth (sem I \<rho>) es" using assms by (simp add: decided_and all_truth_decided)
  then have "sem I \<rho> (EAnd es) = Some (and_result (values_of (sem I \<rho>) es))" by (simp only: sem_and simp_thms)
  moreover have "and_result V = VBool False \<longleftrightarrow> VBool False \<in> V" for V by (simp add: and_result_def)
  ultimately show ?thesis by (auto simp: refutes_def values_of_def simp del: sem.simps)
qed

lemma refutes_or:
  assumes "decided I \<rho> (EOr es)"
  shows "refutes I \<rho> (EOr es) \<longleftrightarrow> (\<forall>e \<in> set es. refutes I \<rho> e)"
proof -
  have t: "all_truth (sem I \<rho>) es" using assms by (simp add: decided_or all_truth_decided)
  then have "sem I \<rho> (EOr es) = Some (or_result (values_of (sem I \<rho>) es))" by (simp only: sem_or simp_thms)
  moreover have "or_result (values_of (sem I \<rho>) es) = VBool False \<longleftrightarrow> (\<forall>e \<in> set es. sem I \<rho> e = Some (VBool False))"
    using t by (force simp: or_result_def values_of_def all_truth_def truth_def)
  ultimately show ?thesis by (simp add: refutes_def del: sem.simps)
qed

named_theorems connective

lemmas [connective] = decided_and decided_or selects_and selects_or refutes_and refutes_or

lemma from_vec_same:
  "decided I \<rho> (EAnd es) \<Longrightarrow> same_value I \<rho> (EAnd es) (and_from_vec es)"
  "decided I \<rho> (EOr es) \<Longrightarrow> same_value I \<rho> (EOr es) (or_from_vec es)"
  using sem_and_from_vec [of I \<rho> es] sem_or_from_vec [of I \<rho> es]
  by (auto simp: same_value_def decided_def selects_def refutes_def simp del: sem.simps)

subsection \<open>Deduplication and absorption\<close>

lemma equivalent_eq: "is_equivalent_to a b \<Longrightarrow> a = b"
  by (simp add: is_equivalent_to_def expr_eq_def)

lemma set_dedup_from: "set (dedup_from seen es) \<union> set seen = set es \<union> set seen"
proof (induction es arbitrary: seen)
  case (Cons e es)
  have "e \<in> set seen" if "list_ex (\<lambda>s. is_equivalent_to s e) seen"
    using that by (auto simp: list_ex_iff dest: equivalent_eq)
  with Cons.IH [of seen] Cons.IH [of "seen @ [e]"] show ?case by auto
qed simp

lemma set_dedup_operands [simp]: "set (dedup_operands es) = set es"
  using set_dedup_from [of "[]" es] by (simp add: dedup_operands_def)

lemma absorb_subset: "e \<in> set (absorb inner es) \<Longrightarrow> e \<in> set es"
  by (auto simp: absorb_def)

lemma absorbed:
  assumes "e \<in> set es" "e \<notin> set (absorb inner es)"
  shows "\<exists>ops d. inner e = Some ops \<and> d \<in> set ops \<and> d \<in> set (absorb inner es)"
proof -
  from assms obtain ops op d where "inner e = Some ops" "op \<in> set ops" "d \<in> set es" "inner d = None" "is_equivalent_to d op"
    by (auto simp: absorb_def list_ex_iff split: option.splits)
  moreover from this have "d \<in> set (absorb inner es)" by (simp add: absorb_def)
  ultimately show ?thesis using equivalent_eq by blast
qed

lemma disjuncts_eq [simp]: "disjuncts e = Some es \<longleftrightarrow> e = EOr es"
  by (cases e) auto

lemma conjuncts_eq [simp]: "conjuncts e = Some es \<longleftrightarrow> e = EAnd es"
  by (cases e) auto

lemma absorb_or_same:
  assumes d: "decided I \<rho> (EAnd es)"
  shows "same_value I \<rho> (EAnd es) (EAnd (absorb disjuncts es))"
proof -
  let ?k = "absorb disjuncts es"
  have all: "decided I \<rho> e" if "e \<in> set es" for e using d that by (simp add: decided_and)
  have d': "decided I \<rho> (EAnd ?k)" using d absorb_subset by (auto simp: decided_and)
  have kept: "\<exists>x \<in> set ?k. (selects I \<rho> x \<longrightarrow> selects I \<rho> e) \<and> (refutes I \<rho> e \<longrightarrow> refutes I \<rho> x)" if e: "e \<in> set es" for e
  proof (cases "e \<in> set ?k")
    case False
    then obtain ops x where "e = EOr ops" "x \<in> set ops" "x \<in> set ?k" using absorbed e by fastforce
    then show ?thesis using all [OF e] by (auto simp: connective)
  qed auto
  have "selects I \<rho> (EAnd ?k) = selects I \<rho> (EAnd es)"
    using kept absorb_subset by (fastforce simp: selects_and)
  moreover have "refutes I \<rho> (EAnd ?k) = refutes I \<rho> (EAnd es)"
    using kept absorb_subset by (fastforce simp: refutes_and d d')
  ultimately show ?thesis using d' by (simp add: same_value_def)
qed

lemma absorb_and_same:
  assumes d: "decided I \<rho> (EOr es)"
  shows "same_value I \<rho> (EOr es) (EOr (absorb conjuncts es))"
proof -
  let ?k = "absorb conjuncts es"
  have all: "decided I \<rho> e" if "e \<in> set es" for e using d that by (simp add: decided_or)
  have d': "decided I \<rho> (EOr ?k)" using d absorb_subset by (auto simp: decided_or)
  have kept: "\<exists>x \<in> set ?k. (selects I \<rho> e \<longrightarrow> selects I \<rho> x) \<and> (refutes I \<rho> x \<longrightarrow> refutes I \<rho> e)" if e: "e \<in> set es" for e
  proof (cases "e \<in> set ?k")
    case False
    then obtain ops x where "e = EAnd ops" "x \<in> set ops" "x \<in> set ?k" using absorbed e by fastforce
    then show ?thesis using all [OF e] by (auto simp: connective)
  qed auto
  have "selects I \<rho> (EOr ?k) = selects I \<rho> (EOr es)"
    using kept absorb_subset by (fastforce simp: selects_or d d')
  moreover have "refutes I \<rho> (EOr ?k) = refutes I \<rho> (EOr es)"
    using kept absorb_subset by (fastforce simp: refutes_or d d')
  ultimately show ?thesis using d' by (simp add: same_value_def)
qed

subsection \<open>Bounds\<close>

lemma as_bound_eq: "as_bound e = Some (l, op, r) \<longleftrightarrow> e = EBinaryOp l op r \<and> (op = OpGe \<or> op = OpLe)"
  by (cases e) (auto simp: as_bound_def)

lemma cmp_bool: "partial_cmp x y = Some c \<Longrightarrow> is_bool x = is_bool y"
  by (cases x; cases y) (auto simp: partial_cmp_def is_bool_def)

lemma bound_value:
  assumes "decided I \<rho> (EBinaryOp l op r)" "op = OpGe \<or> op = OpLe"
  obtains "\<And>o'. o' \<in> {OpGe, OpLe, OpEq} \<Longrightarrow> sem I \<rho> (EBinaryOp l o' r) = Some VNull"
    | c where "sem I \<rho> (EBinaryOp l OpGe r) = Some (VBool (c \<noteq> Less))"
      "sem I \<rho> (EBinaryOp l OpLe r) = Some (VBool (c \<noteq> Greater))"
      "sem I \<rho> (EBinaryOp l OpEq r) = Some (VBool (c = Equal))"
proof -
  from assms(1) obtain t x y where v: "sem I \<rho> l = Some x" "sem I \<rho> r = Some y" "sem_op op x y = Some t"
    by (auto simp: decided_def opt2_def bind_eq_Some_conv)
  show ?thesis
  proof (cases "x = VNull \<or> y = VNull")
    case True
    then show ?thesis using that(1) v by (auto simp: opt2_def sem_op_def)
  next
    case False
    with v(3) assms(2) obtain c where c: "partial_cmp x y = Some c" by (auto simp: sem_op_def)
    then have "value_eq x y = (c = Equal)" using partial_cmp_eq_iff by blast
    with c False show ?thesis using that(2) [of c] v cmp_bool [OF c] by (simp add: opt2_def sem_op_def)
  qed
qed

lemma bound_equality:
  assumes "decided I \<rho> (EBinaryOp l op r)" "op = OpGe \<or> op = OpLe" "op' = OpGe \<or> op' = OpLe" "op' \<noteq> op"
  shows "decided I \<rho> (EBinaryOp l OpEq r)"
    "selects I \<rho> (EBinaryOp l OpEq r) \<longleftrightarrow> selects I \<rho> (EBinaryOp l op r) \<and> selects I \<rho> (EBinaryOp l op' r)"
    "refutes I \<rho> (EBinaryOp l OpEq r) \<longleftrightarrow> refutes I \<rho> (EBinaryOp l op r) \<or> refutes I \<rho> (EBinaryOp l op' r)"
proof -
  have "decided I \<rho> (EBinaryOp l OpEq r) \<and>
     (selects I \<rho> (EBinaryOp l OpEq r) \<longleftrightarrow> selects I \<rho> (EBinaryOp l op r) \<and> selects I \<rho> (EBinaryOp l op' r)) \<and>
     (refutes I \<rho> (EBinaryOp l OpEq r) \<longleftrightarrow> refutes I \<rho> (EBinaryOp l op r) \<or> refutes I \<rho> (EBinaryOp l op' r))"
  proof (rule bound_value [OF assms(1,2)], goal_cases)
    case 1
    have "sem I \<rho> (EBinaryOp l o' r) = Some VNull" if "o' \<in> {op, op', OpEq}" for o'
      using 1 [of o'] that assms(2,3) by auto
    then show ?case by (simp add: selects_def refutes_def decided_def truth_def del: sem.simps)
  next
    case (2 c)
    then show ?case
      using assms(2-4)
      by (cases c) (auto simp: selects_def refutes_def decided_def truth_def simp del: sem.simps)
  qed
  then show "decided I \<rho> (EBinaryOp l OpEq r)"
    "selects I \<rho> (EBinaryOp l OpEq r) \<longleftrightarrow> selects I \<rho> (EBinaryOp l op r) \<and> selects I \<rho> (EBinaryOp l op' r)"
    "refutes I \<rho> (EBinaryOp l OpEq r) \<longleftrightarrow> refutes I \<rho> (EBinaryOp l op r) \<or> refutes I \<rho> (EBinaryOp l op' r)"
    by blast+
qed

lemma range_step:
  assumes d: "decided I \<rho> (EAnd (e # es))" and e: "as_bound e = Some (l, op, r)"
    and o: "list_ex (opposite l op r) es"
  shows "same_value I \<rho> (EAnd (e # es))
     (EAnd (EBinaryOp l OpEq r # map (\<lambda>k. if bounds l r k then EValue (VBool True) else k) es))"
    (is "same_value I \<rho> _ (EAnd (?q # map ?f es))")
proof -
  have e': "e = EBinaryOp l op r" "op = OpGe \<or> op = OpLe" using e by (auto simp: as_bound_eq)
  from o obtain op' where o': "EBinaryOp l op' r \<in> set es" "op' = OpGe \<or> op' = OpLe" "op' \<noteq> op"
    by (auto simp: list_ex_iff opposite_def as_bound_eq split: option.splits dest!: equivalent_eq)
  have dl: "decided I \<rho> (EBinaryOp l op r)" and des: "\<forall>k \<in> set es. decided I \<rho> k" using d by (simp_all add: decided_and e')
  note q = bound_equality [OF dl e'(2) o'(2,3)]
  have b: "k \<in> {EBinaryOp l op r, EBinaryOp l op' r}" if "bounds l r k" for k
    using that e'(2) o'(2,3)
    by (auto simp: bounds_def as_bound_eq split: option.splits dest!: equivalent_eq)
  have d': "decided I \<rho> (EAnd (?q # map ?f es))" using q(1) des by (auto simp: decided_and)
  have "selects I \<rho> (EAnd (?q # map ?f es)) = selects I \<rho> (EAnd (e # es))"
    using q(2) b o'(1) by (auto simp: selects_and e')
  moreover have "refutes I \<rho> (EAnd (?q # map ?f es)) = refutes I \<rho> (EAnd (e # es))"
    unfolding refutes_and [OF d] refutes_and [OF d'] using q(3) b o'(1) by (auto simp: e')
  ultimately show ?thesis using d' by (simp add: same_value_def)
qed

lemma same_value_trans: "same_value I \<rho> a b \<Longrightarrow> same_value I \<rho> b c \<Longrightarrow> same_value I \<rho> a c"
  by (simp add: same_value_def)

lemma same_value_and_cons:
  assumes "decided I \<rho> (EAnd (e # es))" "same_value I \<rho> (EAnd es) (EAnd es')"
  shows "same_value I \<rho> (EAnd (e # es)) (EAnd (e # es'))"
proof -
  have d: "decided I \<rho> (EAnd es)" "decided I \<rho> (EAnd (e # es'))"
    using assms by (simp_all add: decided_and same_value_def)
  then have d': "decided I \<rho> (EAnd es')" by (simp add: decided_and)
  show ?thesis
    using assms(2) unfolding same_value_def refutes_and [OF assms(1)] refutes_and [OF d(1)] refutes_and [OF d(2)] refutes_and [OF d']
    using d(2) by (simp add: selects_and)
qed

lemma range_from_same:
  "decided I \<rho> (EAnd es) \<Longrightarrow> same_value I \<rho> (EAnd es) (EAnd (range_from es))"
proof (induction es rule: range_from.induct)
  case (2 e es)
  then have d: "decided I \<rho> (EAnd es)" by (simp add: decided_and)
  have keep: "same_value I \<rho> (EAnd es) (EAnd xs) \<Longrightarrow> same_value I \<rho> (EAnd (e # es)) (EAnd (e # xs))" for xs
    by (rule same_value_and_cons [OF 2(4)])
  show ?case
  proof (cases "as_bound e")
    case None
    then show ?thesis using 2(1) d keep by simp
  next
    case (Some b)
    then obtain l op r where e: "as_bound e = Some (l, op, r)" by (cases b) auto
    show ?thesis
    proof (cases "list_ex (opposite l op r) es")
      case True
      note step = range_step [OF 2(4) e True]
      then have "decided I \<rho> (EAnd (EBinaryOp l OpEq r # map (\<lambda>k. if bounds l r k then EValue (VBool True) else k) es))"
        by (simp add: same_value_def)
      then show ?thesis
        using 2(2) [OF e refl refl True] e True same_value_and_cons same_value_trans [OF step]
        by (simp add: decided_and)
    next
      case False
      then show ?thesis using 2(3) [OF e refl refl False] d keep e by simp
    qed
  qed
qed (simp add: same_value_def)

lemma range_to_equality_same:
  assumes "decided I \<rho> (EAnd es)"
  shows "same_value I \<rho> (EAnd es) (EAnd (range_to_equality es))"
proof -
  let ?k = "range_from es"
  note k = range_from_same [OF assms]
  then have d: "decided I \<rho> (EAnd ?k)" by (simp add: same_value_def)
  then have d': "decided I \<rho> (EAnd (range_to_equality es))" by (simp add: decided_and range_to_equality_def)
  have "same_value I \<rho> (EAnd ?k) (EAnd (range_to_equality es))"
    unfolding same_value_def refutes_and [OF d] refutes_and [OF d']
    using d' by (auto simp: selects_and range_to_equality_def is_true_def)
  with k show ?thesis by (rule same_value_trans)
qed

subsection \<open>Contradictions\<close>

lemma extract_eq_ne_eq:
  "extract_eq_ne e = Some (l, op, v) \<longleftrightarrow> e = EBinaryOp l op (EValue v) \<and> (op = OpEq \<or> op = OpNe)"
  by (cases e) (auto simp: extract_eq_ne_def)

lemma selects_eq_ne:
  "selects I \<rho> (EBinaryOp l OpEq (EValue v)) \<Longrightarrow> \<exists>x. sem I \<rho> l = Some x \<and> value_eq x v"
  "selects I \<rho> (EBinaryOp l OpNe (EValue v)) \<Longrightarrow> \<exists>x. sem I \<rho> l = Some x \<and> \<not> value_eq x v"
  by (auto simp: selects_def opt2_def bind_eq_Some_conv sem_op_def split: if_splits)

lemma contradicts_sound: "contradicts a b \<Longrightarrow> selects I \<rho> a \<Longrightarrow> \<not> selects I \<rho> b"
  by (auto simp: contradicts_def extract_eq_ne_eq split: option.splits if_splits
      dest!: selects_eq_ne equivalent_eq simp: value_eq_def)

lemma contradicting_sound:
  "is_contradicting_eq_constraints outer branch \<Longrightarrow> \<forall>e \<in> set outer. selects I \<rho> e \<Longrightarrow> \<exists>e \<in> set branch. \<not> selects I \<rho> e"
  by (auto simp: is_contradicting_eq_constraints_def list_ex_iff dest: contradicts_sound)

lemma self_contradiction_sound: "has_self_contradiction es \<Longrightarrow> \<not> selects I \<rho> (EAnd es)"
proof (induction es)
  case (Cons e es)
  then show ?case
    using contradicting_sound [of "[e]" es I \<rho>] by (auto simp: selects_and)
qed simp

lemma complement_sound:
  assumes "has_complement es"
  obtains e where "e \<in> set es" "ENot e \<in> set es" "is_always_non_nullable e"
proof -
  have "negated_operand o' = Some e \<longleftrightarrow> o' = ENot e" for o' e by (cases o') auto
  then show ?thesis using assms that
    by (fastforce simp: has_complement_def list_ex_iff split: option.splits dest: equivalent_eq)
qed

lemma not_value:
  assumes "decided I \<rho> e"
  shows "decided I \<rho> (ENot e)" "selects I \<rho> (ENot e) = refutes I \<rho> e" "refutes I \<rho> (ENot e) = selects I \<rho> e"
  using assms by (auto simp: selects_def refutes_def decided_def truth_def not3_def elim!: decidedE)

subsection \<open>Pruned branches\<close>

lemma put_back_all:
  "selects I \<rho> (EAnd (put_back e)) = selects I \<rho> e" "decided I \<rho> (EAnd (put_back e)) = decided I \<rho> e"
  by (auto simp: put_back_def connective split: option.split)

definition kept_branches :: "expr list \<Rightarrow> expr list \<Rightarrow> expr list" where
  "kept_branches outer = filter (\<lambda>b. \<not> is_contradicting_eq_constraints outer
     (case conjuncts b of Some ops \<Rightarrow> ops | None \<Rightarrow> [b]))"

lemma prune_branches_eq: "prune_branches outer bs = or_from_vec (kept_branches outer bs)"
  by (simp add: prune_branches_def kept_branches_def or_from_vec_def split: list.split)

lemma pruned_unselected:
  assumes "\<forall>e \<in> set outer. selects I \<rho> e" "b \<in> set bs" "b \<notin> set (kept_branches outer bs)"
  shows "\<not> selects I \<rho> b"
proof -
  from assms(2,3) have "is_contradicting_eq_constraints outer (put_back b)"
    by (simp add: kept_branches_def put_back_def)
  from contradicting_sound [OF this assms(1)] show ?thesis
    using put_back_all(1) [of I \<rho> b] by (auto simp: selects_and)
qed

lemma pruned_value:
  assumes d: "decided I \<rho> (EOr bs)"
  shows "decided I \<rho> (prune_branches outer bs)"
    and "\<forall>e \<in> set outer. selects I \<rho> e \<Longrightarrow> selects I \<rho> (prune_branches outer bs) = selects I \<rho> (EOr bs)"
    and "refutes I \<rho> (EOr bs) \<Longrightarrow> refutes I \<rho> (prune_branches outer bs)"
proof -
  let ?k = "kept_branches outer bs"
  have sub: "set ?k \<subseteq> set bs" by (auto simp: kept_branches_def)
  then have dk: "decided I \<rho> (EOr ?k)" using d by (auto simp: decided_or)
  note v = from_vec_same(2) [OF dk, folded prune_branches_eq, unfolded same_value_def]
  show "decided I \<rho> (prune_branches outer bs)" using v by blast
  show "refutes I \<rho> (prune_branches outer bs)" if "refutes I \<rho> (EOr bs)"
    using that sub v by (auto simp: refutes_or [OF d] refutes_or [OF dk])
  show "selects I \<rho> (prune_branches outer bs) = selects I \<rho> (EOr bs)" if "\<forall>e \<in> set outer. selects I \<rho> e"
    using v sub pruned_unselected [OF that, of _ bs] by (auto simp: selects_or [OF d] selects_or [OF dk])
qed

definition definite :: "interp \<Rightarrow> val list list \<Rightarrow> expr \<Rightarrow> bool" where
  "definite I \<rho> e \<longleftrightarrow> selects I \<rho> e \<or> refutes I \<rho> e"

lemma definite_iff: "decided I \<rho> e \<Longrightarrow> definite I \<rho> e \<longleftrightarrow> sem I \<rho> e \<noteq> Some VNull"
  by (auto simp: definite_def selects_def refutes_def elim: decidedE)

lemma definite_and:
  assumes d: "decided I \<rho> (EAnd es)" and definite: "\<forall>e \<in> set es. definite I \<rho> e"
  shows "refutes I \<rho> (EAnd es) \<longleftrightarrow> \<not> selects I \<rho> (EAnd es)"
  unfolding refutes_and [OF d] selects_and using definite by (metis definite_def selects_not_refutes)

lemma put_back_refutes:
  assumes "decided I \<rho> e" "refutes I \<rho> e"
  shows "\<exists>x \<in> set (put_back e). refutes I \<rho> x"
  using assms by (cases "conjuncts e") (auto simp: put_back_def refutes_and)

definition pruned_operands :: "expr list \<Rightarrow> expr list" where
  "pruned_operands es =
     (let outer = filter (\<lambda>e. disjuncts e = None) es in
      outer @ concat (map (\<lambda>bs. put_back (prune_branches outer bs)) (List.map_filter disjuncts es)))"

lemma set_disjuncts: "set (List.map_filter disjuncts es) = {bs. EOr bs \<in> set es}"
  by (force simp: List.map_filter_def)

lemma map_filter_Nil: "List.map_filter f xs = [] \<longleftrightarrow> (\<forall>x \<in> set xs. f x = None)"
  by (induction xs) (auto simp: List.map_filter_simps split: option.split)

lemma prune_or_branches_eq:
  "prune_or_branches es =
     (if List.map_filter disjuncts es \<noteq> [] \<and> list_ex is_false (pruned_operands es) then None
      else if List.map_filter disjuncts es = [] then Some (pruned_operands es)
      else Some (dedup_operands (pruned_operands es)))"
  by (simp add: prune_or_branches_def pruned_operands_def Let_def)

lemma pruned_operands_value:
  assumes d: "decided I \<rho> (EAnd es)"
  shows "decided I \<rho> (EAnd (pruned_operands es))" (is "?d")
    and "selects I \<rho> (EAnd (pruned_operands es)) = selects I \<rho> (EAnd es)" (is "?s")
    and "refutes I \<rho> (EAnd es) \<Longrightarrow> refutes I \<rho> (EAnd (pruned_operands es))"
proof -
  define outer where "outer = filter (\<lambda>e. disjuncts e = None) es"
  have set_ops: "set (pruned_operands es) =
      set outer \<union> (\<Union>bs \<in> {bs. EOr bs \<in> set es}. set (put_back (prune_branches outer bs)))"
    by (simp add: pruned_operands_def outer_def [symmetric] set_disjuncts Let_def)
  have mem: "e \<in> set es \<longleftrightarrow> e \<in> set outer \<or> (\<exists>bs. e = EOr bs \<and> EOr bs \<in> set es)" for e
    by (cases "disjuncts e") (auto simp: outer_def)
  have dors: "decided I \<rho> (EOr bs)" if "EOr bs \<in> set es" for bs using d that by (simp add: decided_and)
  have returned: "(\<forall>x \<in> set (put_back (prune_branches outer bs)). selects I \<rho> x) = selects I \<rho> (prune_branches outer bs)" for bs
    using put_back_all(1) [of I \<rho> "prune_branches outer bs"] by (simp add: selects_and)
  show d': "?d"
  proof -
    have "\<forall>x \<in> set (put_back (prune_branches outer bs)). decided I \<rho> x" if "EOr bs \<in> set es" for bs
      using put_back_all(2) [of I \<rho> "prune_branches outer bs"] pruned_value(1) [OF dors [OF that]] by (simp add: decided_and)
    then show ?thesis using d by (auto simp: decided_and set_ops outer_def)
  qed
  have left: "selects I \<rho> (EAnd (pruned_operands es)) \<longleftrightarrow> (\<forall>e \<in> set outer. selects I \<rho> e) \<and>
      (\<forall>bs. EOr bs \<in> set es \<longrightarrow> selects I \<rho> (prune_branches outer bs))"
    unfolding selects_and set_ops by (simp add: ball_Un returned)
  have right: "selects I \<rho> (EAnd es) \<longleftrightarrow> (\<forall>e \<in> set outer. selects I \<rho> e) \<and>
      (\<forall>bs. EOr bs \<in> set es \<longrightarrow> selects I \<rho> (EOr bs))"
    unfolding selects_and using mem by blast
  show "?s"
    unfolding left right using pruned_value(2) [OF dors] by blast
  show "refutes I \<rho> (EAnd (pruned_operands es))" if "refutes I \<rho> (EAnd es)"
  proof -
    from that obtain e where e: "e \<in> set es" "refutes I \<rho> e" unfolding refutes_and [OF d] ..
    show ?thesis
    proof (cases "e \<in> set outer")
      case True
      then show ?thesis unfolding refutes_and [OF d'] set_ops using e by blast
    next
      case False
      then obtain bs where bs: "e = EOr bs" "EOr bs \<in> set es" using e mem by blast
      then have "refutes I \<rho> (prune_branches outer bs)"
        using pruned_value(3) [OF dors] e by blast
      from put_back_refutes [OF pruned_value(1) [OF dors [OF bs(2)]] this] show ?thesis
        unfolding refutes_and [OF d'] set_ops using bs(2) by blast
    qed
  qed
qed

lemma prune_or_branches_value:
  assumes d: "decided I \<rho> (EAnd es)"
  shows "prune_or_branches es = None \<Longrightarrow> \<not> selects I \<rho> (EAnd es)"
    and "prune_or_branches es = Some es' \<Longrightarrow> decided I \<rho> (EAnd es') \<and> selects I \<rho> (EAnd es') = selects I \<rho> (EAnd es)"
    and "prune_or_branches es = Some es' \<Longrightarrow> refutes I \<rho> (EAnd es) \<Longrightarrow> refutes I \<rho> (EAnd es')"
proof -
  note v = pruned_operands_value [OF d]
  have "\<not> selects I \<rho> (EAnd (pruned_operands es))" if "list_ex is_false (pruned_operands es)"
    using that by (auto simp: selects_and list_ex_iff is_false_def intro!: bexI [of _ "EValue (VBool False)"])
  then show "\<not> selects I \<rho> (EAnd es)" if "prune_or_branches es = None"
    using that v(2) by (auto simp: prune_or_branches_eq split: if_splits)
  show "decided I \<rho> (EAnd es') \<and> selects I \<rho> (EAnd es') = selects I \<rho> (EAnd es)" if "prune_or_branches es = Some es'"
    using that v(1,2) by (auto simp: prune_or_branches_eq decided_and selects_and split: if_splits)
  show "refutes I \<rho> (EAnd es')" if e: "prune_or_branches es = Some es'" and r: "refutes I \<rho> (EAnd es)"
  proof -
    have eq: "set es' = set (pruned_operands es)" using e by (auto simp: prune_or_branches_eq split: if_splits)
    then have d': "decided I \<rho> (EAnd es')" using v(1) by (simp add: decided_and)
    show ?thesis using v(3) [OF r] unfolding refutes_and [OF v(1)] refutes_and [OF d'] eq .
  qed
qed

subsection \<open>The rules of a conjunction\<close>

lemma range_from_operands:
  "e \<in> set (range_from es) \<Longrightarrow> e \<in> set es \<or> e = EValue (VBool True) \<or>
     (\<exists>l op r. e = EBinaryOp l OpEq r \<and> EBinaryOp l op r \<in> set es \<and> (op = OpGe \<or> op = OpLe))"
proof (induction es rule: range_from.induct)
  case (2 e' es)
  show ?case
  proof (cases "as_bound e'")
    case None
    then show ?thesis using 2(1) 2(4) by auto
  next
    case (Some b)
    then obtain l op r where e': "as_bound e' = Some (l, op, r)" by (cases b) auto
    show ?thesis
    proof (cases "list_ex (opposite l op r) es")
      case True
      then show ?thesis using 2(2) [OF e' refl refl True] 2(4) e' by (fastforce simp: as_bound_eq split: if_splits)
    next
      case False
      then show ?thesis using 2(3) [OF e' refl refl False] 2(4) e' by auto
    qed
  qed
qed simp

lemma range_to_equality_definite:
  assumes d: "decided I \<rho> (EAnd es)" and all: "\<forall>e \<in> set es. definite I \<rho> e"
  shows "\<forall>e \<in> set (range_to_equality es). definite I \<rho> e"
proof
  fix e assume "e \<in> set (range_to_equality es)"
  then have "e \<in> set (range_from es)" "e \<noteq> EValue (VBool True)" by (auto simp: range_to_equality_def is_true_def)
  then consider "e \<in> set es"
    | l op r where "e = EBinaryOp l OpEq r" "EBinaryOp l op r \<in> set es" "op = OpGe \<or> op = OpLe"
    using range_from_operands by blast
  then show "definite I \<rho> e"
  proof cases
    case 2
    have bd: "decided I \<rho> (EBinaryOp l op r)" and df: "definite I \<rho> (EBinaryOp l op r)"
      using d all 2(2) by (auto simp: decided_and)
    show ?thesis
    proof (rule bound_value [OF bd 2(3)], goal_cases)
      case 1
      then have "sem I \<rho> (EBinaryOp l op r) = Some VNull" using 2(3) by blast
      with df show ?case by (simp add: definite_def selects_def refutes_def del: sem.simps)
    next
      case (2 c)
      then show ?case using \<open>e = EBinaryOp l OpEq r\<close> by (simp add: definite_def selects_def refutes_def del: sem.simps)
    qed
  qed (use all in blast)
qed

definition and_steps :: "expr list \<Rightarrow> expr list" where
  "and_steps es = range_to_equality (absorb disjuncts (dedup_operands es))"

lemma and_steps_value:
  assumes "decided I \<rho> (EAnd es)"
  shows "same_value I \<rho> (EAnd es) (EAnd (absorb disjuncts (dedup_operands es)))"
    and "same_value I \<rho> (EAnd es) (EAnd (and_steps es))"
proof -
  have d: "decided I \<rho> (EAnd (dedup_operands es))" using assms by (simp add: decided_and)
  have "same_value I \<rho> (EAnd es) (EAnd (dedup_operands es))"
    unfolding same_value_def refutes_and [OF assms] refutes_and [OF d] using d by (simp add: selects_and)
  then show absorbed: "same_value I \<rho> (EAnd es) (EAnd (absorb disjuncts (dedup_operands es)))"
    using absorb_or_same [OF d] by (rule same_value_trans)
  then have "decided I \<rho> (EAnd (absorb disjuncts (dedup_operands es)))" by (simp add: same_value_def)
  from same_value_trans [OF absorbed range_to_equality_same [OF this]]
  show "same_value I \<rho> (EAnd es) (EAnd (and_steps es))" by (simp add: and_steps_def)
qed

lemma complement_unselected:
  assumes "decided I \<rho> (EAnd es)" "has_complement es"
  shows "\<not> selects I \<rho> (EAnd es)"
proof -
  from assms(2) obtain e where "e \<in> set es" "ENot e \<in> set es" by (rule complement_sound)
  then show ?thesis
    using assms(1) not_value [of I \<rho> e] selects_not_refutes by (auto simp: selects_and decided_and)
qed

lemma collapse_value:
  "decided I \<rho> (EAnd es) \<Longrightarrow> same_value I \<rho> (EAnd es) (folded_expr (collapse EAnd True es))"
  "decided I \<rho> (EOr es) \<Longrightarrow> same_value I \<rho> (EOr es) (folded_expr (collapse EOr False es))"
proof -
  have "folded_expr (collapse EAnd True es) = and_from_vec es" "folded_expr (collapse EOr False es) = or_from_vec es"
    by (simp_all add: collapse_def and_from_vec_def or_from_vec_def split: list.split)
  then show "decided I \<rho> (EAnd es) \<Longrightarrow> same_value I \<rho> (EAnd es) (folded_expr (collapse EAnd True es))"
    "decided I \<rho> (EOr es) \<Longrightarrow> same_value I \<rho> (EOr es) (folded_expr (collapse EOr False es))"
    using from_vec_same by simp_all
qed

lemma simplify_and_cases:
  obtains "folded_expr (simplify_expr_and es) = EValue (VBool False)"
      "has_complement (absorb disjuncts (dedup_operands es)) \<or> has_self_contradiction (and_steps es) \<or>
       prune_or_branches (and_steps es) = None"
    | es' where "folded_expr (simplify_expr_and es) = folded_expr (collapse EAnd True es')"
      "prune_or_branches (and_steps es) = Some es'"
proof -
  have f: "simplify_expr_and es =
      (if has_complement (absorb disjuncts (dedup_operands es)) \<or> has_self_contradiction (and_steps es)
       then Replaced (EValue (VBool False))
       else case prune_or_branches (and_steps es) of
              None \<Rightarrow> Replaced (EValue (VBool False))
            | Some es' \<Rightarrow> collapse EAnd True es')"
    by (simp add: simplify_expr_and_def and_steps_def Let_def)
  show ?thesis
  proof (cases "has_complement (absorb disjuncts (dedup_operands es)) \<or> has_self_contradiction (and_steps es)")
    case True
    with f have "folded_expr (simplify_expr_and es) = EValue (VBool False)" by simp
    with that(1) True show ?thesis by blast
  next
    case False
    then show ?thesis using that f by (cases "prune_or_branches (and_steps es)") simp_all
  qed
qed

lemma simplify_and_value:
  assumes d: "decided I \<rho> (EAnd es)"
  defines "e' \<equiv> folded_expr (simplify_expr_and es)"
  shows "decided I \<rho> e' \<and> selects I \<rho> e' = selects I \<rho> (EAnd es)"
proof -
  note s = and_steps_value [OF d, unfolded same_value_def]
  from simplify_and_cases [of es] show ?thesis
  proof cases
    case 1
    then have "\<not> selects I \<rho> (EAnd es)"
      using s complement_unselected self_contradiction_sound prune_or_branches_value(1) by blast
    with 1 show ?thesis by (simp add: e'_def)
  next
    case (2 es')
    from prune_or_branches_value(2) [OF _ 2(2), of I \<rho>] s
    have "decided I \<rho> (EAnd es')" "selects I \<rho> (EAnd es') = selects I \<rho> (EAnd es)" by blast+
    with collapse_value(1) [of I \<rho> es'] show ?thesis by (simp add: e'_def 2(1) same_value_def)
  qed
qed

lemma simplify_and_definite:
  assumes d: "decided I \<rho> (EAnd es)" and all: "\<forall>e \<in> set es. definite I \<rho> e"
  shows "same_value I \<rho> (EAnd es) (folded_expr (simplify_expr_and es))"
proof -
  let ?e = "folded_expr (simplify_expr_and es)"
  note v = simplify_and_value [OF d]
  note s = and_steps_value [OF d, unfolded same_value_def]
  have "refutes I \<rho> ?e" if r: "refutes I \<rho> (EAnd es)"
  proof (cases rule: simplify_and_cases [of es])
    case (2 es')
    have "refutes I \<rho> (EAnd es')" using prune_or_branches_value(3) [OF _ 2(2), of I \<rho>] s r by blast
    moreover have "decided I \<rho> (EAnd es')" using prune_or_branches_value(2) [OF _ 2(2), of I \<rho>] s by blast
    ultimately show ?thesis using collapse_value(1) [of I \<rho> es'] by (simp add: 2(1) same_value_def)
  qed simp
  moreover have "refutes I \<rho> (EAnd es)" if "refutes I \<rho> ?e"
    using that v selects_not_refutes definite_and [OF d all] by blast
  ultimately show ?thesis using v by (auto simp: same_value_def)
qed

section \<open>Disjunctions\<close>

text \<open>
  What the rules of \<open>OR\<close> keep: a common factor distributes over the branches, equalities of one
  operand with constants are a membership test, and an operand beside its negation is true only
  where it is not \<open>NULL\<close>.
\<close>


subsection \<open>Factoring\<close>

lemma opt_all_conjuncts: "opt_all conjuncts es = Some ops \<longleftrightarrow> es = map EAnd ops"
  by (auto simp: opt_all_eq_Some list_all2_conv_all_nth intro: nth_equalityI)

definition uncommon :: "expr list \<Rightarrow> expr list \<Rightarrow> expr list" where
  "uncommon common ops = filter (\<lambda>op. \<not> list_ex (\<lambda>c. is_equivalent_to c op) common) ops"

lemma without_eq: "without common ops = and_from_vec (uncommon common ops)"
  by (simp add: without_def uncommon_def and_from_vec_def split: list.split)

lemma set_uncommon:
  assumes "set common \<subseteq> set ops"
  shows "set common \<union> set (uncommon common ops) = set ops"
proof -
  have "e \<in> set common" if "e \<in> set ops" "e \<notin> set (uncommon common ops)" for e
    using that by (auto simp: uncommon_def list_ex_iff dest: equivalent_eq)
  with assms show ?thesis by (auto simp: uncommon_def)
qed

lemma factored_value:
  assumes d: "decided I \<rho> (EOr (map EAnd opss))" and ne: "opss \<noteq> []"
    and sub: "\<forall>ops \<in> set opss. set common \<subseteq> set ops"
  shows "same_value I \<rho> (EOr (map EAnd opss)) (EAnd (common @ [EOr (map (without common) opss)]))"
proof -
  have each: "decided I \<rho> (EAnd ops)" if "ops \<in> set opss" for ops using d that by (simp add: decided_or)
  have split: "set ops = set common \<union> set (uncommon common ops)" if "ops \<in> set opss" for ops
    using set_uncommon [of common ops] sub that by simp
  have drest: "decided I \<rho> (EAnd (uncommon common ops))" if "ops \<in> set opss" for ops
    using each [OF that] by (auto simp: decided_and uncommon_def)
  have w: "decided I \<rho> (without common ops)" "selects I \<rho> (without common ops) \<longleftrightarrow> (\<forall>e \<in> set (uncommon common ops). selects I \<rho> e)"
    "refutes I \<rho> (without common ops) \<longleftrightarrow> (\<exists>e \<in> set (uncommon common ops). refutes I \<rho> e)" if "ops \<in> set opss" for ops
    using from_vec_same(1) [OF drest [OF that]]
    unfolding without_eq same_value_def refutes_and [OF drest [OF that]] selects_and by auto
  have dor: "decided I \<rho> (EOr (map (without common) opss))" using w(1) by (simp add: decided_or)
  obtain first rest where "opss = first # rest" using ne by (cases opss) auto
  then have first: "first \<in> set opss" by simp
  have dc: "\<forall>e \<in> set common. decided I \<rho> e" using each [OF first] sub first by (auto simp: decided_and)
  have d': "decided I \<rho> (EAnd (common @ [EOr (map (without common) opss)]))" using dor dc by (auto simp: decided_and)
  have vs: "selects I \<rho> (EAnd ops) \<longleftrightarrow> (\<forall>e \<in> set common. selects I \<rho> e) \<and> selects I \<rho> (without common ops)" if "ops \<in> set opss" for ops
    unfolding selects_and w(2) [OF that] split [OF that] by (rule ball_Un)
  have vr: "refutes I \<rho> (EAnd ops) \<longleftrightarrow> (\<exists>e \<in> set common. refutes I \<rho> e) \<or> refutes I \<rho> (without common ops)" if "ops \<in> set opss" for ops
    unfolding refutes_and [OF each [OF that]] w(3) [OF that] split [OF that] by (rule bex_Un)
  have "selects I \<rho> (EOr (map EAnd opss)) \<longleftrightarrow>
      (\<forall>e \<in> set common. selects I \<rho> e) \<and> (\<exists>ops \<in> set opss. selects I \<rho> (without common ops))"
    unfolding selects_or [OF d] using vs by (simp del: sem.simps)
  moreover have "refutes I \<rho> (EOr (map EAnd opss)) \<longleftrightarrow>
      (\<exists>e \<in> set common. refutes I \<rho> e) \<or> (\<forall>ops \<in> set opss. refutes I \<rho> (without common ops))"
    unfolding refutes_or [OF d] using vr first by (auto simp del: sem.simps)
  ultimately show ?thesis
    unfolding same_value_def refutes_and [OF d'] using d'
    by (auto simp: selects_and selects_or [OF dor] refutes_or [OF dor])
qed

lemma try_factor_or_value:
  assumes d: "decided I \<rho> (EOr es)" and f: "try_factor_or es = Some e"
  shows "same_value I \<rho> (EOr es) e"
proof -
  from f obtain first second rest common where es: "es = map EAnd (first # second # rest)"
    and common: "common = filter (\<lambda>op. list_all (\<lambda>ops. list_ex (\<lambda>e. is_equivalent_to e op) ops) (second # rest)) first"
    and e: "e = and_from_vec (common @ [EOr (map (without common) (first # second # rest))])"
    by (auto simp: try_factor_or_def Let_def opt_all_conjuncts split: option.splits list.splits if_splits)
  have sub: "\<forall>ops \<in> set (first # second # rest). set common \<subseteq> set ops"
    by (auto simp: common list_all_iff list_ex_iff dest: equivalent_eq)
  have v: "same_value I \<rho> (EOr es) (EAnd (common @ [EOr (map (without common) (first # second # rest))]))"
    unfolding es using d unfolding es by (rule factored_value) (use sub in simp_all)
  then have "decided I \<rho> (EAnd (common @ [EOr (map (without common) (first # second # rest))]))" by (simp add: same_value_def)
  from same_value_trans [OF v from_vec_same(1) [OF this]] show ?thesis by (simp only: e)
qed

subsection \<open>Equalities as membership\<close>

definition equalities :: "expr \<times> val list \<Rightarrow> expr list" where
  "equalities g = map (\<lambda>v. EBinaryOp (fst g) OpEq (EValue v)) (snd g)"

lemma as_value_eq_eq: "as_value_eq e = Some (l, v) \<longleftrightarrow> e = EBinaryOp l OpEq (EValue v)"
  by (cases e) (auto simp: as_value_eq_def)

lemma set_group_push:
  "(\<Union>g \<in> set (group_push l v groups). set (equalities g)) =
   insert (EBinaryOp l OpEq (EValue v)) (\<Union>g \<in> set groups. set (equalities g))"
proof (induction l v groups rule: group_push.induct)
  case (2 l v g vs gs)
  show ?case
  proof (cases "is_equivalent_to g l")
    case True
    then have "g = l" by (rule equivalent_eq)
    with True show ?thesis by (simp add: equalities_def)
  qed (use 2 in \<open>simp add: insert_commute\<close>)
qed (simp add: equalities_def)

lemma group_push_filled:
  "\<forall>g \<in> set groups. snd g \<noteq> [] \<Longrightarrow> \<forall>g \<in> set (group_push l v groups). snd g \<noteq> []"
  by (induction l v groups rule: group_push.induct) auto

lemma group_operands_set:
  "group_operands es groups others = (groups', others') \<Longrightarrow> \<forall>g \<in> set groups. snd g \<noteq> [] \<Longrightarrow>
   set others' \<union> (\<Union>g \<in> set groups'. set (equalities g)) =
     set es \<union> set others \<union> (\<Union>g \<in> set groups. set (equalities g)) \<and>
   (\<forall>g \<in> set groups'. snd g \<noteq> [])"
proof (induction es arbitrary: groups others)
  case (Cons e es)
  show ?case
  proof (cases "as_value_eq e")
    case None
    with Cons.prems(1) have "group_operands es groups (others @ [e]) = (groups', others')" by simp
    from Cons.IH [OF this Cons.prems(2)] show ?thesis by auto
  next
    case (Some lv)
    then obtain l v where lv: "as_value_eq e = Some (l, v)" by (cases lv) auto
    with Cons.prems(1) have "group_operands es (group_push l v groups) others = (groups', others')" by simp
    from Cons.IH [OF this group_push_filled [OF Cons.prems(2)]] lv show ?thesis
      by (simp add: set_group_push as_value_eq_eq)
  qed
qed simp

lemma opt_all_map_value: "opt_all (sem I \<rho>) (map EValue vs) = Some vs"
  by (induction vs) auto

lemma membership_value:
  assumes "vs \<noteq> []" "sem I \<rho> l = Some x"
  shows "sem I \<rho> (EInList l (EList (map EValue vs))) = sem I \<rho> (EOr (equalities (l, vs)))"
proof -
  have v: "sem I \<rho> (EBinaryOp l OpEq (EValue v)) = sem_op OpEq x v" for v by (simp add: assms(2) opt2_def)
  have "opt_all (sem I \<rho>) (equalities (l, vs)) = opt_all (sem_op OpEq x) vs"
    unfolding equalities_def by (induction vs) (simp_all add: v del: sem.simps split: option.split)
  then show ?thesis using assms by (simp add: opt2_def opt_all_map_value on_list_def as_list_def sem_in_def)
qed

lemma group_expr_value:
  assumes "snd g \<noteq> []" and d: "\<forall>e \<in> set (equalities g). decided I \<rho> e"
  shows "same_value I \<rho> (EOr (equalities g)) (group_expr g)"
proof -
  obtain l vs where g: "g = (l, vs)" by (cases g)
  then obtain v ws where vs: "vs = v # ws" using assms(1) by (cases vs) auto
  have dor: "decided I \<rho> (EOr (equalities g))" using d by (simp add: decided_or)
  show ?thesis
  proof (cases "2 \<le> length vs")
    case True
    from d vs g have "decided I \<rho> (EBinaryOp l OpEq (EValue v))" by (simp add: equalities_def)
    then obtain x where "sem I \<rho> l = Some x" by (auto simp: decided_def opt2_def bind_eq_Some_conv)
    then have "sem I \<rho> (group_expr g) = sem I \<rho> (EOr (equalities g))"
      using membership_value [of vs I \<rho> l x] True vs g by (simp add: group_expr_def)
    then show ?thesis using dor by (simp add: same_value_def decided_def selects_def refutes_def del: sem.simps)
  next
    case False
    then have "ws = []" using vs by (cases ws) auto
    then show ?thesis
      using d dor vs g unfolding same_value_def selects_or [OF dor] refutes_or [OF dor]
      by (simp add: group_expr_def equalities_def)
  qed
qed

lemma try_or_to_in_list_value:
  assumes d: "decided I \<rho> (EOr es)" and f: "try_or_to_in_list es = (found, es')"
  shows "same_value I \<rho> (EOr es) (case found of Some e \<Rightarrow> e | None \<Rightarrow> EOr es')"
proof -
  obtain groups others where go: "group_operands es [] [] = (groups, others)" by fastforce
  define ops where "ops = others @ map group_expr groups"
  have sets: "set others \<union> (\<Union>g \<in> set groups. set (equalities g)) = set es" "\<forall>g \<in> set groups. snd g \<noteq> []"
    using group_operands_set [OF go] by simp_all
  have set_ops: "set ops = set others \<union> group_expr ` set groups" by (simp add: ops_def)
  have dall: "\<forall>e \<in> set others. decided I \<rho> e" "\<forall>g \<in> set groups. \<forall>e \<in> set (equalities g). decided I \<rho> e"
    using d sets(1) by (auto simp: decided_or)
  have g: "same_value I \<rho> (EOr (equalities g)) (group_expr g)" if "g \<in> set groups" for g
    using group_expr_value sets(2) dall(2) that by blast
  have dg: "decided I \<rho> (EOr (equalities g))" if "g \<in> set groups" for g using dall(2) that by (simp add: decided_or)
  have gs: "selects I \<rho> (group_expr g) \<longleftrightarrow> (\<exists>e \<in> set (equalities g). selects I \<rho> e)"
    "refutes I \<rho> (group_expr g) \<longleftrightarrow> (\<forall>e \<in> set (equalities g). refutes I \<rho> e)" if "g \<in> set groups" for g
    using g [OF that] unfolding same_value_def selects_or [OF dg [OF that]] refutes_or [OF dg [OF that]] by auto
  have dops: "decided I \<rho> (EOr ops)" using dall(1) g by (auto simp: decided_or ops_def same_value_def)
  have "selects I \<rho> (EOr ops) = selects I \<rho> (EOr es)"
    unfolding selects_or [OF d] selects_or [OF dops] sets(1) [symmetric] set_ops
    by (simp add: bex_Un gs)
  moreover have "refutes I \<rho> (EOr ops) = refutes I \<rho> (EOr es)"
    unfolding refutes_or [OF d] refutes_or [OF dops] sets(1) [symmetric] set_ops
    by (simp add: ball_Un gs)
  ultimately have v: "same_value I \<rho> (EOr es) (EOr ops)" using dops by (simp add: same_value_def)
  have t: "(found, es') = (if list_ex (\<lambda>g. 2 \<le> length (snd g)) groups \<and> length ops = 1 then (Some (hd ops), []) else (None, ops))"
    unfolding f [symmetric] by (simp add: try_or_to_in_list_def go Let_def ops_def)
  show ?thesis
  proof (cases "list_ex (\<lambda>g. 2 \<le> length (snd g)) groups \<and> length ops = 1")
    case True
    then obtain e where e: "ops = [e]" by (cases ops) auto
    with t True have found: "found = Some e" by simp
    have "same_value I \<rho> (EOr ops) e"
      using dops by (simp add: e same_value_def selects_or refutes_or decided_or)
    from same_value_trans [OF v this] show ?thesis by (simp add: found)
  next
    case False
    with t v show ?thesis by auto
  qed
qed

subsection \<open>The rules of a disjunction\<close>

text \<open>Where the complement rule fires, its operand must not be \<open>NULL\<close>.\<close>

definition complements_definite :: "interp \<Rightarrow> val list list \<Rightarrow> expr list \<Rightarrow> bool" where
  "complements_definite I \<rho> es \<longleftrightarrow> (\<forall>e \<in> set es. ENot e \<in> set es \<longrightarrow> definite I \<rho> e)"

lemma complement_selected:
  assumes d: "decided I \<rho> (EOr es)" and "has_complement es" and c: "complements_definite I \<rho> es"
  shows "selects I \<rho> (EOr es)"
proof -
  obtain e where e: "e \<in> set es" "ENot e \<in> set es" using assms(2) by (rule complement_sound)
  then have "selects I \<rho> e \<or> selects I \<rho> (ENot e)"
    using c not_value [of I \<rho> e] d by (auto simp: complements_definite_def definite_def decided_or)
  with e show ?thesis by (auto simp: selects_or [OF d])
qed

lemma simplify_or_value:
  assumes d: "decided I \<rho> (EOr es)" and c: "complements_definite I \<rho> es"
  shows "same_value I \<rho> (EOr es) (folded_expr (simplify_expr_or es))"
proof -
  let ?a = "absorb conjuncts (dedup_operands es)"
  have dd: "decided I \<rho> (EOr (dedup_operands es))" using d by (simp add: decided_or)
  have "same_value I \<rho> (EOr es) (EOr (dedup_operands es))"
    unfolding same_value_def refutes_or [OF d] refutes_or [OF dd] selects_or [OF d] selects_or [OF dd] using dd by simp
  then have v: "same_value I \<rho> (EOr es) (EOr ?a)" using absorb_and_same [OF dd] by (rule same_value_trans)
  then have da: "decided I \<rho> (EOr ?a)" by (simp add: same_value_def)
  have ca: "complements_definite I \<rho> ?a"
    using c absorb_subset [of _ conjuncts "dedup_operands es"] by (auto simp: complements_definite_def)
  have "same_value I \<rho> (EOr ?a) (folded_expr (simplify_expr_or es))"
  proof (cases "try_factor_or ?a")
    case (Some e)
    then show ?thesis using try_factor_or_value [OF da Some] by (simp add: simplify_expr_or_def Let_def)
  next
    case None
    show ?thesis
    proof (cases "has_complement ?a")
      case True
      have "selects I \<rho> (EOr ?a)" by (rule complement_selected [OF da True ca])
      with True None show ?thesis by (simp add: simplify_expr_or_def Let_def same_value_def selects_not_refutes)
    next
      case False
      obtain found es' where f: "try_or_to_in_list ?a = (found, es')" by fastforce
      from try_or_to_in_list_value [OF da f]
      have t: "same_value I \<rho> (EOr ?a) (case found of Some e \<Rightarrow> e | None \<Rightarrow> EOr es')" .
      show ?thesis
      proof (cases found)
        case (Some e)
        with t f None False show ?thesis by (simp add: simplify_expr_or_def Let_def)
      next
        case fn: None
        with t have t': "same_value I \<rho> (EOr ?a) (EOr es')" by simp
        then have "decided I \<rho> (EOr es')" by (simp add: same_value_def)
        from same_value_trans [OF t' collapse_value(2) [OF this]] fn f None False show ?thesis
          by (simp add: simplify_expr_or_def Let_def)
      qed
    qed
  qed
  with v show ?thesis by (rule same_value_trans)
qed

end
