(* ===== verification/SimplifyProps.thy ===== *)
theory SimplifyProps
  imports ConnectiveRules
begin

text \<open>
  The properties of the simplifier's rules for \<open>AND\<close> and \<open>OR\<close>, and the conditions they need,
  shown at a column that is \<open>NULL\<close>.
\<close>

subsection \<open>An example\<close>

definition sx_column :: expr where
  "sx_column = EReference (RColumn 0 0 0)"

definition sx_interp :: "val \<Rightarrow> interp" where
  "sx_interp v =
     \<lparr>i_uuid = \<lparr>uuid_to_string = (\<lambda>_. []), uuid_parse = (\<lambda>_. None), uuid_as_bytes = (\<lambda>_. []), uuid_from_bytes = (\<lambda>_. None)\<rparr>,
      i_models = (\<lambda>_. None), i_arg = (\<lambda>_ _. None), i_leaf = (\<lambda>_. Some v), i_op = (\<lambda>_ _. None)\<rparr>"

definition sx_eq :: "64 word \<Rightarrow> expr" where
  "sx_eq n = EBinaryOp sx_column OpEq (EValue (VI64 n))"

definition sx_in :: expr where
  "sx_in = EInList sx_column (EValue (VList [VI64 1, VI64 2]))"

lemmas sx_simps = sx_column_def sx_interp_def sx_eq_def sx_in_def opt2_def sem_op_def is_bool_def value_eq_def

lemma sx_eq_value: "sem (sx_interp (VI64 m)) \<rho> (sx_eq n) = Some (VBool (m = n))"
  by (simp add: sx_simps)

lemma sx_decided: "decided (sx_interp (VI64 m)) \<rho> (sx_eq n)"
  by (simp add: decided_def sx_eq_value truth_def)



lemma sx_equivalent: "is_equivalent_to (sx_eq m) (sx_eq n) \<longleftrightarrow> m = n" "is_equivalent_to sx_column sx_column" "is_equivalent_to sx_in sx_in"
  by (auto simp: is_equivalent_to_def expr_eq_def sx_eq_def sx_column_def sx_in_def node_has_nan_def)



subsection \<open>Properties\<close>

text \<open>C7. The rules of a conjunction leave a filter that selects the same rows, wherever the operands
  have truth values: no rule of absorption, complement, bounds, contradiction or pruning adds a row or
  loses one. Where no operand is \<open>NULL\<close> the conjunction keeps its value, so that it may also be
  negated or returned.\<close>

theorem simplify_and_exact:
  assumes "decided I \<rho> (EAnd es)"
  shows "selects I \<rho> (folded_expr (simplify_expr_and es)) = selects I \<rho> (EAnd es) \<and>
    ((\<forall>e \<in> set es. sem I \<rho> e \<noteq> Some VNull) \<longrightarrow> sem I \<rho> (folded_expr (simplify_expr_and es)) = sem I \<rho> (EAnd es))"
proof (intro conjI impI)
  show "selects I \<rho> (folded_expr (simplify_expr_and es)) = selects I \<rho> (EAnd es)"
    using simplify_and_value [OF assms] by blast
  assume "\<forall>e \<in> set es. sem I \<rho> e \<noteq> Some VNull"
  then have "\<forall>e \<in> set es. definite I \<rho> e" using assms by (simp add: decided_and definite_iff)
  from same_value_sem [OF assms simplify_and_definite [OF assms this]]
  show "sem I \<rho> (folded_expr (simplify_expr_and es)) = sem I \<rho> (EAnd es)" .
qed

theorem simplify_and_exact_witness:
  "sem (sx_interp (VI64 1)) [] (folded_expr (simplify_expr_and [sx_eq 1, EOr [sx_eq 2, sx_eq 1]])) = Some (VBool True)"
proof -
  let ?es = "[sx_eq 1, EOr [sx_eq 2, sx_eq 1]]"
  have v: "sem (sx_interp (VI64 1)) [] (EOr [sx_eq 2, sx_eq 1]) = Some (VBool True)"
    by (simp add: sx_eq_value or3_def truth_def)
  then have d: "decided (sx_interp (VI64 1)) [] (EAnd ?es)"
    by (simp add: decided_and decided_or sx_decided)
  have "sem (sx_interp (VI64 1)) [] (folded_expr (simplify_expr_and ?es)) = sem (sx_interp (VI64 1)) [] (EAnd ?es)"
    using simplify_and_exact [OF d] v by (simp add: sx_eq_value del: sem.simps)
  also have "\<dots> = Some (VBool True)"
    using v by (simp add: sx_eq_value and3_def truth_def)
  finally show ?thesis .
qed

text \<open>C8. The rules of a disjunction keep its value, \<open>NULL\<close> included: absorption, the factoring of common
  conjuncts and the conversion of equalities to membership tests never change it, and the complement
  rule does not where its operand is not \<open>NULL\<close>.\<close>

theorem simplify_or_exact:
  assumes "decided I \<rho> (EOr es)"
    and "\<forall>e \<in> set es. ENot e \<in> set es \<longrightarrow> sem I \<rho> e \<noteq> Some VNull"
  shows "sem I \<rho> (folded_expr (simplify_expr_or es)) = sem I \<rho> (EOr es)"
proof -
  have "complements_definite I \<rho> es"
    using assms by (simp add: complements_definite_def decided_or definite_iff)
  from same_value_sem [OF assms(1) simplify_or_value [OF assms(1) this]] show ?thesis .
qed

theorem simplify_or_exact_witness:
  "sem (sx_interp (VI64 2)) [] (folded_expr (simplify_expr_or [sx_eq 1, sx_eq 2])) = Some (VBool True) \<and>
   folded_expr (simplify_expr_or [sx_eq 1, sx_eq 2]) = EInList sx_column (EList [EValue (VI64 1), EValue (VI64 2)])"
proof -
  have d: "decided (sx_interp (VI64 2)) [] (EOr [sx_eq 1, sx_eq 2])"
    by (simp add: decided_or sx_decided)
  have n: "\<forall>e \<in> set [sx_eq 1, sx_eq 2]. ENot e \<in> set [sx_eq 1, sx_eq 2] \<longrightarrow> sem (sx_interp (VI64 2)) [] e \<noteq> Some VNull"
    by (simp add: sx_eq_value)
  have "sem (sx_interp (VI64 2)) [] (EOr [sx_eq 1, sx_eq 2]) = Some (VBool True)"
    by (simp add: sx_eq_value or3_def truth_def)
  moreover have "folded_expr (simplify_expr_or [sx_eq 1, sx_eq 2]) = EInList sx_column (EList [EValue (VI64 1), EValue (VI64 2)])"
    by (simp add: simplify_expr_or_def dedup_operands_def sx_equivalent absorb_def Let_def try_factor_or_def
        has_complement_def try_or_to_in_list_def as_value_eq_def group_expr_def sx_eq_def
        sx_equivalent [unfolded sx_eq_def])
  ultimately show ?thesis using simplify_or_exact [OF d n] by simp
qed


end
