(* ===== verification/Spec2Isabelle.thy ===== *)
theory Spec2Isabelle
  imports Prelude Floats Values ValueOps Casts Ast Exprs Visit Sem Fold FoldRules FoldSem FoldShape FoldWeight FoldSound
    Eval EvalRules Substitute EvalSem ValueProps FoldProps EvalProps
    Comparator SortedIndex HashIndex ValueStream VarStore NestedMerge Mir LogicalPlan PlanSteps Exec ExecPlan
    PlanOrder PlanGuards PlanValid PlanShape StepRules OpRules RunInv NodeRules RunSafe RunPlan
    PlanArena TxRules ExecProps MergePlan IndexProps
    DbSchema SchemaDiff Migration Catalog DiffRules MigrateColumns MigrateTable MigrateIndices MigrateAlter MigrateTables
    MigrateInPlace MigrateRecreate MigrateSchema MigrateRun MigrationText
    DbTypes Capability MigrateSame MigrateExamples MigrateProps
    IndexMatch OrRewrite IndexPlan FilterSem OrRules IndexRules IndexPlanRules IndexPlanProps
    Connectives ConnectiveRules SimplifyProps
begin

text \<open>
  Toasty is an ORM for Rust. A query is lowered to a statement over tables, canonicalized, planned
  as a graph of operations, and the graph is turned into a program of steps that an executor runs
  against a database driver; schemas are compared to generate migrations. This library models the
  parts of the engine whose correctness does not depend on a database: the value and expression
  layer, the canonicalization pass, the client-side evaluator, the in-memory indexes, index
  planning, the operation graph with its planner and executor, the capabilities of the drivers,
  and schema differences with their migrations. Paths are relative to \<open>src/crates\<close>.
\<close>

subsection \<open>Conventions\<close>

text \<open>
  Every definition is a total HOL function. A fallible operation of the code returns \<open>'a result\<close>,
  that is \<open>error + 'a\<close> (\<open>Prelude\<close>): a \<open>panic!\<close>, an \<open>unwrap\<close> or an index out of range is the value
  \<open>Err (Panic ...)\<close>, a \<open>todo!\<close> is \<open>todo\<close>, an \<open>Error\<close> of the crate is another constructor. A step of
  the executor has a third outcome, a panic of the store of node outputs, so that its absence can be
  stated (\<open>VarStore\<close>). Machine integers are words of their width. A loop is structural recursion, a
  recursion with a measure, or recursion with fuel where the code has no measure of its own; every
  statement about a fuelled definition comes with the amount that is enough:

    \<^item> the canonicalization pass needs no more fuel than the weight of its input (\<open>FoldWeight\<close>);
    \<^item> the evaluator uses one unit for every answer of its input that is not a literal; for inputs
      that answer with values, the only ones the engine uses at run time, one unit is enough
      (\<open>EvalRules\<close>), and \<open>func_eval\<close> passes exactly that;
    \<^item> the depth-first visit of the operation graph needs one more than the number of nodes
      (\<open>PlanOrder\<close>);
    \<^item> the work queue of the disjunctive normal form has a measure, a product over conjunctions and
      a sum over disjunctions (\<open>OrRewrite\<close>).

  Identifications: a float is \<open>NaN\<close>, an infinity or a rational, so the two zeros and the payloads
  of \<open>NaN\<close> are not told apart; a character is a code point below 256; a name of one segment is a
  string; an asynchronous stream is the list of items it still delivers; an \<open>IndexSet\<close> is a list
  without duplicates; the address of a subexpression is its position in the filter; the order in
  which a hash set is iterated is a parameter of which only \<open>any_order\<close> is assumed.

  Code outside the repository is a parameter: the \<open>uuid\<close> crate (\<open>uuid_ops\<close>), the driver and the
  passes on whole statements (the record \<open>engine\<close> of \<open>Exec\<close>), the type inference of functions
  (\<open>MergePlan\<close>), the meaning the database gives to references, statements and operators the client
  never computes (\<open>interp\<close> of \<open>Sem\<close>).
\<close>

subsection \<open>Values and expressions\<close>

text \<open>
  \<open>Floats\<close>, \<open>Values\<close>, \<open>ValueOps\<close>, \<open>Casts\<close>: the values, types and casts of \<open>toasty-core/src/stmt/value.rs\<close>,
  \<open>ty.rs\<close>, \<open>ty_union.rs\<close>, \<open>num.rs\<close>, \<open>value_set.rs\<close>, \<open>sparse_record.rs\<close> in the default feature set.
  \<open>ValueProps\<close>: the order on values, exact arithmetic, soundness of type inference, unions and the
  set behind deduplication, casts that keep nullness and round trips of integers and documents.

  \<open>Ast\<close>, \<open>Exprs\<close>, \<open>Visit\<close>: all variants of \<open>Expr\<close> with their predicates, constructors and the mutable
  traversal (\<open>expr.rs\<close>, \<open>expr_*.rs\<close>, \<open>op_binary.rs\<close>, \<open>entry.rs\<close>, \<open>projection.rs\<close>, \<open>visit_mut.rs\<close>). A
  statement inside an expression has the shell of its query; the bodies of SELECT, INSERT, UPDATE
  and DELETE are tokens.

  \<open>Sem\<close> is the specification of scalar expressions, SQL's three-valued logic as a partial function.
  \<open>Fold\<close> is the pass of \<open>toasty/src/engine/fold.rs\<close> and \<open>fold/\<close>; \<open>FoldRules\<close>, \<open>FoldSem\<close>, \<open>FoldShape\<close>,
  \<open>FoldWeight\<close> and \<open>FoldSound\<close> show rule by rule, and through the locales \<open>compositional\<close>,
  \<open>fold_relation\<close> and \<open>fold_measure\<close> for the whole traversal, that it keeps the value and the scopes of
  an expression and ends. \<open>Eval\<close> and \<open>Substitute\<close> are \<open>eval.rs\<close>, \<open>input.rs\<close> and \<open>substitute.rs\<close>; the
  locale \<open>resolved_input\<close> is the contract of an input, interpreted on the three inputs of the code;
  \<open>EvalSem\<close> compares the evaluator, which has no third truth value, with SQL on filters.
  \<open>FoldProps\<close> and \<open>EvalProps\<close> hold the properties.
\<close>

subsection \<open>Plans and their execution\<close>

text \<open>
  \<open>Comparator\<close>, \<open>SortedIndex\<close>, \<open>HashIndex\<close>: the indexes over loaded rows (\<open>sorted_index.rs\<close>,
  \<open>hash_index.rs\<close>), with the locale \<open>comparator_laws\<close> for the contract of sorting and binary search,
  interpreted on the code's total orders. \<open>ValueStream\<close> and \<open>VarStore\<close>: streams, responses and the
  store of node outputs (\<open>value_stream.rs\<close>, \<open>driver/response.rs\<close>, \<open>exec/var.rs\<close>). \<open>NestedMerge\<close> and
  \<open>MergePlan\<close>: the merge of parents with their children and the planner's choice of a lookup for it;
  \<open>IndexProps\<close> shows that a lookup yields what the scan would.

  \<open>Mir\<close>, \<open>LogicalPlan\<close>, \<open>PlanSteps\<close>: the operation graph (\<open>engine/mir/*.rs\<close>), its execution order, use
  counts and guards, and the program of steps (\<open>plan/execution.rs\<close>). \<open>PlanOrder\<close>, \<open>PlanGuards\<close>,
  \<open>PlanValid\<close>, \<open>PlanShape\<close> and \<open>PlanArena\<close> show that planning a complete acyclic graph succeeds, that
  the order is topological, the counts exact and the guards sound. \<open>Exec\<close> and \<open>ExecPlan\<close> are the
  executor (\<open>exec.rs\<close>, \<open>exec/*.rs\<close>), one definition per operation, with transactions. \<open>StepRules\<close> gives
  triples over the locale \<open>counted_store\<close>, interpreted on the store; \<open>OpRules\<close>, \<open>NodeRules\<close>, \<open>RunInv\<close>,
  \<open>RunSafe\<close> and \<open>RunPlan\<close> carry its invariant through a run, \<open>TxRules\<close> the bracketing of the driver
  operations by the transaction. \<open>ExecProps\<close> holds the properties: a valid plan runs without a panic
  of the store and leaves it empty.
\<close>

subsection \<open>Simplification\<close>

text \<open>
  \<open>Connectives\<close> holds the simplifier's rules for \<open>AND\<close> and \<open>OR\<close> (\<open>engine/simplify.rs\<close>,
  \<open>simplify/expr_and.rs\<close>, \<open>expr_or.rs\<close>), which run on a node after the canonicalization pass.
  \<open>ConnectiveRules\<close> shows, rule by rule, that a rule selects and refutes what its
  operands do. \<open>SimplifyProps\<close> puts them together: a conjunction selects the same rows and keeps its
  value where no operand is \<open>NULL\<close>; a disjunction keeps its value unless the complement rule meets a
  \<open>NULL\<close>; and there the rules do change results. \<open>each_expr\<close> in \<open>Visit\<close> is \<open>for_each_expr\<close> of the read-only
  visitor (\<open>toasty-core/src/stmt/visit.rs\<close>).
\<close>

subsection \<open>Index planning\<close>

text \<open>
  \<open>IndexMatch\<close>, \<open>OrRewrite\<close> and \<open>IndexPlan\<close> are \<open>engine/index/index_match.rs\<close>, \<open>or_rewrite.rs\<close> and
  \<open>index.rs\<close>: matching a filter with an index, the cost of a match, the split of the filter, the
  rewrite of disjunctions for databases that have none, literal keys and the plan. \<open>FilterSem\<close> reads
  a filter as a predicate on rows; \<open>OrRules\<close>, \<open>IndexRules\<close> and \<open>IndexPlanRules\<close> show that
  each step keeps it, and \<open>IndexPlanProps\<close> states that a plan selects what its filter selects, and
  which filters the planner gets wrong. Two expressions of equal shape are compared by HOL equality,
  which differs from the derived comparison only on floats that are \<open>NaN\<close>.
\<close>

subsection \<open>Schemas and migrations\<close>

text \<open>
  \<open>DbTypes\<close>, \<open>Capability\<close> and \<open>DbSchema\<close>: storage types, the capabilities of all drivers
  (\<open>toasty-core/src/driver/capability.rs\<close>) and the database schema (\<open>schema/db/*.rs\<close>) with \<open>wf_schema\<close>,
  what the schema builder establishes. \<open>SchemaDiff\<close> is \<open>schema/diff/*.rs\<close>, one loop for tables, columns
  and indices; \<open>Migration\<close> generates the DDL statements (\<open>toasty-sql/src/migration.rs\<close>), and
  \<open>MigrationText\<close> is the text they are stored in (\<open>schema/db/migration.rs\<close>).

  \<open>Catalog\<close> is the specification: what PostgreSQL, MySQL and SQLite do with each statement, refused
  statements included, with a token for the data of every column. \<open>DiffRules\<close>, \<open>MigrateColumns\<close>,
  \<open>MigrateTable\<close>, \<open>MigrateIndices\<close>, \<open>MigrateAlter\<close>, \<open>MigrateTables\<close>, \<open>MigrateInPlace\<close>, \<open>MigrateRecreate\<close>,
  \<open>MigrateSchema\<close> and \<open>MigrateRun\<close> build the refinement up from a column to the whole schema: run on
  the catalog of the previous schema, the statements end in the catalog of the next one and carry the
  data along. \<open>migratable\<close> says for which pairs of schemas: it leaves out named enum types, whose
  statements are modelled but not followed by the refinement, replaced key columns, and on SQLite
  tables that are recreated while an index of theirs stays. \<open>MigrateSame\<close>, \<open>MigrateExamples\<close> and
  \<open>MigrateProps\<close> hold the comparison of a schema with itself, examples and the properties, among them
  that the cases left out do fail.
\<close>

subsection \<open>Not modelled\<close>

text \<open>
  Lowering, the planning of statements and the passes on whole statements (\<open>engine/lower.rs\<close>,
  \<open>plan/statement.rs\<close>, \<open>simplify.rs\<close>, \<open>bind.rs\<close>, \<open>legalize.rs\<close>, \<open>verify.rs\<close>): they work on the bodies of
  SELECT, INSERT, UPDATE and DELETE and on the application schema with its mapping, which are tokens
  or absent here; the graph they produce is an arbitrary graph of the arena, and those the executor
  calls are parameters. The schema builder and the application schema: what they establish is the
  assumption \<open>wf_schema\<close>. The rules of the simplifier on other nodes
  resolve references through the schema. The SQL serializer
  produces text whose only contract is the grammar of a database. Macros generate Rust code; drivers,
  the connection pool and the command line are I/O through third-party clients and asynchronous
  tasks. Optional features (decimals, dates and times, network addresses) are off, debug assertions
  too.
\<close>

end
